(* ===== verification/Prelude.thy ===== *)
theory Prelude
  imports Complex_Main "HOL-Library.Char_ord" "HOL-Library.List_Lexorder" "HOL-Library.Sublist"
begin

text \<open>
  Shared vocabulary of the development: Python exceptions as values, the error monad on
  sums that every fallible definition uses, the decimal and padded renderings behind the
  identifiers (\<open>F_0001\<close>, \<open>B_0012\<close>, \<open>D_00001_TASK\<close>), and a few string
  operations of Python's \<open>str\<close>. The collections \<open>res_simps\<close> and \<open>py_defs\<close>
  carry the proofs of the component theories.
\<close>

named_theorems res_simps \<open>inversion of the error monad\<close>
named_theorems py_defs \<open>unfolding of the Python operations\<close>

section \<open>Exceptions and results\<close>

text \<open>
  The exceptions the modelled code raises or lets escape. \<open>ClaimError\<close>,
  \<open>Undefined\<close>, \<open>ValueError\<close> and \<open>UnsupportedGenerator\<close> are raised by the
  repository (the string is the message, or its fixed part); the others are what the
  Python runtime raises for an operation on a value of the wrong shape.
  \<open>Unmodelled\<close> marks a runtime operation this development gives no value to
  (arithmetic on floats inside a claim, which no validated claim contains).
\<close>

datatype exc =
    ClaimError string
  | Undefined
  | ValueError string
  | UnsupportedGenerator string
  | TypeError
  | KeyError
  | AttributeError
  | IndexError
  | StopIteration
  | Unmodelled

type_synonym 'a res = "exc + 'a"

definition rbind :: "'a res \<Rightarrow> ('a \<Rightarrow> 'b res) \<Rightarrow> 'b res" where
  "rbind r f = (case r of Inl e \<Rightarrow> Inl e | Inr x \<Rightarrow> f x)"

declare rbind_def [code_unfold]

definition guard :: "bool \<Rightarrow> exc \<Rightarrow> unit res" where
  "guard b e = (if b then Inr () else Inl e)"

lemma rbind_Inr [simp]: "rbind (Inr x) f = f x"
  by (simp add: rbind_def)

lemma rbind_Inl [simp]: "rbind (Inl e) f = Inl e"
  by (simp add: rbind_def)

lemma rbind_eq_Inr [res_simps]: "rbind r f = Inr y \<longleftrightarrow> (\<exists>x. r = Inr x \<and> f x = Inr y)"
  by (cases r) simp_all

lemma rbind_eq_Inl [res_simps]:
  "rbind r f = Inl e \<longleftrightarrow> r = Inl e \<or> (\<exists>x. r = Inr x \<and> f x = Inl e)"
  by (cases r) simp_all

lemma guard_eq_Inr [simp]: "guard b e = Inr u \<longleftrightarrow> b"
  by (simp add: guard_def)

lemma guard_True [simp]: "guard True e = Inr ()"
  by (simp add: guard_def)

lemma guard_False [simp]: "guard False e = Inl e"
  by (simp add: guard_def)

lemma rbind_cong [fundef_cong]:
  "r = r' \<Longrightarrow> (\<And>x. r' = Inr x \<Longrightarrow> f x = f' x) \<Longrightarrow> rbind r f = rbind r' f'"
  by (cases r') simp_all

text \<open>Loops over lists that stop at the first exception, as a Python \<open>for\<close> does.\<close>

primrec mapM :: "('a \<Rightarrow> 'b res) \<Rightarrow> 'a list \<Rightarrow> 'b list res" where
  "mapM f [] = Inr []"
| "mapM f (x # xs) = rbind (f x) (\<lambda>y. rbind (mapM f xs) (\<lambda>ys. Inr (y # ys)))"

primrec foldM :: "('s \<Rightarrow> 'a \<Rightarrow> 's res) \<Rightarrow> 's \<Rightarrow> 'a list \<Rightarrow> 's res" where
  "foldM f s [] = Inr s"
| "foldM f s (x # xs) = rbind (f s x) (\<lambda>s'. foldM f s' xs)"

text \<open>\<open>all(...)\<close> and \<open>any(...)\<close> over a generator: short circuit, left to right.\<close>

primrec allM :: "('a \<Rightarrow> bool res) \<Rightarrow> 'a list \<Rightarrow> bool res" where
  "allM p [] = Inr True"
| "allM p (x # xs) = rbind (p x) (\<lambda>b. if b then allM p xs else Inr False)"

primrec anyM :: "('a \<Rightarrow> bool res) \<Rightarrow> 'a list \<Rightarrow> bool res" where
  "anyM p [] = Inr False"
| "anyM p (x # xs) = rbind (p x) (\<lambda>b. if b then Inr True else anyM p xs)"

lemma mapM_cong [fundef_cong]:
  "xs = ys \<Longrightarrow> (\<And>x. x \<in> set ys \<Longrightarrow> f x = g x) \<Longrightarrow> mapM f xs = mapM g ys"
proof (induction xs arbitrary: ys)
  case (Cons x xs)
  then show ?case by (cases ys) auto
qed simp

lemma foldM_cong [fundef_cong]:
  "s = t \<Longrightarrow> xs = ys \<Longrightarrow> (\<And>s x. x \<in> set ys \<Longrightarrow> f s x = g s x) \<Longrightarrow> foldM f s xs = foldM g t ys"
proof (induction xs arbitrary: ys s t)
  case (Cons x xs)
  then show ?case by (cases ys) (auto intro!: rbind_cong)
qed simp

lemma allM_cong [fundef_cong]:
  "xs = ys \<Longrightarrow> (\<And>x. x \<in> set ys \<Longrightarrow> p x = q x) \<Longrightarrow> allM p xs = allM q ys"
proof (induction xs arbitrary: ys)
  case (Cons x xs)
  then show ?case by (cases ys) (auto intro!: rbind_cong)
qed simp

lemma anyM_cong [fundef_cong]:
  "xs = ys \<Longrightarrow> (\<And>x. x \<in> set ys \<Longrightarrow> p x = q x) \<Longrightarrow> anyM p xs = anyM q ys"
proof (induction xs arbitrary: ys)
  case (Cons x xs)
  then show ?case by (cases ys) (auto intro!: rbind_cong)
qed simp

lemma mapM_Inr: "(\<And>x. x \<in> set xs \<Longrightarrow> f x = Inr (g x)) \<Longrightarrow> mapM f xs = Inr (map g xs)"
  by (induction xs) simp_all

lemma mapM_eq_Inr: "mapM f xs = Inr ys \<longleftrightarrow> list_all2 (\<lambda>x y. f x = Inr y) xs ys"
proof (induction xs arbitrary: ys)
  case (Cons x xs)
  then show ?case by (cases ys) (auto simp: res_simps)
qed auto

lemma allM_Inr: "(\<And>x. x \<in> set xs \<Longrightarrow> p x = Inr (q x)) \<Longrightarrow> allM p xs = Inr (list_all q xs)"
  by (induction xs) simp_all

lemma anyM_Inr: "(\<And>x. x \<in> set xs \<Longrightarrow> p x = Inr (q x)) \<Longrightarrow> anyM p xs = Inr (list_ex q xs)"
  by (induction xs) simp_all

lemma foldM_append: "foldM f s (xs @ ys) = rbind (foldM f s xs) (\<lambda>s'. foldM f s' ys)"
proof (induction xs arbitrary: s)
  case (Cons x xs)
  then show ?case by (cases "f s x") simp_all
qed simp

lemma foldM_invariant:
  assumes "foldM f s xs = Inr t" and "P s"
    and "\<And>s x s'. P s \<Longrightarrow> x \<in> set xs \<Longrightarrow> f s x = Inr s' \<Longrightarrow> P s'"
  shows "P t"
  using assms
proof (induction xs arbitrary: s)
  case (Cons x xs)
  from Cons.prems(1) obtain s' where s': "f s x = Inr s'" "foldM f s' xs = Inr t"
    by (auto simp: res_simps)
  have "P s'" by (rule Cons.prems(3) [OF Cons.prems(2) _ s'(1)]) simp
  then show ?case
    by (rule Cons.IH [OF s'(2)]) (rule Cons.prems(3), auto)
qed simp

section \<open>Decimal numerals and identifiers\<close>

definition digit :: "nat \<Rightarrow> char" where
  "digit d = char_of (48 + d)"

fun dec :: "nat \<Rightarrow> string" where
  "dec n = (if n < 10 then [digit n] else dec (n div 10) @ [digit (n mod 10)])"

declare dec.simps [simp del]

definition dec_int :: "int \<Rightarrow> string" where
  "dec_int i = (if i < 0 then ''-'' @ dec (nat (- i)) else dec (nat i))"

text \<open>Python's \<open>'%0wd' % n\<close> for a natural number.\<close>

definition pad :: "nat \<Rightarrow> nat \<Rightarrow> string" where
  "pad w n = replicate (w - length (dec n)) (CHR ''0'') @ dec n"

definition undec :: "string \<Rightarrow> nat" where
  "undec s = foldl (\<lambda>acc c. 10 * acc + (of_char c - 48)) 0 s"

lemma of_char_digit: "d < 10 \<Longrightarrow> (of_char (digit d) :: nat) = 48 + d"
  by (simp add: digit_def)

lemma undec_append_single: "undec (s @ [c]) = 10 * undec s + (of_char c - 48)"
  by (simp add: undec_def)

lemma undec_dec [simp]: "undec (dec n) = n"
proof (induction n rule: dec.induct)
  case (1 n)
  show ?case
  proof (cases "n < 10")
    case True
    then show ?thesis by (subst dec.simps) (simp add: undec_def of_char_digit)
  next
    case False
    with "1.IH" show ?thesis
      by (subst dec.simps) (simp add: undec_append_single of_char_digit)
  qed
qed

lemma undec_zeros: "undec (replicate k (CHR ''0'') @ s) = undec s"
  by (induction k) (simp_all add: undec_def)

lemma pad_inject [simp]: "pad w m = pad w n \<longleftrightarrow> m = n"
proof
  assume "pad w m = pad w n"
  then have "undec (pad w m) = undec (pad w n)" by simp
  then show "m = n" by (simp add: pad_def undec_zeros)
qed simp

lemma dec_inject [simp]: "dec m = dec n \<longleftrightarrow> m = n"
  by (metis undec_dec)

lemma dec_nonempty [simp]: "dec n \<noteq> []"
  by (subst dec.simps) simp

text \<open>
  An identifier supply: a prefix and a counter. Distinct counters give distinct
  identifiers, and a run of the counter gives a list without repetition.
\<close>

locale id_supply =
  fixes mk :: "nat \<Rightarrow> string"
  assumes mk_inject: "mk m = mk n \<longleftrightarrow> m = n"
begin

lemma distinct_run: "distinct (map mk [a..<b])"
  by (simp add: distinct_map inj_on_def mk_inject)

lemma distinct_image: "distinct ns \<Longrightarrow> distinct (map mk ns)"
  by (simp add: distinct_map inj_on_def mk_inject)

lemma fresh: "n \<notin> set ns \<Longrightarrow> mk n \<notin> set (map mk ns)"
  by (auto simp: mk_inject)

end

section \<open>Python strings\<close>

definition startswith :: "string \<Rightarrow> string \<Rightarrow> bool" where
  "startswith s p = prefix p s"

definition endswith :: "string \<Rightarrow> string \<Rightarrow> bool" where
  "endswith s p = suffix p s"

text \<open>\<open>p in s\<close> for strings.\<close>

definition substr :: "string \<Rightarrow> string \<Rightarrow> bool" where
  "substr p s = sublist p s"

text \<open>\<open>s.lstrip(c)\<close> for one character.\<close>

definition lstrip_char :: "char \<Rightarrow> string \<Rightarrow> string" where
  "lstrip_char c s = dropWhile (\<lambda>x. x = c) s"

text \<open>\<open>s.split(c)\<close> for one character: never empty.\<close>

fun split_char :: "char \<Rightarrow> string \<Rightarrow> string list" where
  "split_char c [] = [[]]"
| "split_char c (x # xs) =
     (if x = c then [] # split_char c xs
      else (case split_char c xs of [] \<Rightarrow> [[x]] | w # ws \<Rightarrow> (x # w) # ws))"

lemma split_char_nonempty [simp]: "split_char c s \<noteq> []"
  by (induction s) (auto split: list.splits)

text \<open>\<open>s.rsplit(c, 1)[-1]\<close>: what follows the last occurrence of \<open>c\<close>.\<close>

definition after_last :: "char \<Rightarrow> string \<Rightarrow> string" where
  "after_last c s = rev (takeWhile (\<lambda>x. x \<noteq> c) (rev s))"

definition lower_char :: "char \<Rightarrow> char" where
  "lower_char c =
     (let n = (of_char c :: nat)
      in if (65 \<le> n \<and> n \<le> 90) \<or> (192 \<le> n \<and> n \<le> 222 \<and> n \<noteq> 215) then char_of (n + 32) else c)"

definition lower :: "string \<Rightarrow> string" where
  "lower s = map lower_char s"

fun join :: "string \<Rightarrow> string list \<Rightarrow> string" where
  "join sep [] = []"
| "join sep [s] = s"
| "join sep (s # t # ss) = s @ sep @ join sep (t # ss)"

section \<open>Worklist search\<close>

text \<open>
  A depth-first search over a stack with a list of visited nodes. The successor function
  may raise; the nodes it is defined on form a finite set. Whoever implements the search
  gives its three equations; the search then returns exactly the reachable nodes.
\<close>

locale worklist =
  fixes succs :: "'a \<Rightarrow> 'a list res"
    and run :: "'a list \<Rightarrow> 'a list \<Rightarrow> 'a list res"
    and nodes :: "'a set"
  assumes finite_nodes: "finite nodes"
    and succs_nodes: "succs x = Inr ys \<Longrightarrow> x \<in> nodes"
    and run_done: "run seen [] = Inr seen"
    and run_skip: "x \<in> set seen \<Longrightarrow> run seen (x # st) = run seen st"
    and run_step: "x \<notin> set seen \<Longrightarrow>
      run seen (x # st) = rbind (succs x) (\<lambda>ys. run (x # seen) (rev ys @ st))"
begin

definition edge :: "'a \<Rightarrow> 'a \<Rightarrow> bool" where
  "edge x y \<longleftrightarrow> (\<exists>ys. succs x = Inr ys \<and> y \<in> set ys)"

lemma run_induct [case_names Nil Skip Fail Step]:
  assumes nil: "\<And>seen. P seen []"
    and skip: "\<And>seen x st. x \<in> set seen \<Longrightarrow> P seen st \<Longrightarrow> P seen (x # st)"
    and fail: "\<And>seen x st e. x \<notin> set seen \<Longrightarrow> succs x = Inl e \<Longrightarrow> P seen (x # st)"
    and step: "\<And>seen x st ys. x \<notin> set seen \<Longrightarrow> succs x = Inr ys \<Longrightarrow>
      P (x # seen) (rev ys @ st) \<Longrightarrow> P seen (x # st)"
  shows "P seen st"
proof (induction "(seen, st)" arbitrary: seen st
    rule: wf_induct_rule [OF wf_measures
      [of "[\<lambda>(seen, st). card (nodes - set seen), \<lambda>(seen, st). length st]"]])
  case 1
  note IH = this
  show ?case
  proof (cases st)
    case Nil
    then show ?thesis using nil by simp
  next
    case (Cons x st')
    show ?thesis
    proof (cases "x \<in> set seen")
      case True
      have "P seen st'" by (rule IH) (simp add: Cons)
      with True show ?thesis unfolding Cons by (rule skip)
    next
      case False
      show ?thesis
      proof (cases "succs x")
        case (Inl e)
        with False show ?thesis unfolding Cons by (rule fail)
      next
        case (Inr ys)
        then have "card (nodes - insert x (set seen)) < card (nodes - set seen)"
          using False succs_nodes finite_nodes by (intro psubset_card_mono) auto
        then have "P (x # seen) (rev ys @ st')" by (intro IH) (simp add: Cons)
        with False Inr show ?thesis unfolding Cons by (rule step)
      qed
    qed
  qed
qed

lemma run_sound:
  "run seen st = Inr out \<Longrightarrow>
   set out \<subseteq> set seen \<union> {y. \<exists>x \<in> set st. edge\<^sup>*\<^sup>* x y}"
proof (induction seen st rule: run_induct)
  case (Step seen x st ys)
  then have IH: "set out \<subseteq> set (x # seen) \<union> {y. \<exists>z \<in> set (rev ys @ st). edge\<^sup>*\<^sup>* z y}"
    by (simp add: run_step)
  have "edge x z" if "z \<in> set ys" for z using that Step(2) by (auto simp: edge_def)
  with IH show ?case by (fastforce intro: converse_rtranclp_into_rtranclp)
qed (auto simp: run_done run_skip run_step)

lemma run_closed:
  "run seen st = Inr out \<Longrightarrow>
   set seen \<union> set st \<subseteq> set out \<and> (\<forall>x \<in> set out - set seen. \<forall>y. edge x y \<longrightarrow> y \<in> set out)"
proof (induction seen st rule: run_induct)
  case (Step seen x st ys)
  then have IH: "set (x # seen) \<union> set (rev ys @ st) \<subseteq> set out"
    "\<forall>z \<in> set out - set (x # seen). \<forall>y. edge z y \<longrightarrow> y \<in> set out"
    by (simp_all add: run_step)
  have new: "y \<in> set out" if "edge x y" for y
    using that IH(1) Step(2) by (auto simp: edge_def)
  have "y \<in> set out" if "z \<in> set out - set seen" "edge z y" for z y
  proof (cases "z = x")
    case True
    with that(2) show ?thesis by (blast intro: new)
  next
    case False
    with that(1) have "z \<in> set out - set (x # seen)" by simp
    with IH(2) that(2) show ?thesis by blast
  qed
  moreover have "set seen \<union> set (x # st) \<subseteq> set out" using IH(1) by simp
  ultimately show ?case by blast
qed (auto simp: run_done run_skip run_step)

lemma run_distinct: "run seen st = Inr out \<Longrightarrow> distinct seen \<Longrightarrow> distinct out"
  by (induction seen st rule: run_induct) (auto simp: run_done run_skip run_step)

theorem run_reachable:
  assumes "run [] [x] = Inr out"
  shows "set out = {y. edge\<^sup>*\<^sup>* x y}"
proof
  show "set out \<subseteq> {y. edge\<^sup>*\<^sup>* x y}" using run_sound [OF assms] by simp
  have "y \<in> set out" if "edge\<^sup>*\<^sup>* x y" for y
    using that run_closed [OF assms] by (induction rule: rtranclp_induct) auto
  then show "{y. edge\<^sup>*\<^sup>* x y} \<subseteq> set out" by blast
qed

lemma run_total:
  assumes "\<And>x. x \<in> nodes \<Longrightarrow> \<exists>ys. succs x = Inr ys \<and> set ys \<subseteq> nodes"
  shows "set st \<subseteq> nodes \<Longrightarrow> \<exists>out. run seen st = Inr out"
proof (induction seen st rule: run_induct)
  case (Fail seen x st e)
  then show ?case using assms [of x] by simp
next
  case (Step seen x st ys)
  then show ?case using assms [of x] by (simp add: run_step)
qed (simp_all add: run_done run_skip)

end

section \<open>Lists\<close>

text \<open>The first element that satisfies a predicate: Python's \<open>next((x for ...), None)\<close>.\<close>

lemma find_SomeD: "find P xs = Some x \<Longrightarrow> P x \<and> x \<in> set xs"
  by (auto simp: find_Some_iff)

lemma sum_list_member_le: "x \<in> set xs \<Longrightarrow> f x \<le> (sum_list (map f xs) :: nat)"
  by (induction xs) auto

lemma distinct_remdups_adj_sort [simp]: "distinct (sort (remdups xs))"
  by simp

text \<open>\<open>sorted(set)\<close> of a list of hashable, ordered values.\<close>

definition sorted_set :: "('a::linorder) list \<Rightarrow> 'a list" where
  "sorted_set xs = sort (remdups xs)"

lemma set_sorted_set [simp]: "set (sorted_set xs) = set xs"
  by (simp add: sorted_set_def)

lemma sorted_sorted_set [simp]: "sorted (sorted_set xs)"
  by (simp add: sorted_set_def)

lemma distinct_sorted_set [simp]: "distinct (sorted_set xs)"
  by (simp add: sorted_set_def)

end
