(* ===== verification/PyJson.thy ===== *)
theory PyJson
  imports Prelude "HOL-Library.AList"
begin

text \<open>
  The JSON-shaped Python values every part of the program exchanges: Core AST nodes,
  claims, formulas, reports. A dictionary is an association list in insertion order, as
  Python keeps it; \<open>AList.update\<close> is the assignment \<open>d[k] = v\<close>. A float carries
  its exact value and its \<open>repr\<close>. The theory gives equality (\<open>True == 1\<close>,
  dictionaries up to order), truthiness, iteration, hashability, \<open>repr\<close>/\<open>str\<close> and
  \<open>json.dumps(..., sort_keys=True)\<close>.
\<close>

datatype json =
    JNull
  | JBool bool
  | JInt int
  | JFlt rat string
  | JStr string
  | JList "json list"
  | JObj "(string \<times> json) list"

type_synonym dict = "(string \<times> json) list"

section \<open>Size, for recursion over the trees\<close>

lemma size_dict_value [termination_simp]:
  "(k, v) \<in> set kvs \<Longrightarrow> size v < Suc (size_list (size_prod (\<lambda>_. 0) size) kvs)"
  by (induction kvs) auto

lemma size_dict_snd [termination_simp]:
  "kv \<in> set kvs \<Longrightarrow> size (snd kv) < Suc (size_list (size_prod (\<lambda>_. 0) size) kvs)"
  by (cases kv) (auto intro: size_dict_value)

lemma size_list_elem [termination_simp]:
  "x \<in> set (xs :: json list) \<Longrightarrow> size x < Suc (size_list size xs)"
  by (induction xs) auto

lemma size_zip_fst [termination_simp]:
  "(x, y) \<in> set (zip (xs :: json list) ys) \<Longrightarrow> size x < Suc (size_list size xs)"
  by (auto dest: set_zip_leftD intro: size_list_elem)

lemma size_dict [simp]:
  "size_list (size_prod (\<lambda>_. 0) size) (d :: (string \<times> json) list)
     = size_list (\<lambda>x. Suc (size (snd x))) d"
  by (induction d) auto

lemma size_dict_item [termination_simp]:
  "(k, v) \<in> set d \<Longrightarrow> size v < Suc (size_list (\<lambda>x. Suc (size (snd x))) d)"
  by (induction d) auto

section \<open>Dictionary access\<close>

text \<open>\<open>v.get(k)\<close> seen as an option: \<open>None\<close> for an absent key or a value that is no dictionary.\<close>

fun jfield :: "string \<Rightarrow> json \<Rightarrow> json option" where
  "jfield k (JObj kvs) = map_of kvs k"
| "jfield k _ = None"

text \<open>\<open>d.get(k, dv)\<close> on a dictionary.\<close>

definition dget :: "dict \<Rightarrow> string \<Rightarrow> json \<Rightarrow> json" where
  "dget d k dv = (case map_of d k of None \<Rightarrow> dv | Some v \<Rightarrow> v)"

text \<open>\<open>d[k]\<close>.\<close>

definition ditem :: "dict \<Rightarrow> string \<Rightarrow> json res" where
  "ditem d k = (case map_of d k of None \<Rightarrow> Inl KeyError | Some v \<Rightarrow> Inr v)"

definition dhas :: "dict \<Rightarrow> string \<Rightarrow> bool" where
  "dhas d k = (map_of d k \<noteq> None)"

text \<open>\<open>d.setdefault(k, v)\<close>, for its effect.\<close>

definition dsetdefault :: "string \<Rightarrow> json \<Rightarrow> dict \<Rightarrow> dict" where
  "dsetdefault k v d = (if dhas d k then d else d @ [(k, v)])"

abbreviation dset :: "string \<Rightarrow> json \<Rightarrow> dict \<Rightarrow> dict" where
  "dset k v d \<equiv> AList.update k v d"

text \<open>\<open>value.get(k)\<close> where the code has not checked that \<open>value\<close> is a dictionary.\<close>

fun jget :: "json \<Rightarrow> string \<Rightarrow> json res" where
  "jget (JObj d) k = Inr (dget d k JNull)"
| "jget _ k = Inl AttributeError"

fun is_obj :: "json \<Rightarrow> bool" where
  "is_obj (JObj _) = True"
| "is_obj _ = False"

fun is_list :: "json \<Rightarrow> bool" where
  "is_list (JList _) = True"
| "is_list _ = False"

fun is_str :: "json \<Rightarrow> bool" where
  "is_str (JStr _) = True"
| "is_str _ = False"

lemma is_str_iff: "is_str v \<longleftrightarrow> (\<exists>s. v = JStr s)"
  by (cases v) auto

lemma is_list_iff: "is_list v \<longleftrightarrow> (\<exists>xs. v = JList xs)"
  by (cases v) auto

lemma is_obj_iff: "is_obj v \<longleftrightarrow> (\<exists>d. v = JObj d)"
  by (cases v) auto

text \<open>Lists and dictionaries are not hashable: \<open>v in some_set\<close> raises \<open>TypeError\<close>.\<close>

fun hashable :: "json \<Rightarrow> bool" where
  "hashable (JList _) = False"
| "hashable (JObj _) = False"
| "hashable _ = True"

text \<open>Membership of a value in a set or dictionary of string keys.\<close>

definition in_strs :: "json \<Rightarrow> string list \<Rightarrow> bool res" where
  "in_strs v keys =
     (if \<not> hashable v then Inl TypeError
      else Inr (case v of JStr s \<Rightarrow> s \<in> set keys | _ \<Rightarrow> False))"

lemma in_strs_Inr: "in_strs v keys = Inr b \<longleftrightarrow>
    hashable v \<and> b = (case v of JStr s \<Rightarrow> s \<in> set keys | _ \<Rightarrow> False)"
  by (auto simp: in_strs_def)

lemma in_strs_JStr [simp]: "in_strs (JStr s) keys = Inr (s \<in> set keys)"
  by (simp add: in_strs_def)

lemma in_strs_True: "in_strs v keys = Inr True \<longleftrightarrow> (\<exists>s. v = JStr s \<and> s \<in> set keys)"
  by (cases v) (auto simp: in_strs_def)

text \<open>Iteration (\<open>for x in v\<close>): lists by element, dictionaries by key, strings by character.\<close>

fun py_iter :: "json \<Rightarrow> json list res" where
  "py_iter (JList xs) = Inr xs"
| "py_iter (JObj d) = Inr (map (\<lambda>kv. JStr (fst kv)) d)"
| "py_iter (JStr s) = Inr (map (\<lambda>c. JStr [c]) s)"
| "py_iter _ = Inl TypeError"

text \<open>\<open>len(v)\<close>.\<close>

fun py_len :: "json \<Rightarrow> int res" where
  "py_len (JList xs) = Inr (int (length xs))"
| "py_len (JObj d) = Inr (int (length d))"
| "py_len (JStr s) = Inr (int (length s))"
| "py_len _ = Inl TypeError"

text \<open>\<open>bool(v)\<close>.\<close>

fun truthy :: "json \<Rightarrow> bool" where
  "truthy JNull = False"
| "truthy (JBool b) = b"
| "truthy (JInt i) = (i \<noteq> 0)"
| "truthy (JFlt q _) = (q \<noteq> 0)"
| "truthy (JStr s) = (s \<noteq> [])"
| "truthy (JList xs) = (xs \<noteq> [])"
| "truthy (JObj d) = (d \<noteq> [])"

text \<open>\<open>v or w\<close>.\<close>

definition py_or :: "json \<Rightarrow> json \<Rightarrow> json" where
  "py_or v w = (if truthy v then v else w)"

section \<open>Equality\<close>

text \<open>Booleans are integers and integers compare with floats by value.\<close>

fun num_of :: "json \<Rightarrow> rat option" where
  "num_of (JBool b) = Some (if b then 1 else 0)"
| "num_of (JInt i) = Some (of_int i)"
| "num_of (JFlt q _) = Some q"
| "num_of _ = None"

text \<open>\<open>a == b\<close>. Dictionaries compare without regard to order.\<close>

fun py_eq :: "json \<Rightarrow> json \<Rightarrow> bool" where
  "py_eq JNull b = (b = JNull)"
| "py_eq (JStr s) b = (b = JStr s)"
| "py_eq (JList xs) b =
     (case b of JList ys \<Rightarrow> length xs = length ys \<and> list_all (\<lambda>(x, y). py_eq x y) (zip xs ys)
      | _ \<Rightarrow> False)"
| "py_eq (JObj d) b =
     (case b of
        JObj e \<Rightarrow> length d = length e \<and>
          list_all (\<lambda>kv. case map_of e (fst kv) of None \<Rightarrow> False | Some w \<Rightarrow> py_eq (snd kv) w) d
      | _ \<Rightarrow> False)"
| "py_eq a b = (num_of a = num_of b)"

text \<open>\<open>a in xs\<close> for a list: identity or equality; the two agree on the values modelled.\<close>

definition py_mem :: "json \<Rightarrow> json list \<Rightarrow> bool" where
  "py_mem a xs = list_ex (\<lambda>x. py_eq a x) xs"

text \<open>Duplicate keys do not occur in a Python dictionary.\<close>

fun jwf :: "json \<Rightarrow> bool" where
  "jwf (JList xs) = list_all jwf xs"
| "jwf (JObj d) = (distinct (map fst d) \<and> list_all (\<lambda>kv. jwf (snd kv)) d)"
| "jwf _ = True"


section \<open>Renderings\<close>

definition hex_digit :: "nat \<Rightarrow> char" where
  "hex_digit d = (if d < 10 then char_of (48 + d) else char_of (87 + d))"

definition hex2 :: "nat \<Rightarrow> string" where
  "hex2 n = [hex_digit (n div 16 mod 16), hex_digit (n mod 16)]"

text \<open>
  The character escapes of \<open>json.dumps\<close>. With \<open>ensure_ascii\<close> everything outside the
  printable ASCII range becomes a \<open>\\u00xx\<close> escape (a HOL \<open>char\<close> is a code point
  below 256); without it only quotes, backslashes and control characters do.
\<close>

definition is_control :: "char \<Rightarrow> bool" where
  "is_control c = ((of_char c :: nat) < 32)"

definition beyond_ascii :: "char \<Rightarrow> bool" where
  "beyond_ascii c = (126 < (of_char c :: nat))"

definition json_char :: "bool \<Rightarrow> char \<Rightarrow> string" where
  "json_char ascii c =
     (if c = CHR 0x22 \<or> c = CHR 0x5C then [CHR 0x5C, c]
      else if c = CHR 0x0A then [CHR 0x5C, CHR ''n'']
      else if c = CHR 0x0D then [CHR 0x5C, CHR ''r'']
      else if c = CHR 0x09 then [CHR 0x5C, CHR ''t'']
      else if c = CHR 0x0C then [CHR 0x5C, CHR ''f'']
      else if c = CHR 0x08 then [CHR 0x5C, CHR ''b'']
      else if is_control c \<or> (ascii \<and> beyond_ascii c) then
        [CHR 0x5C, CHR ''u'', CHR ''0'', CHR ''0''] @ hex2 (of_char c)
      else [c])"

text \<open>The two range tests by the bits of the character, for evaluation.\<close>

lemma is_control_code [code]: "is_control (Char b0 b1 b2 b3 b4 b5 b6 b7) = (\<not> b5 \<and> \<not> b6 \<and> \<not> b7)"
  by (cases b0; cases b1; cases b2; cases b3; cases b4; cases b5; cases b6; cases b7)
    (simp_all add: is_control_def)

lemma beyond_ascii_code [code]:
  "beyond_ascii (Char b0 b1 b2 b3 b4 b5 b6 b7) =
     (b7 \<or> (b0 \<and> b1 \<and> b2 \<and> b3 \<and> b4 \<and> b5 \<and> b6))"
  by (cases b0; cases b1; cases b2; cases b3; cases b4; cases b5; cases b6; cases b7)
    (simp_all add: beyond_ascii_def)

definition json_str :: "bool \<Rightarrow> string \<Rightarrow> string" where
  "json_str ascii s = [CHR 0x22] @ concat (map (json_char ascii) s) @ [CHR 0x22]"

text \<open>\<open>json.dumps(v, sort_keys=True)\<close>, with the default separators.\<close>

fun json_dumps :: "bool \<Rightarrow> json \<Rightarrow> string" where
  "json_dumps a JNull = ''null''"
| "json_dumps a (JBool b) = (if b then ''true'' else ''false'')"
| "json_dumps a (JInt i) = dec_int i"
| "json_dumps a (JFlt q r) = r"
| "json_dumps a (JStr s) = json_str a s"
| "json_dumps a (JList xs) = ''['' @ join '', '' (map (json_dumps a) xs) @ '']''"
| "json_dumps a (JObj d) =
     ''{'' @ join '', '' (map (\<lambda>kv. json_str a (fst kv) @ '': '' @ json_dumps a (snd kv))
                         (sort_key fst d)) @ ''}''"

definition repr_char :: "char \<Rightarrow> char \<Rightarrow> string" where
  "repr_char q c =
     (if c = q \<or> c = CHR 0x5C then [CHR 0x5C, c]
      else if c = CHR 0x0A then [CHR 0x5C, CHR ''n'']
      else if c = CHR 0x0D then [CHR 0x5C, CHR ''r'']
      else if c = CHR 0x09 then [CHR 0x5C, CHR ''t'']
      else if is_control c \<or> (beyond_ascii c \<and> (of_char c :: nat) \<le> 160) \<or> c = CHR 0xAD then
        [CHR 0x5C, CHR ''x''] @ hex2 (of_char c)
      else [c])"

definition repr_str :: "string \<Rightarrow> string" where
  "repr_str s =
     (let q = (if CHR 0x27 \<in> set s \<and> CHR 0x22 \<notin> set s then CHR 0x22 else CHR 0x27)
      in [q] @ concat (map (repr_char q) s) @ [q])"

text \<open>\<open>repr(v)\<close> and \<open>str(v)\<close>.\<close>

fun py_repr :: "json \<Rightarrow> string" where
  "py_repr JNull = ''None''"
| "py_repr (JBool b) = (if b then ''True'' else ''False'')"
| "py_repr (JInt i) = dec_int i"
| "py_repr (JFlt q r) = r"
| "py_repr (JStr s) = repr_str s"
| "py_repr (JList xs) = ''['' @ join '', '' (map py_repr xs) @ '']''"
| "py_repr (JObj d) =
     ''{'' @ join '', '' (map (\<lambda>kv. repr_str (fst kv) @ '': '' @ py_repr (snd kv)) d) @ ''}''"

definition py_str :: "json \<Rightarrow> string" where
  "py_str v = (case v of JStr s \<Rightarrow> s | _ \<Rightarrow> py_repr v)"

section \<open>Lemmas on equality and lookup\<close>

lemma map_of_mem: "map_of d k = Some v \<Longrightarrow> (k, v) \<in> set d"
  by (rule map_of_SomeD)

lemma py_eq_refl [simp]: "jwf a \<Longrightarrow> py_eq a a"
proof (induction a)
  case (JList xs)
  then show ?case
    by (auto simp: list_all_iff zip_same_conv_map)
next
  case (JObj d)
  then have dist: "distinct (map fst d)" by simp
  have "py_eq v v" if "(k, v) \<in> set d" for k v
    using that JObj by (force simp: list_all_iff snds.simps)
  moreover have "map_of d k = Some v" if "(k, v) \<in> set d" for k v
    using dist that by (rule map_of_is_SomeI)
  ultimately show ?case by (auto simp: list_all_iff)
qed simp_all

lemma py_mem_refl: "jwf a \<Longrightarrow> a \<in> set xs \<Longrightarrow> py_mem a xs"
  unfolding py_mem_def list_ex_iff by (rule bexI [of _ a]) simp_all

lemma py_mem_Nil [simp]: "\<not> py_mem a []"
  by (simp add: py_mem_def)

lemma py_mem_append [simp]: "py_mem a (xs @ ys) \<longleftrightarrow> py_mem a xs \<or> py_mem a ys"
  by (simp add: py_mem_def list_ex_iff) blast

lemma jwf_field: "jwf (JObj d) \<Longrightarrow> map_of d k = Some v \<Longrightarrow> jwf v"
  by (auto simp: list_all_iff dest: map_of_SomeD)

lemma dget_simps [simp]:
  "dget [] k v = v"
  "dget ((k, x) # d) k v = x"
  "k \<noteq> j \<Longrightarrow> dget ((j, x) # d) k v = dget d k v"
  by (auto simp: dget_def)

lemma dget_update: "dget (dset k v d) j w = (if j = k then v else dget d j w)"
  by (auto simp: dget_def update_conv')

lemma map_of_update: "map_of (dset k v d) j = (if j = k then Some v else map_of d j)"
  by (simp add: update_conv')

lemma map_of_dsetdefault:
  "map_of (dsetdefault k v d) j =
     (if j = k \<and> map_of d k = None then Some v else map_of d j)"
  by (auto simp: dsetdefault_def dhas_def map_add_def split: option.splits)

lemma dget_dsetdefault:
  "dget (dsetdefault k v d) j w = (if j = k \<and> map_of d k = None then v else dget d j w)"
  by (simp add: dget_def map_of_dsetdefault)

lemma distinct_dset [simp]: "distinct (map fst d) \<Longrightarrow> distinct (map fst (dset k v d))"
  by (rule distinct_update)

lemma distinct_dsetdefault [simp]:
  "distinct (map fst d) \<Longrightarrow> distinct (map fst (dsetdefault k v d))"
  by (auto simp: dsetdefault_def dhas_def map_of_eq_None_iff)

lemma ditem_Inr: "ditem d k = Inr v \<longleftrightarrow> map_of d k = Some v"
  by (auto simp: ditem_def split: option.splits)


section \<open>Sizes of fields\<close>

lemma size_field: "map_of (d :: dict) k = Some v \<Longrightarrow> size v < size (JObj d)"
  using size_dict_item [OF map_of_SomeD, of d k v] by simp

lemma size_dget: "size (dget (d :: dict) k dv) < size (JObj d) \<or> dget d k dv = dv"
  by (cases "map_of d k") (auto simp: dget_def dest: size_field)

lemma size_arg [termination_simp]:
  "dget (d :: dict) k JNull = JList xs \<Longrightarrow> x \<in> set xs \<Longrightarrow> size x < Suc (size_list (\<lambda>x. Suc (size (snd x))) d)"
  using size_dget [of d k JNull] size_list_elem [of x xs] by auto

lemma py_iter_size: "py_iter v = Inr xs \<Longrightarrow> x \<in> set xs \<Longrightarrow> size x \<le> size v"
  by (cases v) (auto dest: size_list_elem)

lemma size_iter_arg [termination_simp]:
  "py_iter (dget (d :: dict) k (JList [])) = Inr xs \<Longrightarrow> x \<in> set xs \<Longrightarrow>
   size x < Suc (size_list (\<lambda>x. Suc (size (snd x))) d)"
  using size_dget [of d k "JList []"] py_iter_size [of "dget d k (JList [])" xs x] by auto

lemma size_iter_field [termination_simp]:
  "map_of (d :: dict) k = Some v \<Longrightarrow> py_iter v = Inr xs \<Longrightarrow> x \<in> set xs \<Longrightarrow>
   size x < Suc (size_list (\<lambda>x. Suc (size (snd x))) d)"
  using size_field [of d k v] py_iter_size [of v xs x] by simp

end
