(* ===== verification/Cpir.thy ===== *)
theory Cpir
  imports PyJson
begin

text \<open>
  The canonical program IR of \<open>src/src/autoform/harness/cpir.py\<close>: functions,
  parameters, blocks, branches, call sites and writes of one translated module, each with
  a deterministic identifier; the walker that fills a function from its Core AST body; the
  builder; the call-graph queries. The AST is the exporter's JSON. The digest \<open>sha\<close>
  (hexadecimal SHA-256 of a text) is a parameter. The loops over explicit stacks are
  modelled with the stack as a list whose head is the top.
\<close>

section \<open>Data\<close>

record param =
  p_id :: string
  p_name :: string
  p_index :: nat
  p_sort :: string
  p_integer_type :: string

record block =
  b_id :: string
  b_kind :: json
  b_path :: string
  b_hole :: bool

record branch =
  br_block :: string
  br_condition :: json
  br_params :: "string list"

record call_site =
  cs_block :: string
  cs_callee :: string
  cs_resolved :: "string option"
  cs_order :: nat

record write_site =
  wr_block :: string
  wr_kind :: string
  wr_target :: string

text \<open>An operand of a recorded binary operation: a parameter name or an integer literal.\<close>

datatype side = SName string | SLit int

record arith =
  ar_op :: string
  ar_a :: side
  ar_b :: side
  ar_type :: string

record func =
  f_id :: string
  f_name :: string
  f_source_name :: string
  f_file :: string
  f_params :: "param list"
  f_return_sort :: string
  f_blocks :: "block list"
  f_branches :: "branch list"
  f_calls :: "call_site list"
  f_writes :: "write_site list"
  f_reads_globals :: "string list"
  f_raises :: "string list"
  f_holes :: "string list"
  f_literals :: "(string \<times> json list) list"
  f_semantics_hash :: string
  f_synthetic :: bool
  f_return_integer_type :: string
  f_arith :: "arith list"

definition find_param :: "func \<Rightarrow> string \<Rightarrow> param option" where
  "find_param f pid = find (\<lambda>p. p_id p = pid) (f_params f)"

definition STATEMENTS :: "string list" where
  "STATEMENTS = [''assign'', ''seq'', ''ifte'', ''loop'', ''forIn'', ''ret'', ''raise'', ''exprS'',
     ''skip'', ''brk'', ''cont'', ''breakBlock'', ''tryCatch'', ''tryFinally'', ''setGlobal'',
     ''setField'', ''setIndex'', ''setSlice'', ''setDerefIref'', ''del'', ''delIndex'',
     ''delSlice'', ''declGlobal'', ''holeS'']"

definition WRITES :: "(string \<times> string) list" where
  "WRITES = [(''setGlobal'', ''global''), (''setField'', ''field''), (''setIndex'', ''index''),
     (''setSlice'', ''slice''), (''setDerefIref'', ''reference''), (''del'', ''binding''),
     (''delIndex'', ''index''), (''delSlice'', ''slice'')]"

definition WIDTHS :: "(string \<times> nat) list" where
  "WIDTHS = [(''i8'', 8), (''i16'', 16), (''i32'', 32), (''i64'', 64), (''int8_t'', 8),
     (''char'', 8), (''signed char'', 8), (''short'', 16), (''int16_t'', 16), (''int'', 32),
     (''int32_t'', 32), (''long'', 64), (''long long'', 64), (''int64_t'', 64), (''ssize_t'', 64)]"

definition UWIDTHS :: "(string \<times> nat) list" where
  "UWIDTHS = [(''u8'', 8), (''u16'', 16), (''u32'', 32), (''u64'', 64), (''uint8_t'', 8),
     (''unsigned char'', 8), (''uint16_t'', 16), (''unsigned short'', 16), (''unsigned'', 32),
     (''unsigned int'', 32), (''uint32_t'', 32), (''size_t'', 64), (''unsigned long'', 64),
     (''uint64_t'', 64), (''unsigned long long'', 64)]"

definition sha256 :: "(string \<Rightarrow> string) \<Rightarrow> json \<Rightarrow> string" where
  "sha256 sha v = ''sha256:'' @ sha (json_dumps False v)"

definition integer_range :: "string \<Rightarrow> (int \<times> int) option" where
  "integer_range t =
     (case map_of WIDTHS t of
        Some w \<Rightarrow> Some (- (2 ^ (w - 1)), 2 ^ (w - 1) - 1)
      | None \<Rightarrow> (case map_of UWIDTHS t of
          Some w \<Rightarrow> Some (0, 2 ^ w - 1)
        | None \<Rightarrow> None))"

definition sort_of :: "string \<Rightarrow> string \<Rightarrow> string" where
  "sort_of type_name integer_type =
     (let t = lower type_name in
      if integer_type \<noteq> [] \<or> t \<in> {''int'', ''__builtin.int'', ''long'', ''short''}
         \<or> t \<in> set (map fst WIDTHS) \<or> t \<in> set (map fst UWIDTHS) then ''int''
      else if t \<in> {''bool'', ''__builtin.bool'', ''_bool'', ''boolean''} then ''bool''
      else if t \<in> {''str'', ''__builtin.str'', ''string'', ''java.lang.string''} then ''str''
      else if t \<in> {''float'', ''double'', ''__builtin.float''} then ''float''
      else ''any'')"

text \<open>\<open>num:c:i64:+\<close> is \<open>+\<close> at width \<open>i64\<close>; plain operators carry no width.\<close>

definition base_op :: "string \<Rightarrow> string \<times> string" where
  "base_op op =
     (if startswith op ''num:'' then
        let parts = split_char (CHR '':'') op
        in (last parts, if 4 \<le> length parts then parts ! 2 else [])
      else (op, []))"

text \<open>The set of names an expression mentions, as a list.\<close>

fun names_in :: "json \<Rightarrow> string list" where
  "names_in (JObj d) =
     (case (dget d ''k'' JNull, dget d ''v'' JNull) of
        (JStr k, JStr v) \<Rightarrow> if k = ''name'' then [v] else []
      | _ \<Rightarrow> []) @ concat (map (\<lambda>kv. if fst kv = ''k'' then [] else names_in (snd kv)) d)"
| "names_in (JList xs) = concat (map names_in xs)"
| "names_in _ = []"

section \<open>Programs and call-graph queries\<close>

record program =
  pr_module :: string
  pr_functions :: "func list"
  pr_ast_hash :: string

text \<open>The dictionary \<open>{f.id: f for f in functions}\<close>: a later function wins.\<close>

definition by_id :: "program \<Rightarrow> string \<Rightarrow> func option" where
  "by_id P i = find (\<lambda>f. f_id f = i) (rev (pr_functions P))"

definition callers :: "program \<Rightarrow> string \<Rightarrow> string list" where
  "callers P fid =
     sorted_set [f_id f. f \<leftarrow> pr_functions P, c \<leftarrow> f_calls f, cs_resolved c = Some fid]"

definition resolved_calls :: "func \<Rightarrow> string list" where
  "resolved_calls f = [t. c \<leftarrow> f_calls f, t \<leftarrow> (case cs_resolved c of None \<Rightarrow> [] | Some t \<Rightarrow> if t = [] then [] else [t])]"

definition callees :: "program \<Rightarrow> string \<Rightarrow> string list res" where
  "callees P fid =
     (case by_id P fid of
        None \<Rightarrow> Inl KeyError
      | Some f \<Rightarrow> Inr (sorted_set (resolved_calls f)))"

lemma by_id_SomeD: "by_id P i = Some f \<Longrightarrow> f \<in> set (pr_functions P) \<and> f_id f = i"
  unfolding by_id_def by (auto dest!: find_SomeD)

function (sequential) closure_loop ::
    "program \<Rightarrow> string list \<Rightarrow> string list \<Rightarrow> string list res" where
  "closure_loop P seen [] = Inr seen"
| "closure_loop P seen (cur # stack) =
     (if cur \<in> set seen then closure_loop P seen stack
      else rbind (callees P cur) (\<lambda>cs. closure_loop P (cur # seen) (rev cs @ stack)))"
  by pat_completeness auto
termination
proof (relation "measures [\<lambda>(P, seen, stack). card (set (map f_id (pr_functions P)) - set seen),
                           \<lambda>(P, seen, stack). length stack]", goal_cases)
  case (3 P seen cur stack cs)
  then obtain f where "by_id P cur = Some f"
    by (auto simp: callees_def split: option.splits)
  then have "cur \<in> set (map f_id (pr_functions P))"
    by (auto dest: by_id_SomeD)
  with 3 have "card (set (map f_id (pr_functions P)) - insert cur (set seen))
      < card (set (map f_id (pr_functions P)) - set seen)"
    by (intro psubset_card_mono) auto
  then show ?case by simp
qed auto

definition closure :: "program \<Rightarrow> string \<Rightarrow> string list res" where
  "closure P fid = rbind (closure_loop P [] [fid]) (\<lambda>seen. Inr (sort seen))"

definition externals :: "program \<Rightarrow> string \<Rightarrow> string list res" where
  "externals P fid =
     (case by_id P fid of
        None \<Rightarrow> Inl KeyError
      | Some f \<Rightarrow> Inr (sorted_set [cs_callee c. c \<leftarrow> f_calls f, cs_resolved c \<in> {None, Some []}]))"

section \<open>The walker\<close>

text \<open>
  \<open>_Walker\<close>: the function being filled, the next block number (shared by all functions
  of the module) and the pre-order position of the last call.
\<close>

record walker =
  w_fn :: func
  w_counter :: nat
  w_order :: nat

definition block_name :: "nat \<Rightarrow> string" where
  "block_name n = ''B_'' @ pad 4 n"

definition add_block :: "json \<Rightarrow> string \<Rightarrow> bool \<Rightarrow> walker \<Rightarrow> string \<times> walker" where
  "add_block kind path hole w =
     (let bid = block_name (w_counter w); f = w_fn w;
          f1 = f\<lparr>f_blocks := f_blocks f @ [\<lparr>b_id = bid, b_kind = kind, b_path = path, b_hole = hole\<rparr>],
                 f_holes := (if hole then f_holes f @ [bid] else f_holes f)\<rparr>
      in (bid, w\<lparr>w_fn := f1, w_counter := Suc (w_counter w)\<rparr>))"

definition param_names :: "func \<Rightarrow> string list" where
  "param_names f = map p_name (f_params f)"

definition callee_name :: "string \<Rightarrow> dict \<Rightarrow> string res" where
  "callee_name k d =
     (if k = ''call'' then
        Inr (case dget d ''f'' JNull of JStr s \<Rightarrow> s | _ \<Rightarrow> ''<dynamic>'')
      else if k = ''mcall'' then
        (case dget d ''m'' (JStr ''?'') of JStr s \<Rightarrow> Inr (CHR ''.'' # s) | _ \<Rightarrow> Inl TypeError)
      else Inr ''<dynamic>'')"

definition visit_call :: "(string \<times> string) list \<Rightarrow> string \<Rightarrow> string \<Rightarrow> dict \<Rightarrow> walker \<Rightarrow> walker res" where
  "visit_call names owner k d w =
     rbind (callee_name k d) (\<lambda>callee.
       let f = w_fn w; n = Suc (w_order w);
           site = \<lparr>cs_block = owner, cs_callee = callee, cs_resolved = map_of names callee, cs_order = n\<rparr>
       in Inr (w\<lparr>w_fn := f\<lparr>f_calls := f_calls f @ [site]\<rparr>, w_order := n\<rparr>))"

definition visit_name :: "dict \<Rightarrow> walker \<Rightarrow> walker res" where
  "visit_name d w =
     (let v = dget d ''v'' JNull; f = w_fn w in
      rbind (in_strs v (param_names f)) (\<lambda>is_param.
        Inr (case v of
               JStr s \<Rightarrow> if is_param \<or> s \<in> set (f_reads_globals f) then w
                         else w\<lparr>w_fn := f\<lparr>f_reads_globals := f_reads_globals f @ [s]\<rparr>\<rparr>
             | _ \<Rightarrow> w)))"

definition arith_ops :: "string list" where
  "arith_ops = [''+'', ''-'', ''*'', ''<<'', ''>>'', ''>>>'', ''/'', ''//'', ''%'']"

definition side_of :: "func \<Rightarrow> json \<Rightarrow> side list res" where
  "side_of f v =
     (case v of
        JObj d \<Rightarrow>
          (let k = dget d ''k'' JNull; x = dget d ''v'' JNull in
           if k = JStr ''name'' then
             rbind (in_strs x (param_names f)) (\<lambda>b.
               Inr (case x of JStr s \<Rightarrow> if b then [SName s] else [] | _ \<Rightarrow> []))
           else if k = JStr ''int'' then Inr (case x of JInt i \<Rightarrow> [SLit i] | _ \<Rightarrow> [])
           else Inr [])
      | _ \<Rightarrow> Inr [])"

definition is_name_side :: "side \<Rightarrow> bool" where
  "is_name_side s = (case s of SName _ \<Rightarrow> True | SLit _ \<Rightarrow> False)"

definition visit_binop :: "string \<Rightarrow> dict \<Rightarrow> walker \<Rightarrow> walker res" where
  "visit_binop op d w =
     (let f = w_fn w in
      rbind (side_of f (dget d ''a'' JNull)) (\<lambda>sa.
      rbind (side_of f (dget d ''b'' JNull)) (\<lambda>sb.
        Inr (case sa @ sb of
               [x, y] \<Rightarrow>
                 if is_name_side x \<or> is_name_side y then
                   let entry = \<lparr>ar_op = fst (base_op op), ar_a = x, ar_b = y, ar_type = snd (base_op op)\<rparr>
                   in if entry \<in> set (f_arith f) then w
                      else w\<lparr>w_fn := f\<lparr>f_arith := f_arith f @ [entry]\<rparr>\<rparr>
                 else w
             | _ \<Rightarrow> w))))"

definition add_literal :: "string \<Rightarrow> json \<Rightarrow> func \<Rightarrow> func" where
  "add_literal k v f =
     (let old = (case map_of (f_literals f) k of None \<Rightarrow> [] | Some vs \<Rightarrow> vs)
      in f\<lparr>f_literals := AList.update k (if py_mem v old then old else old @ [v]) (f_literals f)\<rparr>)"

text \<open>What \<open>_Walker.expr\<close> records for one dictionary node.\<close>

definition visit_dict :: "(string \<times> string) list \<Rightarrow> string \<Rightarrow> dict \<Rightarrow> walker \<Rightarrow> walker res" where
  "visit_dict names owner d w =
     (case dget d ''k'' JNull of
        JStr k \<Rightarrow>
          if k \<in> {''call'', ''callV'', ''mcall''} then visit_call names owner k d w
          else if k = ''name'' then visit_name d w
          else if k = ''hole'' then
            Inr (w\<lparr>w_fn := (w_fn w)\<lparr>f_holes := f_holes (w_fn w) @ [owner]\<rparr>\<rparr>)
          else if k = ''binop'' then
            (case dget d ''op'' JNull of
               JStr op \<Rightarrow> if fst (base_op op) \<in> set arith_ops then visit_binop op d w else Inr w
             | _ \<Rightarrow> Inr w)
          else if k \<in> {''int'', ''str'', ''bool''} \<and> dhas d ''v'' then
            Inr (w\<lparr>w_fn := add_literal k (dget d ''v'' JNull) (w_fn w)\<rparr>)
          else Inr w
      | _ \<Rightarrow> Inr w)"

type_synonym work = "(json \<times> string) list"

definition list_work :: "json list \<Rightarrow> string \<Rightarrow> work" where
  "list_work xs where = map (\<lambda>(i, v). (v, where @ ''['' @ dec i @ '']'')) (enumerate 0 xs)"

definition dict_work :: "dict \<Rightarrow> string \<Rightarrow> work" where
  "dict_work d where =
     rev (map (\<lambda>kv. (snd kv, where @ ''.'' @ fst kv)) (filter (\<lambda>kv. fst kv \<noteq> ''k'') d))"

definition work_size :: "work \<Rightarrow> nat" where
  "work_size st = sum_list (map (\<lambda>p. Suc (size (fst p))) st)"

lemma work_size_append [simp]: "work_size (a @ b) = work_size a + work_size b"
  by (simp add: work_size_def)

lemma work_size_Cons [simp]: "work_size (p # b) = Suc (size (fst p)) + work_size b"
  by (simp add: work_size_def)

lemma work_size_Nil [simp]: "work_size [] = 0"
  by (simp add: work_size_def)

lemma work_size_rev [simp]: "work_size (rev a) = work_size a"
  by (simp add: work_size_def rev_map [symmetric])

lemma size_list_sum: "size_list f xs = sum_list (map (\<lambda>x. Suc (f x)) xs)"
  by (induction xs) auto

lemma work_size_list: "work_size (list_work xs p) < Suc (size (JList xs))"
proof -
  have "work_size (map (\<lambda>(i, v). (v, p @ ''['' @ dec i @ '']'')) (enumerate n xs))
      = size_list size xs" for n
    by (induction xs arbitrary: n) auto
  then show ?thesis by (simp add: list_work_def)
qed

lemma work_size_dict: "work_size (dict_work d p) < Suc (size (JObj d))"
proof -
  have "work_size (map (\<lambda>kv. (snd kv, p @ ''.'' @ fst kv)) (filter (\<lambda>kv. fst kv \<noteq> ''k'') d))
      \<le> size_list (\<lambda>x. Suc (size (snd x))) d"
    by (induction d) auto
  then show ?thesis by (simp add: dict_work_def)
qed

function (sequential) expr_loop ::
    "(string \<times> string) list \<Rightarrow> string \<Rightarrow> work \<Rightarrow> walker \<Rightarrow> walker res" where
  "expr_loop names owner [] w = Inr w"
| "expr_loop names owner ((JList xs, p) # stack) w =
     expr_loop names owner (list_work xs p @ stack) w"
| "expr_loop names owner ((JObj d, p) # stack) w =
     rbind (visit_dict names owner d w) (\<lambda>w'. expr_loop names owner (dict_work d p @ stack) w')"
| "expr_loop names owner ((_, p) # stack) w = expr_loop names owner stack w"
  by pat_completeness auto
termination
proof (relation "measure (\<lambda>(names, owner, stack, w). work_size stack)", goal_cases)
  case (2 names owner xs p stack w)
  then show ?case using work_size_list [of xs p] by simp
next
  case (3 names owner d p stack w x)
  then show ?case using work_size_dict [of d p] by simp
qed (simp_all)

definition visit_expr :: "(string \<times> string) list \<Rightarrow> json \<Rightarrow> string \<Rightarrow> string \<Rightarrow> walker \<Rightarrow> walker res" where
  "visit_expr names node path owner w = expr_loop names owner [(node, path)] w"

text \<open>
  The items of a statement node, in order: sub-statements are pushed, everything else is
  walked as an expression at once. The accumulated list is the pushed work, top first.
\<close>

definition is_substmt :: "string \<Rightarrow> json \<Rightarrow> bool res" where
  "is_substmt key v =
     (if key \<in> {''t'', ''e'', ''body'', ''handler'', ''fin''} then
        (case v of JObj d \<Rightarrow> in_strs (dget d ''k'' JNull) STATEMENTS | _ \<Rightarrow> Inr False)
      else Inr False)"

primrec stmt_items ::
    "(string \<times> string) list \<Rightarrow> string \<Rightarrow> string \<Rightarrow> dict \<Rightarrow> work \<times> walker \<Rightarrow> (work \<times> walker) res" where
  "stmt_items names bid p [] s = Inr s"
| "stmt_items names bid p (kv # d) s =
     rbind (if fst kv = ''k'' then Inr s
            else rbind (is_substmt (fst kv) (snd kv)) (\<lambda>sub.
              if sub then Inr ((snd kv, p @ ''.'' @ fst kv) # fst s, snd s)
              else rbind (visit_expr names (snd kv) (p @ ''.'' @ fst kv) bid (snd s)) (\<lambda>w.
                Inr (fst s, w))))
       (\<lambda>s'. stmt_items names bid p d s')"

lemma work_size_items:
  "stmt_items names bid p d (st, w) = Inr (st', w') \<Longrightarrow>
   work_size st' \<le> work_size st + size_list (\<lambda>x. Suc (size (snd x))) d"
proof (induction d arbitrary: st w)
  case (Cons kv d)
  then obtain st1 w1 where
    "stmt_items names bid p d (st1, w1) = Inr (st', w')"
    "work_size st1 \<le> work_size st + Suc (size (snd kv))"
    by (fastforce simp: res_simps split: if_splits)
  with Cons.IH [of st1 w1] show ?case by simp
qed simp

definition record_write :: "string \<Rightarrow> string \<Rightarrow> dict \<Rightarrow> func \<Rightarrow> func" where
  "record_write bid k d f =
     (case map_of WRITES k of
        None \<Rightarrow> f
      | Some kind \<Rightarrow>
          let target = (if k \<in> {''setGlobal'', ''del''} then dget d ''x'' JNull
                        else dget d ''f'' (JStr k))
          in f\<lparr>f_writes := f_writes f @ [\<lparr>wr_block = bid, wr_kind = kind, wr_target = py_str target\<rparr>]\<rparr>)"

definition record_branch :: "string \<Rightarrow> string \<Rightarrow> dict \<Rightarrow> func \<Rightarrow> func" where
  "record_branch bid k d f =
     (if k \<in> {''ifte'', ''loop''} then
        let c = dget d ''c'' JNull;
            ps = sorted_set (filter (\<lambda>n. n \<in> set (param_names f)) (names_in c))
        in f\<lparr>f_branches := f_branches f @ [\<lparr>br_block = bid, br_condition = c, br_params = ps\<rparr>]\<rparr>
      else f)"

definition record_stmt :: "string \<Rightarrow> json \<Rightarrow> dict \<Rightarrow> func \<Rightarrow> func res" where
  "record_stmt bid k d f =
     (case k of
        JStr s \<Rightarrow>
          let f1 = record_write bid s d f;
              f2 = (if s = ''raise'' then f1\<lparr>f_raises := f_raises f1 @ [bid]\<rparr> else f1)
          in Inr (record_branch bid s d f2)
      | _ \<Rightarrow> if hashable k then Inr f else Inl TypeError)"

lemma seq_work_size:
  assumes "dget d ''k'' JNull = JStr ''seq''"
  shows "Suc (size (dget d ''a'' JNull)) + Suc (size (dget d ''b'' JNull)) < Suc (size (JObj d))"
proof -
  let ?s = "\<lambda>d. size_list (\<lambda>x. Suc (size (snd x))) (d :: dict)"
  have one: "map_of d k = Some v \<Longrightarrow> Suc (Suc (size v)) \<le> ?s d" for k v and d :: dict
    by (induction d) (auto split: if_splits)
  have two: "map_of d k = Some v \<Longrightarrow> map_of d j = Some u \<Longrightarrow> k \<noteq> j \<Longrightarrow>
      Suc (Suc (size v)) + Suc (Suc (size u)) \<le> ?s d" for k v j u and d :: dict
    by (induction d) (auto split: if_splits dest: one)
  have three: "map_of d k = Some v \<Longrightarrow> map_of d j = Some u \<Longrightarrow> map_of d i = Some t \<Longrightarrow>
      k \<noteq> j \<Longrightarrow> k \<noteq> i \<Longrightarrow> j \<noteq> i \<Longrightarrow>
      Suc (Suc (size v)) + Suc (Suc (size u)) + Suc (Suc (size t)) \<le> ?s d" for k v j u i t and d :: dict
    by (induction d) (auto split: if_splits dest: two)
  from assms have k: "map_of d ''k'' = Some (JStr ''seq'')"
    by (auto simp: dget_def split: option.splits)
  show ?thesis
  proof (cases "map_of d ''a'' = None \<or> map_of d ''b'' = None")
    case True
    then show ?thesis
      using one [OF k] two [OF k, of "''a''"] two [OF k, of "''b''"]
      by (auto simp: dget_def split: option.splits)
  next
    case False
    then obtain va vb where "map_of d ''a'' = Some va" "map_of d ''b'' = Some vb" by auto
    with three [OF k this] show ?thesis by (simp add: dget_def)
  qed
qed

function (sequential) stmt_loop :: "(string \<times> string) list \<Rightarrow> work \<Rightarrow> walker \<Rightarrow> walker res" where
  "stmt_loop names [] w = Inr w"
| "stmt_loop names ((JObj d, p) # stack) w =
     (let k = dget d ''k'' JNull in
      if k = JStr ''seq'' then
        stmt_loop names ((dget d ''a'' JNull, p @ ''.a'') # (dget d ''b'' JNull, p @ ''.b'') # stack) w
      else
        (let (bid, w1) = add_block k p (k = JStr ''holeS'') w in
         rbind (record_stmt bid k d (w_fn w1)) (\<lambda>f.
         rbind (stmt_items names bid p d ([], w1\<lparr>w_fn := f\<rparr>)) (\<lambda>s.
           stmt_loop names (fst s @ stack) (snd s)))))"
| "stmt_loop names ((_, p) # stack) w = stmt_loop names stack w"
  by pat_completeness auto
termination
proof (relation "measure (\<lambda>(names, stack, w). work_size stack)", goal_cases)
  case (2 names d p stack w k)
  then show ?case using seq_work_size [of d] by simp
next
  case (3 names d p stack w k bw bid w1 f s)
  then have "work_size (fst s) \<le> size_list (\<lambda>x. Suc (size (snd x))) d"
    using work_size_items [of names bid p d "[]" "w1\<lparr>w_fn := f\<rparr>" "fst s" "snd s"] by simp
  then show ?case by simp
qed (simp_all)

section \<open>The builder\<close>

definition func_name :: "nat \<Rightarrow> string" where
  "func_name n = ''F_'' @ pad 4 n"

definition var_name :: "nat \<Rightarrow> string" where
  "var_name n = ''V_'' @ pad 4 n"

text \<open>The entries of the AST: dictionaries whose \<open>name\<close> is a string, sorted by it.\<close>

definition entry_of :: "json \<Rightarrow> (string \<times> dict) list" where
  "entry_of v =
     (case v of
        JObj d \<Rightarrow> (case dget d ''name'' JNull of JStr n \<Rightarrow> [(n, d)] | _ \<Rightarrow> [])
      | _ \<Rightarrow> [])"

definition entries_of :: "json list \<Rightarrow> (string \<times> dict) list" where
  "entries_of data = sort_key fst (concat (map entry_of data))"

text \<open>\<open>{f['name']: 'F_%04d' % (i + 1) for i, f in enumerate(entries)}\<close>.\<close>

definition assign_ids :: "(string \<times> dict) list \<Rightarrow> (string \<times> string) list" where
  "assign_ids entries =
     foldl (\<lambda>ids (i, e). AList.update (fst e) (func_name i) ids) [] (enumerate 1 entries)"

definition add_source_name ::
    "(string \<times> string) list \<Rightarrow> (string \<times> string) list \<Rightarrow> string \<times> dict \<Rightarrow> (string \<times> string) list res" where
  "add_source_name ids names e =
     (let sn = dget (snd e) ''sourceName'' JNull in
      if \<not> truthy sn then Inr names
      else if \<not> hashable sn then Inl TypeError
      else Inr (case sn of
                  JStr s \<Rightarrow> if s \<in> set (map fst names) then names
                            else names @ [(s, case map_of ids (fst e) of None \<Rightarrow> [] | Some i \<Rightarrow> i)]
                | _ \<Rightarrow> names))"

text \<open>A list-valued field, \<open>f.get(k) or []\<close>; the exporter writes a list, \<open>null\<close> or nothing.\<close>

definition opt_list :: "json \<Rightarrow> json list res" where
  "opt_list v = (if truthy v then (case v of JList xs \<Rightarrow> Inr xs | _ \<Rightarrow> Inl TypeError) else Inr [])"

text \<open>A text-valued field, \<open>f.get(k) or ''\<close>; the exporter writes a string, \<open>null\<close> or nothing.\<close>

definition opt_text :: "json \<Rightarrow> string res" where
  "opt_text v = (if truthy v then (case v of JStr s \<Rightarrow> Inr s | _ \<Rightarrow> Inl AttributeError) else Inr [])"

definition text_at :: "json list \<Rightarrow> nat \<Rightarrow> string res" where
  "text_at xs i = (if i < length xs then opt_text (xs ! i) else Inr [])"

definition build_param :: "json list \<Rightarrow> json list \<Rightarrow> nat \<Rightarrow> nat \<times> json \<Rightarrow> param res" where
  "build_param types itypes v0 iv =
     rbind (text_at types (fst iv)) (\<lambda>t.
     rbind (text_at itypes (fst iv)) (\<lambda>it.
       case snd iv of
         JStr n \<Rightarrow> Inr \<lparr>p_id = var_name (v0 + fst iv), p_name = n, p_index = fst iv,
                         p_sort = sort_of t it, p_integer_type = it\<rparr>
       | _ \<Rightarrow> Inl TypeError))"

definition source_name_of :: "string \<Rightarrow> dict \<Rightarrow> string res" where
  "source_name_of n d =
     (let sn = dget d ''sourceName'' JNull in
      if truthy sn then (case sn of JStr s \<Rightarrow> Inr s | _ \<Rightarrow> Inl AttributeError)
      else Inr (after_last (CHR '':'') (after_last (CHR ''.'') n)))"

definition empty_func :: "string \<Rightarrow> string \<Rightarrow> string \<Rightarrow> string \<Rightarrow> param list \<Rightarrow> string \<Rightarrow> string \<Rightarrow> string \<Rightarrow> func" where
  "empty_func i n sn fl ps rs rit h =
     \<lparr>f_id = i, f_name = n, f_source_name = sn, f_file = fl, f_params = ps, f_return_sort = rs,
      f_blocks = [], f_branches = [], f_calls = [], f_writes = [], f_reads_globals = [],
      f_raises = [], f_holes = [], f_literals = [], f_semantics_hash = h,
      f_synthetic = (startswith n ''<'' \<or> startswith sn ''<''),
      f_return_integer_type = rit, f_arith = []\<rparr>"

text \<open>
  One iteration of the builder's loop. The state is the next parameter number, the next
  block number and the functions built so far.
\<close>

definition build_function ::
    "(string \<Rightarrow> string) \<Rightarrow> (string \<times> string) list \<Rightarrow> (string \<times> string) list \<Rightarrow>
     nat \<times> nat \<times> func list \<Rightarrow> string \<times> dict \<Rightarrow> (nat \<times> nat \<times> func list) res" where
  "build_function sha ids names st e =
     (let n = fst e; d = snd e; v0 = fst st; b0 = fst (snd st); fns = snd (snd st) in
      rbind (opt_list (dget d ''paramTypes'' JNull)) (\<lambda>types.
      rbind (opt_list (dget d ''paramIntegerTypes'' JNull)) (\<lambda>itypes.
      rbind (opt_list (dget d ''params'' JNull)) (\<lambda>pnames.
      rbind (mapM (build_param types itypes v0) (enumerate 0 pnames)) (\<lambda>params.
      rbind (source_name_of n d) (\<lambda>sn.
      rbind (opt_text (dget d ''file'' (JStr []))) (\<lambda>fl.
      rbind (opt_text (dget d ''returnType'' (JStr []))) (\<lambda>rt.
      rbind (opt_text (dget d ''returnIntegerType'' (JStr []))) (\<lambda>rit.
        let i = (case map_of ids n of None \<Rightarrow> [] | Some i \<Rightarrow> i);
            body = dget d ''body'' JNull;
            fn = empty_func i n sn fl params (sort_of rt rit) rit (sha256 sha body)
        in rbind (stmt_loop names [(body, ''body'')] \<lparr>w_fn = fn, w_counter = b0, w_order = 0\<rparr>)
             (\<lambda>w. Inr (v0 + length params, w_counter w, fns @ [w_fn w])))))))))))"

definition build :: "(string \<Rightarrow> string) \<Rightarrow> json \<Rightarrow> string \<Rightarrow> string \<Rightarrow> program res" where
  "build sha data modname ast_hash =
     (case data of
        JList items \<Rightarrow>
          let entries = entries_of items; ids = assign_ids entries in
          rbind (foldM (add_source_name ids) ids entries) (\<lambda>names.
          rbind (foldM (build_function sha ids names) (1, 1, []) entries) (\<lambda>st.
            Inr \<lparr>pr_module = modname, pr_functions = snd (snd st), pr_ast_hash = ast_hash\<rparr>))
      | _ \<Rightarrow> Inl (ValueError ''Core AST must be a list of functions''))"

text \<open>\<open>Program.entity_table\<close>.\<close>

definition entity_table :: "program \<Rightarrow> json list" where
  "entity_table P =
     concat (map (\<lambda>f.
       JObj [(''id'', JStr (f_id f)), (''kind'', JStr ''function''), (''name'', JStr (f_name f)),
             (''file'', JStr (f_file f))]
       # map (\<lambda>p. JObj [(''id'', JStr (p_id p)), (''kind'', JStr ''param''),
             (''name'', JStr (p_name p)), (''function'', JStr (f_id f)), (''sort'', JStr (p_sort p)),
             (''integer_type'', JStr (p_integer_type p))]) (f_params f)) (pr_functions P))"

section \<open>Identifiers are unique\<close>

interpretation block_ids: id_supply block_name
  by unfold_locales (simp add: block_name_def)

interpretation func_ids: id_supply func_name
  by unfold_locales (simp add: func_name_def)

interpretation var_ids: id_supply var_name
  by unfold_locales (simp add: var_name_def)

definition block_ids_of :: "func \<Rightarrow> string list" where
  "block_ids_of f = map b_id (f_blocks f)"

text \<open>
  What holds of a walker at every moment: its blocks carry the numbers from the walker's
  start to its counter, in order; everything recorded about a block names one of them;
  calls are numbered without a gap; a resolved call names a function of the table.
\<close>

definition refs_ok :: "string set \<Rightarrow> func \<Rightarrow> bool" where
  "refs_ok ids f \<longleftrightarrow>
     set (f_holes f) \<subseteq> ids \<and> set (f_raises f) \<subseteq> ids \<and>
     set (map cs_block (f_calls f)) \<subseteq> ids \<and> set (map wr_block (f_writes f)) \<subseteq> ids \<and>
     set (map br_block (f_branches f)) \<subseteq> ids"

definition calls_ok :: "(string \<times> string) list \<Rightarrow> nat \<Rightarrow> func \<Rightarrow> bool" where
  "calls_ok names n f \<longleftrightarrow>
     map cs_order (f_calls f) = [1..<Suc n] \<and> set (resolved_calls f) \<subseteq> snd ` set names"

definition names_ok :: "func \<Rightarrow> bool" where
  "names_ok f \<longleftrightarrow>
     distinct (f_reads_globals f) \<and>
     set (f_reads_globals f) \<inter> set (param_names f) = {} \<and>
     (\<forall>b \<in> set (f_branches f). set (br_params b) \<subseteq> set (param_names f))"

definition made_ids :: "nat \<Rightarrow> walker \<Rightarrow> string set" where
  "made_ids lo w = block_name ` {lo..<w_counter w}"

definition walk_inv :: "(string \<times> string) list \<Rightarrow> nat \<Rightarrow> walker \<Rightarrow> bool" where
  "walk_inv names lo w \<longleftrightarrow>
     lo \<le> w_counter w \<and>
     block_ids_of (w_fn w) = map block_name [lo..<w_counter w] \<and>
     refs_ok (made_ids lo w) (w_fn w) \<and>
     calls_ok names (w_order w) (w_fn w) \<and> names_ok (w_fn w)"

text \<open>What every step leaves alone, and what a step that adds no block leaves alone.\<close>

definition same_head :: "func \<Rightarrow> func \<Rightarrow> bool" where
  "same_head f g \<longleftrightarrow> f_id g = f_id f \<and> f_name g = f_name f \<and> f_params g = f_params f"

definition same_frame :: "walker \<Rightarrow> walker \<Rightarrow> bool" where
  "same_frame w w' \<longleftrightarrow> w_counter w' = w_counter w \<and> same_head (w_fn w) (w_fn w')"

lemma same_frame_refl [simp]: "same_frame w w"
  by (simp add: same_frame_def same_head_def)

lemma same_frame_trans: "same_frame w v \<Longrightarrow> same_frame v u \<Longrightarrow> same_frame w u"
  by (simp add: same_frame_def same_head_def)

lemma same_head_trans: "same_head f g \<Longrightarrow> same_head g h \<Longrightarrow> same_head f h"
  by (simp add: same_head_def)

lemma same_frame_made: "same_frame w w' \<Longrightarrow> made_ids lo w' = made_ids lo w"
  by (simp add: same_frame_def made_ids_def)

lemma refs_ok_mono: "refs_ok ids f \<Longrightarrow> ids \<subseteq> ids' \<Longrightarrow> refs_ok ids' f"
  unfolding refs_ok_def by blast

lemma walk_inv_start:
  "walk_inv names b \<lparr>w_fn = empty_func i n sn fl ps rs rit h, w_counter = b, w_order = 0\<rparr>"
  by (simp add: walk_inv_def refs_ok_def calls_ok_def names_ok_def empty_func_def
      block_ids_of_def resolved_calls_def)

lemma walk_inv_add_block:
  assumes inv: "walk_inv names lo w" and add: "add_block k p h w = (bid, w')"
  shows "walk_inv names lo w' \<and> bid \<in> made_ids lo w' \<and> same_head (w_fn w) (w_fn w')"
proof -
  let ?f = "w_fn w" and ?f' = "w_fn w'"
  from add have w': "bid = block_name (w_counter w)" "w_counter w' = Suc (w_counter w)"
    "w_order w' = w_order w" "block_ids_of ?f' = block_ids_of ?f @ [bid]"
    "f_holes ?f' = f_holes ?f @ (if h then [bid] else [])" "f_raises ?f' = f_raises ?f"
    "f_calls ?f' = f_calls ?f" "f_writes ?f' = f_writes ?f" "f_branches ?f' = f_branches ?f"
    "f_params ?f' = f_params ?f" "f_id ?f' = f_id ?f" "f_name ?f' = f_name ?f" "f_reads_globals ?f' = f_reads_globals ?f"
    by (auto simp: add_block_def Let_def block_ids_of_def)
  from inv have lo: "lo \<le> w_counter w" by (simp add: walk_inv_def)
  have made: "made_ids lo w' = insert bid (made_ids lo w)"
    using lo w'(1,2) by (auto simp: made_ids_def atLeastLessThanSuc)
  from inv have "refs_ok (insert bid (made_ids lo w)) ?f"
    by (auto simp: walk_inv_def intro: refs_ok_mono)
  then have "refs_ok (made_ids lo w') ?f'"
    unfolding refs_ok_def w' made by auto
  moreover have "calls_ok names (w_order w') ?f'" "names_ok ?f'"
    using inv unfolding walk_inv_def calls_ok_def names_ok_def resolved_calls_def param_names_def
    by (simp_all add: w')
  moreover have "block_ids_of ?f' = map block_name [lo..<w_counter w']"
    using inv lo by (simp add: walk_inv_def w')
  ultimately show ?thesis using lo made by (simp add: walk_inv_def w' same_head_def)
qed

lemma resolved_calls_append:
  "resolved_calls (f\<lparr>f_calls := f_calls f @ [c]\<rparr>) = resolved_calls f @
     (case cs_resolved c of None \<Rightarrow> [] | Some t \<Rightarrow> if t = [] then [] else [t])"
  by (simp add: resolved_calls_def)

text \<open>The frame rule: the parts of the invariant, one by one.\<close>

lemma walk_inv_frame:
  assumes "walk_inv names lo w" and "w_counter w' = w_counter w"
    and "f_blocks (w_fn w') = f_blocks (w_fn w)"
    and "refs_ok (made_ids lo w) (w_fn w) \<Longrightarrow> refs_ok (made_ids lo w) (w_fn w')"
    and "calls_ok names (w_order w) (w_fn w) \<Longrightarrow> calls_ok names (w_order w') (w_fn w')"
    and "names_ok (w_fn w) \<Longrightarrow> names_ok (w_fn w')"
  shows "walk_inv names lo w'"
  using assms by (simp add: walk_inv_def block_ids_of_def made_ids_def)

lemma calls_ok_cong: "f_calls f = f_calls g \<Longrightarrow> calls_ok names n f = calls_ok names n g"
  unfolding calls_ok_def resolved_calls_def by simp

text \<open>The frame rule of the steps that record a hole, a raise, a write or an operand.\<close>

lemma walk_inv_keep:
  assumes inv: "walk_inv names lo w"
    and "w_counter w' = w_counter w" and "w_order w' = w_order w"
    and "f_blocks (w_fn w') = f_blocks (w_fn w)" and calls: "f_calls (w_fn w') = f_calls (w_fn w)"
    and br: "f_branches (w_fn w') = f_branches (w_fn w)"
    and ps: "f_params (w_fn w') = f_params (w_fn w)"
    and rg: "f_reads_globals (w_fn w') = f_reads_globals (w_fn w)"
    and new: "set (f_holes (w_fn w')) \<subseteq> set (f_holes (w_fn w)) \<union> made_ids lo w"
      "set (f_raises (w_fn w')) \<subseteq> set (f_raises (w_fn w)) \<union> made_ids lo w"
      "set (map wr_block (f_writes (w_fn w'))) \<subseteq> set (map wr_block (f_writes (w_fn w))) \<union> made_ids lo w"
  shows "walk_inv names lo w'"
proof (rule walk_inv_frame [OF inv assms(2) assms(4)])
  show "refs_ok (made_ids lo w) (w_fn w')" if "refs_ok (made_ids lo w) (w_fn w)"
    using that new unfolding refs_ok_def calls br by blast
  show "calls_ok names (w_order w') (w_fn w')" if "calls_ok names (w_order w) (w_fn w)"
    using that calls_ok_cong [OF calls] assms(3) by simp
  show "names_ok (w_fn w')" if "names_ok (w_fn w)"
    using that unfolding names_ok_def param_names_def br ps rg .
qed

lemma visit_call_inv:
  assumes inv: "walk_inv names lo w" and own: "owner \<in> made_ids lo w"
    and visit: "visit_call names owner k d w = Inr w'"
  shows "walk_inv names lo w' \<and> same_frame w w'"
proof -
  from visit obtain callee where
    w': "w' = w\<lparr>w_fn := (w_fn w)\<lparr>f_calls := f_calls (w_fn w) @ [\<lparr>cs_block = owner,
       cs_callee = callee, cs_resolved = map_of names callee, cs_order = Suc (w_order w)\<rparr>]\<rparr>,
       w_order := Suc (w_order w)\<rparr>"
    by (auto simp: visit_call_def res_simps Let_def)
  have res: "t \<in> snd ` set names" if "map_of names callee = Some t" for t
    using map_of_SomeD [OF that] by force
  have "walk_inv names lo w'"
  proof (rule walk_inv_frame [OF inv])
    show "calls_ok names (w_order w') (w_fn w')" if "calls_ok names (w_order w) (w_fn w)"
      using that res unfolding w' calls_ok_def
      by (cases "map_of names callee") (simp_all add: resolved_calls_append)
  qed (use own in \<open>simp_all add: w' refs_ok_def names_ok_def param_names_def\<close>)
  then show ?thesis by (simp add: w' same_frame_def same_head_def)
qed

lemma visit_name_other:
  assumes "\<not> is_str (dget d ''v'' JNull)" and "visit_name d w = Inr w'"
  shows "w' = w"
proof -
  from assms(2) obtain b where "Inr (case dget d ''v'' JNull of
      JStr s \<Rightarrow> if b \<or> s \<in> set (f_reads_globals (w_fn w)) then w
        else w\<lparr>w_fn := (w_fn w)\<lparr>f_reads_globals := f_reads_globals (w_fn w) @ [s]\<rparr>\<rparr>
    | _ \<Rightarrow> w) = (Inr w' :: walker res)"
    unfolding visit_name_def Let_def rbind_eq_Inr by blast
  with assms(1) show ?thesis by (cases "dget d ''v'' JNull") simp_all
qed

lemma visit_name_cases:
  assumes "visit_name d w = Inr w'"
  obtains "w' = w"
  | s where "s \<notin> set (param_names (w_fn w))" and "s \<notin> set (f_reads_globals (w_fn w))"
    and "w' = w\<lparr>w_fn := (w_fn w)\<lparr>f_reads_globals := f_reads_globals (w_fn w) @ [s]\<rparr>\<rparr>"
proof (cases "dget d ''v'' JNull")
  case (JStr s)
  with assms have "w' = (if s \<in> set (param_names (w_fn w)) \<or> s \<in> set (f_reads_globals (w_fn w)) then w
      else w\<lparr>w_fn := (w_fn w)\<lparr>f_reads_globals := f_reads_globals (w_fn w) @ [s]\<rparr>\<rparr>)"
    by (simp add: visit_name_def Let_def)
  then show ?thesis using that(1) that(2) [of s]
    by (cases "s \<in> set (param_names (w_fn w)) \<or> s \<in> set (f_reads_globals (w_fn w))") auto
qed (rule that(1) [OF visit_name_other [OF _ assms]], simp)+

lemma visit_name_inv:
  assumes inv: "walk_inv names lo w" and visit: "visit_name d w = Inr w'"
  shows "walk_inv names lo w' \<and> same_frame w w'"
  using visit
proof (cases rule: visit_name_cases)
  case 1
  with inv show ?thesis by simp
next
  case (2 s)
  have "walk_inv names lo w'"
  proof (rule walk_inv_frame [OF inv])
    show "names_ok (w_fn w')" if "names_ok (w_fn w)"
      using that 2(1,2) unfolding 2(3) names_ok_def by (simp add: param_names_def)
  qed (simp_all add: 2(3) refs_ok_def calls_ok_def resolved_calls_def)
  then show ?thesis by (simp add: 2(3) same_frame_def same_head_def)
qed

lemma same_arith: "\<exists>a. w = w\<lparr>w_fn := (w_fn w)\<lparr>f_arith := a\<rparr>\<rparr>"
  by (rule exI [of _ "f_arith (w_fn w)"]) simp

lemma visit_binop_frame:
  assumes "visit_binop op d w = Inr w'"
  shows "\<exists>a. w' = w\<lparr>w_fn := (w_fn w)\<lparr>f_arith := a\<rparr>\<rparr>"
proof -
  from assms obtain s :: "side list" where
    s: "w' = (case s of
          [x, y] \<Rightarrow>
            if is_name_side x \<or> is_name_side y then
              let entry = \<lparr>ar_op = fst (base_op op), ar_a = x, ar_b = y, ar_type = snd (base_op op)\<rparr>
              in if entry \<in> set (f_arith (w_fn w)) then w
                 else w\<lparr>w_fn := (w_fn w)\<lparr>f_arith := f_arith (w_fn w) @ [entry]\<rparr>\<rparr>
            else w
        | _ \<Rightarrow> w)"
    unfolding visit_binop_def Let_def rbind_eq_Inr by blast
  show ?thesis unfolding s Let_def
    by (cases s rule: remdups_adj.cases) (auto simp: same_arith split: list.split)
qed

lemma if_eqE: "(if b then x else y) = r \<Longrightarrow> (x = r \<Longrightarrow> R) \<Longrightarrow> (y = r \<Longrightarrow> R) \<Longrightarrow> R"
  by (cases b) simp_all

lemma visit_dict_cases:
  assumes "visit_dict names owner d w = Inr w'"
  shows "w' = w \<or> (\<exists>k. visit_call names owner k d w = Inr w') \<or> visit_name d w = Inr w' \<or>
    w' = w\<lparr>w_fn := (w_fn w)\<lparr>f_holes := f_holes (w_fn w) @ [owner]\<rparr>\<rparr> \<or>
    (\<exists>op. visit_binop op d w = Inr w') \<or> (\<exists>k v. w' = w\<lparr>w_fn := add_literal k v (w_fn w)\<rparr>)"
proof (cases "dget d ''k'' JNull")
  case (JStr k)
  then have eq: "visit_dict names owner d w =
      (if k \<in> {''call'', ''callV'', ''mcall''} then visit_call names owner k d w
       else if k = ''name'' then visit_name d w
       else if k = ''hole'' then Inr (w\<lparr>w_fn := (w_fn w)\<lparr>f_holes := f_holes (w_fn w) @ [owner]\<rparr>\<rparr>)
       else if k = ''binop'' then
         (case dget d ''op'' JNull of
            JStr op \<Rightarrow> if fst (base_op op) \<in> set arith_ops then visit_binop op d w else Inr w
          | _ \<Rightarrow> Inr w)
       else if k \<in> {''int'', ''str'', ''bool''} \<and> dhas d ''v'' then
         Inr (w\<lparr>w_fn := add_literal k (dget d ''v'' JNull) (w_fn w)\<rparr>)
       else Inr w)"
    by (simp only: visit_dict_def json.case)
  from assms [unfolded eq] show ?thesis
  proof (elim if_eqE, goal_cases)
    case 4
    then have "w = w' \<or> (\<exists>op. visit_binop op d w = Inr w')"
      by (cases "dget d ''op'' JNull") (auto elim!: if_eqE)
    then show ?case by blast
  qed (unfold sum.inject, blast+)
qed (use assms in \<open>simp_all add: visit_dict_def\<close>)

lemma walk_inv_visit_dict:
  assumes inv: "walk_inv names lo w" and own: "owner \<in> made_ids lo w"
    and visit: "visit_dict names owner d w = Inr w'"
  shows "walk_inv names lo w' \<and> same_frame w w'"
proof -
  consider "w' = w" | k where "visit_call names owner k d w = Inr w'" | "visit_name d w = Inr w'"
    | "w' = w\<lparr>w_fn := (w_fn w)\<lparr>f_holes := f_holes (w_fn w) @ [owner]\<rparr>\<rparr>"
    | a where "w' = w\<lparr>w_fn := (w_fn w)\<lparr>f_arith := a\<rparr>\<rparr>"
    | k v where "w' = w\<lparr>w_fn := add_literal k v (w_fn w)\<rparr>"
    using visit_dict_cases [OF visit] visit_binop_frame by blast
  then show ?thesis
  proof cases
    case 1
    with inv show ?thesis by simp
  next
    case 2
    with inv own show ?thesis by (rule visit_call_inv)
  next
    case 3
    with inv show ?thesis by (rule visit_name_inv)
  next
    case 4
    have "walk_inv names lo w'" by (rule walk_inv_keep [OF inv]) (use own in \<open>simp_all add: 4\<close>)
    then show ?thesis by (simp add: 4 same_frame_def same_head_def)
  next
    case 5
    have "walk_inv names lo w'" by (rule walk_inv_keep [OF inv]) (simp_all add: 5)
    then show ?thesis by (simp add: 5 same_frame_def same_head_def)
  next
    case 6
    have "walk_inv names lo w'" by (rule walk_inv_keep [OF inv]) (simp_all add: 6 add_literal_def Let_def)
    then show ?thesis by (simp add: 6 same_frame_def same_head_def add_literal_def Let_def)
  qed
qed

lemma walk_inv_expr_loop:
  "expr_loop names owner st w = Inr w' \<Longrightarrow> walk_inv names lo w \<Longrightarrow> owner \<in> made_ids lo w \<Longrightarrow>
   walk_inv names lo w' \<and> same_frame w w'"
proof (induction names owner st w rule: expr_loop.induct)
  case (3 names owner d p stack w)
  from "3.prems"(1) obtain w1 where
    w1: "visit_dict names owner d w = Inr w1" "expr_loop names owner (dict_work d p @ stack) w1 = Inr w'"
    by (auto simp: res_simps)
  note step = walk_inv_visit_dict [OF "3.prems"(2,3) w1(1)]
  have own: "owner \<in> made_ids lo w1" using "3.prems"(3) step same_frame_made [of w w1 lo] by simp
  show ?case
    using "3.IH" [OF w1 conjunct1 [OF step] own] step by (blast intro: same_frame_trans)
qed auto

lemma walk_inv_items:
  "stmt_items names bid p d (st, w) = Inr (st', w') \<Longrightarrow> walk_inv names lo w \<Longrightarrow>
   bid \<in> made_ids lo w \<Longrightarrow> walk_inv names lo w' \<and> same_frame w w'"
proof (induction d arbitrary: st w)
  case (Cons kv d)
  then obtain st1 w1 where
    rest: "stmt_items names bid p d (st1, w1) = Inr (st', w')"
    and w1: "w1 = w \<or> visit_expr names (snd kv) (p @ ''.'' @ fst kv) bid w = Inr w1"
    by (fastforce simp: res_simps split: if_splits)
  then have step: "walk_inv names lo w1 \<and> same_frame w w1"
    using Cons.prems(2,3) walk_inv_expr_loop same_frame_refl unfolding visit_expr_def by blast
  have own: "bid \<in> made_ids lo w1" using Cons.prems(3) step same_frame_made [of w w1 lo] by simp
  show ?case
    using Cons.IH [OF rest conjunct1 [OF step] own] step by (blast intro: same_frame_trans)
qed simp

lemma walk_inv_record_write:
  assumes inv: "walk_inv names lo w" and own: "bid \<in> made_ids lo w"
  shows "walk_inv names lo (w\<lparr>w_fn := record_write bid k d (w_fn w)\<rparr>)"
proof (cases "map_of WRITES k")
  case None
  with inv show ?thesis by (simp add: record_write_def)
next
  case (Some kind)
  then show ?thesis
    by (intro walk_inv_keep [OF inv]) (use own in \<open>simp_all add: record_write_def Let_def\<close>)
qed

lemma walk_inv_record_raise:
  assumes inv: "walk_inv names lo w" and own: "bid \<in> made_ids lo w"
  shows "walk_inv names lo (w\<lparr>w_fn := (w_fn w)\<lparr>f_raises := f_raises (w_fn w) @ [bid]\<rparr>\<rparr>)"
  by (rule walk_inv_keep [OF inv]) (use own in simp_all)

lemma walk_inv_record_branch:
  assumes inv: "walk_inv names lo w" and own: "bid \<in> made_ids lo w"
  shows "walk_inv names lo (w\<lparr>w_fn := record_branch bid k d (w_fn w)\<rparr>)"
proof (cases "k \<in> {''ifte'', ''loop''}")
  case True
  let ?w' = "w\<lparr>w_fn := record_branch bid k d (w_fn w)\<rparr>"
  have br: "record_branch bid k d (w_fn w) = (w_fn w)\<lparr>f_branches := f_branches (w_fn w) @
      [\<lparr>br_block = bid, br_condition = dget d ''c'' JNull, br_params = sorted_set
        (filter (\<lambda>n. n \<in> set (param_names (w_fn w))) (names_in (dget d ''c'' JNull)))\<rparr>]\<rparr>"
    using True unfolding record_branch_def Let_def by (simp only: if_True)
  show ?thesis
  proof (rule walk_inv_frame [OF inv])
    show "calls_ok names (w_order ?w') (w_fn ?w')" if "calls_ok names (w_order w) (w_fn w)"
      using that calls_ok_cong [of "w_fn ?w'" "w_fn w"] by (simp add: br)
    show "names_ok (w_fn ?w')" if "names_ok (w_fn w)"
      using that unfolding br names_ok_def param_names_def by auto
  qed (use own in \<open>simp_all add: br refs_ok_def\<close>)
next
  case False
  then have "record_branch bid k d (w_fn w) = w_fn w"
    unfolding record_branch_def by (simp only: if_False)
  with inv show ?thesis by simp
qed

lemma record_head:
  "same_head f (record_write bid k d f)" "same_head f (record_branch bid k d f)"
  "same_head f (f\<lparr>f_raises := bs\<rparr>)"
  by (auto simp: record_write_def record_branch_def Let_def same_head_def split: option.split)

lemma walk_inv_record_stmt:
  assumes inv: "walk_inv names lo w" and own: "bid \<in> made_ids lo w"
    and rec: "record_stmt bid k d (w_fn w) = Inr f"
  shows "walk_inv names lo (w\<lparr>w_fn := f\<rparr>) \<and> same_head (w_fn w) f"
proof (cases "\<exists>s. k = JStr s")
  case False
  with rec inv show ?thesis by (cases k) (auto simp: record_stmt_def same_head_def split: if_splits)
next
  case True
  then obtain s where k: "k = JStr s" ..
  let ?f1 = "record_write bid s d (w_fn w)"
  let ?f2 = "if s = ''raise'' then ?f1\<lparr>f_raises := f_raises ?f1 @ [bid]\<rparr> else ?f1"
  have f: "f = record_branch bid s d ?f2" using rec k by (simp add: record_stmt_def Let_def)
  have same: "made_ids lo (w\<lparr>w_fn := g\<rparr>) = made_ids lo w" for g by (simp add: made_ids_def)
  have i1: "walk_inv names lo (w\<lparr>w_fn := ?f1\<rparr>)" by (rule walk_inv_record_write [OF inv own])
  have i2: "walk_inv names lo (w\<lparr>w_fn := ?f2\<rparr>)"
    using i1 walk_inv_record_raise [OF i1, of bid] own
    by (cases "s = ''raise''") (simp_all add: same)
  have "walk_inv names lo (w\<lparr>w_fn := f\<rparr>)"
    using walk_inv_record_branch [OF i2, of bid s d] own unfolding f by (simp add: same)
  moreover have "same_head (w_fn w) ?f2"
    using record_head(1) same_head_trans [OF record_head(1) record_head(3)] by simp
  ultimately show ?thesis unfolding f by (blast intro: same_head_trans record_head)
qed

lemma walk_inv_stmt_loop:
  "stmt_loop names st w = Inr w' \<Longrightarrow> walk_inv names lo w \<Longrightarrow>
   walk_inv names lo w' \<and> same_head (w_fn w) (w_fn w')"
proof (induction names st w rule: stmt_loop.induct)
  case (2 names d p stack w)
  show ?case
  proof (cases "dget d ''k'' JNull = JStr ''seq''")
    case True
    with 2 show ?thesis by simp
  next
    case False
    obtain bid w1 where blk: "add_block (dget d ''k'' JNull) p (dget d ''k'' JNull = JStr ''holeS'') w = (bid, w1)"
      by fastforce
    from "2.prems"(1) False blk obtain f s where
      f: "record_stmt bid (dget d ''k'' JNull) d (w_fn w1) = Inr f" and
      s: "stmt_items names bid p d ([], w1\<lparr>w_fn := f\<rparr>) = Inr s" and
      rest: "stmt_loop names (fst s @ stack) (snd s) = Inr w'"
      by (auto simp: res_simps Let_def)
    note b = walk_inv_add_block [OF "2.prems"(2) blk]
    note r = walk_inv_record_stmt [OF conjunct1 [OF b] conjunct1 [OF conjunct2 [OF b]] f]
    have i: "walk_inv names lo (snd s) \<and> same_frame (w1\<lparr>w_fn := f\<rparr>) (snd s)"
      using walk_inv_items [of names bid p d "[]" "w1\<lparr>w_fn := f\<rparr>" "fst s" "snd s" lo] s r b
      by (simp add: made_ids_def)
    from "2.IH"(2) [OF refl False blk [symmetric] refl f s rest conjunct1 [OF i]] i r b
    show ?thesis unfolding same_frame_def by (auto intro: same_head_trans)
  qed
qed (auto simp: same_head_def)

section \<open>What the builder guarantees\<close>

definition built_ok :: "(string \<times> string) list \<Rightarrow> func \<Rightarrow> bool" where
  "built_ok names f \<longleftrightarrow>
     refs_ok (set (block_ids_of f)) f \<and> calls_ok names (length (f_calls f)) f \<and> names_ok f"

lemma walk_inv_built:
  assumes "walk_inv names lo w"
  shows "built_ok names (w_fn w) \<and> block_ids_of (w_fn w) = map block_name [lo..<w_counter w] \<and>
         lo \<le> w_counter w"
proof -
  have ids: "set (block_ids_of (w_fn w)) = made_ids lo w"
    using assms by (simp add: walk_inv_def made_ids_def)
  from assms have calls: "calls_ok names (w_order w) (w_fn w)" by (simp add: walk_inv_def)
  then have "length (map cs_order (f_calls (w_fn w))) = length [1..<Suc (w_order w)]"
    unfolding calls_ok_def by simp
  then have "length (f_calls (w_fn w)) = w_order w" by simp
  with assms ids calls show ?thesis by (simp add: walk_inv_def built_ok_def)
qed

definition param_ids_of :: "func \<Rightarrow> string list" where
  "param_ids_of f = map p_id (f_params f)"

lemma build_params_ids:
  assumes "mapM (build_param types itypes v0) (enumerate k xs) = Inr ps"
  shows "map p_id ps = map var_name [v0 + k..<v0 + k + length xs]"
  using assms
proof (induction xs arbitrary: k ps)
  case (Cons x xs)
  then obtain p qs where p: "build_param types itypes v0 (k, x) = Inr p"
    and qs: "mapM (build_param types itypes v0) (enumerate (Suc k) xs) = Inr qs" and ps: "ps = p # qs"
    by (auto simp: res_simps)
  from p have "p_id p = var_name (v0 + k)"
    by (cases x) (auto simp: build_param_def res_simps)
  with Cons.IH [OF qs] ps show ?case
    by (simp add: upt_conv_Cons del: upt_Suc)
qed simp

lemma build_function_step:
  assumes "build_function sha ids names (v, b, fns) e = Inr (v', b', fns')"
  obtains f where "fns' = fns @ [f]" and "built_ok names f" and "b \<le> b'" and "v \<le> v'"
    and "block_ids_of f = map block_name [b..<b']" and "param_ids_of f = map var_name [v..<v']"
    and "f_id f = (case map_of ids (fst e) of None \<Rightarrow> [] | Some i \<Rightarrow> i)"
proof -
  let ?i = "case map_of ids (fst e) of None \<Rightarrow> [] | Some i \<Rightarrow> i"
  from assms obtain types itypes pnames params sn fl rs rit h w where
    ps: "mapM (build_param types itypes v) (enumerate 0 pnames) = Inr params"
    and w: "stmt_loop names [(dget (snd e) ''body'' JNull, ''body'')]
      \<lparr>w_fn = empty_func ?i (fst e) sn fl params rs rit h, w_counter = b, w_order = 0\<rparr> = Inr w"
    and out: "v' = v + length params" "b' = w_counter w" "fns' = fns @ [w_fn w]"
    unfolding build_function_def Let_def by (auto simp: res_simps)
  note inv = walk_inv_stmt_loop [OF w walk_inv_start]
  then have head: "f_id (w_fn w) = ?i" "f_params (w_fn w) = params"
    by (simp_all add: same_head_def empty_func_def)
  note built = walk_inv_built [OF conjunct1 [OF inv]]
  have "length params = length pnames"
    using arg_cong [OF build_params_ids [OF ps], of length] by simp
  then have "param_ids_of (w_fn w) = map var_name [v..<v']"
    using build_params_ids [OF ps] by (simp add: param_ids_of_def head out)
  then show ?thesis using built head out by (intro that [of "w_fn w"]) simp_all
qed


definition all_block_ids :: "program \<Rightarrow> string list" where
  "all_block_ids P = concat (map block_ids_of (pr_functions P))"

definition all_param_ids :: "program \<Rightarrow> string list" where
  "all_param_ids P = concat (map param_ids_of (pr_functions P))"

text \<open>The state of the builder's loop after the entries \<open>es\<close>.\<close>

definition loop_inv ::
    "(string \<times> string) list \<Rightarrow> (string \<times> string) list \<Rightarrow> (string \<times> dict) list \<Rightarrow>
     nat \<times> nat \<times> func list \<Rightarrow> bool" where
  "loop_inv ids names es st \<longleftrightarrow>
     concat (map param_ids_of (snd (snd st))) = map var_name [1..<fst st] \<and>
     concat (map block_ids_of (snd (snd st))) = map block_name [1..<fst (snd st)] \<and>
     1 \<le> fst st \<and> 1 \<le> fst (snd st) \<and> list_all (built_ok names) (snd (snd st)) \<and>
     map f_id (snd (snd st)) = map (\<lambda>e. case map_of ids (fst e) of None \<Rightarrow> [] | Some i \<Rightarrow> i) es"

lemma map_upt_join: "a \<le> b \<Longrightarrow> b \<le> c \<Longrightarrow> map f [a..<b] @ map f [b..<c] = map f [a..<c]"
  by (metis map_append le_Suc_ex upt_add_eq_append)

lemma loop_inv_fold:
  "foldM (build_function sha ids names) st es = Inr st' \<Longrightarrow> loop_inv ids names done st \<Longrightarrow>
   loop_inv ids names (done @ es) st'"
proof (induction es arbitrary: st "done")
  case (Cons e es)
  obtain v b fns where st: "st = (v, b, fns)" by (cases st)
  from Cons.prems(1) obtain v1 b1 fns1 where
    step: "build_function sha ids names (v, b, fns) e = Inr (v1, b1, fns1)"
    and rest: "foldM (build_function sha ids names) (v1, b1, fns1) es = Inr st'"
    by (auto simp: st res_simps)
  from step obtain f where f: "fns1 = fns @ [f]" "built_ok names f" "b \<le> b1" "v \<le> v1"
      "block_ids_of f = map block_name [b..<b1]" "param_ids_of f = map var_name [v..<v1]"
      "f_id f = (case map_of ids (fst e) of None \<Rightarrow> [] | Some i \<Rightarrow> i)"
    by (rule build_function_step)
  have "loop_inv ids names (done @ [e]) (v1, b1, fns1)"
    using Cons.prems(2) f unfolding loop_inv_def st by (simp add: map_upt_join)
  from Cons.IH [OF rest this] show ?case by simp
qed simp

lemma build_loop_inv:
  assumes "build sha data m h = Inr P"
  obtains items ids names st where "data = JList items" and "ids = assign_ids (entries_of items)"
    and "foldM (add_source_name ids) ids (entries_of items) = Inr names"
    and "loop_inv ids names (entries_of items) st" and "pr_functions P = snd (snd st)"
proof -
  from assms obtain items where d: "data = JList items"
    by (cases data) (simp_all add: build_def)
  with assms obtain names st where
    "foldM (add_source_name (assign_ids (entries_of items))) (assign_ids (entries_of items)) (entries_of items) = Inr names"
    and st: "foldM (build_function sha (assign_ids (entries_of items)) names) (1, 1, []) (entries_of items) = Inr st"
    and "pr_functions P = snd (snd st)"
    by (auto simp: build_def Let_def res_simps)
  moreover have "loop_inv (assign_ids (entries_of items)) names ([] @ entries_of items) st"
    by (rule loop_inv_fold [OF st]) (simp add: loop_inv_def)
  ultimately show ?thesis using d that by simp
qed

text \<open>The identifier table names exactly the entries, and the source names add no new value.\<close>

lemma assign_ids_keys: "set (map fst (assign_ids es)) = set (map fst es)"
proof -
  have "set (map fst (foldl (\<lambda>ids (i, e). AList.update (fst e) (func_name i) ids) acc (enumerate n es)))
      = set (map fst acc) \<union> set (map fst es)" for acc n
    by (induction es arbitrary: acc n) (auto simp: dom_update)
  from this [of "[]" 1] show ?thesis by (simp add: assign_ids_def)
qed

lemma add_source_names_values:
  assumes "foldM (add_source_name ids) names es = Inr names'" and "set (map fst es) \<subseteq> set (map fst ids)"
    and "snd ` set names \<subseteq> snd ` set ids"
  shows "snd ` set names' \<subseteq> snd ` set ids"
proof (rule foldM_invariant [OF assms(1), of "\<lambda>ns. snd ` set ns \<subseteq> snd ` set ids"])
  show "snd ` set names \<subseteq> snd ` set ids" by (rule assms(3))
next
  fix ns e ns'
  assume ns: "snd ` set ns \<subseteq> snd ` set ids" and e: "e \<in> set es"
    and step: "add_source_name ids ns e = Inr ns'"
  from e assms(2) have "fst e \<in> fst ` set ids" by auto
  then obtain i where i: "map_of ids (fst e) = Some i"
    by (metis map_of_eq_None_iff option.exhaust)
  then have "i \<in> snd ` set ids" by (force dest: map_of_SomeD)
  moreover have "ns' = ns \<or> (\<exists>s. ns' = ns @ [(s, i)])"
  proof (cases "dget (snd e) ''sourceName'' JNull")
    case (JStr s)
    then have "ns' = (if s = [] \<or> s \<in> set (map fst ns) then ns else ns @ [(s, i)])"
      using step i by (simp add: add_source_name_def Let_def split: if_split_asm)
    then show ?thesis by simp
  qed (use step in \<open>simp_all add: add_source_name_def Let_def split: if_split_asm\<close>)
  ultimately show "snd ` set ns' \<subseteq> snd ` set ids" using ns by (elim disjE exE) simp_all
qed

lemma assign_ids_distinct: "distinct (map fst (assign_ids es))"
proof -
  have "distinct (map fst (foldl (\<lambda>ids (i, e). AList.update (fst e) (func_name i) ids) acc (enumerate n es)))"
    if "distinct (map fst acc)" for acc n
    using that by (induction es arbitrary: acc n) (auto intro: distinct_update)
  from this [of "[]" 1] show ?thesis by (simp add: assign_ids_def)
qed

lemma assign_ids_lookup:
  assumes "distinct (map fst es)"
  shows "map (\<lambda>e. map_of (assign_ids es) (fst e)) es = map (\<lambda>i. Some (func_name i)) [1..<Suc (length es)]"
proof -
  let ?go = "\<lambda>acc n es. foldl (\<lambda>ids (i, e). AList.update (fst e) (func_name i) ids) acc (enumerate n (es :: (string \<times> dict) list))"
  have frame: "k \<notin> set (map fst es) \<Longrightarrow> map_of (?go acc n es) k = map_of acc k" for k acc n es
    by (induction es arbitrary: acc n) (auto simp: update_conv')
  have "distinct (map fst es) \<Longrightarrow> map (\<lambda>e. map_of (?go acc n es) (fst e)) es
      = map (\<lambda>i. Some (func_name i)) [n..<n + length es]" for acc n es
  proof (induction es arbitrary: acc n)
    case (Cons e es)
    then show ?case using frame [of "fst e" es]
      by (simp add: update_conv' upt_conv_Cons del: upt_Suc)
  qed simp
  from this [OF assms, of "[]" 1] show ?thesis by (simp add: assign_ids_def del: upt_Suc)
qed

lemma build_values:
  assumes "build sha data m h = Inr P" and "f \<in> set (pr_functions P)" and "t \<in> set (resolved_calls f)"
  shows "t \<in> set (map f_id (pr_functions P))"
proof -
  from assms(1) obtain items ids names st where
    ids: "ids = assign_ids (entries_of items)"
    and names: "foldM (add_source_name ids) ids (entries_of items) = Inr names"
    and inv: "loop_inv ids names (entries_of items) st" and P: "pr_functions P = snd (snd st)"
    by (rule build_loop_inv)
  from inv assms(2) P have "built_ok names f" by (simp add: loop_inv_def list_all_iff)
  then have "t \<in> snd ` set names" using assms(3) by (auto simp: built_ok_def calls_ok_def)
  moreover have "snd ` set names \<subseteq> snd ` set ids"
    by (rule add_source_names_values [OF names]) (simp_all add: ids assign_ids_keys del: set_map)
  ultimately obtain k where k: "(k, t) \<in> set ids" by auto
  then have "map_of ids k = Some t" using assign_ids_distinct ids by (simp add: map_of_is_SomeI)
  moreover have "k \<in> set (map fst (entries_of items))"
    using k assign_ids_keys [of "entries_of items"] ids by force
  then obtain e where "e \<in> set (entries_of items)" "fst e = k" by auto
  ultimately show ?thesis using inv unfolding loop_inv_def P by force
qed

section \<open>Call-graph closure\<close>

definition calls_edge :: "program \<Rightarrow> string \<Rightarrow> string \<Rightarrow> bool" where
  "calls_edge P a b \<longleftrightarrow> (\<exists>f. by_id P a = Some f \<and> b \<in> set (resolved_calls f))"

interpretation call_graph: worklist "callees P" "closure_loop P" "set (map f_id (pr_functions P))" for P
proof
  show "x \<in> set (map f_id (pr_functions P))" if "callees P x = Inr ys" for x ys
    using that by (auto simp: callees_def split: option.splits dest: by_id_SomeD)
qed simp_all

lemma call_graph_edge: "call_graph.edge P = calls_edge P"
  by (intro ext) (auto simp: call_graph.edge_def calls_edge_def callees_def split: option.splits)

lemma by_id_defined: "i \<in> set (map f_id (pr_functions P)) \<Longrightarrow> \<exists>f. by_id P i = Some f"
  unfolding by_id_def by (auto simp: find_None_iff simp flip: not_None_eq)

lemma built_callees_total:
  assumes "build sha data m h = Inr P" and "x \<in> set (map f_id (pr_functions P))"
  shows "\<exists>ys. callees P x = Inr ys \<and> set ys \<subseteq> set (map f_id (pr_functions P))"
proof -
  from by_id_defined [OF assms(2)] obtain f where f: "by_id P x = Some f" ..
  then have "f \<in> set (pr_functions P)" by (simp add: by_id_SomeD)
  then have "set (resolved_calls f) \<subseteq> set (map f_id (pr_functions P))"
    using build_values [OF assms(1)] by blast
  with f show ?thesis by (simp add: callees_def)
qed

lemma closure_spec:
  assumes "build sha data m h = Inr P" and "fid \<in> set (map f_id (pr_functions P))"
  shows "\<exists>cs. closure P fid = Inr cs \<and> sorted cs \<and> distinct cs \<and>
              set cs = {g. (calls_edge P)\<^sup>*\<^sup>* fid g}"
proof -
  have "\<exists>out. closure_loop P [] [fid] = Inr out"
    by (rule call_graph.run_total [OF built_callees_total [OF assms(1)]]) (use assms(2) in simp_all)
  then obtain out where out: "closure_loop P [] [fid] = Inr out" ..
  from call_graph.run_reachable [OF this] call_graph.run_distinct [OF this] show ?thesis
    unfolding closure_def out rbind_Inr call_graph_edge by simp
qed

section \<open>Properties\<close>

text \<open>
  C1. Whatever the Core AST, the identifiers the builder hands out are the run
  \<open>B_0001\<close>, \<open>B_0002\<close>, ... over the blocks of the module in function order, and
  \<open>V_0001\<close>, \<open>V_0002\<close>, ... over its parameters: no identifier is used twice and none
  is skipped, across all functions.
\<close>

theorem build_ids_unique:
  assumes "build sha data m h = Inr P"
  shows "all_block_ids P = map block_name [1..<Suc (length (all_block_ids P))] \<and>
         distinct (all_block_ids P) \<and>
         all_param_ids P = map var_name [1..<Suc (length (all_param_ids P))] \<and>
         distinct (all_param_ids P)"
proof -
  from assms obtain ids names es st where
    inv: "loop_inv ids names es st" and P: "pr_functions P = snd (snd st)"
    by (rule build_loop_inv)
  from inv have blk: "all_block_ids P = map block_name [1..<fst (snd st)]" "1 \<le> fst (snd st)"
    and var: "all_param_ids P = map var_name [1..<fst st]" "1 \<le> fst st"
    by (simp_all add: loop_inv_def all_block_ids_def all_param_ids_def P)
  from blk have "Suc (length (all_block_ids P)) = fst (snd st)" by simp
  moreover from var have "Suc (length (all_param_ids P)) = fst st" by simp
  ultimately show ?thesis
    using blk(1) var(1) block_ids.distinct_run var_ids.distinct_run by metis
qed

text \<open>A module of two functions: \<open>g\<close> calls \<open>f\<close>, and \<open>f\<close> raises an expression the frontend left a hole for.\<close>

definition demo_ast :: json where
  "demo_ast = JList
     [JObj [(''name'', JStr ''m.g''), (''params'', JList [JStr ''x'']),
        (''paramTypes'', JList [JStr ''int'']),
        (''body'', JObj [(''k'', JStr ''exprS''),
           (''e'', JObj [(''k'', JStr ''call''), (''f'', JStr ''m.f'')])])],
      JObj [(''name'', JStr ''m.f''), (''params'', JList [JStr ''z'']),
        (''body'', JObj [(''k'', JStr ''raise''), (''e'', JObj [(''k'', JStr ''hole'')])])]]"

definition demo_program :: program where
  "demo_program = projr (build (\<lambda>s. ''0'') demo_ast ''m'' ''h'')"

lemma demo_builds: "\<not> isl (build (\<lambda>s. ''0'') demo_ast ''m'' ''h'')"
  by code_simp

lemma demo_build: "build (\<lambda>s. ''0'') demo_ast ''m'' ''h'' = Inr demo_program"
  using demo_builds unfolding demo_program_def
  by (cases "build (\<lambda>s. ''0'') demo_ast ''m'' ''h''") simp_all

lemma build_ids_unique_witness:
  "length (all_block_ids demo_program) = 2 \<and> distinct (all_block_ids demo_program)"
proof -
  have "length (all_block_ids demo_program) = 2" by code_simp
  with build_ids_unique [OF demo_build] show ?thesis by blast
qed

text \<open>
  C2. The records of every function of a built program are consistent: each hole, raise,
  call site, write and branch names a block of the same function; the call sites carry the
  pre-order numbers 1, 2, ... without a gap; no global read is listed twice or is a
  parameter; a branch depends on parameters only; and every resolved call names a function
  of the program.
\<close>

theorem build_references:
  assumes "build sha data m h = Inr P" and "f \<in> set (pr_functions P)"
  shows "refs_ok (set (block_ids_of f)) f \<and>
         map cs_order (f_calls f) = [1..<Suc (length (f_calls f))] \<and> names_ok f \<and>
         set (resolved_calls f) \<subseteq> set (map f_id (pr_functions P))"
proof -
  from assms(1) obtain ids names es st where
    inv: "loop_inv ids names es st" and P: "pr_functions P = snd (snd st)"
    by (rule build_loop_inv)
  from inv assms(2) P have "built_ok names f" by (simp add: loop_inv_def list_all_iff)
  with build_values [OF assms] show ?thesis by (auto simp: built_ok_def calls_ok_def)
qed

lemma build_references_witness:
  "map f_holes (pr_functions demo_program) = [[''B_0001''], []] \<and>
   list_all (\<lambda>f. refs_ok (set (block_ids_of f)) f) (pr_functions demo_program)"
proof -
  have "map f_holes (pr_functions demo_program) = [[''B_0001''], []]" by code_simp
  moreover have "refs_ok (set (block_ids_of f)) f" if "f \<in> set (pr_functions demo_program)" for f
    using build_references [OF demo_build that] by blast
  ultimately show ?thesis by (simp add: list_all_iff)
qed

text \<open>
  When the entries have distinct names, the function identifiers are \<open>F_0001\<close>,
  \<open>F_0002\<close>, ... in name order.
\<close>

theorem build_function_ids:
  assumes "build sha (JList items) m h = Inr P" and "distinct (map fst (entries_of items))"
  shows "map f_id (pr_functions P) = map func_name [1..<Suc (length (pr_functions P))] \<and>
         distinct (map f_id (pr_functions P)) \<and> sorted (map fst (entries_of items))"
proof -
  let ?es = "entries_of items"
  obtain names st where inv: "loop_inv (assign_ids ?es) names ?es st"
    and P: "pr_functions P = snd (snd st)"
    using assms(1) by (rule build_loop_inv) auto
  have "map f_id (pr_functions P) =
      map (case_option [] (\<lambda>i. i)) (map (\<lambda>e. map_of (assign_ids ?es) (fst e)) ?es)"
    using inv by (simp add: loop_inv_def P)
  also have "\<dots> = map func_name [1..<Suc (length ?es)]"
    unfolding assign_ids_lookup [OF assms(2)] by simp
  finally have ids: "map f_id (pr_functions P) = map func_name [1..<Suc (length ?es)]" .
  moreover have "length ?es = length (pr_functions P)"
    using arg_cong [OF ids, of length] by (simp del: upt_Suc)
  moreover have "sorted (map fst ?es)" by (simp add: entries_of_def)
  ultimately show ?thesis using func_ids.distinct_run by metis
qed

lemma build_function_ids_witness:
  "map f_id (pr_functions demo_program) = [''F_0001'', ''F_0002''] \<and>
   distinct (map f_id (pr_functions demo_program))"
proof -
  obtain items where items: "demo_ast = JList items" and names: "distinct (map fst (entries_of items))"
  proof
    show "demo_ast = JList (case demo_ast of JList xs \<Rightarrow> xs | _ \<Rightarrow> [])"
      by (simp add: demo_ast_def)
    show "distinct (map fst (entries_of (case demo_ast of JList xs \<Rightarrow> xs | _ \<Rightarrow> [])))" by code_simp
  qed
  have "map f_id (pr_functions demo_program) = [''F_0001'', ''F_0002'']" by code_simp
  with build_function_ids [OF demo_build [unfolded items] names] show ?thesis by blast
qed

text \<open>
  C3. The closure of a function of a built program always exists (the search of the
  call graph never meets an unknown identifier), is sorted without repetition, and holds
  exactly the functions reachable over resolved calls, the function itself included.
\<close>

theorem closure_reachable:
  assumes "build sha data m h = Inr P" and "fid \<in> set (map f_id (pr_functions P))"
  shows "\<exists>cs. closure P fid = Inr cs \<and> sorted cs \<and> distinct cs \<and>
              set cs = {g. (calls_edge P)\<^sup>*\<^sup>* fid g}"
  using assms by (rule closure_spec)

lemma closure_reachable_witness:
  "\<exists>cs. closure demo_program ''F_0002'' = Inr cs \<and> set cs = {g. (calls_edge demo_program)\<^sup>*\<^sup>* ''F_0002'' g}"
proof -
  have "''F_0002'' \<in> set (map f_id (pr_functions demo_program))" by code_simp
  from closure_reachable [OF demo_build this] show ?thesis by blast
qed

end
