(* ===== verification/ClaimLang.thy ===== *)
theory ClaimLang
  imports Cpir
begin

text \<open>
  The claim language of \<open>src/src/autoform/harness/claims.py\<close>: the grammar, the sort
  checker for terms and formulas, \<open>validate\<close>, the canonical form, the claim identity and
  the size measure. A claim is JSON; every \<open>raise\<close> and every exception the Python
  runtime lets escape is a value of \<open>exc\<close>. The digest \<open>sha\<close> is a parameter.
\<close>

section \<open>Vocabulary\<close>

definition COMPARE :: "string list" where
  "COMPARE = [''EQ'', ''NEQ'', ''LT'', ''LTE'', ''GT'', ''GTE'']"

definition ORDER :: "string list" where
  "ORDER = [''LT'', ''LTE'', ''GT'', ''GTE'']"

definition BOOLEAN :: "string list" where
  "BOOLEAN = [''AND'', ''OR'', ''NOT'', ''IMPLIES'', ''IFF'']"

definition ARITH :: "(string \<times> nat) list" where
  "ARITH = [(''ADD'', 2), (''SUB'', 2), (''MUL'', 2), (''NEG'', 1), (''LEN'', 1)]"

definition OUTCOME :: "string list" where
  "OUTCOME = [''RETURNS'', ''THROWS'', ''TERMINATES'']"

definition STRUCTURAL :: "string list" where
  "STRUCTURAL = [''CALLS'', ''NOT_CALLS'', ''BEFORE'', ''WRITES'', ''NO_WRITE'']"

definition RESERVED :: "string list" where
  "RESERVED = [''ALWAYS'', ''EVENTUALLY'', ''UNTIL'', ''NEXT'', ''FLOWS_TO'', ''NO_FLOW'',
     ''TAINTED'', ''SANITIZED'', ''AUTHORIZED'', ''AUTHENTICATED'', ''CONFIDENTIAL'',
     ''INTEGRITY_PROTECTED'', ''OPEN'', ''CLOSED'', ''OWNED'', ''RELEASED'', ''BALANCED'',
     ''READS'', ''ALLOCATES'', ''FREES'', ''LOCKS'', ''UNLOCKS'', ''REACHES'', ''DOMINATES'',
     ''POSTDOMINATES'', ''ONLY_IF'']"

definition COMMUTATIVE :: "string list" where
  "COMMUTATIVE = [''AND'', ''OR'', ''EQ'', ''NEQ'', ''IFF'', ''ADD'', ''MUL'']"

definition CATEGORIES :: "string list" where
  "CATEGORIES = [''functional'', ''safety'', ''security'', ''resource'', ''temporal'', ''structural'']"

definition DOMAINS :: "string list" where
  "DOMAINS = [''int'', ''bool'', ''str'']"

definition EVIDENCE_TYPES :: "string list" where
  "EVIDENCE_TYPES = [''assertion'', ''test'', ''invariant_test'', ''api_contract'', ''documentation'',
     ''caller'', ''comment'', ''naming'', ''runtime_trace'', ''guard'', ''template'', ''counterexample'']"

definition CLAIM_KEYS :: "string list" where
  "CLAIM_KEYS = [''id'', ''scope'', ''category'', ''subtype'', ''forall'', ''preconditions'', ''property'',
     ''assumptions'', ''evidence'', ''provenance'', ''confidence'', ''status'', ''on_exception'',
     ''description'', ''parent'']"

section \<open>The sort checker\<close>

text \<open>
  \<open>env\<close> maps the quantified parameters to sorts. The dictionary \<open>result_sort\<close> is an
  option: the code only reads \<open>result_sort.get('sort')\<close>.
\<close>

type_synonym sorts = "(string \<times> string) list"

definition unify :: "string \<Rightarrow> string \<Rightarrow> string option \<Rightarrow> (string \<times> string option) res" where
  "unify found wanted rs =
     (if found = ''result?'' then
        (if rs \<noteq> None \<and> rs \<noteq> Some wanted then Inl (ClaimError ''result used at two different sorts'')
         else Inr (wanted, Some wanted))
      else if wanted = ''result?'' then Inr (found, rs)
      else if found \<noteq> wanted then Inl (ClaimError ''sort mismatch'')
      else Inr (found, rs))"

definition lit_sort :: "json \<Rightarrow> string res" where
  "lit_sort v =
     (case v of
        JBool b \<Rightarrow> Inr ''bool''
      | JInt i \<Rightarrow> Inr ''int''
      | JStr s \<Rightarrow> Inr ''str''
      | _ \<Rightarrow> Inl (ClaimError ''literals must be int, bool or str''))"

definition param_sort :: "sorts \<Rightarrow> json \<Rightarrow> string res" where
  "param_sort env p =
     rbind (in_strs p (map fst env)) (\<lambda>known.
       case p of
         JStr s \<Rightarrow> (case map_of env s of Some st \<Rightarrow> Inr st
                   | None \<Rightarrow> Inl (ClaimError ''unknown or unquantified parameter''))
       | _ \<Rightarrow> Inl (ClaimError ''unknown or unquantified parameter''))"

definition result_or_unknown :: "string option \<Rightarrow> string" where
  "result_or_unknown rs = (case rs of None \<Rightarrow> ''result?'' | Some s \<Rightarrow> if s = [] then ''result?'' else s)"

text \<open>The argument list of an operator of known arity.\<close>

definition args_of :: "dict \<Rightarrow> nat \<Rightarrow> json list res" where
  "args_of d n =
     (case dget d ''args'' JNull of
        JList xs \<Rightarrow> if length xs = n then Inr xs else Inl (ClaimError ''bad arity'')
      | _ \<Rightarrow> Inl (ClaimError ''bad arity''))"

lemma args_of_Inr: "args_of d n = Inr xs \<longleftrightarrow> dget d ''args'' JNull = JList xs \<and> length xs = n"
  by (auto simp: args_of_def split: json.splits)

lemma size_args_of [termination_simp]:
  "args_of d n = Inr xs \<Longrightarrow> x \<in> set xs \<Longrightarrow> size x < Suc (size_list (\<lambda>x. Suc (size (snd x))) d)"
  by (auto simp: args_of_Inr intro: size_arg)

function (sequential) term_sort :: "json \<Rightarrow> sorts \<Rightarrow> string option \<Rightarrow> (string \<times> string option) res" where
  "term_sort (JObj d) env rs =
     (if dhas d ''param'' then rbind (param_sort env (dget d ''param'' JNull)) (\<lambda>s. Inr (s, rs))
      else if dhas d ''result'' then Inr (result_or_unknown rs, rs)
      else if dhas d ''lit'' then rbind (lit_sort (dget d ''lit'' JNull)) (\<lambda>s. Inr (s, rs))
      else rbind (in_strs (dget d ''op'' JNull) (map fst ARITH)) (\<lambda>arith.
        case dget d ''op'' JNull of
          JStr op \<Rightarrow>
            if arith then
              rbind (args_of d (case map_of ARITH op of Some n \<Rightarrow> n | None \<Rightarrow> 0)) (\<lambda>args.
                let wanted = (if op = ''LEN'' then ''str'' else ''int'') in
                rbind (foldM (\<lambda>rs a. rbind (term_sort a env rs) (\<lambda>(s, rs1).
                         rbind (unify s wanted rs1) (\<lambda>u. Inr (snd u)))) rs args) (\<lambda>rs'.
                  Inr (''int'', rs')))
            else Inl (ClaimError ''not a term'')
        | _ \<Rightarrow> Inl (ClaimError ''not a term'')))"
| "term_sort _ env rs = Inl (ClaimError ''term must be an object'')"
  by pat_completeness auto
termination
  by (relation "measure (\<lambda>(t, env, rs). size t)") (auto intro: size_args_of)

definition is_bool_lit :: "json \<Rightarrow> bool" where
  "is_bool_lit a =
     (case a of JObj d \<Rightarrow> (case map_of d ''lit'' of Some (JBool b) \<Rightarrow> True | _ \<Rightarrow> False) | _ \<Rightarrow> False)"

definition formula_keys :: "string list" where
  "formula_keys = [''op'', ''args'', ''callee'', ''first'', ''then'', ''target'']"

definition check_compare :: "string \<Rightarrow> json list \<Rightarrow> sorts \<Rightarrow> string option \<Rightarrow> string option res" where
  "check_compare op args env rs =
     rbind (term_sort (args ! 0) env rs) (\<lambda>(sa, rs1).
     rbind (term_sort (args ! 1) env rs1) (\<lambda>(sb, rs2).
       if sa = ''result?'' \<and> sb = ''result?'' then
         Inl (ClaimError ''comparison of result with itself is reflexive'')
       else
         rbind (if sa = ''result?'' then unify sa sb rs2
                else if sb = ''result?'' then unify sb sa rs2 else unify sa sb rs2) (\<lambda>(sort, rs3).
           if op \<in> set ORDER \<and> sort \<noteq> ''int'' then Inl (ClaimError ''needs int arguments'')
           else Inr rs3)))"

text \<open>The arity check of the boolean operators: \<open>need\<close> is absent for \<open>AND\<close> and \<open>OR\<close>.\<close>

definition boolean_arity :: "string \<Rightarrow> nat \<Rightarrow> bool" where
  "boolean_arity op n =
     (if op = ''NOT'' then n = 1 else if op = ''IMPLIES'' \<or> op = ''IFF'' then n = 2 else 2 \<le> n)"

definition structural_keys :: "string \<Rightarrow> string list" where
  "structural_keys op =
     (if op = ''BEFORE'' then [''first'', ''then'']
      else if op = ''WRITES'' \<or> op = ''NO_WRITE'' then [''target''] else [''callee''])"

definition mentions_name :: "func \<Rightarrow> string \<Rightarrow> bool" where
  "mentions_name fn n = (n \<in> cs_callee ` set (f_calls fn) \<or> n \<in> wr_target ` set (f_writes fn))"

definition check_structural :: "string \<Rightarrow> dict \<Rightarrow> func \<Rightarrow> unit res" where
  "check_structural op d fn =
     (if \<not> list_all (\<lambda>k. case dget d k JNull of JStr s \<Rightarrow> s \<noteq> [] | _ \<Rightarrow> False) (structural_keys op)
      then Inl (ClaimError ''requires a name'')
      else if op \<in> {''CALLS'', ''BEFORE'', ''WRITES''} \<and>
        \<not> list_all (\<lambda>k. case dget d k JNull of JStr s \<Rightarrow> mentions_name fn s | _ \<Rightarrow> False) (structural_keys op)
      then Inl (ClaimError ''the function never mentions it'')
      else Inr ())"

function (sequential) check_formula ::
    "json \<Rightarrow> sorts \<Rightarrow> string option \<Rightarrow> func \<Rightarrow> string option res" where
  "check_formula (JObj d) env rs fn =
     (case dget d ''op'' JNull of
        JStr op \<Rightarrow>
          if \<not> set (map fst d) \<subseteq> set formula_keys then Inl (ClaimError ''unknown formula fields'')
          else if op \<in> set COMPARE then
            rbind (args_of d 2) (\<lambda>args. check_compare op args env rs)
          else if op \<in> set BOOLEAN then
            (case dget d ''args'' JNull of
               JList args \<Rightarrow>
                 if boolean_arity op (length args) then
                   foldM (\<lambda>rs a. if is_bool_lit a then Inr rs else check_formula a env rs fn) rs args
                 else Inl (ClaimError ''bad arity'')
             | _ \<Rightarrow> Inl (ClaimError ''bad arity''))
          else if op \<in> set OUTCOME then
            (if truthy (dget d ''args'' JNull) then Inl (ClaimError ''takes no arguments'') else Inr rs)
          else if op \<in> set STRUCTURAL then rbind (check_structural op d fn) (\<lambda>u. Inr rs)
          else if op \<in> set RESERVED then Inr rs
          else Inl (ClaimError ''operator is outside the claim grammar'')
      | _ \<Rightarrow> Inl (ClaimError ''formula must be an object with an op''))"
| "check_formula _ env rs fn = Inl (ClaimError ''formula must be an object with an op'')"
  by pat_completeness auto
termination
  by (relation "measure (\<lambda>(t, env, rs, fn). size t)") (auto intro: size_arg)

section \<open>Structural claims, mentions, operators\<close>

text \<open>\<open>all\<close> over the arguments stops at the first that is not structural.\<close>

function (sequential) is_structural :: "json \<Rightarrow> bool res" where
  "is_structural (JObj d) =
     rbind (in_strs (dget d ''op'' JNull) STRUCTURAL) (\<lambda>b.
       if b then Inr True
       else if dget d ''op'' JNull \<in> {JStr ''AND'', JStr ''OR'', JStr ''NOT''} then
         rbind (py_iter (dget d ''args'' (JList []))) (allM is_structural)
       else Inr False)"
| "is_structural _ = Inr False"
  by pat_completeness auto
termination
  by (relation "measure size") (auto intro: size_iter_arg)

fun mentions_result :: "json \<Rightarrow> bool" where
  "mentions_result (JObj d) =
     (dhas d ''result'' \<or> list_ex (\<lambda>kv. fst kv \<noteq> ''op'' \<and> mentions_result (snd kv)) d)"
| "mentions_result (JList xs) = list_ex mentions_result xs"
| "mentions_result _ = False"

fun operators :: "json \<Rightarrow> string list" where
  "operators (JObj d) =
     (case dget d ''op'' JNull of JStr op \<Rightarrow> [op] | _ \<Rightarrow> []) @
     concat (map (\<lambda>kv. if fst kv = ''op'' then [] else operators (snd kv)) d)"
| "operators (JList xs) = concat (map operators xs)"
| "operators _ = []"

section \<open>Canonical form\<close>

text \<open>\<open>flat += a['args'] if a.get('op') == op else [a]\<close>.\<close>

definition flat_arg :: "json \<Rightarrow> json \<Rightarrow> json list res" where
  "flat_arg op a =
     (case a of
        JObj d \<Rightarrow> if dget d ''op'' JNull = op then rbind (ditem d ''args'') py_iter else Inr [a]
      | _ \<Rightarrow> Inr [a])"

definition flatten :: "json \<Rightarrow> json list \<Rightarrow> json list res" where
  "flatten op args = rbind (mapM (flat_arg op) args) (\<lambda>xss. Inr (concat xss))"

definition dedupe :: "json list \<Rightarrow> json list" where
  "dedupe xs = foldl (\<lambda>acc a. if py_mem a acc then acc else acc @ [a]) [] xs"

definition arrange :: "json \<Rightarrow> json list \<Rightarrow> json list res" where
  "arrange op args =
     rbind (if op \<in> {JStr ''AND'', JStr ''OR''}
            then rbind (flatten op args) (\<lambda>flat. Inr (dedupe flat)) else Inr args) (\<lambda>args1.
     rbind (in_strs op COMMUTATIVE) (\<lambda>comm.
       Inr (if comm then sort_key (json_dumps True) args1 else args1)))"

function (sequential) canonical :: "json \<Rightarrow> json res" where
  "canonical (JObj d) =
     (if \<not> dhas d ''op'' then Inr (JObj d)
      else case map_of d ''args'' of
        None \<Rightarrow> Inr (JObj d)
      | Some v \<Rightarrow>
          rbind (py_iter v) (\<lambda>xs.
          rbind (mapM canonical xs) (\<lambda>args.
          rbind (arrange (dget d ''op'' JNull) args) (\<lambda>args1.
            Inr (JObj (dset ''args'' (JList args1) d))))))"
| "canonical v = Inr v"
  by pat_completeness auto
termination
  by (relation "measure size") (auto intro: size_iter_field)

section \<open>Identity\<close>

fun named :: "(string \<times> string) list \<Rightarrow> json \<Rightarrow> json" where
  "named names (JObj d) =
     JObj (map (\<lambda>kv. (fst kv,
       if fst kv \<in> {''param'', ''target''} \<and> is_str (snd kv)
       then (case snd kv of JStr s \<Rightarrow> JStr (case map_of names s of Some n \<Rightarrow> n | None \<Rightarrow> s) | v \<Rightarrow> v)
       else named names (snd kv))) d)"
| "named names (JList xs) = JList (map (named names) xs)"
| "named names v = v"

definition naming :: "func \<Rightarrow> (string \<times> string) list" where
  "naming fn =
     foldl (\<lambda>ns p. AList.update (p_id p) (''param:'' @ p_name p) ns)
       [(f_id fn, ''fn:'' @ f_name fn)] (f_params fn)"

definition param_key :: "json \<Rightarrow> string res" where
  "param_key b =
     (case b of
        JObj d \<Rightarrow> (case map_of d ''param'' of
            Some (JStr s) \<Rightarrow> Inr s | Some _ \<Rightarrow> Inl TypeError | None \<Rightarrow> Inl KeyError)
      | _ \<Rightarrow> Inl TypeError)"

text \<open>\<open>sorted(xs, key=lambda b: b['param'])\<close> and \<open>sorted\<close> of a list of strings.\<close>

definition sort_bindings :: "json list \<Rightarrow> json list res" where
  "sort_bindings bs =
     rbind (mapM (\<lambda>b. rbind (param_key b) (\<lambda>k. Inr (k, b))) bs) (\<lambda>ks. Inr (map snd (sort_key fst ks)))"

definition text_of :: "json \<Rightarrow> string res" where
  "text_of v = (case v of JStr s \<Rightarrow> Inr s | _ \<Rightarrow> Inl TypeError)"

definition scope_target :: "dict \<Rightarrow> json res" where
  "scope_target claim =
     rbind (ditem claim ''scope'') (\<lambda>s.
       case s of JObj d \<Rightarrow> ditem d ''target'' | _ \<Rightarrow> Inl TypeError)"

definition target_func :: "program \<Rightarrow> dict \<Rightarrow> func res" where
  "target_func P claim =
     rbind (scope_target claim) (\<lambda>t.
       case t of
         JStr i \<Rightarrow> (case by_id P i of Some f \<Rightarrow> Inr f | None \<Rightarrow> Inl KeyError)
       | _ \<Rightarrow> if hashable t then Inl KeyError else Inl TypeError)"

definition claim_core :: "func \<Rightarrow> dict \<Rightarrow> json res" where
  "claim_core fn claim =
     (let nm = (\<lambda>k. named (naming fn) (dget claim k JNull)) in
      rbind (if truthy (nm ''forall'') then py_iter (nm ''forall'') else Inr []) (\<lambda>bs.
      rbind (sort_bindings bs) (\<lambda>forall.
      rbind (py_iter (nm ''preconditions'')) (\<lambda>pres.
      rbind (py_iter (nm ''assumptions'')) (\<lambda>asms.
      rbind (mapM text_of asms) (\<lambda>texts.
        Inr (JObj [(''scope'', nm ''scope''), (''forall'', JList forall),
                   (''pre'', JList (map JStr (sort (map (json_dumps True) pres)))),
                   (''prop'', nm ''property''), (''exc'', nm ''on_exception''),
                   (''assumptions'', JList (map JStr (sort texts)))])))))))"

definition claim_id :: "(string \<Rightarrow> string) \<Rightarrow> program \<Rightarrow> dict \<Rightarrow> string res" where
  "claim_id sha P claim =
     rbind (target_func P claim) (\<lambda>fn.
     rbind (claim_core fn claim) (\<lambda>core.
       Inr (''C_'' @ take 10 (sha (json_dumps True core)))))"

section \<open>Complexity and evidence\<close>

fun fsize :: "json \<Rightarrow> nat" where
  "fsize (JObj d) =
     Suc (sum_list (map (\<lambda>kv. if fst kv \<noteq> ''op'' \<and> (is_obj (snd kv) \<or> is_list (snd kv))
                              then fsize (snd kv) else 0) d))"
| "fsize (JList xs) = sum_list (map fsize xs)"
| "fsize _ = 0"

definition complexity :: "dict \<Rightarrow> int res" where
  "complexity claim =
     rbind (ditem claim ''property'') (\<lambda>prop.
     rbind (py_iter (dget claim ''preconditions'' (JList []))) (\<lambda>pres.
     rbind (py_len (dget claim ''assumptions'' (JList []))) (\<lambda>n.
       Inr (int (fsize prop) + int (sum_list (map fsize pres)) + 2 * n))))"

text \<open>\<open>len({e['type'] for e in evidence if ...})\<close>; the entries are validated dictionaries.\<close>

definition evidence_type :: "json \<Rightarrow> string res" where
  "evidence_type e =
     (case e of
        JObj d \<Rightarrow> rbind (ditem d ''type'') text_of
      | _ \<Rightarrow> Inl TypeError)"

definition independent_sources :: "dict \<Rightarrow> nat res" where
  "independent_sources claim =
     rbind (py_iter (dget claim ''evidence'' (JList []))) (\<lambda>evs.
     rbind (mapM evidence_type evs) (\<lambda>ts.
       Inr (length (remdups (filter (\<lambda>t. t \<notin> {''template'', ''naming'', ''counterexample''}) ts)))))"

section \<open>Validation\<close>

definition check_scope :: "dict \<Rightarrow> program \<Rightarrow> func res" where
  "check_scope claim P =
     (let bad = ClaimError ''scope must name an existing function'' in
      case dget claim ''scope'' JNull of
        JObj d \<Rightarrow>
          if dget d ''kind'' JNull \<noteq> JStr ''function'' then Inl bad
          else if \<not> hashable (dget d ''target'' JNull) then Inl TypeError
          else (case dget d ''target'' JNull of
                  JStr i \<Rightarrow> (case by_id P i of Some f \<Rightarrow> Inr f | None \<Rightarrow> Inl bad)
                | _ \<Rightarrow> Inl bad)
      | _ \<Rightarrow> Inl bad)"

definition check_binding :: "func \<Rightarrow> sorts \<Rightarrow> json \<Rightarrow> sorts res" where
  "check_binding fn env b =
     (case b of
        JObj d \<Rightarrow>
          if set (map fst d) \<noteq> {''param'', ''domain''} then Inl (ClaimError ''forall entries'')
          else (case (case dget d ''param'' JNull of JStr i \<Rightarrow> find_param fn i | _ \<Rightarrow> None) of
              None \<Rightarrow> Inl (ClaimError ''is not a parameter'')
            | Some p \<Rightarrow>
                rbind (in_strs (dget d ''domain'' JNull) DOMAINS) (\<lambda>known.
                  case dget d ''domain'' JNull of
                    JStr sd \<Rightarrow>
                      if \<not> known then Inl (ClaimError ''domain must be int, bool or str'')
                      else if p_sort p \<noteq> ''any'' \<and> p_sort p \<noteq> sd then Inl (ClaimError ''has another sort'')
                      else if p_id p \<in> set (map fst env) then Inl (ClaimError ''quantified twice'')
                      else Inr (env @ [(p_id p, sd)])
                  | _ \<Rightarrow> Inl (ClaimError ''domain must be int, bool or str'')))
      | _ \<Rightarrow> Inl (ClaimError ''forall entries''))"

definition check_pre :: "sorts \<Rightarrow> func \<Rightarrow> string option \<Rightarrow> json \<Rightarrow> string option res" where
  "check_pre env fn rs pre =
     (if mentions_result pre then Inl (ClaimError ''preconditions may not mention the result'')
      else check_formula pre env rs fn)"

definition check_evidence :: "json \<Rightarrow> unit res" where
  "check_evidence ev =
     (case ev of
        JObj d \<Rightarrow> rbind (in_strs (dget d ''type'' JNull) EVIDENCE_TYPES)
          (\<lambda>b. guard b (ClaimError ''evidence types''))
      | _ \<Rightarrow> Inl (ClaimError ''evidence types''))"

definition check_confidence :: "json \<Rightarrow> unit res" where
  "check_confidence v =
     (case num_of v of
        Some q \<Rightarrow> guard (0 \<le> q \<and> q \<le> 1) (ClaimError ''confidence must be in [0, 1]'')
      | None \<Rightarrow> Inl (ClaimError ''confidence must be in [0, 1]''))"

text \<open>What is checked after the property: assumptions, evidence, confidence, exception rule.\<close>

definition check_tail :: "dict \<Rightarrow> unit res" where
  "check_tail claim =
     rbind (py_iter (dget claim ''assumptions'' (JList []))) (\<lambda>asms.
     rbind (guard (list_all (\<lambda>a. case a of JStr s \<Rightarrow> s \<noteq> [] | _ \<Rightarrow> False) asms)
              (ClaimError ''assumptions are nonempty strings'')) (\<lambda>u.
     rbind (py_iter (dget claim ''evidence'' (JList []))) (\<lambda>evs.
     rbind (mapM check_evidence evs) (\<lambda>us.
     rbind (check_confidence (dget claim ''confidence'' (JInt 0))) (\<lambda>u.
       guard (dget claim ''on_exception'' (JStr ''violates'') \<in> {JStr ''violates'', JStr ''allowed''})
         (ClaimError ''on_exception is violates or allowed''))))))"

text \<open>The normalized claim: defaults, derived fields, canonical formulas, identity.\<close>

definition with_defaults :: "json \<Rightarrow> dict \<Rightarrow> dict" where
  "with_defaults category claim =
     (let d0 = dset ''category'' category claim;
          d1 = dsetdefault ''subtype'' category d0;
          d2 = dsetdefault ''forall'' (JList []) d1;
          d3 = dsetdefault ''preconditions'' (JList []) d2;
          d4 = dsetdefault ''assumptions'' (JList []) d3;
          d5 = dsetdefault ''evidence'' (JList []) d4
      in dsetdefault ''on_exception'' (JStr ''violates'') d5)"

definition sort_json :: "string option \<Rightarrow> json" where
  "sort_json rs = (case rs of None \<Rightarrow> JNull | Some s \<Rightarrow> JStr s)"

definition normalize ::
    "(string \<Rightarrow> string) \<Rightarrow> program \<Rightarrow> json \<Rightarrow> string option \<Rightarrow> bool \<Rightarrow> dict \<Rightarrow> dict res" where
  "normalize sha P category rs structural claim =
     (let out0 = dset ''structural'' (JBool structural) (dset ''result_sort'' (sort_json rs)
                   (with_defaults category claim)) in
      rbind (py_iter (dget out0 ''preconditions'' JNull)) (\<lambda>pres.
      rbind (mapM canonical pres) (\<lambda>cpres.
      rbind (canonical (dget out0 ''property'' JNull)) (\<lambda>cprop.
        let out1 = dset ''property'' cprop (dset ''preconditions'' (JList cpres) out0) in
        rbind (claim_id sha P out1) (\<lambda>i.
          Inr (dsetdefault ''status'' (JStr ''candidate'') (dset ''id'' (JStr i) out1)))))))"

text \<open>The quantifiers: the environment, and the rule that a behavioral claim binds every parameter.\<close>

definition check_forall :: "dict \<Rightarrow> func \<Rightarrow> sorts res" where
  "check_forall claim fn =
     (case dget claim ''forall'' (JList []) of
        JList bs \<Rightarrow> foldM (check_binding fn) [] bs
      | _ \<Rightarrow> Inl (ClaimError ''forall must be a list''))"

definition check_property :: "dict \<Rightarrow> sorts \<Rightarrow> func \<Rightarrow> string option res" where
  "check_property claim env fn =
     rbind (py_iter (dget claim ''preconditions'' (JList []))) (\<lambda>pres.
     rbind (foldM (check_pre env fn) None pres) (\<lambda>rs.
       case map_of claim ''property'' of
         None \<Rightarrow> Inl (ClaimError ''claim requires a property'')
       | Some prop \<Rightarrow>
           rbind (check_formula prop env rs fn) (\<lambda>rs1.
             if mentions_result prop \<and> rs1 = None then Inl (ClaimError ''result sort cannot be inferred'')
             else if f_return_sort fn \<noteq> ''any'' \<and> (case rs1 of None \<Rightarrow> False | Some s \<Rightarrow> s \<noteq> [] \<and> f_return_sort fn \<noteq> s)
             then Inl (ClaimError ''returns another sort'')
             else Inr rs1)))"

definition validate :: "(string \<Rightarrow> string) \<Rightarrow> program \<Rightarrow> json \<Rightarrow> dict res" where
  "validate sha P c =
     (case c of
        JObj claim \<Rightarrow>
          if \<not> set (map fst claim) \<subseteq> set CLAIM_KEYS then Inl (ClaimError ''unknown claim fields'')
          else
            rbind (check_scope claim P) (\<lambda>fn.
            let category = dget claim ''category'' (JStr ''functional'') in
            rbind (in_strs category CATEGORIES) (\<lambda>known.
            rbind (guard known (ClaimError ''category'')) (\<lambda>u.
            rbind (check_forall claim fn) (\<lambda>env.
            rbind (is_structural (dget claim ''property'' JNull)) (\<lambda>structural.
            rbind (guard (structural \<or> set (map fst env) = set (map p_id (f_params fn)))
                     (ClaimError ''behavioral claims must quantify every parameter of the target'')) (\<lambda>u.
            rbind (check_property claim env fn) (\<lambda>rs.
            rbind (check_tail claim) (\<lambda>u.
              normalize sha P category rs structural claim))))))))
      | _ \<Rightarrow> Inl (ClaimError ''claim must be an object''))"

end
