(* ===== verification/ClaimEval.thy ===== *)
theory ClaimEval
  imports ClaimLang
begin

text \<open>
  The local evaluator of \<open>src/src/autoform/harness/claims.py\<close> (\<open>eval_term\<close>,
  \<open>eval_formula\<close>), the sampled domains (\<open>sample_values\<close>, \<open>assignments\<close>), and what the
  sort checker guarantees about evaluation. An environment is a dictionary from parameter
  identifiers, \<open>result\<close> and \<open>outcome:OP\<close> to values. Arithmetic is given for integers and
  booleans (Python's booleans are integers); on floats, strings and lists it is
  \<open>Unmodelled\<close>.
\<close>

section \<open>Python operations on values\<close>

fun int_of :: "json \<Rightarrow> int option" where
  "int_of (JBool b) = Some (if b then 1 else 0)"
| "int_of (JInt i) = Some i"
| "int_of _ = None"

definition numeric_error :: "json \<Rightarrow> json \<Rightarrow> exc" where
  "numeric_error a b =
     (if a = JNull \<or> b = JNull \<or> is_obj a \<or> is_obj b then TypeError else Unmodelled)"

definition py_arith :: "(int \<Rightarrow> int \<Rightarrow> int) \<Rightarrow> json \<Rightarrow> json \<Rightarrow> json res" where
  "py_arith f a b =
     (case (int_of a, int_of b) of
        (Some i, Some j) \<Rightarrow> Inr (JInt (f i j))
      | _ \<Rightarrow> Inl (numeric_error a b))"

definition py_neg :: "json \<Rightarrow> json res" where
  "py_neg a = (case int_of a of Some i \<Rightarrow> Inr (JInt (- i)) | None \<Rightarrow> Inl (numeric_error a a))"

text \<open>\<open>a < b\<close>: numbers by value, strings by code point.\<close>

definition py_less :: "json \<Rightarrow> json \<Rightarrow> bool res" where
  "py_less a b =
     (case (num_of a, num_of b) of
        (Some p, Some q) \<Rightarrow> Inr (p < q)
      | _ \<Rightarrow> (case (a, b) of
          (JStr s, JStr t) \<Rightarrow> Inr (s < t)
        | (JList xs, JList ys) \<Rightarrow> Inl Unmodelled
        | _ \<Rightarrow> Inl TypeError))"

text \<open>
  \<open>{'EQ': x == y, 'NEQ': x != y, 'LT': x < y, ...}[op]\<close>: the dictionary display evaluates
  all six comparisons, so an ordered comparison that raises makes \<open>EQ\<close> raise as well.
\<close>

definition py_compare :: "string \<Rightarrow> json \<Rightarrow> json \<Rightarrow> bool res" where
  "py_compare op x y =
     rbind (py_less x y) (\<lambda>lt.
     rbind (py_less y x) (\<lambda>gt.
       let eq = py_eq x y in
       Inr (if op = ''EQ'' then eq else if op = ''NEQ'' then \<not> eq
            else if op = ''LT'' then lt else if op = ''LTE'' then lt \<or> eq
            else if op = ''GT'' then gt else gt \<or> eq)))"

text \<open>\<open>xs[i]\<close> on an evaluated argument list.\<close>

definition arg_at :: "json list \<Rightarrow> nat \<Rightarrow> json res" where
  "arg_at xs i = (if i < length xs then Inr (xs ! i) else Inl IndexError)"

text \<open>\<open>f['args'][i]\<close> on the formula's own list.\<close>

definition index_arg :: "json \<Rightarrow> nat \<Rightarrow> json res" where
  "index_arg v i =
     (case v of
        JList xs \<Rightarrow> arg_at xs i
      | JStr s \<Rightarrow> if i < length s then Inr (JStr [s ! i]) else Inl IndexError
      | JObj d \<Rightarrow> Inl KeyError
      | _ \<Rightarrow> Inl TypeError)"

section \<open>Evaluation\<close>

definition apply_op :: "json \<Rightarrow> json list \<Rightarrow> json res" where
  "apply_op op a =
     (if op = JStr ''ADD'' then rbind (arg_at a 0) (\<lambda>x. rbind (arg_at a 1) (\<lambda>y. py_arith (+) x y))
      else if op = JStr ''SUB'' then rbind (arg_at a 0) (\<lambda>x. rbind (arg_at a 1) (\<lambda>y. py_arith (-) x y))
      else if op = JStr ''MUL'' then rbind (arg_at a 0) (\<lambda>x. rbind (arg_at a 1) (\<lambda>y. py_arith (*) x y))
      else if op = JStr ''NEG'' then rbind (arg_at a 0) py_neg
      else if op = JStr ''LEN'' then rbind (arg_at a 0) (\<lambda>x. rbind (py_len x) (\<lambda>n. Inr (JInt n)))
      else Inl Undefined)"

text \<open>\<open>env[key]\<close>.\<close>

definition lookup_env :: "dict \<Rightarrow> json \<Rightarrow> json res" where
  "lookup_env m k = (case k of JStr s \<Rightarrow> ditem m s | _ \<Rightarrow> if hashable k then Inl KeyError else Inl TypeError)"

function (sequential) eval_term :: "json \<Rightarrow> dict \<Rightarrow> json res" where
  "eval_term (JObj d) m =
     (if dhas d ''param'' then lookup_env m (dget d ''param'' JNull)
      else if dhas d ''result'' then (case map_of m ''result'' of None \<Rightarrow> Inl Undefined | Some v \<Rightarrow> Inr v)
      else if dhas d ''lit'' then Inr (dget d ''lit'' JNull)
      else case map_of d ''args'' of
        None \<Rightarrow> Inl KeyError
      | Some v \<Rightarrow>
          rbind (py_iter v) (\<lambda>xs.
          rbind (mapM (\<lambda>x. eval_term x m) xs) (\<lambda>a.
          rbind (ditem d ''op'') (\<lambda>op. apply_op op a))))"
| "eval_term _ m = Inl TypeError"
  by pat_completeness auto
termination
  by (relation "measure (\<lambda>(t, m). size t)") (auto intro: size_iter_field)

definition eval_compare :: "string \<Rightarrow> json \<Rightarrow> dict \<Rightarrow> bool res" where
  "eval_compare op v m =
     rbind (py_iter v) (\<lambda>xs.
     rbind (mapM (\<lambda>x. eval_term x m) (take 3 xs)) (\<lambda>vs.
       case vs of [x, y] \<Rightarrow> py_compare op x y | _ \<Rightarrow> Inl (ValueError ''unpack'')))"

lemma size_index_arg:
  "map_of (d :: dict) k = Some v \<Longrightarrow> index_arg v i = Inr x \<Longrightarrow> size x < size (JObj d)"
  using size_field [of d k v] size_list_elem
  by (cases v) (auto simp: index_arg_def arg_at_def split: if_splits dest!: nth_mem
      intro: less_trans)

function (sequential) eval_formula :: "json \<Rightarrow> dict \<Rightarrow> bool res" where
  "eval_formula (JObj d) m =
     (case map_of d ''lit'' of
        Some v \<Rightarrow> Inr (truthy v)
      | None \<Rightarrow>
          (case map_of d ''op'' of
            None \<Rightarrow> Inl KeyError
          | Some op \<Rightarrow>
              rbind (in_strs op COMPARE) (\<lambda>cmp.
                if cmp then (case map_of d ''args'' of
                    None \<Rightarrow> Inl KeyError
                  | Some v \<Rightarrow> eval_compare (case op of JStr s \<Rightarrow> s | _ \<Rightarrow> []) v m)
                else if op \<in> {JStr ''AND'', JStr ''OR'', JStr ''NOT'', JStr ''IMPLIES'', JStr ''IFF''} then
                  (case map_of d ''args'' of
                    None \<Rightarrow> Inl KeyError
                  | Some v \<Rightarrow>
                      if op = JStr ''AND'' then rbind (py_iter v) (allM (\<lambda>x. eval_formula x m))
                      else if op = JStr ''OR'' then rbind (py_iter v) (anyM (\<lambda>x. eval_formula x m))
                      else if op = JStr ''NOT'' then
                        rbind (index_arg v 0) (\<lambda>x. rbind (eval_formula x m) (\<lambda>b. Inr (\<not> b)))
                      else if op = JStr ''IMPLIES'' then
                        rbind (index_arg v 0) (\<lambda>x. rbind (eval_formula x m) (\<lambda>b.
                          if \<not> b then Inr True
                          else rbind (index_arg v 1) (\<lambda>y. eval_formula y m)))
                      else
                        rbind (index_arg v 0) (\<lambda>x. rbind (eval_formula x m) (\<lambda>b.
                        rbind (index_arg v 1) (\<lambda>y. rbind (eval_formula y m) (\<lambda>c. Inr (b = c))))))
                else
                  (case op of
                    JStr s \<Rightarrow> if s \<in> set OUTCOME then Inr (truthy (dget m (''outcome:'' @ s) (JBool True)))
                               else Inl Undefined
                  | _ \<Rightarrow> Inl Undefined))))"
| "eval_formula _ m = Inl TypeError"
  by pat_completeness auto
termination
  by (relation "measure (\<lambda>(t, m). size t)") (auto intro: size_iter_field dest: size_index_arg)

section \<open>Sampled domains\<close>

definition base_values :: "string \<Rightarrow> json list res" where
  "base_values s =
     (if s = ''int'' then Inr (map JInt [-2, -1, 0, 1, 2, 3])
      else if s = ''bool'' then Inr [JBool False, JBool True]
      else if s = ''str'' then Inr [JStr [], JStr ''a'', JStr ''admin'']
      else Inl KeyError)"

definition has_sort :: "json \<Rightarrow> string \<Rightarrow> bool" where
  "has_sort v s =
     (case v of
        JInt _ \<Rightarrow> s = ''int''
      | JBool _ \<Rightarrow> s = ''bool''
      | JStr _ \<Rightarrow> s = ''str''
      | _ \<Rightarrow> False)"

definition sample_values :: "string \<Rightarrow> json list \<Rightarrow> json list res" where
  "sample_values s literals =
     rbind (base_values s) (\<lambda>base.
       Inr (dedupe (base @ take 4 (filter (\<lambda>v. has_sort v s) literals))))"

fun product :: "'a list list \<Rightarrow> 'a list list" where
  "product [] = [[]]"
| "product (xs # xss) = concat (map (\<lambda>x. map ((#) x) (product xss)) xs)"

definition binding_domain :: "json list \<Rightarrow> json \<Rightarrow> (string \<times> json list) res" where
  "binding_domain literals b =
     (case b of
        JObj d \<Rightarrow>
          rbind (rbind (ditem d ''param'') text_of) (\<lambda>p.
          rbind (rbind (ditem d ''domain'') text_of) (\<lambda>s.
          rbind (sample_values s literals) (\<lambda>vs. Inr (p, vs))))
      | _ \<Rightarrow> Inl TypeError)"

definition assignments :: "dict \<Rightarrow> json list \<Rightarrow> nat \<Rightarrow> dict list res" where
  "assignments claim literals limit =
     rbind (py_iter (dget claim ''forall'' (JList []))) (\<lambda>bs.
     rbind (mapM (binding_domain literals) bs) (\<lambda>doms.
       Inr (take limit (map (\<lambda>combo. foldl (\<lambda>m (p, v). dset p v m) [] (zip (map fst doms) combo))
                            (product (map snd doms))))))"

section \<open>Soundness of the sort checker\<close>

definition env_ok :: "sorts \<Rightarrow> dict \<Rightarrow> bool" where
  "env_ok env m \<longleftrightarrow>
     (\<forall>(p, s) \<in> set env. s \<in> set DOMAINS \<and> (\<exists>v. map_of m p = Some v \<and> has_sort v s))"

definition result_ok :: "string option \<Rightarrow> dict \<Rightarrow> bool" where
  "result_ok rs m \<longleftrightarrow> (\<forall>s. rs = Some s \<longrightarrow> (\<exists>v. map_of m ''result'' = Some v \<and> has_sort v s))"

definition rs_ok :: "string option \<Rightarrow> bool" where
  "rs_ok rs \<longleftrightarrow> (\<forall>s. rs = Some s \<longrightarrow> s \<in> set DOMAINS)"

definition grows :: "string option \<Rightarrow> string option \<Rightarrow> bool" where
  "grows rs rs' \<longleftrightarrow> rs = None \<or> rs' = rs"

lemma grows_refl [simp]: "grows rs rs"
  by (simp add: grows_def)

lemma grows_trans: "grows a b \<Longrightarrow> grows b c \<Longrightarrow> grows a c"
  by (auto simp: grows_def)

lemma result_ok_grows: "grows a b \<Longrightarrow> result_ok b m \<Longrightarrow> result_ok a m"
  by (auto simp: grows_def result_ok_def)

lemma domain_not_unknown: "s \<in> set DOMAINS \<Longrightarrow> s \<noteq> ''result?'' \<and> s \<noteq> []"
  by (auto simp: DOMAINS_def)

definition is_result_term :: "json \<Rightarrow> bool" where
  "is_result_term t = (case t of JObj d \<Rightarrow> \<not> dhas d ''param'' \<and> dhas d ''result'' | _ \<Rightarrow> False)"

lemma eval_result_term:
  "is_result_term t \<Longrightarrow> map_of m ''result'' = Some v \<Longrightarrow> eval_term t m = Inr v"
  by (cases t) (auto simp: is_result_term_def)

text \<open>What a sorted term is worth: either the bare result, or a value of its sort.\<close>

definition term_ok :: "sorts \<Rightarrow> json \<Rightarrow> string \<Rightarrow> string option \<Rightarrow> bool" where
  "term_ok env t s rs \<longleftrightarrow>
     (if s = ''result?'' then is_result_term t
      else s \<in> set DOMAINS \<and>
        (\<forall>m. env_ok env m \<longrightarrow> result_ok rs m \<longrightarrow> (\<exists>v. eval_term t m = Inr v \<and> has_sort v s)))"

definition arg_ok :: "sorts \<Rightarrow> string \<Rightarrow> string option \<Rightarrow> json \<Rightarrow> bool" where
  "arg_ok env s rs t \<longleftrightarrow>
     (\<forall>m. env_ok env m \<longrightarrow> result_ok rs m \<longrightarrow> (\<exists>v. eval_term t m = Inr v \<and> has_sort v s))"

lemma arg_ok_grows: "arg_ok env s a t \<Longrightarrow> grows a b \<Longrightarrow> arg_ok env s b t"
  unfolding arg_ok_def by (blast dest: result_ok_grows)

lemma term_ok_grows: "term_ok env t s a \<Longrightarrow> grows a b \<Longrightarrow> term_ok env t s b"
  unfolding term_ok_def by (auto dest: result_ok_grows)

lemma unify_sound:
  assumes "unify s w rs = Inr (s', rs')" and "term_ok env t s rs" and "rs_ok rs"
    and "w \<in> set DOMAINS"
  shows "s' = w \<and> grows rs rs' \<and> rs_ok rs' \<and> arg_ok env w rs' t"
proof (cases "s = ''result?''")
  case True
  with assms have rs': "s' = w" "rs' = Some w" "rs = None \<or> rs = Some w" "is_result_term t"
    by (auto simp: unify_def term_ok_def split: if_splits)
  then have "arg_ok env w rs' t"
    by (auto simp: arg_ok_def result_ok_def dest: eval_result_term)
  with rs' assms(4) show ?thesis by (auto simp: grows_def rs_ok_def)
next
  case False
  with assms domain_not_unknown [OF assms(4)] show ?thesis
    by (auto simp: unify_def term_ok_def arg_ok_def split: if_splits)
qed

lemma args_loop_sound:
  assumes "foldM (\<lambda>rs a. rbind (term_sort a env rs) (\<lambda>(s, rs1).
             rbind (unify s w rs1) (\<lambda>u. Inr (snd u)))) rs args = Inr rs'"
    and "\<And>a rs s rs1. a \<in> set args \<Longrightarrow> term_sort a env rs = Inr (s, rs1) \<Longrightarrow> rs_ok rs \<Longrightarrow>
           grows rs rs1 \<and> rs_ok rs1 \<and> term_ok env a s rs1"
    and "rs_ok rs" and w: "w \<in> set DOMAINS"
  shows "grows rs rs' \<and> rs_ok rs' \<and> (\<forall>a \<in> set args. arg_ok env w rs' a)"
  using assms(1-3)
proof (induction args arbitrary: rs)
  case (Cons a args)
  from Cons.prems(1) obtain s rs1 s2 rs2 where
    ts: "term_sort a env rs = Inr (s, rs1)" and un: "unify s w rs1 = Inr (s2, rs2)"
    and rest: "foldM (\<lambda>rs a. rbind (term_sort a env rs) (\<lambda>(s, rs1).
             rbind (unify s w rs1) (\<lambda>u. Inr (snd u)))) rs2 args = Inr rs'"
    by (auto simp: res_simps)
  have a: "grows rs rs1 \<and> rs_ok rs1 \<and> term_ok env a s rs1"
    by (rule Cons.prems(2) [OF _ ts Cons.prems(3)]) simp
  note u = unify_sound [OF un _ _ w, of env a]
  with a have u2: "grows rs1 rs2" "rs_ok rs2" "arg_ok env w rs2 a" by blast+
  have "grows rs2 rs' \<and> rs_ok rs' \<and> (\<forall>a \<in> set args. arg_ok env w rs' a)"
    by (rule Cons.IH [OF rest _ u2(2)]) (rule Cons.prems(2), auto)
  with a u2 show ?case by (auto intro: grows_trans arg_ok_grows)
qed simp

lemma apply_op_values:
  "apply_op (JStr ''LEN'') [JStr s] = Inr (JInt (int (length s)))"
  "apply_op (JStr ''NEG'') [JInt i] = Inr (JInt (- i))"
  "apply_op (JStr ''ADD'') [JInt i, JInt j] = Inr (JInt (i + j))"
  "apply_op (JStr ''SUB'') [JInt i, JInt j] = Inr (JInt (i - j))"
  "apply_op (JStr ''MUL'') [JInt i, JInt j] = Inr (JInt (i * j))"
  by (simp_all add: apply_op_def arg_at_def py_arith_def py_neg_def)

lemma has_sort_cases:
  "has_sort v ''int'' \<Longrightarrow> \<exists>i. v = JInt i" "has_sort v ''str'' \<Longrightarrow> \<exists>s. v = JStr s"
  "has_sort v ''bool'' \<Longrightarrow> \<exists>b. v = JBool b"
  by (cases v; simp add: has_sort_def)+

lemma ARITH_cases:
  assumes "map_of ARITH op = Some n"
  obtains "op = ''LEN''" "n = 1" | "op = ''NEG''" "n = 1" | "op = ''ADD''" "n = 2"
  | "op = ''SUB''" "n = 2" | "op = ''MUL''" "n = 2"
  using assms by (auto simp: ARITH_def split: if_splits)

lemma list_all_one: "length vs = 1 \<Longrightarrow> list_all P vs \<Longrightarrow> \<exists>x. vs = [x] \<and> P x"
  by (auto simp: length_Suc_conv)

lemma list_all_two: "length vs = 2 \<Longrightarrow> list_all P vs \<Longrightarrow> \<exists>x y. vs = [x, y] \<and> P x \<and> P y"
  by (auto simp: length_Suc_conv numeral_2_eq_2)

lemma arith_sorted:
  assumes "map_of ARITH op = Some n" and "length vs = n"
    and "list_all (\<lambda>v. has_sort v (if op = ''LEN'' then ''str'' else ''int'')) vs"
  shows "\<exists>i. apply_op (JStr op) vs = Inr (JInt i)"
  using assms(1)
proof (cases rule: ARITH_cases)
  case 1
  with assms list_all_one [of vs "\<lambda>v. has_sort v ''str''"] show ?thesis
    by (fastforce dest: has_sort_cases intro: apply_op_values)
next
  case 2
  with assms list_all_one [of vs "\<lambda>v. has_sort v ''int''"] show ?thesis
    by (fastforce dest: has_sort_cases intro: apply_op_values)
next
  case 3
  with assms list_all_two [of vs "\<lambda>v. has_sort v ''int''"] show ?thesis
    by (fastforce dest: has_sort_cases intro: apply_op_values)
next
  case 4
  with assms list_all_two [of vs "\<lambda>v. has_sort v ''int''"] show ?thesis
    by (fastforce dest: has_sort_cases intro: apply_op_values)
next
  case 5
  with assms list_all_two [of vs "\<lambda>v. has_sort v ''int''"] show ?thesis
    by (fastforce dest: has_sort_cases intro: apply_op_values)
qed

lemma mapM_args:
  assumes "\<forall>a \<in> set args. arg_ok env w rs a" and "env_ok env m" and "result_ok rs m"
  shows "\<exists>vs. mapM (\<lambda>x. eval_term x m) args = Inr vs \<and> length vs = length args \<and>
              list_all (\<lambda>v. has_sort v w) vs"
  using assms(1)
proof (induction args)
  case (Cons a args)
  then obtain vs where "mapM (\<lambda>x. eval_term x m) args = Inr vs" "length vs = length args"
    "list_all (\<lambda>v. has_sort v w) vs" by auto
  moreover obtain v where "eval_term a m = Inr v" "has_sort v w"
    using Cons.prems assms(2,3) by (auto simp: arg_ok_def)
  ultimately show ?case by simp
qed simp

lemma term_sort_sound:
  "term_sort t env rs = Inr (s, rs') \<Longrightarrow> rs_ok rs \<Longrightarrow> set (map snd env) \<subseteq> set DOMAINS \<Longrightarrow>
   grows rs rs' \<and> rs_ok rs' \<and> term_ok env t s rs'"
proof (induction t arbitrary: rs s rs' rule: measure_induct_rule [where f = size])
  case (less t)
  then obtain d where t: "t = JObj d" by (cases t) simp_all
  note prems = less.prems [unfolded t]
  have "grows rs rs' \<and> rs_ok rs' \<and> term_ok env (JObj d) s rs'"
  proof (cases "dhas d ''param''")
    case True
    with prems(1) obtain p where p: "dget d ''param'' JNull = JStr p" "map_of env p = Some s" "rs' = rs"
      by (auto simp: res_simps param_sort_def split: json.splits option.splits)
    then have mem: "(p, s) \<in> set env" by (simp add: map_of_SomeD)
    then have "s \<in> set DOMAINS" using prems(3) by force
    then show ?thesis using True p mem prems(2) domain_not_unknown [of s]
      by (force simp: term_ok_def env_ok_def lookup_env_def ditem_def)
  next
    case noparam: False
    show ?thesis
    proof (cases "dhas d ''result''")
      case True
      with noparam prems domain_not_unknown show ?thesis
        by (auto simp: result_or_unknown_def term_ok_def is_result_term_def result_ok_def rs_ok_def
            split: option.splits if_splits)
    next
      case noresult: False
      show ?thesis
      proof (cases "dhas d ''lit''")
        case True
        with noparam noresult prems show ?thesis
          by (auto simp: res_simps lit_sort_def term_ok_def DOMAINS_def has_sort_def split: json.splits)
      next
        case nolit: False
        with noparam noresult prems(1) obtain op n args where
          op: "dget d ''op'' JNull = JStr op" "map_of ARITH op = Some n" and
          args: "args_of d n = Inr args" and s: "s = ''int''" and
          loop: "foldM (\<lambda>rs a. rbind (term_sort a env rs) (\<lambda>(s, rs1).
             rbind (unify s (if op = ''LEN'' then ''str'' else ''int'') rs1) (\<lambda>u. Inr (snd u)))) rs args = Inr rs'"
          by (auto simp: res_simps in_strs_Inr Let_def map_of_eq_None_iff split: json.splits if_splits option.splits)
        let ?w = "if op = ''LEN'' then ''str'' else ''int''"
        have args': "map_of d ''args'' = Some (JList args)" "length args = n"
          using args by (auto simp: args_of_Inr dget_def split: option.splits)
        have "grows rs rs' \<and> rs_ok rs' \<and> (\<forall>a \<in> set args. arg_ok env ?w rs' a)"
        proof (rule args_loop_sound [OF loop _ prems(2)])
          fix a rs s rs1
          assume a: "a \<in> set args" and rest: "term_sort a env rs = Inr (s, rs1)" "rs_ok rs"
          from args a have "size a < size t" unfolding t by (auto intro: size_args_of)
          from less.IH [OF this rest prems(3)] show "grows rs rs1 \<and> rs_ok rs1 \<and> term_ok env a s rs1" .
        qed (simp add: DOMAINS_def)
        moreover have "\<exists>i. eval_term (JObj d) m = Inr (JInt i)"
          if "\<forall>a \<in> set args. arg_ok env ?w rs' a" "env_ok env m" "result_ok rs' m" for m
        proof -
          from mapM_args [OF that] obtain vs where
            vs: "mapM (\<lambda>x. eval_term x m) args = Inr vs" "length vs = length args" "list_all (\<lambda>v. has_sort v ?w) vs"
            by blast
          with arith_sorted [OF op(2)] args' obtain i where "apply_op (JStr op) vs = Inr (JInt i)"
            by auto
          moreover have "ditem d ''op'' = Inr (JStr op)"
            using op(1) by (auto simp: dget_def ditem_def split: option.splits)
          ultimately show ?thesis using noparam noresult nolit args'(1) vs(1) by simp
        qed
        moreover have int_sorted: "has_sort (JInt i) ''int''" for i by (simp add: has_sort_def)
        ultimately show "grows rs rs' \<and> rs_ok rs' \<and> term_ok env (JObj d) s rs'"
          unfolding s term_ok_def using int_sorted by (simp add: DOMAINS_def del: eval_term.simps) blast
      qed
    qed
  qed
  then show ?case unfolding t .
qed

lemma compare_sorted:
  assumes "has_sort x s" and "has_sort y s"
  shows "\<exists>b. py_compare op x y = Inr b"
proof -
  have "\<exists>b. py_less x y = Inr b" "\<exists>b. py_less y x = Inr b"
    using assms by (cases x; cases y; simp add: has_sort_def py_less_def)+
  then show ?thesis by (auto simp: py_compare_def Let_def)
qed

lemma check_compare_sound:
  assumes chk: "check_compare op [a, b] env rs = Inr rs'" and ok: "rs_ok rs"
    and dom: "set (map snd env) \<subseteq> set DOMAINS"
  shows "grows rs rs' \<and> rs_ok rs' \<and> (\<exists>s \<in> set DOMAINS. arg_ok env s rs' a \<and> arg_ok env s rs' b)"
proof -
  from chk obtain sa rs1 sb rs2 sort where
    a: "term_sort a env rs = Inr (sa, rs1)" and b: "term_sort b env rs1 = Inr (sb, rs2)"
    and not_both: "\<not> (sa = ''result?'' \<and> sb = ''result?'')"
    and un: "(if sa = ''result?'' then unify sa sb rs2
              else if sb = ''result?'' then unify sb sa rs2 else unify sa sb rs2) = Inr (sort, rs')"
    by (auto simp: check_compare_def res_simps split: if_splits)
  from term_sort_sound [OF a ok dom] have A: "grows rs rs1" "rs_ok rs1" "term_ok env a sa rs1" by blast+
  from term_sort_sound [OF b A(2) dom] have B: "grows rs1 rs2" "rs_ok rs2" "term_ok env b sb rs2" by blast+
  have A2: "term_ok env a sa rs2" using A(3) B(1) by (rule term_ok_grows)
  have "grows rs2 rs' \<and> rs_ok rs' \<and> (\<exists>s \<in> set DOMAINS. arg_ok env s rs' a \<and> arg_ok env s rs' b)"
  proof (cases "sa = ''result?''")
    case True
    then have sb: "sb \<in> set DOMAINS" "arg_ok env sb rs2 b"
      using not_both B(3) by (auto simp: term_ok_def arg_ok_def)
    from un True have "unify sa sb rs2 = Inr (sort, rs')" by simp
    from unify_sound [OF this A2 B(2) sb(1)] sb show ?thesis by (blast intro: arg_ok_grows)
  next
    case False
    then have sa: "sa \<in> set DOMAINS" "arg_ok env sa rs2 a"
      using A2 by (auto simp: term_ok_def arg_ok_def)
    have "\<exists>s'. unify sb sa rs2 = Inr (s', rs')"
      using un False by (auto simp: unify_def split: if_splits)
    then obtain s' where "unify sb sa rs2 = Inr (s', rs')" ..
    from unify_sound [OF this B(3,2) sa(1)] sa show ?thesis by (blast intro: arg_ok_grows)
  qed
  with A B show ?thesis by (blast intro: grows_trans)
qed

definition behavioral :: "json \<Rightarrow> bool" where
  "behavioral f \<longleftrightarrow> list_all (\<lambda>op. op \<notin> set STRUCTURAL \<and> op \<notin> set RESERVED) (operators f)"

lemma behavioral_op:
  "behavioral (JObj d) \<Longrightarrow> dget d ''op'' JNull = JStr op \<Longrightarrow> op \<notin> set STRUCTURAL \<and> op \<notin> set RESERVED"
  by (simp add: behavioral_def)

lemma behavioral_arg:
  assumes "behavioral (JObj d)" and "map_of d ''args'' = Some (JList xs)" and "x \<in> set xs"
  shows "behavioral x"
proof -
  have "(''args'', JList xs) \<in> set d" using assms(2) by (rule map_of_SomeD)
  with assms(3) have "set (operators x) \<subseteq> set (operators (JObj d))" by force
  with assms(1) show ?thesis by (auto simp: behavioral_def list_all_iff)
qed

definition evals :: "sorts \<Rightarrow> string option \<Rightarrow> json \<Rightarrow> bool" where
  "evals env rs f \<longleftrightarrow> (\<forall>m. env_ok env m \<longrightarrow> result_ok rs m \<longrightarrow> (\<exists>b. eval_formula f m = Inr b))"

lemma evals_grows: "evals env a f \<Longrightarrow> grows a b \<Longrightarrow> evals env b f"
  unfolding evals_def by (blast dest: result_ok_grows)

lemma is_bool_litE:
  assumes "is_bool_lit a"
  obtains d b where "a = JObj d" and "map_of d ''lit'' = Some (JBool b)"
proof (cases a)
  case (JObj d)
  with assms that show ?thesis
    by (cases "map_of d ''lit''"; simp add: is_bool_lit_def) (simp split: json.split_asm)
qed (use assms in \<open>simp_all add: is_bool_lit_def\<close>)

lemma eval_bool_lit:
  "is_bool_lit a \<Longrightarrow> \<exists>b. eval_formula a m = Inr b"
  by (erule is_bool_litE) simp

lemma evals_bool_lit: "is_bool_lit a \<Longrightarrow> evals env rs a"
  unfolding evals_def using eval_bool_lit by blast

lemma boolean_loop_sound:
  assumes "foldM (\<lambda>rs a. if is_bool_lit a then Inr rs else check_formula a env rs fn) rs args = Inr rs'"
    and "\<And>a rs rs1. a \<in> set args \<Longrightarrow> check_formula a env rs fn = Inr rs1 \<Longrightarrow> rs_ok rs \<Longrightarrow>
           grows rs rs1 \<and> rs_ok rs1 \<and> (behavioral a \<longrightarrow> evals env rs1 a)"
    and "rs_ok rs"
  shows "grows rs rs' \<and> rs_ok rs' \<and> (\<forall>a \<in> set args. behavioral a \<longrightarrow> evals env rs' a)"
  using assms
proof (induction args arbitrary: rs)
  case (Cons a args)
  from Cons.prems(1) obtain rs1 where
    step: "(if is_bool_lit a then Inr rs else check_formula a env rs fn) = Inr rs1"
    and rest: "foldM (\<lambda>rs a. if is_bool_lit a then Inr rs else check_formula a env rs fn) rs1 args = Inr rs'"
    by (auto simp: res_simps)
  have a: "grows rs rs1 \<and> rs_ok rs1 \<and> (behavioral a \<longrightarrow> evals env rs1 a)"
  proof (cases "is_bool_lit a")
    case True
    with step Cons.prems(3) show ?thesis by (simp add: evals_bool_lit)
  next
    case False
    with step have "check_formula a env rs fn = Inr rs1" by simp
    from Cons.prems(2) [OF _ this Cons.prems(3)] show ?thesis by simp
  qed
  then have "rs_ok rs1" by blast
  have "grows rs1 rs' \<and> rs_ok rs' \<and> (\<forall>a \<in> set args. behavioral a \<longrightarrow> evals env rs' a)"
    by (rule Cons.IH [OF rest _ \<open>rs_ok rs1\<close>]) (rule Cons.prems(2), auto)
  with a show ?case by (simp add: grows_trans [of rs rs1 rs']) (blast intro: grows_trans evals_grows)
qed simp

text \<open>Evaluation of a boolean operator whose arguments all evaluate.\<close>

lemma allM_total: "\<forall>x \<in> set xs. \<exists>b. p x = Inr b \<Longrightarrow> \<exists>b. allM p xs = Inr b"
  by (induction xs) auto

lemma anyM_total: "\<forall>x \<in> set xs. \<exists>b. p x = Inr b \<Longrightarrow> \<exists>b. anyM p xs = Inr b"
  by (induction xs) auto

lemma eval_boolean_total:
  assumes lit: "map_of d ''lit'' = None" and op: "map_of d ''op'' = Some (JStr op)" "op \<in> set BOOLEAN"
    and args: "map_of d ''args'' = Some (JList xs)" "boolean_arity op (length xs)"
    and total: "\<forall>x \<in> set xs. \<exists>b. eval_formula x m = Inr b"
  shows "\<exists>b. eval_formula (JObj d) m = Inr b"
proof -
  have notcmp: "op \<notin> set COMPARE" using op(2) by (auto simp: BOOLEAN_def COMPARE_def)
  from op(2) consider "op = ''AND''" | "op = ''OR''" | "op = ''NOT''" | "op = ''IMPLIES''" | "op = ''IFF''"
    by (auto simp: BOOLEAN_def)
  then show ?thesis
  proof cases
    case 1
    with lit op args notcmp allM_total [OF total] show ?thesis by simp
  next
    case 2
    with lit op args notcmp anyM_total [OF total] show ?thesis by simp
  next
    case 3
    with args(2) obtain x where "xs = [x]" by (auto simp: boolean_arity_def length_Suc_conv)
    with 3 lit op args notcmp total show ?thesis by (auto simp: index_arg_def arg_at_def)
  next
    case 4
    with args(2) obtain x y where "xs = [x, y]"
      by (auto simp: boolean_arity_def length_Suc_conv numeral_2_eq_2)
    with 4 lit op args notcmp total show ?thesis by (auto simp: index_arg_def arg_at_def)
  next
    case 5
    with args(2) obtain x y where "xs = [x, y]"
      by (auto simp: boolean_arity_def length_Suc_conv numeral_2_eq_2)
    with 5 lit op args notcmp total show ?thesis by (auto simp: index_arg_def arg_at_def)
  qed
qed

lemma dget_JNullD: "dget d k JNull = v \<Longrightarrow> v \<noteq> JNull \<Longrightarrow> map_of d k = Some v"
  by (auto simp: dget_def split: option.splits)

lemma check_formula_evals:
  "check_formula f env rs fn = Inr rs' \<Longrightarrow> rs_ok rs \<Longrightarrow> set (map snd env) \<subseteq> set DOMAINS \<Longrightarrow>
   grows rs rs' \<and> rs_ok rs' \<and> (behavioral f \<longrightarrow> evals env rs' f)"
proof (induction f arbitrary: rs rs' rule: measure_induct_rule [where f = size])
  case (less f)
  then obtain d where f: "f = JObj d" by (cases f) simp_all
  note prems = less.prems [unfolded f]
  from prems(1) obtain op where op: "dget d ''op'' JNull = JStr op"
    by (auto split: json.splits)
  note op' = dget_JNullD [OF op, simplified]
  from prems(1) op have keys: "set (map fst d) \<subseteq> set formula_keys" by (auto split: if_splits)
  then have lit: "map_of d ''lit'' = None" by (auto simp: map_of_eq_None_iff formula_keys_def)
  have "grows rs rs' \<and> rs_ok rs' \<and> (behavioral (JObj d) \<longrightarrow> evals env rs' (JObj d))"
  proof (cases "op \<in> set COMPARE")
    case True
    with prems(1) op keys obtain args where args: "dget d ''args'' JNull = JList args" "length args = 2"
      and chk: "check_compare op args env rs = Inr rs'"
      by (auto simp: res_simps args_of_Inr)
    then obtain a b where ab: "args = [a, b]" by (auto simp: length_Suc_conv numeral_2_eq_2)
    note cmp = check_compare_sound [OF chk [unfolded ab] prems(2,3)]
    have "evals env rs' (JObj d)" unfolding evals_def
    proof (intro allI impI)
      fix m assume m: "env_ok env m" "result_ok rs' m"
      with cmp obtain s x y where "eval_term a m = Inr x" "eval_term b m = Inr y" "has_sort x s" "has_sort y s"
        unfolding arg_ok_def by blast
      with compare_sorted [of x s y op] dget_JNullD [OF args(1)] ab op' lit True
      show "\<exists>b. eval_formula (JObj d) m = Inr b" by (auto simp: eval_compare_def)
    qed
    with cmp show ?thesis by blast
  next
    case notcmp: False
    show ?thesis
    proof (cases "op \<in> set BOOLEAN")
      case True
      with prems(1) op keys notcmp obtain args where args: "dget d ''args'' JNull = JList args"
        and arity: "boolean_arity op (length args)"
        and loop: "foldM (\<lambda>rs a. if is_bool_lit a then Inr rs else check_formula a env rs fn) rs args = Inr rs'"
        by (auto split: json.splits if_splits)
      have args': "map_of d ''args'' = Some (JList args)" by (rule dget_JNullD [OF args]) simp
      have L: "grows rs rs' \<and> rs_ok rs' \<and> (\<forall>a \<in> set args. behavioral a \<longrightarrow> evals env rs' a)"
      proof (rule boolean_loop_sound [OF loop _ prems(2)])
        fix a rs rs1 assume a: "a \<in> set args" and rest: "check_formula a env rs fn = Inr rs1" "rs_ok rs"
        from args a have "size a < size f" unfolding f by (auto intro: size_arg)
        from less.IH [OF this rest prems(3)] show "grows rs rs1 \<and> rs_ok rs1 \<and> (behavioral a \<longrightarrow> evals env rs1 a)" .
      qed
      moreover have "evals env rs' (JObj d)" if beh: "behavioral (JObj d)" unfolding evals_def
      proof (intro allI impI)
        fix m assume m: "env_ok env m" "result_ok rs' m"
        have "\<forall>x \<in> set args. \<exists>b. eval_formula x m = Inr b"
          using L m behavioral_arg [OF beh args'] unfolding evals_def by blast
        then show "\<exists>b. eval_formula (JObj d) m = Inr b"
          by (rule eval_boolean_total [OF lit op' True args' arity])
      qed
      ultimately show ?thesis by blast
    next
      case notbool: False
      have names: "JStr op \<notin> {JStr ''AND'', JStr ''OR'', JStr ''NOT'', JStr ''IMPLIES'', JStr ''IFF''}"
        using notbool by (auto simp: BOOLEAN_def)
      from prems(1) op keys notcmp notbool have rs': "rs' = rs"
        by (auto simp: res_simps split: if_splits)
      have "evals env rs' (JObj d)" if "behavioral (JObj d)"
      proof -
        from behavioral_op [OF that op] prems(1) op keys notcmp notbool have "op \<in> set OUTCOME"
          by (auto split: if_splits)
        with names lit op' notcmp show ?thesis by (simp add: evals_def)
      qed
      with rs' prems(2) show ?thesis by simp
    qed
  qed
  then show ?case unfolding f .
qed

section \<open>The sampled domains\<close>

lemma foldl_dedupe_set:
  "set (foldl (\<lambda>acc a. if py_mem a acc then acc else acc @ [a]) acc xs) \<subseteq> set acc \<union> set xs"
proof (induction xs arbitrary: acc)
  case (Cons x xs)
  show ?case using Cons.IH [of acc] Cons.IH [of "acc @ [x]"] by (auto split: if_splits)
qed simp

lemma dedupe_subset: "set (dedupe xs) \<subseteq> set xs"
  using foldl_dedupe_set [of "[]" xs] by (simp add: dedupe_def)

lemma foldl_dedupe_length:
  "length (foldl (\<lambda>acc a. if py_mem a acc then acc else acc @ [a]) acc xs) \<le> length acc + length xs"
proof (induction xs arbitrary: acc)
  case (Cons x xs)
  show ?case using Cons.IH [of acc] Cons.IH [of "acc @ [x]"] by auto
qed simp

lemma dedupe_length: "length (dedupe xs) \<le> length xs"
  using foldl_dedupe_length [of "[]" xs] by (simp add: dedupe_def)

lemma foldl_dedupe_keeps:
  "set acc \<subseteq> set (foldl (\<lambda>acc a. if py_mem a acc then acc else acc @ [a]) acc xs)"
proof (induction xs arbitrary: acc)
  case (Cons x xs)
  show ?case using Cons.IH [of acc] Cons.IH [of "acc @ [x]"] by auto
qed simp

lemma dedupe_nonempty: "xs \<noteq> [] \<Longrightarrow> dedupe xs \<noteq> []"
proof (cases xs)
  case (Cons x ys)
  then show ?thesis using foldl_dedupe_keeps [of "[x]" ys] by (auto simp: dedupe_def)
qed simp

lemma base_values_sorted:
  "base_values s = Inr vs \<Longrightarrow> list_all (\<lambda>v. has_sort v s) vs \<and> vs \<noteq> [] \<and> length vs \<le> 6"
  by (auto simp: base_values_def has_sort_def split: if_splits)

lemma sample_values_sorted:
  assumes "sample_values s lits = Inr vs"
  shows "(\<forall>v \<in> set vs. has_sort v s) \<and> vs \<noteq> [] \<and> length vs \<le> 10"
proof -
  let ?extra = "take 4 (filter (\<lambda>v. has_sort v s) lits)"
  from assms obtain base where b: "base_values s = Inr base" and vs: "vs = dedupe (base @ ?extra)"
    by (auto simp: sample_values_def res_simps)
  note base = base_values_sorted [OF b]
  have "set vs \<subseteq> set base \<union> set ?extra" using dedupe_subset [of "base @ ?extra"] vs by simp
  moreover have "\<forall>v \<in> set ?extra. has_sort v s" by (auto dest: in_set_takeD)
  moreover have "length vs \<le> length base + 4"
    using dedupe_length [of "base @ ?extra"] vs by simp
  moreover have "vs \<noteq> []" using base vs by (simp add: dedupe_nonempty)
  ultimately show ?thesis using base unfolding list_all_iff by (intro conjI ballI) (blast, blast, linarith)
qed

lemma product_length: "length (product xss) = prod_list (map length xss)"
proof (induction xss)
  case (Cons xs xss)
  have "sum_list (map (\<lambda>x. length (product xss)) ys) = length ys * length (product xss)" for ys :: "'a list"
    by (induction ys) auto
  then show ?case using Cons by (simp add: length_concat comp_def)
qed simp

lemma product_member: "combo \<in> set (product xss) \<longleftrightarrow> list_all2 (\<lambda>v xs. v \<in> set xs) combo xss"
proof (induction xss arbitrary: combo)
  case (Cons xs xss)
  then show ?case by (cases combo) auto
qed auto

text \<open>The environment a combination of values gives.\<close>

definition bind_all :: "(string \<times> json) list \<Rightarrow> dict \<Rightarrow> dict" where
  "bind_all pvs m = foldl (\<lambda>m (p, v). dset p v m) m pvs"

lemma bind_all_lookup:
  "distinct (map fst pvs) \<Longrightarrow> map_of (bind_all pvs m) k =
     (case map_of pvs k of Some v \<Rightarrow> Some v | None \<Rightarrow> map_of m k)"
proof (induction pvs arbitrary: m)
  case (Cons pv pvs)
  then show ?case
    by (cases pv) (force simp: bind_all_def map_of_update split: option.split dest: map_of_SomeD)
qed (simp add: bind_all_def)

lemma binding_checked:
  assumes "check_binding fn env b = Inr env'"
  obtains p s d where "b = JObj d" and "env' = env @ [(p, s)]" and "s \<in> set DOMAINS"
    and "p \<notin> set (map fst env)" and "map_of d ''param'' = Some (JStr p)"
    and "map_of d ''domain'' = Some (JStr s)" and "p \<in> set (map p_id (f_params fn))"
proof -
  from assms obtain d where b: "b = JObj d" by (cases b) (simp_all add: check_binding_def)
  from assms b obtain i where i: "dget d ''param'' JNull = JStr i"
    by (cases "dget d ''param'' JNull") (simp_all add: check_binding_def split: if_splits)
  from assms b i obtain p where p: "find_param fn i = Some p"
    by (cases "find_param fn i") (simp_all add: check_binding_def split: if_splits)
  from assms b i p obtain s where s: "dget d ''domain'' JNull = JStr s"
    by (cases "dget d ''domain'' JNull") (simp_all add: check_binding_def res_simps split: if_splits)
  from assms b i p s have rest: "s \<in> set DOMAINS" "p_id p \<notin> set (map fst env)" "env' = env @ [(p_id p, s)]"
    by (simp_all add: check_binding_def split: if_splits)
  from p have "p_id p = i" "p \<in> set (f_params fn)"
    by (auto simp: find_param_def dest: find_SomeD)
  with that [OF b rest(3,1,2)] show ?thesis using dget_JNullD [OF i] dget_JNullD [OF s] by auto
qed

lemma check_forall_env:
  "foldM (check_binding fn) env bs = Inr env' \<Longrightarrow> distinct (map fst env) \<Longrightarrow>
   \<exists>new. env' = env @ new \<and> distinct (map fst env') \<and> set (map snd new) \<subseteq> set DOMAINS \<and>
     set (map fst new) \<subseteq> set (map p_id (f_params fn)) \<and>
     list_all2 (\<lambda>b (p, s). \<forall>lits. binding_domain lits b =
        rbind (sample_values s lits) (\<lambda>vs. Inr (p, vs))) bs new"
proof (induction bs arbitrary: env)
  case (Cons b bs)
  from Cons.prems(1) obtain env1 where
    step: "check_binding fn env b = Inr env1" and rest: "foldM (check_binding fn) env1 bs = Inr env'"
    by (auto simp: res_simps)
  from step obtain p s d where b: "b = JObj d" "env1 = env @ [(p, s)]" "s \<in> set DOMAINS"
    "p \<notin> set (map fst env)" "map_of d ''param'' = Some (JStr p)" "map_of d ''domain'' = Some (JStr s)"
    "p \<in> set (map p_id (f_params fn))"
    by (rule binding_checked)
  have dist: "distinct (map fst env1)" using b(2,4) Cons.prems(2) by simp
  have bd: "\<forall>lits. binding_domain lits b = rbind (sample_values s lits) (\<lambda>vs. Inr (p, vs))"
    by (simp add: b binding_domain_def ditem_def text_of_def)
  from Cons.IH [OF rest dist] obtain new where new: "env' = env1 @ new" "distinct (map fst env')"
     "set (map snd new) \<subseteq> set DOMAINS" "set (map fst new) \<subseteq> set (map p_id (f_params fn))"
     "list_all2 (\<lambda>b (p, s). \<forall>lits. binding_domain lits b =
        rbind (sample_values s lits) (\<lambda>vs. Inr (p, vs))) bs new" by blast
  show ?case
    by (rule exI [of _ "(p, s) # new"]) (use new b bd in simp)
qed simp

lemma doms_match:
  assumes "list_all2 (\<lambda>b (p, s). \<forall>lits. binding_domain lits b =
        rbind (sample_values s lits) (\<lambda>vs. Inr (p, vs))) bs env"
    and "mapM (binding_domain lits) bs = Inr doms"
  shows "list_all2 (\<lambda>(p, s) (q, vs). q = p \<and> sample_values s lits = Inr vs) env doms"
  using assms
proof (induction bs env arbitrary: doms rule: list_all2_induct)
  case (Cons b bs ps env)
  obtain p s where ps: "ps = (p, s)" by (cases ps)
  from Cons(4) obtain dm dms where dm: "binding_domain lits b = Inr dm"
    and dms: "mapM (binding_domain lits) bs = Inr dms" and doms: "doms = dm # dms"
    by (auto simp: res_simps)
  from dm Cons(1) ps obtain vs where "sample_values s lits = Inr vs" "dm = (p, vs)"
    by (auto simp: res_simps)
  with Cons(3) [OF dms] ps doms show ?case by simp
qed simp

lemma option_case_id: "(case x of None \<Rightarrow> map_of [] p | Some v \<Rightarrow> Some v) = x"
  by (cases x) simp_all

lemma combo_env_ok:
  assumes "list_all2 (\<lambda>(p, s) (q, vs). q = p \<and> sample_values s lits = Inr vs) env doms"
    and "list_all2 (\<lambda>v xs. v \<in> set xs) combo (map snd doms)"
    and "distinct (map fst env)" and "set (map snd env) \<subseteq> set DOMAINS"
  shows "env_ok env (bind_all (zip (map fst doms) combo) [])"
proof -
  have len: "length env = length doms" "length combo = length doms"
    using assms(1,2) by (auto dest: list_all2_lengthD)
  have names: "map fst doms = map fst env"
    using assms(1) by (induction rule: list_all2_induct) auto
  have pairs: "map_of (zip (map fst doms) combo) (fst (env ! i)) = Some (combo ! i)" if "i < length env" for i
    using map_of_zip_nth [of "map fst env" combo i] that len assms(3) unfolding names by simp
  have good: "has_sort (combo ! i) (snd (env ! i))" if "i < length env" for i
  proof -
    have "sample_values (snd (env ! i)) lits = Inr (snd (doms ! i))"
      using list_all2_nthD [OF assms(1) that] by (auto split: prod.splits)
    moreover have "combo ! i \<in> set (snd (doms ! i))"
      using list_all2_nthD2 [OF assms(2), of i] that len by simp
    ultimately show ?thesis using sample_values_sorted by blast
  qed
  show ?thesis unfolding env_ok_def
  proof (clarify, intro conjI)
    fix p s assume ps: "(p, s) \<in> set env"
    then show "s \<in> set DOMAINS" using assms(4) by force
    from ps obtain i where i: "i < length env" "env ! i = (p, s)" by (auto simp: in_set_conv_nth)
    have "map_of (bind_all (zip (map fst doms) combo) []) p = map_of (zip (map fst doms) combo) p"
      using len names assms(3)
      by (simp add: bind_all_lookup option_case_id)
    then show "\<exists>v. map_of (bind_all (zip (map fst doms) combo) []) p = Some v \<and> has_sort v s"
      using pairs [OF i(1)] good [OF i(1)] i(2) by simp
  qed
qed

lemma check_pres_rs_ok:
  assumes "foldM (check_pre env fn) None pres = Inr rs" and "set (map snd env) \<subseteq> set DOMAINS"
  shows "rs_ok rs"
  using assms(1)
proof (rule foldM_invariant)
  fix rs x rs' assume "rs_ok rs" "check_pre env fn rs x = Inr rs'"
  then show "rs_ok rs'" using check_formula_evals [OF _ _ assms(2)]
    by (auto simp: check_pre_def split: if_splits)
qed (simp add: rs_ok_def)

lemma map_of_other:
  "j \<noteq> k \<Longrightarrow> map_of (dset k v d) j = map_of d j"
  "j \<noteq> k \<Longrightarrow> map_of (dsetdefault k v d) j = map_of d j"
  by (simp_all add: map_of_dsetdefault map_of_update)

lemma result_sort_field:
  "map_of (dsetdefault ''status'' a (dset ''id'' b (dset ''property'' c (dset ''preconditions'' e
     (dset ''structural'' f (dset ''result_sort'' g d)))))) ''result_sort'' = Some g"
  by (simp add: map_of_other map_of_update)

lemma normalize_result_sort:
  assumes "normalize sha P cat rs st claim = Inr out"
  shows "map_of out ''result_sort'' = Some (sort_json rs)"
proof -
  from assms obtain a b c e f d where "Inr (dsetdefault ''status'' a (dset ''id'' b (dset ''property'' c
      (dset ''preconditions'' e (dset ''structural'' f (dset ''result_sort'' (sort_json rs) d)))))) = (Inr out :: dict res)"
    unfolding normalize_def Let_def rbind_eq_Inr by blast
  then have out: "out = dsetdefault ''status'' a (dset ''id'' b (dset ''property'' c
      (dset ''preconditions'' e (dset ''structural'' f (dset ''result_sort'' (sort_json rs) d)))))"
    by (simp only: sum.inject)
  show ?thesis unfolding out by (rule result_sort_field)
qed

lemma env_ok_frame:
  assumes "env_ok env m" and "k \<notin> set (map fst env)"
  shows "env_ok env (dset k v m)"
proof -
  have "p \<noteq> k" if "(p, s) \<in> set env" for p s
    using that assms(2) by force
  with assms(1) show ?thesis unfolding env_ok_def by (auto simp: map_of_other)
qed

section \<open>Properties\<close>

text \<open>
  The sort checker is sound for the evaluator. If a formula without structural or
  reserved operators passes \<open>_formula\<close>, then it evaluates to a boolean in every
  environment that gives each quantified parameter a value of its sort and, once a sort was
  inferred for the result, gives the result a value of that sort: no \<open>TypeError\<close>,
  \<open>KeyError\<close> or \<open>Undefined\<close> can occur.
\<close>

theorem check_formula_sound:
  assumes "check_formula f env None fn = Inr rs" and "set (map snd env) \<subseteq> set DOMAINS"
    and "behavioral f" and "env_ok env m" and "result_ok rs m"
  shows "\<exists>b. eval_formula f m = Inr b"
  using check_formula_evals [OF assms(1) _ assms(2)] assms(3-5)
  by (auto simp: rs_ok_def evals_def)

definition demo_formula :: json where
  "demo_formula = JObj [(''op'', JStr ''LT''), (''args'', JList
     [JObj [(''param'', JStr ''V_0001'')], JObj [(''result'', JBool True)]])]"

lemma check_formula_sound_witness:
  "check_formula demo_formula [(''V_0001'', ''int'')] None (hd (pr_functions demo_program)) = Inr (Some ''int'') \<and>
   (\<exists>b. eval_formula demo_formula [(''V_0001'', JInt 2), (''result'', JInt 3)] = Inr b)"
proof -
  have chk: "check_formula demo_formula [(''V_0001'', ''int'')] None (hd (pr_functions demo_program)) = Inr (Some ''int'')"
    by code_simp
  have "env_ok [(''V_0001'', ''int'')] [(''V_0001'', JInt 2), (''result'', JInt 3)]"
    by (simp add: env_ok_def has_sort_def DOMAINS_def)
  moreover have "result_ok (Some ''int'') [(''V_0001'', JInt 2), (''result'', JInt 3)]"
    by (simp add: result_ok_def has_sort_def)
  moreover have "behavioral demo_formula" by code_simp
  ultimately have "\<exists>b. eval_formula demo_formula [(''V_0001'', JInt 2), (''result'', JInt 3)] = Inr b"
    by (intro check_formula_sound [OF chk]) (simp_all add: DOMAINS_def)
  with chk show ?thesis by blast
qed

text \<open>
  A sampled domain is never empty, holds at most ten values, and every value has the
  sort of the domain, whatever literals the function contributes.
\<close>

theorem sampled_domain:
  assumes "sample_values s lits = Inr vs"
  shows "vs \<noteq> [] \<and> length vs \<le> 10 \<and> list_all (\<lambda>v. has_sort v s) vs"
  using sample_values_sorted [OF assms] by (simp add: list_all_iff)

lemma sampled_domain_witness:
  "\<exists>vs. sample_values ''int'' [JInt 7, JBool True, JStr ''x'', JInt 2] = Inr vs \<and> length vs \<le> 10 \<and>
        list_all (\<lambda>v. has_sort v ''int'') vs"
proof -
  have "sample_values ''int'' [JInt 7, JBool True, JStr ''x'', JInt 2] =
      Inr (map JInt [-2, -1, 0, 1, 2, 3, 7])" by code_simp
  from this sampled_domain [OF this] show ?thesis by blast
qed


text \<open>A claim about \<open>m.g\<close>: its result is above its parameter.\<close>

definition demo_claim :: dict where
  "demo_claim = [(''scope'', JObj [(''kind'', JStr ''function''), (''target'', JStr ''F_0002'')]),
     (''forall'', JList [JObj [(''param'', JStr ''V_0002''), (''domain'', JStr ''int'')]]),
     (''property'', JObj [(''op'', JStr ''LT''), (''args'', JList
        [JObj [(''param'', JStr ''V_0002'')], JObj [(''result'', JBool True)]])])]"

definition demo_property :: json where
  "demo_property = JObj [(''op'', JStr ''LT''), (''args'', JList
        [JObj [(''param'', JStr ''V_0002'')], JObj [(''result'', JBool True)]])]"

definition demo_claim_out :: dict where
  "demo_claim_out = projr (validate (\<lambda>s. ''0123456789ab'') demo_program (JObj demo_claim))"

lemma demo_claim_valid: "\<not> isl (validate (\<lambda>s. ''0123456789ab'') demo_program (JObj demo_claim))"
  by code_simp

lemma demo_claim_validates:
  "validate (\<lambda>s. ''0123456789ab'') demo_program (JObj demo_claim) = Inr demo_claim_out"
  using demo_claim_valid unfolding demo_claim_out_def
  by (cases "validate (\<lambda>s. ''0123456789ab'') demo_program (JObj demo_claim)") simp_all

lemma demo_params: "\<forall>f \<in> set (pr_functions demo_program). ''result'' \<notin> set (map p_id (f_params f))"
  by code_simp


text \<open>A literal argument that also carries an operator: \<open>_formula\<close> skips it without a look.\<close>

definition smuggled :: json where
  "smuggled = JObj [(''op'', JStr ''AND''), (''args'', JList
     [JObj [(''lit'', JBool True), (''op'', JStr ''AND''), (''args'', JList [JObj [(''lit'', JBool False)]])],
      JObj [(''lit'', JBool True)]])]"

text \<open>
  C5. The canonical form can change what a validated formula means. A literal argument
  is accepted unseen by \<open>_formula\<close>, whatever other fields it has; \<open>canonical\<close> reads its
  \<open>op\<close> and \<open>args\<close> when it flattens. The formula below is accepted and evaluates to true
  in every environment; its canonical form, which is what \<open>validate\<close> returns, evaluates to
  false.
\<close>

theorem canonical_changes_meaning:
  "check_formula smuggled env rs fn = Inr rs \<and> eval_formula smuggled m = Inr True \<and>
   (\<exists>g. canonical smuggled = Inr g \<and> eval_formula g m = Inr False)"
proof -
  have can: "canonical smuggled = Inr (JObj [(''op'', JStr ''AND''),
      (''args'', JList [JObj [(''lit'', JBool False)], JObj [(''lit'', JBool True)]])])"
    by code_simp
  have chk: "check_formula smuggled env rs fn = Inr rs"
    by (simp add: smuggled_def COMPARE_def BOOLEAN_def boolean_arity_def is_bool_lit_def formula_keys_def)
  show ?thesis unfolding can chk by (simp add: smuggled_def COMPARE_def)
qed

end
