(* ===== verification/RivalGroups.thy ===== *)
theory RivalGroups
  imports Critic
begin

text \<open>
  The union-find of \<open>rival_groups\<close> (\<open>src/src/autoform/harness/critic.py\<close>): the parent
  table is a forest, \<open>find\<close> with path halving terminates and keeps every representative,
  \<open>union\<close> joins two classes. What the grouping needs of a disjoint-set structure is the
  locale \<open>disjoint_sets\<close>; it is interpreted on the code's table.
\<close>

section \<open>The interface\<close>

locale disjoint_sets =
  fixes find :: "'s \<Rightarrow> 'a \<Rightarrow> ('a \<times> 's) res"
    and union :: "'s \<Rightarrow> 'a \<Rightarrow> 'a \<Rightarrow> 's res"
    and invar :: "'s \<Rightarrow> bool"
    and elems :: "'s \<Rightarrow> 'a set"
    and rep :: "'s \<Rightarrow> 'a \<Rightarrow> 'a"
  assumes find_law: "invar s \<Longrightarrow> x \<in> elems s \<Longrightarrow>
      \<exists>s'. find s x = Inr (rep s x, s') \<and> invar s' \<and> elems s' = elems s \<and>
           (\<forall>y \<in> elems s. rep s' y = rep s y)"
    and union_law: "invar s \<Longrightarrow> a \<in> elems s \<Longrightarrow> b \<in> elems s \<Longrightarrow>
      \<exists>s'. union s a b = Inr s' \<and> invar s' \<and> elems s' = elems s \<and>
           (\<forall>y \<in> elems s. rep s' y = (if rep s y = rep s a then rep s b else rep s y))"
begin

text \<open>
  What a state stands for: the links \<open>L\<close> made so far are respected, and nothing is joined
  that the relation \<open>E\<close> does not connect.
\<close>

definition stands_for :: "'a set \<Rightarrow> ('a \<Rightarrow> 'a \<Rightarrow> bool) \<Rightarrow> ('a \<times> 'a) set \<Rightarrow> 's \<Rightarrow> bool" where
  "stands_for U E L s \<longleftrightarrow>
     invar s \<and> elems s = U \<and> (\<forall>(a, b) \<in> L. a \<in> U \<and> b \<in> U \<and> E a b \<and> rep s a = rep s b) \<and>
     (\<forall>x \<in> U. \<forall>y \<in> U. rep s x = rep s y \<longrightarrow> equivclp E x y)"

lemma stands_find:
  assumes st: "stands_for U E L s" and x: "x \<in> U"
  shows "\<exists>s'. find s x = Inr (rep s x, s') \<and> stands_for U E L s' \<and> (\<forall>y \<in> U. rep s' y = rep s y)"
proof -
  from st have s: "invar s" "elems s = U" by (simp_all add: stands_for_def)
  with find_law [of s x] x obtain s' where
    s': "find s x = Inr (rep s x, s')" "invar s'" "elems s' = U" "\<forall>y \<in> U. rep s' y = rep s y" by auto
  have "a \<in> U \<and> b \<in> U \<and> E a b \<and> rep s' a = rep s' b" if "(a, b) \<in> L" for a b
    using st that s'(4) unfolding stands_for_def by fastforce
  moreover have "equivclp E x y" if "x \<in> U" "y \<in> U" "rep s' x = rep s' y" for x y
    using st that s'(4) unfolding stands_for_def by simp
  ultimately have "stands_for U E L s'" using s'(2,3) unfolding stands_for_def by blast
  with s' show ?thesis by blast
qed

lemma stands_union:
  assumes st: "stands_for U E L s" and ab: "a \<in> U" "b \<in> U" "E a b"
  shows "\<exists>s'. union s a b = Inr s' \<and> stands_for U E (insert (a, b) L) s'"
proof -
  from st have s: "invar s" "elems s = U"
    and links: "\<And>a b. (a, b) \<in> L \<Longrightarrow> a \<in> U \<and> b \<in> U \<and> E a b \<and> rep s a = rep s b"
    and sound: "\<And>x y. x \<in> U \<Longrightarrow> y \<in> U \<Longrightarrow> rep s x = rep s y \<Longrightarrow> equivclp E x y"
    by (auto simp: stands_for_def)
  from union_law [OF s(1), of a b] ab s(2) obtain s' where s': "union s a b = Inr s'" "invar s'" "elems s' = U"
    and rep: "\<And>y. y \<in> U \<Longrightarrow> rep s' y = (if rep s y = rep s a then rep s b else rep s y)"
    by auto
  have ab_conn: "equivclp E a b" using ab(3) by (rule r_into_equivclp)
  have to_b: "equivclp E z b" if "z \<in> U" "rep s z = rep s a \<or> rep s z = rep s b" for z
    using that sound [of z a] sound [of z b] ab ab_conn equivclp_trans by metis
  have conn: "equivclp E x y" if xy: "x \<in> U" "y \<in> U" "rep s' x = rep s' y" for x y
  proof (cases "rep s x = rep s y")
    case False
    with xy rep [OF xy(1)] rep [OF xy(2)] have
      "rep s x = rep s a \<or> rep s x = rep s b" "rep s y = rep s a \<or> rep s y = rep s b"
      by (auto split: if_splits)
    with to_b xy(1,2) show ?thesis by (meson equivclp_sym equivclp_trans)
  qed (use sound xy in blast)
  have "a' \<in> U \<and> b' \<in> U \<and> E a' b' \<and> rep s' a' = rep s' b'" if "(a', b') \<in> insert (a, b) L" for a' b'
    using that links [of a' b'] ab rep by auto
  with conn s' show ?thesis unfolding stands_for_def by blast
qed

text \<open>The linking loop: each item is decided, and linked when the decision is true.\<close>

lemma link_loop:
  assumes "stands_for U E L s"
    and "\<And>s p. p \<in> set ps \<Longrightarrow> step s p = (if linked p then union s (lo p) (hi p) else Inr s)"
    and "\<And>p. p \<in> set ps \<Longrightarrow> linked p \<Longrightarrow> lo p \<in> U \<and> hi p \<in> U \<and> E (lo p) (hi p)"
  shows "\<exists>s'. foldM step s ps = Inr s' \<and> stands_for U E (L \<union> {(lo p, hi p) |p. p \<in> set ps \<and> linked p}) s'"
  using assms
proof (induction ps arbitrary: s L)
  case (Cons p ps)
  let ?L = "if linked p then insert (lo p, hi p) L else L"
  have "\<exists>s1. step s p = Inr s1 \<and> stands_for U E ?L s1"
    using Cons.prems(1) Cons.prems(2) [of p s] Cons.prems(3) [of p]
      stands_union [OF Cons.prems(1), of "lo p" "hi p"] by auto
  then obtain s1 where s1: "step s p = Inr s1" "stands_for U E ?L s1" by blast
  from Cons.IH [OF s1(2)] Cons.prems(2,3) obtain s' where s': "foldM step s1 ps = Inr s'"
    "stands_for U E (?L \<union> {(lo p, hi p) |p. p \<in> set ps \<and> linked p}) s'" by auto
  moreover have "?L \<union> {(lo p, hi p) |p. p \<in> set ps \<and> linked p} = L \<union> {(lo q, hi q) |q. q \<in> set (p # ps) \<and> linked q}"
    by auto
  ultimately show ?case using s1(1) by simp
qed simp

theorem linked_classes:
  assumes "stands_for U E L s" and "\<And>a b. E a b \<Longrightarrow> (a, b) \<in> L" and "x \<in> U" and "y \<in> U"
  shows "rep s x = rep s y \<longleftrightarrow> equivclp E x y"
proof
  assume "equivclp E x y"
  then have "y \<in> U \<and> rep s x = rep s y"
  proof (induction rule: equivclp_induct)
    case (step y z)
    then show ?case using assms(1,2) unfolding stands_for_def by fastforce
  qed (use assms(3) in simp)
  then show "rep s x = rep s y" ..
qed (use assms in \<open>simp add: stands_for_def\<close>)

text \<open>The grouping loop: \<open>groups.setdefault(find(x), []).append(c)\<close> over the items.\<close>

lemma group_loop:
  assumes "stands_for U E L s"
    and "\<And>s gs c. c \<in> set cs \<Longrightarrow> step (s, gs) c = rbind (find s (key c)) (\<lambda>(r, s1).
           Inr (s1, AList.update r ((case map_of gs r of None \<Rightarrow> [] | Some cs \<Rightarrow> cs) @ [c]) gs))"
    and "\<And>c. c \<in> set cs \<Longrightarrow> key c \<in> U" and "\<And>y. y \<in> U \<Longrightarrow> rep s y = rp y"
  shows "\<exists>s' gs'. foldM step (s, gs) cs = Inr (s', gs') \<and>
           (\<forall>r. (case map_of gs' r of None \<Rightarrow> [] | Some cs \<Rightarrow> cs) =
             (case map_of gs r of None \<Rightarrow> [] | Some cs \<Rightarrow> cs) @ filter (\<lambda>c. rp (key c) = r) cs) \<and>
           (distinct (map fst gs) \<longrightarrow> distinct (map fst gs'))"
  using assms
proof (induction cs arbitrary: s gs)
  case (Cons c cs)
  have key: "key c \<in> U" using Cons.prems(3) by simp
  from stands_find [OF Cons.prems(1) key] obtain s1 where f: "find s (key c) = Inr (rep s (key c), s1)"
    and s1: "stands_for U E L s1" "\<forall>y \<in> U. rep s1 y = rep s y" by blast
  let ?r = "rep s (key c)"
  let ?gs = "AList.update ?r ((case map_of gs ?r of None \<Rightarrow> [] | Some cs \<Rightarrow> cs) @ [c]) gs"
  have step: "step (s, gs) c = Inr (s1, ?gs)" using Cons.prems(2) [of c s gs] f by simp
  have r: "?r = rp (key c)" using Cons.prems(4) [OF key] .
  have "\<And>y. y \<in> U \<Longrightarrow> rep s1 y = rp y" using s1(2) Cons.prems(4) by simp
  from Cons.IH [OF s1(1) _ _ this, of ?gs] Cons.prems(2,3) obtain s' gs' where
    fold: "foldM step (s1, ?gs) cs = Inr (s', gs')"
    and rows: "\<forall>r. (case map_of gs' r of None \<Rightarrow> [] | Some cs \<Rightarrow> cs) =
             (case map_of ?gs r of None \<Rightarrow> [] | Some cs \<Rightarrow> cs) @ filter (\<lambda>c. rp (key c) = r) cs"
    and dist: "distinct (map fst ?gs) \<longrightarrow> distinct (map fst gs')" by auto
  have "\<forall>q. (case map_of gs' q of None \<Rightarrow> [] | Some cs \<Rightarrow> cs) =
             (case map_of gs q of None \<Rightarrow> [] | Some cs \<Rightarrow> cs) @ filter (\<lambda>c. rp (key c) = q) (c # cs)"
    using rows r by (simp add: update_conv')
  moreover have "distinct (map fst gs) \<longrightarrow> distinct (map fst gs')"
    using dist by (auto intro: distinct_update)
  moreover have "foldM step (s, gs) (c # cs) = Inr (s', gs')" using step fold by simp
  ultimately show ?case by blast
qed simp

end

section \<open>The parent table\<close>

text \<open>\<open>roots ps x k r\<close>: following the parents from \<open>x\<close> reaches the root \<open>r\<close> in \<open>k\<close> steps.\<close>

inductive roots :: "forest \<Rightarrow> string \<Rightarrow> nat \<Rightarrow> string \<Rightarrow> bool" where
  here: "map_of ps x = Some x \<Longrightarrow> roots ps x 0 x"
| up: "map_of ps x = Some p \<Longrightarrow> p \<noteq> x \<Longrightarrow> roots ps p k r \<Longrightarrow> roots ps x (Suc k) r"

inductive_cases roots_0: "roots ps x 0 r"
inductive_cases roots_Suc: "roots ps x (Suc k) r"
inductive_cases rootsE: "roots ps x k r"

definition keys :: "forest \<Rightarrow> string set" where
  "keys ps = fst ` set ps"

lemma keys_map_of: "x \<in> keys ps \<longleftrightarrow> map_of ps x \<noteq> None"
  by (simp add: keys_def map_of_eq_None_iff)

lemma keys_update: "x \<in> keys ps \<Longrightarrow> keys (AList.update x v ps) = keys ps"
  by (auto simp: keys_def dom_update [unfolded dom_map_of_conv_image_fst])

definition forest_ok :: "forest \<Rightarrow> bool" where
  "forest_ok ps \<longleftrightarrow> (\<forall>x \<in> keys ps. \<exists>k r. roots ps x k r)"

definition root_of :: "forest \<Rightarrow> string \<Rightarrow> string" where
  "root_of ps x = (THE r. \<exists>k. roots ps x k r)"

lemma roots_unique: "roots ps x k r \<Longrightarrow> roots ps x k' r' \<Longrightarrow> k' = k \<and> r' = r"
proof (induction arbitrary: k' r' rule: roots.induct)
  case (here ps x)
  then show ?case by (auto elim: rootsE)
next
  case (up ps x p k r)
  from up.prems up.hyps(1,2) obtain j where "k' = Suc j" "roots ps p j r'"
    by (auto elim: rootsE)
  with up.IH show ?case by blast
qed

lemma root_of_eq: "roots ps x k r \<Longrightarrow> root_of ps x = r"
  unfolding root_of_def by (rule the_equality) (auto dest: roots_unique)

lemma roots_key: "roots ps x k r \<Longrightarrow> x \<in> keys ps"
  by (erule rootsE) (simp_all add: keys_map_of)

lemma roots_root: "roots ps x k r \<Longrightarrow> map_of ps r = Some r"
  by (induction rule: roots.induct) auto

lemma roots_depths: "roots ps x k r \<Longrightarrow> j \<le> k \<Longrightarrow> \<exists>y. roots ps y j r"
proof (induction rule: roots.induct)
  case (up ps x p k r)
  then show ?case by (cases "j = Suc k") (auto intro: roots.up)
qed (auto intro: roots.here)

lemma roots_bound:
  assumes "roots ps x k r"
  shows "k < card (keys ps)"
proof -
  have fin: "finite (keys ps)" by (simp add: keys_def)
  have "\<forall>j \<in> {..k}. \<exists>y. roots ps y j r" using roots_depths [OF assms] by simp
  then obtain f where f: "\<And>j. j \<le> k \<Longrightarrow> roots ps (f j) j r" by (metis atMost_iff)
  have "inj_on f {..k}"
  proof (rule inj_onI)
    fix i j assume "i \<in> {..k}" "j \<in> {..k}" "f i = f j"
    then show "i = j" using f [of i] f [of j] by (auto dest: roots_unique)
  qed
  moreover have "f ` {..k} \<subseteq> keys ps" using f roots_key by blast
  ultimately have "card {..k} \<le> card (keys ps)" using fin by (metis card_inj_on_le)
  then show ?thesis by simp
qed

text \<open>Path halving keeps every root and shortens no one's path upwards.\<close>

lemma halve_roots:
  assumes x: "map_of ps x = Some p" "p \<noteq> x" and p: "map_of ps p = Some g" and okx: "roots ps x kx rx"
  shows "roots ps y k r \<Longrightarrow> \<exists>k' \<le> k. roots (AList.update x g ps) y k' r"
proof (induction k arbitrary: y rule: less_induct)
  case (less k)
  let ?ps = "AList.update x g ps"
  have other: "map_of ?ps z = map_of ps z" if "z \<noteq> x" for z using that by (simp add: update_conv')
  have at_x: "map_of ?ps x = Some g" by (simp add: update_conv')
  show ?case
  proof (cases "y = x")
    case True
    with less.prems x obtain j where j: "k = Suc j" "roots ps p j r" by (auto elim: rootsE)
    show ?thesis
    proof (cases "g = p")
      case True
      with p j have "r = p" "j = 0" by (auto elim: rootsE)
      moreover have "roots ?ps p 0 p" using other [of p] p True x(2) by (auto intro: roots.here)
      ultimately show ?thesis using \<open>y = x\<close> at_x True x(2) j(1) by (auto intro: roots.up)
    next
      case False
      with p j obtain i where i: "j = Suc i" "roots ps g i r" by (auto elim: rootsE)
      have gx: "g \<noteq> x"
      proof
        assume "g = x"
        with i(2) less.prems True have "i = k" by (auto dest: roots_unique)
        with i(1) j(1) show False by simp
      qed
      from less.IH [OF _ i(2)] i(1) j(1) obtain k' where "k' \<le> i" "roots ?ps g k' r" by auto
      then have "Suc k' \<le> k" "roots ?ps x (Suc k') r" using at_x gx i(1) j(1) by (auto intro: roots.up)
      with True show ?thesis by blast
    qed
  next
    case False
    from less.prems show ?thesis
    proof (cases rule: roots.cases)
      case here
      then show ?thesis using other [OF False] by (auto intro: roots.here)
    next
      case (up q j)
      from less.IH [OF _ up(4)] up(1) obtain k' where "k' \<le> j" "roots ?ps q k' r" by auto
      then show ?thesis using up(1-3) other [OF False] by (auto intro!: exI [of _ "Suc k'"] roots.up)
    qed
  qed
qed

lemma find_roots:
  assumes "forest_ok ps" and "roots ps x k r" and "k < n"
  shows "\<exists>ps'. uf_find n ps x = Inr (r, ps') \<and> forest_ok ps' \<and> keys ps' = keys ps \<and>
               (\<forall>y \<in> keys ps. root_of ps' y = root_of ps y)"
  using assms
proof (induction n arbitrary: ps x k)
  case (Suc n)
  show ?case
  proof (cases k)
    case 0
    with Suc.prems(2) have "r = x" "map_of ps x = Some x" by (auto elim: roots_0)
    with Suc.prems(1) show ?thesis by (simp add: parent_of_def)
  next
    case (Suc j)
    with Suc.prems(2) obtain p where p: "map_of ps x = Some p" "p \<noteq> x" "roots ps p j r"
      by (auto elim: roots_Suc)
    from p(3) obtain g where g: "map_of ps p = Some g" by (auto elim: rootsE)
    let ?ps = "AList.update x g ps"
    note halve = halve_roots [OF p(1,2) g Suc.prems(2)]
    have keys: "keys ?ps = keys ps"
      using p(1) by (intro keys_update) (simp add: keys_map_of)
    have ok: "forest_ok ?ps"
      using Suc.prems(1) halve unfolding forest_ok_def keys by blast
    have same: "root_of ?ps y = root_of ps y" if "y \<in> keys ps" for y
    proof -
      from that Suc.prems(1) obtain k r where "roots ps y k r" by (auto simp: forest_ok_def)
      with halve [OF this] show ?thesis by (auto simp: root_of_eq)
    qed
    have "\<exists>i. i \<le> j \<and> roots ps g i r"
      using p(3)
    proof (cases rule: roots.cases)
      case here
      with g show ?thesis by (auto intro: roots.here)
    next
      case (up q i)
      with g show ?thesis by (auto intro!: exI [of _ i])
    qed
    then obtain i where i: "i \<le> j" "roots ps g i r" by blast
    from halve [OF i(2)] obtain i' where i': "i' \<le> i" "roots ?ps g i' r" by blast
    then have "i' < n" using i(1) Suc Suc.prems(3) by simp
    with i'(2) obtain ps' where "uf_find n ?ps g = Inr (r, ps')" "forest_ok ps'" "keys ps' = keys ps"
      "\<forall>y \<in> keys ps. root_of ps' y = root_of ?ps y"
      using Suc.IH [OF ok] keys by metis
    moreover have "uf_find (Suc n) ps x = uf_find n ?ps g"
      using p(1,2) g by (simp add: parent_of_def)
    ultimately show ?thesis using same by (intro exI [of _ ps']) simp
  qed
qed simp

lemma union_roots:
  assumes a: "map_of ps ra = Some ra" and b: "map_of ps rb = Some rb"
  shows "roots ps y k r \<Longrightarrow> \<exists>k'. roots (AList.update ra rb ps) y k' (if r = ra then rb else r)"
proof (induction k arbitrary: y)
  case 0
  then have y: "y = r" "map_of ps y = Some y" by (auto elim: roots_0)
  have rb: "rb \<noteq> ra \<Longrightarrow> roots (AList.update ra rb ps) rb 0 rb"
    using b by (intro roots.here) (simp add: update_conv')
  show ?case
  proof (cases "r = ra")
    case True
    show ?thesis
    proof (cases "rb = ra")
      case True
      with y \<open>r = ra\<close> show ?thesis by (auto intro!: exI [of _ 0] roots.here simp: update_conv')
    next
      case False
      with y \<open>r = ra\<close> rb show ?thesis
        by (auto intro!: exI [of _ "Suc 0"] roots.up simp: update_conv')
    qed
  next
    case False
    with y show ?thesis by (auto intro!: exI [of _ 0] roots.here simp: update_conv')
  qed
next
  case (Suc k)
  then obtain p where p: "map_of ps y = Some p" "p \<noteq> y" "roots ps p k r" by (auto elim: roots_Suc)
  with a have y: "y \<noteq> ra" by auto
  from Suc.IH [OF p(3)] obtain k' where k': "roots (AList.update ra rb ps) p k' (if r = ra then rb else r)" ..
  have "map_of (AList.update ra rb ps) y = Some p" using p(1) y by (simp add: update_conv')
  with k' p(2) have "roots (AList.update ra rb ps) y (Suc k') (if r = ra then rb else r)" by (rule_tac roots.up)
  then show ?case ..
qed

definition uf_inv :: "nat \<Rightarrow> forest \<Rightarrow> bool" where
  "uf_inv n ps \<longleftrightarrow> forest_ok ps \<and> card (keys ps) \<le> n"

lemma forest_okD: "forest_ok ps \<Longrightarrow> x \<in> keys ps \<Longrightarrow> \<exists>k. roots ps x k (root_of ps x)"
  unfolding forest_ok_def using root_of_eq by metis

interpretation claim_forest: disjoint_sets "uf_find n" "uf_union n" "uf_inv n" keys root_of for n
proof
  fix s x
  assume inv: "uf_inv n s" and x: "x \<in> keys s"
  from inv x obtain k where k: "roots s x k (root_of s x)" by (auto simp: uf_inv_def dest: forest_okD)
  have "k < n" using roots_bound [OF k] inv by (simp add: uf_inv_def)
  with find_roots [OF _ k this] inv
  show "\<exists>s'. uf_find n s x = Inr (root_of s x, s') \<and> uf_inv n s' \<and> keys s' = keys s \<and>
             (\<forall>y \<in> keys s. root_of s' y = root_of s y)"
    by (auto simp: uf_inv_def)
next
  fix s a b
  assume inv: "uf_inv n s" and ab: "a \<in> keys s" "b \<in> keys s"
  have find: "\<exists>s'. uf_find n s x = Inr (root_of s x, s') \<and> forest_ok s' \<and> keys s' = keys s \<and>
      (\<forall>y \<in> keys s. root_of s' y = root_of s y)" if "forest_ok s" "card (keys s) \<le> n" "x \<in> keys s" for s x
  proof -
    from forest_okD [OF that(1,3)] obtain k where k: "roots s x k (root_of s x)" ..
    then have "k < n" using roots_bound [OF k] that(2) by simp
    from find_roots [OF that(1) k this] show ?thesis .
  qed
  have "forest_ok s" "card (keys s) \<le> n" using inv by (simp_all add: uf_inv_def)
  from find [OF this ab(2)] obtain s1 where s1: "uf_find n s b = Inr (root_of s b, s1)" "forest_ok s1"
    "keys s1 = keys s" "\<forall>y \<in> keys s. root_of s1 y = root_of s y" by blast
  have "card (keys s1) \<le> n" "a \<in> keys s1" using s1(3) inv ab(1) by (simp_all add: uf_inv_def)
  from find [OF s1(2) this] obtain s2 where f2: "uf_find n s1 a = Inr (root_of s1 a, s2)" "forest_ok s2"
    "keys s2 = keys s1" "\<forall>y \<in> keys s1. root_of s2 y = root_of s1 y" by blast
  have s2: "uf_find n s1 a = Inr (root_of s a, s2)" "forest_ok s2" "keys s2 = keys s"
  proof -
    have "root_of s1 a = root_of s a" using s1(4) ab(1) by (rule bspec)
    with f2(1) show "uf_find n s1 a = Inr (root_of s a, s2)" by (simp only:)
    show "forest_ok s2" by (rule f2(2))
    show "keys s2 = keys s" by (rule trans [OF f2(3) s1(3)])
  qed
  have s2': "root_of s2 y = root_of s y" if "y \<in> keys s" for y
  proof -
    have "y \<in> keys s1" using that s1(3) by (simp only:)
    then have "root_of s2 y = root_of s1 y" using f2(4) by (rule bspec [rotated])
    moreover have "root_of s1 y = root_of s y" using s1(4) that by (rule bspec)
    ultimately show ?thesis by (rule trans)
  qed
  let ?ra = "root_of s a" and ?rb = "root_of s b"
  let ?s = "AList.update ?ra ?rb s2"
  have root: "map_of s2 (root_of s x) = Some (root_of s x)" if "x \<in> keys s" for x
  proof -
    from that s2(3) forest_okD [OF s2(2), of x] obtain k where "roots s2 x k (root_of s2 x)" by auto
    from roots_root [OF this] s2' that show ?thesis by simp
  qed
  note un = union_roots [OF root [OF ab(1)] root [OF ab(2)]]
  have keys: "keys ?s = keys s"
  proof -
    have "?ra \<in> keys s2" using root [OF ab(1)] by (simp add: keys_map_of)
    from trans [OF keys_update [OF this] s2(3)] show ?thesis .
  qed
  have rep: "\<exists>k. roots ?s y k (if root_of s y = ?ra then ?rb else root_of s y)" if "y \<in> keys s" for y
  proof -
    from that s2(3) forest_okD [OF s2(2), of y] obtain k where "roots s2 y k (root_of s2 y)" by auto
    with s2' that have "roots s2 y k (root_of s y)" by simp
    from un [OF this] show ?thesis .
  qed
  then have "forest_ok ?s" unfolding forest_ok_def keys by blast
  moreover have "uf_union n s a b = Inr ?s" using s1(1) s2(1) by (simp add: uf_union_def)
  moreover have "root_of ?s y = (if root_of s y = ?ra then ?rb else root_of s y)" if "y \<in> keys s" for y
    using rep [OF that] root_of_eq by blast
  ultimately show "\<exists>s'. uf_union n s a b = Inr s' \<and> uf_inv n s' \<and> keys s' = keys s \<and>
      (\<forall>y \<in> keys s. root_of s' y = (if root_of s y = root_of s a then root_of s b else root_of s y))"
    using inv keys by (auto simp: uf_inv_def)
qed

section \<open>The groups of rivals\<close>

definition name_of :: "dict \<Rightarrow> string" where
  "name_of c = (case id_of c of Inr i \<Rightarrow> i | Inl _ \<Rightarrow> [])"

definition decide :: "program \<Rightarrow> dict \<times> dict \<Rightarrow> bool res" where
  "decide P ab = rbind (target_func P (fst ab)) (\<lambda>fn. rivals (fst ab) (snd ab) (func_literals fn))"

definition rival_edge :: "program \<Rightarrow> dict list \<Rightarrow> string \<Rightarrow> string \<Rightarrow> bool" where
  "rival_edge P cs i j \<longleftrightarrow>
     (\<exists>ab \<in> set (pairs cs). decide P ab = Inr True \<and> i = name_of (fst ab) \<and> j = name_of (snd ab))"

lemma set_pairs: "ab \<in> set (pairs xs) \<Longrightarrow> fst ab \<in> set xs \<and> snd ab \<in> set xs"
  by (induction xs) auto

definition own_parents :: "string list \<Rightarrow> forest \<Rightarrow> forest" where
  "own_parents ids ps = foldl (\<lambda>ps i. AList.update i i ps) ps ids"

lemma map_of_own_parents:
  "map_of (own_parents ids ps) x = (if x \<in> set ids then Some x else map_of ps x)"
  by (induction ids arbitrary: ps) (auto simp: own_parents_def update_conv')

lemma own_parents_stand:
  "claim_forest.stands_for (Suc (length ids)) (set ids) E {} (own_parents ids [])"
proof -
  let ?ps = "own_parents ids []"
  have keys: "keys ?ps = set ids" by (auto simp: keys_map_of map_of_own_parents split: if_splits)
  have roots: "roots ?ps x 0 x" if "x \<in> set ids" for x
    using that by (intro roots.here) (simp add: map_of_own_parents)
  have "forest_ok ?ps" using roots unfolding forest_ok_def keys by blast
  then show ?thesis
    using roots card_length [of ids] root_of_eq [OF roots]
    by (auto simp: claim_forest.stands_for_def uf_inv_def keys root_of_eq)
qed

definition linked :: "program \<Rightarrow> dict \<times> dict \<Rightarrow> bool" where
  "linked P ab \<longleftrightarrow> decide P ab = Inr True"

definition table_size :: "dict list \<Rightarrow> nat" where
  "table_size cs = Suc (length (map name_of cs))"

definition edge_set :: "program \<Rightarrow> dict list \<Rightarrow> (string \<times> string) set" where
  "edge_set P cs = {(name_of (fst ab), name_of (snd ab)) |ab. ab \<in> set (pairs cs) \<and> linked P ab}"

lemma rival_edge_iff: "rival_edge P cs i j \<longleftrightarrow> (i, j) \<in> edge_set P cs"
  unfolding rival_edge_def edge_set_def linked_def by blast

lemma link_pair_step:
  assumes "\<not> isl (id_of (fst ab))" and "\<not> isl (id_of (snd ab))" and "\<not> isl (decide P ab)"
  shows "link_pair P n ps ab = (if linked P ab then uf_union n ps (name_of (fst ab)) (name_of (snd ab)) else Inr ps)"
proof -
  have id: "id_of c = Inr (name_of c)" if "\<not> isl (id_of c)" for c
    using that by (auto simp: name_of_def split: sum.splits)
  obtain r where "decide P ab = Inr r" using assms(3) by (cases "decide P ab") auto
  then obtain fn where "target_func P (fst ab) = Inr fn" "rivals (fst ab) (snd ab) (func_literals fn) = Inr r"
    "linked P ab = r" by (auto simp: decide_def res_simps linked_def)
  with id [OF assms(1)] id [OF assms(2)] show ?thesis by (simp add: link_pair_def)
qed

lemma link_all:
  assumes "\<And>c. c \<in> set cs \<Longrightarrow> \<not> isl (id_of c)"
    and "\<And>ab. ab \<in> set (pairs cs) \<Longrightarrow> \<not> isl (decide P ab)"
  shows "\<exists>ps. foldM (link_pair P (table_size cs)) (own_parents (map name_of cs) []) (pairs cs) = Inr ps \<and>
           claim_forest.stands_for (table_size cs) (name_of ` set cs) (rival_edge P cs) (edge_set P cs) ps"
proof -
  have start: "claim_forest.stands_for (table_size cs) (name_of ` set cs) (rival_edge P cs) {}
      (own_parents (map name_of cs) [])"
    using own_parents_stand [of "map name_of cs" "rival_edge P cs"] by (simp add: table_size_def)
  have "\<exists>ps. foldM (link_pair P (table_size cs)) (own_parents (map name_of cs) []) (pairs cs) = Inr ps \<and>
      claim_forest.stands_for (table_size cs) (name_of ` set cs) (rival_edge P cs)
        ({} \<union> {(name_of (fst ab), name_of (snd ab)) |ab. ab \<in> set (pairs cs) \<and> linked P ab}) ps"
  proof (rule claim_forest.link_loop [OF start])
    fix s ab assume "ab \<in> set (pairs cs)"
    then show "link_pair P (table_size cs) s ab =
        (if linked P ab then uf_union (table_size cs) s (name_of (fst ab)) (name_of (snd ab)) else Inr s)"
      using set_pairs [of ab cs] assms by (intro link_pair_step) blast+
  next
    fix ab assume "ab \<in> set (pairs cs)" "linked P ab"
    then show "name_of (fst ab) \<in> name_of ` set cs \<and> name_of (snd ab) \<in> name_of ` set cs \<and>
        rival_edge P cs (name_of (fst ab)) (name_of (snd ab))"
      using set_pairs [of ab cs] by (auto simp: rival_edge_def linked_def)
  qed
  then show ?thesis by (simp add: edge_set_def)
qed

lemma group_all:
  assumes "\<And>c. c \<in> set cs \<Longrightarrow> \<not> isl (id_of c)"
    and "claim_forest.stands_for n (name_of ` set cs) E L ps"
  shows "\<exists>s' gs. foldM (add_group n) (ps, []) cs = Inr (s', gs) \<and> distinct (map fst gs) \<and>
           (\<forall>r. (case map_of gs r of None \<Rightarrow> [] | Some g \<Rightarrow> g) = filter (\<lambda>c. root_of ps (name_of c) = r) cs)"
proof -
  have id: "id_of c = Inr (name_of c)" if "c \<in> set cs" for c
    using assms(1) [OF that] by (auto simp: name_of_def split: sum.splits)
  have "\<exists>s' gs. foldM (add_group n) (ps, []) cs = Inr (s', gs) \<and>
      (\<forall>r. (case map_of gs r of None \<Rightarrow> [] | Some g \<Rightarrow> g) =
        (case map_of [] r of None \<Rightarrow> [] | Some g \<Rightarrow> g) @ filter (\<lambda>c. root_of ps (name_of c) = r) cs) \<and>
      (distinct (map fst ([] :: (string \<times> dict list) list)) \<longrightarrow> distinct (map fst gs))"
    by (rule claim_forest.group_loop [OF assms(2)]) (simp_all add: add_group_def id)
  then show ?thesis by fastforce
qed

text \<open>A table whose rows are the classes of a key function: its long rows are the classes.\<close>

lemma rows_classes:
  assumes "distinct (map fst gs)"
    and "\<forall>r. (case map_of gs r of None \<Rightarrow> [] | Some g \<Rightarrow> g) = filter (\<lambda>c. f c = r) cs"
  shows "distinct (filter (\<lambda>g. 1 < length g) (map snd gs)) \<and>
         set (filter (\<lambda>g. 1 < length g) (map snd gs)) =
           {g. 1 < length g \<and> (\<exists>d \<in> set cs. g = filter (\<lambda>c. f c = f d) cs)}"
proof -
  have row: "snd x = filter (\<lambda>c. f c = fst x) cs" if "x \<in> set gs" for x
    using assms(2) [rule_format, of "fst x"] map_of_is_SomeI [OF assms(1), of "fst x" "snd x"] that by simp
  have member: "\<exists>d \<in> set cs. f d = r" if "1 < length (filter (\<lambda>c. f c = r) cs)" for r
    using that by (cases "filter (\<lambda>c. f c = r) cs") (auto simp: filter_eq_Cons_iff)
  have "inj_on snd (set (filter (\<lambda>x. 1 < length (snd x)) gs))"
  proof (rule inj_onI)
    fix x y assume xy: "x \<in> set (filter (\<lambda>x. 1 < length (snd x)) gs)"
      "y \<in> set (filter (\<lambda>x. 1 < length (snd x)) gs)" "snd x = snd y"
    then have sx: "snd x = filter (\<lambda>c. f c = fst x) cs" and sy: "snd x = filter (\<lambda>c. f c = fst y) cs"
      and "1 < length (snd x)" using row [of x] row [of y] by auto
    then have "snd x \<noteq> []" by (metis gr_implies_not0 list.size(3))
    note hd = hd_in_set [OF this]
    have "f (hd (snd x)) = fst x" using hd unfolding arg_cong [OF sx, of set] by simp
    moreover have "f (hd (snd x)) = fst y" using hd unfolding arg_cong [OF sy, of set] by simp
    ultimately have "fst x = fst y" by simp
    with xy(3) show "x = y" by (simp add: prod_eq_iff)
  qed
  then have "distinct (filter (\<lambda>g. 1 < length g) (map snd gs))"
    using assms(1) by (simp add: filter_map o_def distinct_map)
  moreover have "\<exists>d \<in> set cs. g = filter (\<lambda>c. f c = f d) cs" if "x \<in> set gs" "g = snd x" "1 < length g" for g x
  proof -
    have g: "g = filter (\<lambda>c. f c = fst x) cs" using row [OF that(1)] that(2) by simp
    with that(3) member obtain d where "d \<in> set cs" "f d = fst x" by blast
    with g show ?thesis by (intro bexI [of _ d]) simp_all
  qed
  moreover have "g \<in> snd ` set gs" if "1 < length g" "d \<in> set cs" "g = filter (\<lambda>c. f c = f d) cs" for g d
  proof -
    have "(case map_of gs (f d) of None \<Rightarrow> [] | Some g \<Rightarrow> g) = g" using assms(2) that(3) by simp
    with that(1) have "map_of gs (f d) = Some g" by (cases "map_of gs (f d)") auto
    then show ?thesis by (metis imageI map_of_SomeD snd_conv)
  qed
  ultimately show ?thesis by auto
qed

lemma mapM_id_of:
  "(\<And>c. c \<in> set cs \<Longrightarrow> \<not> isl (id_of c)) \<Longrightarrow> mapM id_of cs = Inr (map name_of cs)"
  by (rule mapM_Inr) (force simp: name_of_def split: sum.splits)

text \<open>
  C6. \<open>rival_groups\<close> computes the connected components. Whenever the claims have identifiers
  and every pair is decided, the call returns (the parent table stays a forest, so \<open>find\<close>
  ends), and the groups, all different, are exactly the classes with more than one member of
  the equivalence that the decided rivalries generate on the identifiers.
\<close>

theorem rival_groups_components:
  assumes "\<And>c. c \<in> set accepted \<Longrightarrow> \<not> isl (id_of c)"
    and "\<And>ab. ab \<in> set (pairs accepted) \<Longrightarrow> \<not> isl (decide P ab)"
  shows "\<exists>groups. rival_groups accepted P = Inr groups \<and> distinct groups \<and>
           set groups = {g. 1 < length g \<and> (\<exists>d \<in> set accepted.
             g = filter (\<lambda>c. equivclp (rival_edge P accepted) (name_of c) (name_of d)) accepted)}"
proof -
  from link_all [OF assms] obtain ps where
    link: "foldM (link_pair P (table_size accepted)) (own_parents (map name_of accepted) []) (pairs accepted) = Inr ps"
    and st: "claim_forest.stands_for (table_size accepted) (name_of ` set accepted) (rival_edge P accepted)
        (edge_set P accepted) ps" by blast
  from group_all [OF assms(1) st] obtain s' gs where
    grp: "foldM (add_group (table_size accepted)) (ps, []) accepted = Inr (s', gs)"
    and rows: "distinct (map fst gs)"
      "\<forall>r. (case map_of gs r of None \<Rightarrow> [] | Some g \<Rightarrow> g) = filter (\<lambda>c. root_of ps (name_of c) = r) accepted"
    by blast
  let ?groups = "filter (\<lambda>g. 1 < length g) (map snd gs)"
  have classes: "root_of ps (name_of c) = root_of ps (name_of d) \<longleftrightarrow> equivclp (rival_edge P accepted) (name_of c) (name_of d)"
    if "c \<in> set accepted" "d \<in> set accepted" for c d
    using that by (intro claim_forest.linked_classes [OF st]) (simp_all add: rival_edge_iff)
  then have same: "filter (\<lambda>c. root_of ps (name_of c) = root_of ps (name_of d)) accepted =
      filter (\<lambda>c. equivclp (rival_edge P accepted) (name_of c) (name_of d)) accepted"
    if "d \<in> set accepted" for d using that by (auto intro: filter_cong)
  have "rival_groups accepted P = Inr ?groups"
    using link grp mapM_id_of [OF assms(1)]
    by (simp add: rival_groups_def Let_def own_parents_def table_size_def)
  with rows_classes [OF rows] same show ?thesis by auto
qed

text \<open>Two readings of a boolean result that exclude each other.\<close>

definition rival_claim :: "string \<Rightarrow> string \<Rightarrow> dict" where
  "rival_claim i op = (''id'', JStr i) # dset ''scope''
     (JObj [(''target'', JStr ''F_0002'')]) (result_claim op (JBool True))"

lemma rival_groups_components_witness:
  "\<exists>groups. rival_groups [rival_claim ''p'' ''EQ'', rival_claim ''q'' ''NEQ''] demo_program = Inr groups \<and>
     distinct groups \<and> map (map name_of) groups = [[''p'', ''q'']]"
proof -
  let ?cs = "[rival_claim ''p'' ''EQ'', rival_claim ''q'' ''NEQ'']"
  have "list_all (\<lambda>c. \<not> isl (id_of c)) ?cs" by code_simp
  moreover have "list_all (\<lambda>ab. \<not> isl (decide demo_program ab)) (pairs ?cs)" by code_simp
  moreover have "rbind (rival_groups ?cs demo_program) (\<lambda>gs. Inr (map (map name_of) gs)) = Inr [[''p'', ''q'']]"
    by code_simp
  ultimately show ?thesis using rival_groups_components [of ?cs demo_program]
    by (auto simp: list_all_iff res_simps)
qed

end
