(* ===== verification/Obligation.thy ===== *)
theory Obligation
  imports Critic
begin

text \<open>
  The obligation compiler of \<open>src/src/autoform/harness/compiler.py\<close>: a claim becomes Lean
  text (a proposition, a decidable check, a finite domain, a search command). Text with
  characters beyond Latin-1 is a list of glyphs; plain text is a \<open>string\<close>. The section on
  meaning gives the produced formulas a syntax tree and an evaluation, and shows that the text is
  the printed tree and that the tree means what the claim evaluator computes.
\<close>

section \<open>Text\<close>

datatype glyph = Ch char | Neq | Le | Ge | Wedge | Vee | Neg | To | Iff | All | Gets | Dots

type_synonym lean = "glyph list"

definition asc :: "string \<Rightarrow> lean" where
  "asc = map Ch"

text \<open>\<open>sep.join(parts)\<close> on texts with glyphs.\<close>

fun join_lean :: "lean \<Rightarrow> lean list \<Rightarrow> lean" where
  "join_lean sep [] = []"
| "join_lean sep [s] = s"
| "join_lean sep (s # t # ss) = s @ sep @ join_lean sep (t # ss)"

definition LEAN_TYPE :: "(string \<times> string) list" where
  "LEAN_TYPE = [(''int'', ''Int''), (''bool'', ''Bool''), (''str'', ''String'')]"

definition VAL_CTOR :: "(string \<times> string) list" where
  "VAL_CTOR = [(''int'', ''.int''), (''bool'', ''.bool''), (''str'', ''.str'')]"

definition REL :: "(string \<times> glyph) list" where
  "REL = [(''EQ'', Ch CHR 0x3D), (''NEQ'', Neq), (''LT'', Ch CHR 0x3C), (''LTE'', Le),
     (''GT'', Ch CHR 0x3E), (''GTE'', Ge)]"

definition MAX_POINTS :: nat where
  "MAX_POINTS = 400"

text \<open>Lean escapes: quote and backslash, newline, tab, the other control characters as \<open>\\xhh\<close>.\<close>

definition lean_char :: "char \<Rightarrow> string" where
  "lean_char c =
     (if c = CHR 0x22 \<or> c = CHR 0x5C then [CHR 0x5C, c]
      else if c = CHR 0x0A then [CHR 0x5C, CHR ''n'']
      else if c = CHR 0x09 then [CHR 0x5C, CHR ''t'']
      else if is_control c \<or> c = CHR 0x7F then [CHR 0x5C, CHR ''x''] @ hex2 (of_char c)
      else [c])"

definition lean_str :: "string \<Rightarrow> string" where
  "lean_str s = [CHR 0x22] @ concat (map lean_char s) @ [CHR 0x22]"

text \<open>One element of the iterated value: anything but a one-character string fails in \<open>in\<close> or \<open>ord\<close>.\<close>

definition lean_piece :: "json \<Rightarrow> string res" where
  "lean_piece v =
     (case v of
        JStr s \<Rightarrow> if substr s [CHR 0x22, CHR 0x5C] then Inr (CHR 0x5C # s)
                  else (case s of [c] \<Rightarrow> Inr (lean_char c) | _ \<Rightarrow> Inl TypeError)
      | _ \<Rightarrow> Inl TypeError)"

definition lean_lit :: "json \<Rightarrow> string res" where
  "lean_lit v =
     (case v of
        JBool b \<Rightarrow> Inr (if b then ''true'' else ''false'')
      | JInt i \<Rightarrow> Inr (''('' @ dec_int i @ '' : Int)'')
      | JStr s \<Rightarrow> Inr (lean_str s)
      | _ \<Rightarrow> rbind (py_iter v) (\<lambda>xs. rbind (mapM lean_piece xs) (\<lambda>ps.
               Inr ([CHR 0x22] @ concat ps @ [CHR 0x22]))))"

definition is_alnum :: "char \<Rightarrow> bool" where
  "is_alnum c =
     (let n = (of_char c :: nat)
      in (48 \<le> n \<and> n \<le> 57) \<or> (65 \<le> n \<and> n \<le> 90) \<or> (97 \<le> n \<and> n \<le> 122))"

text \<open>\<open>re.sub(r'[^A-Za-z0-9]', '_', s)\<close>.\<close>

definition sanitize :: "string \<Rightarrow> string" where
  "sanitize s = map (\<lambda>c. if is_alnum c then c else CHR ''_'') s"

type_synonym names = "(string \<times> string) list"

definition lean_var :: "param \<Rightarrow> string" where
  "lean_var p = ''x'' @ dec (p_index p) @ ''_'' @ take 24 (sanitize (p_name p))"

definition var_names :: "func \<Rightarrow> names" where
  "var_names fn = foldl (\<lambda>ns p. AList.update (p_id p) (lean_var p) ns) [] (f_params fn)"

section \<open>Terms and formulas\<close>

definition name_at :: "names \<Rightarrow> json \<Rightarrow> string res" where
  "name_at names k =
     (case k of
        JStr s \<Rightarrow> (case map_of names s of Some n \<Rightarrow> Inr n | None \<Rightarrow> Inl KeyError)
      | _ \<Rightarrow> if hashable k then Inl KeyError else Inl TypeError)"

definition nth_text :: "'a list \<Rightarrow> nat \<Rightarrow> 'a res" where
  "nth_text a i = (if i < length a then Inr (a ! i) else Inl IndexError)"

definition infix_text :: "string \<Rightarrow> string list \<Rightarrow> string res" where
  "infix_text op a =
     rbind (nth_text a 0) (\<lambda>x. rbind (nth_text a 1) (\<lambda>y. Inr (''('' @ x @ '' '' @ op @ '' '' @ y @ '')'')))"

definition op_text :: "json \<Rightarrow> string list \<Rightarrow> string res" where
  "op_text op a =
     (if op = JStr ''ADD'' then infix_text ''+'' a
      else if op = JStr ''SUB'' then infix_text ''-'' a
      else if op = JStr ''MUL'' then infix_text ''*'' a
      else if op = JStr ''NEG'' then rbind (nth_text a 0) (\<lambda>x. Inr (''(-'' @ x @ '')''))
      else if op = JStr ''LEN'' then
        rbind (nth_text a 0) (\<lambda>x. Inr (''(Int.ofNat (String.length '' @ x @ ''))''))
      else if hashable op then Inl KeyError else Inl TypeError)"

function (sequential) lterm_text :: "json \<Rightarrow> names \<Rightarrow> string res" where
  "lterm_text (JObj d) names =
     (if dhas d ''param'' then name_at names (dget d ''param'' JNull)
      else if dhas d ''result'' then Inr ''res''
      else if dhas d ''lit'' then lean_lit (dget d ''lit'' JNull)
      else case map_of d ''args'' of
        None \<Rightarrow> Inl KeyError
      | Some v \<Rightarrow>
          rbind (py_iter v) (\<lambda>xs.
          rbind (mapM (\<lambda>x. lterm_text x names) xs) (\<lambda>a.
          rbind (ditem d ''op'') (\<lambda>op. op_text op a))))"
| "lterm_text _ names = Inl TypeError"
  by pat_completeness auto
termination
  by (relation "measure (\<lambda>(t, m). size t)") (auto intro: size_iter_field)

type_synonym atoms = "(string \<times> bool) list"

definition RET :: atoms where
  "RET = [(''RETURNS'', True), (''THROWS'', False), (''TERMINATES'', True)]"

definition EXN :: atoms where
  "EXN = [(''RETURNS'', False), (''THROWS'', True), (''TERMINATES'', True)]"

definition HOLE :: atoms where
  "HOLE = [(''RETURNS'', False), (''THROWS'', False), (''TERMINATES'', False)]"

definition truth_text :: "bool \<Rightarrow> lean" where
  "truth_text b = asc (if b then ''True'' else ''False'')"

definition bracket :: "lean \<Rightarrow> lean" where
  "bracket t = asc ''('' @ t @ asc '')''"

definition spaced :: "glyph \<Rightarrow> lean" where
  "spaced g = asc '' '' @ [g] @ asc '' ''"

definition compare_text :: "glyph \<Rightarrow> json \<Rightarrow> names \<Rightarrow> lean res" where
  "compare_text g v names =
     rbind (index_arg v 0) (\<lambda>x. rbind (lterm_text x names) (\<lambda>s.
     rbind (index_arg v 1) (\<lambda>y. rbind (lterm_text y names) (\<lambda>t.
       Inr (bracket (asc s @ spaced g @ asc t))))))"

definition boolean_text :: "string \<Rightarrow> lean list \<Rightarrow> lean res" where
  "boolean_text op parts =
     (if op = ''AND'' then Inr (bracket (join_lean (spaced Wedge) parts))
      else if op = ''OR'' then Inr (bracket (join_lean (spaced Vee) parts))
      else if op = ''NOT'' then
        rbind (nth_text parts 0) (\<lambda>p. Inr (bracket ([Neg] @ asc '' '' @ p)))
      else if op = ''IMPLIES'' then
        rbind (nth_text parts 0) (\<lambda>p. rbind (nth_text parts 1) (\<lambda>q. Inr (bracket (p @ spaced To @ q))))
      else if op = ''IFF'' then
        rbind (nth_text parts 0) (\<lambda>p. rbind (nth_text parts 1) (\<lambda>q. Inr (bracket (p @ spaced Iff @ q))))
      else Inl (ValueError ''no Lean encoding''))"

function (sequential) lformula :: "json \<Rightarrow> names \<Rightarrow> atoms \<Rightarrow> lean res" where
  "lformula (JObj d) names atoms =
     (case map_of d ''lit'' of
        Some v \<Rightarrow> Inr (truth_text (truthy v))
      | None \<Rightarrow>
          rbind (ditem d ''op'') (\<lambda>op.
          if \<not> hashable op then Inl TypeError
          else (case op of
            JStr s \<Rightarrow>
              (case map_of REL s of
                Some g \<Rightarrow> rbind (ditem d ''args'') (\<lambda>v. compare_text g v names)
              | None \<Rightarrow>
                  if s \<in> set OUTCOME then
                    (case map_of atoms s of Some b \<Rightarrow> Inr (truth_text b) | None \<Rightarrow> Inl KeyError)
                  else
                    rbind (py_iter (dget d ''args'' (JList []))) (\<lambda>xs.
                    rbind (mapM (\<lambda>x. lformula x names atoms) xs) (\<lambda>parts. boolean_text s parts)))
          | _ \<Rightarrow>
              rbind (py_iter (dget d ''args'' (JList []))) (\<lambda>xs.
              rbind (mapM (\<lambda>x. lformula x names atoms) xs) (\<lambda>parts.
                Inl (ValueError ''no Lean encoding''))))))"
| "lformula _ names atoms = Inl TypeError"
  by pat_completeness auto
termination
  by (relation "measure (\<lambda>(t, m, a). size t)") (auto intro: size_iter_arg)

section \<open>The match over the interpreter's outcome\<close>

definition field_text :: "string \<Rightarrow> json \<Rightarrow> string res" where
  "field_text k b =
     (case b of JObj d \<Rightarrow> rbind (ditem d k) text_of | _ \<Rightarrow> Inl TypeError)"

definition domain_entry :: "(string \<times> string) list \<Rightarrow> json \<Rightarrow> string res" where
  "domain_entry table b = rbind (field_text ''domain'' b) (\<lambda>s. name_at table (JStr s))"

definition bound_name :: "names \<Rightarrow> json \<Rightarrow> string res" where
  "bound_name names b = rbind (field_text ''param'' b) (\<lambda>p. name_at names (JStr p))"

definition forall_of :: "dict \<Rightarrow> json list res" where
  "forall_of claim = rbind (ditem claim ''forall'') py_iter"

definition call_text :: "string \<Rightarrow> string \<Rightarrow> string \<Rightarrow> string list \<Rightarrow> string" where
  "call_text pconst fuel fname args =
     ''runFunc '' @ pconst @ '' '' @ fuel @ '' '' @ lean_str fname @ '' ['' @ join '', '' args @ '']''"

definition wrap :: "bool \<Rightarrow> lean \<Rightarrow> lean" where
  "wrap decidable p = (if decidable then asc ''decide '' @ p else p)"

definition const :: "bool \<Rightarrow> bool \<Rightarrow> lean" where
  "const decidable b =
     asc (if decidable then (if b then ''true'' else ''false'') else if b then ''True'' else ''False'')"

definition constants :: "lean list" where
  "constants = [asc ''True'', asc ''False'']"

definition wrap_or_const :: "bool \<Rightarrow> lean \<Rightarrow> lean" where
  "wrap_or_const decidable t =
     (if t \<notin> set constants then wrap decidable t else const decidable (t = asc ''True''))"

definition result_arms :: "dict \<Rightarrow> names \<Rightarrow> bool \<Rightarrow> json \<Rightarrow> bool \<Rightarrow> lean list res" where
  "result_arms claim names decidable prop allowed =
     rbind (ditem claim ''result_sort'') (\<lambda>sort.
     rbind (name_at VAL_CTOR sort) (\<lambda>ctor.
     rbind (lformula prop names RET) (\<lambda>p.
       Inr [asc (''| .val ('' @ ctor @ '' res) => '') @ wrap decidable p,
            asc ''| .val _ => '' @ const decidable False,
            asc ''| .exn _ => '' @ const decidable allowed,
            asc ''| _ => '' @ const decidable False])))"

definition plain_arms :: "names \<Rightarrow> bool \<Rightarrow> json \<Rightarrow> bool \<Rightarrow> lean list res" where
  "plain_arms names decidable prop allowed =
     rbind (lformula prop names RET) (\<lambda>p.
     rbind (if allowed \<or> ''THROWS'' \<in> set (operators prop) then lformula prop names EXN
            else Inr (asc ''False'')) (\<lambda>exn.
     rbind (lformula prop names HOLE) (\<lambda>hole.
       Inr [asc ''| .val _ => '' @ wrap decidable p,
            asc ''| .exn _ => '' @ wrap_or_const decidable exn,
            asc ''| _ => '' @ wrap_or_const decidable hole])))"

definition line_break :: string where
  "line_break = CHR 0x0A # ''    ''"

definition obligation_body ::
    "dict \<Rightarrow> func \<Rightarrow> names \<Rightarrow> nat \<Rightarrow> string \<Rightarrow> bool \<Rightarrow> lean res" where
  "obligation_body claim fn names fuel pconst decidable =
     rbind (forall_of claim) (\<lambda>bs.
     rbind (mapM (\<lambda>b. rbind (domain_entry VAL_CTOR b) (\<lambda>c. rbind (bound_name names b) (\<lambda>n.
              Inr (c @ '' '' @ n)))) bs) (\<lambda>args.
     rbind (ditem claim ''property'') (\<lambda>prop.
       let allowed = (dget claim ''on_exception'' JNull = JStr ''allowed'') in
     rbind (if mentions_result prop then result_arms claim names decidable prop allowed
            else plain_arms names decidable prop allowed) (\<lambda>arms.
       Inr (asc (''(match '' @ call_text pconst (dec fuel) (f_name fn) args @ '' with'' @ line_break) @
            join_lean (asc line_break) arms @ asc '')'')))))"

definition precondition :: "dict \<Rightarrow> names \<Rightarrow> bool \<Rightarrow> lean option res" where
  "precondition claim names decidable =
     rbind (ditem claim ''preconditions'') (\<lambda>v.
       if \<not> truthy v then Inr None
       else rbind (py_iter v) (\<lambda>ps.
            rbind (mapM (\<lambda>p. lformula p names RET) ps) (\<lambda>ts.
              let pre = bracket (join_lean (spaced Wedge) ts)
              in Inr (Some (if decidable then asc ''decide '' @ pre else pre)))))"

section \<open>The finite domain\<close>

definition int_literals :: "json list \<Rightarrow> int list" where
  "int_literals lits = [i. v \<leftarrow> lits, i \<leftarrow> (case v of JInt i \<Rightarrow> [i] | _ \<Rightarrow> [])]"

definition add_new :: "json list \<Rightarrow> json \<Rightarrow> json list" where
  "add_new vals w = (if py_mem w vals then vals else vals @ [w])"

definition neighbours :: "json list \<Rightarrow> json list \<Rightarrow> json list" where
  "neighbours lits vals =
     foldl add_new vals
       [w. v \<leftarrow> take 4 (int_literals lits), w \<leftarrow> [JInt (v - 1), JInt (v + 1)]]"

text \<open>\<open>lo <= v <= hi\<close>: the values here are integers.\<close>

definition in_range :: "int \<Rightarrow> int \<Rightarrow> json \<Rightarrow> bool" where
  "in_range lo hi v = (case v of JInt i \<Rightarrow> lo \<le> i \<and> i \<le> hi | _ \<Rightarrow> False)"

definition clip :: "param \<Rightarrow> json list \<Rightarrow> json list" where
  "clip p vals =
     (case integer_range (p_integer_type p) of
        None \<Rightarrow> vals
      | Some (lo, hi) \<Rightarrow>
          filter (in_range lo hi) (vals @ [JInt lo, JInt hi, JInt (lo + 1), JInt (hi - 1)]))"

definition dimension :: "func \<Rightarrow> json list \<Rightarrow> json \<Rightarrow> json list res" where
  "dimension fn lits b =
     rbind (field_text ''param'' b) (\<lambda>pid.
     rbind (field_text ''domain'' b) (\<lambda>s.
     rbind (sample_values s lits) (\<lambda>vals.
       if s = ''int'' then
         (case find_param fn pid of
            None \<Rightarrow> Inl AttributeError
          | Some p \<Rightarrow> Inr (dedupe (clip p (neighbours lits vals))))
       else Inr (dedupe vals))))"

definition grid_count :: "json list list \<Rightarrow> nat" where
  "grid_count per = foldl (\<lambda>n p. n * length p) 1 per"

text \<open>\<open>max(range(len(per)), key=...)\<close>: the first longest dimension.\<close>

definition widest :: "json list list \<Rightarrow> nat" where
  "widest per = foldl (\<lambda>b i. if length (per ! b) < length (per ! i) then i else b) 0 [0..<length per]"

lemma widest_bound: "per \<noteq> [] \<Longrightarrow> widest per < length per"
proof -
  have "foldl (\<lambda>b i. if length (per ! b) < length (per ! i) then i else b) b is < n"
    if "b < n" "\<forall>i \<in> set is. i < n" for b "is" and n
    using that by (induction "is" arbitrary: b) auto
  then show "per \<noteq> [] \<Longrightarrow> widest per < length per" by (simp add: widest_def)
qed

lemma widest_longest: "i < length per \<Longrightarrow> length (per ! i) \<le> length (per ! widest per)"
proof -
  have "(\<forall>i \<in> insert b (set is). length (per ! i) \<le>
      length (per ! foldl (\<lambda>b i. if length (per ! b) < length (per ! i) then i else b) b is))"
    for b "is" by (induction "is" arbitrary: b) fastforce+
  then show "i < length per \<Longrightarrow> length (per ! i) \<le> length (per ! widest per)"
    by (simp add: widest_def)
qed

lemma grid_count_prod: "grid_count per = prod_list (map length per)"
proof -
  have "foldl (\<lambda>n p. n * length p) k per = k * prod_list (map length per)" for k
    by (induction per arbitrary: k) simp_all
  then show ?thesis by (simp add: grid_count_def)
qed

lemma sum_list_update_less:
  "i < length xs \<Longrightarrow> f y < f (xs ! i) \<Longrightarrow> sum_list (map f (xs[i := y])) < (sum_list (map f xs) :: nat)"
  by (induction xs arbitrary: i) (auto split: nat.splits)

function shrink :: "json list list \<Rightarrow> json list list" where
  "shrink per =
     (if per \<noteq> [] \<and> MAX_POINTS < grid_count per then
        let i = widest per in shrink (per[i := butlast (per ! i)])
      else per)"
  by pat_completeness auto
termination
proof (relation "measure (\<lambda>per. sum_list (map length per))", goal_cases)
  case (2 per i)
  have "per ! i \<noteq> []"
  proof
    assume "per ! i = []"
    then have "\<forall>xs \<in> set per. xs = []"
      using widest_longest [of _ per] 2 by (auto simp: in_set_conv_nth)
    then have "map length per = replicate (length per) 0" by (simp add: map_replicate_const [symmetric])
    then have "grid_count per = 0" using 2 by (simp add: grid_count_prod prod_list_zero_iff)
    with 2 show False by simp
  qed
  then show ?case using widest_bound [of per] 2 by (auto intro!: sum_list_update_less)
qed simp

declare shrink.simps [simp del]

definition domain_points :: "dict \<Rightarrow> func \<Rightarrow> json list \<Rightarrow> json list list res" where
  "domain_points claim fn extra =
     (let lits = func_literals fn @ extra in
      rbind (forall_of claim) (\<lambda>bs.
      rbind (mapM (dimension fn lits) bs) (\<lambda>per.
        let per1 = shrink per in Inr (if per1 \<noteq> [] then product per1 else [[]]))))"

definition tuple_type :: "dict \<Rightarrow> string res" where
  "tuple_type claim =
     rbind (forall_of claim) (\<lambda>bs.
     rbind (mapM (domain_entry LEAN_TYPE) bs) (\<lambda>types.
       Inr (if types \<noteq> [] then join [CHR '' '', CHR 0xD7, CHR '' ''] types else ''Unit'')))"

definition tuple_lit :: "json list \<Rightarrow> string res" where
  "tuple_lit point =
     (case point of
        [] \<Rightarrow> Inr ''()''
      | [v] \<Rightarrow> lean_lit v
      | _ \<Rightarrow> rbind (mapM lean_lit point) (\<lambda>ts. Inr (''('' @ join '', '' ts @ '')'')))"

definition accessors :: "nat \<Rightarrow> string list" where
  "accessors n =
     (if n = 0 then []
      else if n = 1 then [''p'']
      else let (out, prefix) = foldl (\<lambda>(out, prefix) i. (out @ [prefix @ ''.1''], prefix @ ''.2''))
                                 ([], ''p'') [0..<n - 1]
           in out @ [prefix])"

section \<open>The obligation of a claim\<close>

record obligation =
  o_claim :: dict
  o_fn :: func
  o_tag :: string
  o_names :: names
  o_program_const :: string
  o_fuel :: nat
  o_points :: "json list list"
  o_binders :: string
  o_params :: "string list"

definition claim_name :: "dict \<Rightarrow> string res" where
  "claim_name claim = rbind (ditem claim ''id'') (\<lambda>v. case v of JStr s \<Rightarrow> Inr s | _ \<Rightarrow> Inl AttributeError)"

definition make_obligation ::
    "dict \<Rightarrow> func \<Rightarrow> string \<Rightarrow> nat \<Rightarrow> json list \<Rightarrow> obligation res" where
  "make_obligation claim fn md fuel extra =
     rbind (claim_name claim) (\<lambda>cid.
       let names = var_names fn in
     rbind (domain_points claim fn extra) (\<lambda>points.
     rbind (forall_of claim) (\<lambda>bs.
     rbind (mapM (\<lambda>b. rbind (bound_name names b) (\<lambda>n. rbind (domain_entry LEAN_TYPE b) (\<lambda>t.
              Inr (''('' @ n @ '' : '' @ t @ '')'')))) bs) (\<lambda>binds.
     rbind (mapM (bound_name names) bs) (\<lambda>params.
       Inr \<lparr>o_claim = claim, o_fn = fn, o_tag = lower cid, o_names = names,
            o_program_const = ''Autoform.Generated.'' @ md @ ''.program'', o_fuel = fuel,
            o_points = points, o_binders = join '' '' binds, o_params = params\<rparr>)))))"

definition body_of :: "obligation \<Rightarrow> bool \<Rightarrow> lean res" where
  "body_of ob decidable =
     obligation_body (o_claim ob) (o_fn ob) (o_names ob) (o_fuel ob) (o_program_const ob) decidable"

definition prop_text :: "obligation \<Rightarrow> lean res" where
  "prop_text ob =
     rbind (precondition (o_claim ob) (o_names ob) False) (\<lambda>pre.
     rbind (body_of ob False) (\<lambda>core.
       let stmt = (case pre of Some p \<Rightarrow> p @ spaced To @ core | None \<Rightarrow> core)
       in Inr (if o_binders ob \<noteq> [] then [All] @ asc ('' '' @ o_binders ob @ '', '') @ stmt else stmt)))"

definition check_def :: "obligation \<Rightarrow> lean res" where
  "check_def ob =
     rbind (precondition (o_claim ob) (o_names ob) True) (\<lambda>pre.
     rbind (body_of ob True) (\<lambda>core.
       let expr = (case pre of Some p \<Rightarrow> asc ''(!('' @ p @ asc '') || '' @ core @ asc '')'' | None \<Rightarrow> core)
       in Inr (asc (''def chk_'' @ o_tag ob @ '' '' @ o_binders ob @ '' : Bool :='' @ [CHR 0x0A] @ ''  '') @
               expr @ asc [CHR 0x0A])))"

text \<open>\<open>a.replace('p', var, 1)\<close>.\<close>

fun replace_p :: "string \<Rightarrow> string \<Rightarrow> string" where
  "replace_p var [] = []"
| "replace_p var (c # s) = (if c = CHR ''p'' then var @ s else c # replace_p var s)"

definition apply_text :: "obligation \<Rightarrow> string \<Rightarrow> string" where
  "apply_text ob var =
     (let acc = accessors (length (o_params ob))
      in if acc \<noteq> [] then ''chk_'' @ o_tag ob @ '' '' @ join '' '' (map (replace_p var) acc)
         else ''chk_'' @ o_tag ob)"

definition apply_point :: "obligation \<Rightarrow> json list \<Rightarrow> string res" where
  "apply_point ob point =
     (if point \<noteq> [] then rbind (mapM lean_lit point) (\<lambda>ts. Inr (''chk_'' @ o_tag ob @ '' '' @ join '' '' ts))
      else Inr (''chk_'' @ o_tag ob))"

definition domain_def :: "obligation \<Rightarrow> string res" where
  "domain_def ob =
     rbind (mapM tuple_lit (o_points ob)) (\<lambda>items.
     rbind (tuple_type (o_claim ob)) (\<lambda>t.
       Inr (''def dom_'' @ o_tag ob @ '' : List ('' @ t @ '') := ['' @ join '', '' items @ '']'' @ [CHR 0x0A])))"

definition outcome_call :: "obligation \<Rightarrow> json list \<Rightarrow> string res" where
  "outcome_call ob point =
     rbind (forall_of (o_claim ob)) (\<lambda>bs.
     rbind (mapM (\<lambda>(b, v). rbind (domain_entry VAL_CTOR b) (\<lambda>c. rbind (lean_lit v) (\<lambda>t.
              Inr (c @ '' '' @ t)))) (zip bs point)) (\<lambda>args.
       Inr (call_text (o_program_const ob) (dec (o_fuel ob)) (f_name (o_fn ob)) args)))"

definition json_parts :: "string list \<Rightarrow> string" where
  "json_parts acc =
     (let q = [CHR 0x22];
          js = join ('' ++ '' @ q @ '', '' @ q @ '' ++ '') (map (\<lambda>a. ''(Lean.toJson '' @ a @ '').compress'') acc)
      in if js \<noteq> [] then js else q @ q)"

definition search_text :: "obligation \<Rightarrow> string res" where
  "search_text ob =
     rbind (claim_name (o_claim ob)) (\<lambda>cid.
       let q = [CHR 0x22]; nl = [CHR 0x0A]; js = json_parts (accessors (length (o_params ob)))
       in Inr (''#eval match (dom_'' @ o_tag ob @ '').find? (fun p => !('' @ apply_text ob ''p'' @ '')) with'' @ nl @
               ''  | some p => IO.println ('' @ q @ ''AUTOFORM_CE '' @ cid @ '' ['' @ q @ '' ++ '' @ js @
               '' ++ '' @ q @ '']'' @ q @ '')'' @ nl @
               ''  | none => IO.println '' @ q @ ''AUTOFORM_NOCE '' @ cid @ q @ nl))"

definition point_env :: "json list \<Rightarrow> json list \<Rightarrow> dict res" where
  "point_env bs point =
     foldM (\<lambda>m (b, v). rbind (field_text ''param'' b) (\<lambda>p. Inr (dset p v m))) [] (zip bs point)"

text \<open>Here only \<open>Undefined\<close> and \<open>TypeError\<close> are caught, and count as meeting the preconditions.\<close>

definition point_in_pre :: "dict \<Rightarrow> json list \<Rightarrow> json list \<Rightarrow> bool res" where
  "point_in_pre claim bs point =
     rbind (point_env bs point) (\<lambda>m.
       case all_pres claim m of
         Inr b \<Rightarrow> Inr b
       | Inl e \<Rightarrow> if e = Undefined \<or> e = TypeError then Inr True else Inl e)"

definition points_in_pre :: "obligation \<Rightarrow> nat res" where
  "points_in_pre ob =
     rbind (ditem (o_claim ob) ''preconditions'') (\<lambda>v.
       if \<not> truthy v then Inr (length (o_points ob))
       else rbind (forall_of (o_claim ob)) (\<lambda>bs.
            rbind (mapM (point_in_pre (o_claim ob) bs) (o_points ob)) (\<lambda>oks.
              Inr (length (filter (\<lambda>b. b) oks)))))"

section \<open>String literals read back\<close>

definition hex_value :: "char \<Rightarrow> nat" where
  "hex_value c = (let n = of_char c in if n < 58 then n - 48 else if n < 71 then n - 55 else n - 87)"

definition simple_escape :: "char \<Rightarrow> char option" where
  "simple_escape e =
     (if e = CHR ''n'' then Some (CHR 0x0A) else if e = CHR ''t'' then Some (CHR 0x09)
      else if e = CHR 0x22 \<or> e = CHR 0x5C then Some e else None)"

definition put :: "char \<Rightarrow> (string \<times> string) option \<Rightarrow> (string \<times> string) option" where
  "put c r = map_option (\<lambda>(s, rest). (c # s, rest)) r"

text \<open>Lean's lexer after the opening quote: the content and the text behind the closing quote.\<close>

fun unescape :: "string \<Rightarrow> (string \<times> string) option" where
  "unescape [] = None"
| "unescape (c # s) =
     (if c = CHR 0x22 then Some ([], s)
      else if c \<noteq> CHR 0x5C then put c (unescape s)
      else (case s of
          [] \<Rightarrow> None
        | e # t \<Rightarrow>
            if e = CHR ''x'' then
              (case t of h # l # u \<Rightarrow> put (char_of (16 * hex_value h + hex_value l)) (unescape u) | _ \<Rightarrow> None)
            else (case simple_escape e of Some d \<Rightarrow> put d (unescape t) | None \<Rightarrow> None)))"

definition lean_unquote :: "string \<Rightarrow> (string \<times> string) option" where
  "lean_unquote s = (case s of c # t \<Rightarrow> if c = CHR 0x22 then unescape t else None | [] \<Rightarrow> None)"

lemma hex_value_digit: "d < 16 \<Longrightarrow> hex_value (hex_digit d) = d"
  by (simp add: hex_value_def hex_digit_def Let_def)

lemma hex2_value: "16 * hex_value (hex2 (of_char c) ! 0) + hex_value (hex2 (of_char c) ! 1) = (of_char c :: nat)"
proof -
  have "(of_char c :: nat) < 256" by simp
  then have "of_char c div 16 mod 16 = (of_char c div 16 :: nat)" by (intro mod_less) linarith
  then show ?thesis by (simp add: hex2_def hex_value_digit)
qed

lemma unescape_char: "unescape (lean_char c @ s) = put c (unescape s)"
proof -
  consider "c = CHR 0x22 \<or> c = CHR 0x5C" | "c = CHR 0x0A" | "c = CHR 0x09"
    | "c \<notin> {CHR 0x22, CHR 0x5C, CHR 0x0A, CHR 0x09}" "is_control c \<or> c = CHR 0x7F"
    | "c \<notin> {CHR 0x22, CHR 0x5C, CHR 0x0A, CHR 0x09}" "\<not> (is_control c \<or> c = CHR 0x7F)" by blast
  then show ?thesis
  proof cases
    case 4
    have "unescape (lean_char c @ s) =
        put (char_of (16 * hex_value (hex2 (of_char c) ! 0) + hex_value (hex2 (of_char c) ! 1))) (unescape s)"
      using 4 by (auto simp: lean_char_def hex2_def)
    then show ?thesis by (simp only: hex2_value char_of_char)
  qed (auto simp: lean_char_def simple_escape_def)
qed

lemma unescape_concat:
  "unescape (concat (map lean_char s) @ CHR 0x22 # rest) = Some (s, rest)"
  by (induction s) (simp_all add: unescape_char put_def)

text \<open>
  A string literal survives the trip into Lean text: the lexer reads the rendered literal
  back to the very string, for every string, and stops exactly behind it, so no program string can
  break out of its quotes.
\<close>

theorem lean_str_roundtrip: "lean_unquote (lean_str s @ rest) = Some (s, rest)"
  using unescape_concat [of s rest] by (simp add: lean_str_def lean_unquote_def)

section \<open>Variable names\<close>

lemma dec_digits: "set (dec n) \<subseteq> digit ` {..<10}"
proof (induction n rule: dec.induct)
  case (1 n)
  then show ?case by (subst dec.simps) auto
qed

lemma underscore_no_digit: "CHR ''_'' \<notin> set (dec n)"
proof
  assume "CHR ''_'' \<in> set (dec n)"
  then obtain d where "d < 10" "CHR ''_'' = digit d" using dec_digits [of n] by auto
  then have "(of_char (CHR ''_'') :: nat) = 48 + d" by (simp only: of_char_digit)
  with \<open>d < 10\<close> show False by simp
qed

lemma split_at_first:
  "c \<notin> set a \<Longrightarrow> c \<notin> set b \<Longrightarrow> a @ c # s = b @ c # t \<longleftrightarrow> a = b \<and> s = t"
proof (induction a arbitrary: b)
  case Nil
  then show ?case by (cases b) auto
next
  case (Cons x a)
  then show ?case by (cases b) auto
qed

lemma lean_var_index: "lean_var p = lean_var q \<Longrightarrow> p_index p = p_index q"
  using split_at_first [OF underscore_no_digit underscore_no_digit] by (simp add: lean_var_def)

lemma var_names_lookup:
  assumes "distinct (map p_id ps)"
  shows "map_of (foldl (\<lambda>ns p. AList.update (p_id p) (lean_var p) ns) ns ps) i =
     (case find (\<lambda>p. p_id p = i) ps of Some p \<Rightarrow> Some (lean_var p) | None \<Rightarrow> map_of ns i)"
  using assms
proof (induction ps arbitrary: ns)
  case (Cons p ps)
  have "find (\<lambda>q. p_id q = p_id p) ps = None"
  proof -
    have "p_id p \<notin> p_id ` set ps" using Cons.prems by simp
    then show ?thesis unfolding find_None_iff by (metis imageI)
  qed
  with Cons show ?case by (auto simp: update_conv' split: option.split)
qed simp

text \<open>
  No capture: the Lean variables of a function's parameters are pairwise different, although
  the parameter names are sanitized and cut to 24 characters, and none of them is \<open>res\<close>.
\<close>

theorem var_names_distinct:
  assumes "distinct (map p_id (f_params fn))" and "distinct (map p_index (f_params fn))"
    and "map_of (var_names fn) i = Some x" and "map_of (var_names fn) j = Some y"
  shows "(x = y \<longleftrightarrow> i = j) \<and> x \<noteq> ''res''"
proof -
  have look: "\<exists>p \<in> set (f_params fn). p_id p = i \<and> x = lean_var p"
    if "map_of (var_names fn) i = Some x" for i x
    using that var_names_lookup [OF assms(1), of "[]" i]
    by (auto simp: var_names_def split: option.splits dest: find_SomeD)
  obtain p q where p: "p \<in> set (f_params fn)" "p_id p = i" "x = lean_var p"
    and q: "q \<in> set (f_params fn)" "p_id q = j" "y = lean_var q"
    using look [OF assms(3)] look [OF assms(4)] by blast
  have inj: "inj_on p_index (set (f_params fn))" using assms(2) by (simp add: distinct_map)
  have "p = q" if "x = y"
  proof -
    have "p_index p = p_index q" using that p(3) q(3) by (intro lean_var_index) simp
    from inj_onD [OF inj this p(1) q(1)] show ?thesis .
  qed
  moreover have "x \<noteq> ''res''" using p(3) by (simp add: lean_var_def)
  moreover have "x = y" if "i = j" using assms(3,4) that by simp
  ultimately show ?thesis using p(2) q(2) by blast
qed

definition wide_fn :: func where
  "wide_fn = (empty_func ''F_0001'' ''m.f'' ''f'' [] [] ''any'' [] [])
     \<lparr>f_params := [\<lparr>p_id = ''V_0001'', p_name = ''a'', p_index = 0, p_sort = ''int'', p_integer_type = ''i32''\<rparr>,
                  \<lparr>p_id = ''V_0002'', p_name = ''b'', p_index = 1, p_sort = ''int'', p_integer_type = ''i32''\<rparr>,
                  \<lparr>p_id = ''V_0003'', p_name = ''b!'', p_index = 2, p_sort = ''int'', p_integer_type = ''i32''\<rparr>]\<rparr>"

lemma var_names_distinct_witness:
  "map_of (var_names wide_fn) ''V_0002'' = Some ''x1_b'' \<and> map_of (var_names wide_fn) ''V_0003'' = Some ''x2_b_'' \<and>
   (''x1_b'' = ''x2_b_'' \<longleftrightarrow> ''V_0002'' = ''V_0003'') \<and> ''x1_b'' \<noteq> ''res''"
proof -
  have names: "map_of (var_names wide_fn) ''V_0002'' = Some ''x1_b''"
    "map_of (var_names wide_fn) ''V_0003'' = Some ''x2_b_''"
    by code_simp+
  have "distinct (map p_id (f_params wide_fn))" "distinct (map p_index (f_params wide_fn))"
    by (simp_all add: wide_fn_def)
  from var_names_distinct [OF this names] names show ?thesis by blast
qed

section \<open>The domain\<close>

lemma shrink_invariant:
  assumes "\<forall>xs \<in> set per. xs \<noteq> []"
  shows "grid_count (shrink per) \<le> MAX_POINTS \<and>
         list_all2 (\<lambda>xs ys. xs \<noteq> [] \<and> prefix xs ys) (shrink per) per"
  using assms
proof (induction per rule: shrink.induct)
  case (1 per)
  show ?case
  proof (cases "per \<noteq> [] \<and> MAX_POINTS < grid_count per")
    case False
    then have "shrink per = per" by (subst shrink.simps) (rule if_not_P)
    moreover have "grid_count per \<le> MAX_POINTS"
      using False by (cases "per = []") (auto simp: grid_count_def MAX_POINTS_def)
    ultimately show ?thesis using 1(2) by (simp add: list_all2_same)
  next
    case True
    let ?i = "widest per"
    let ?per = "per[?i := butlast (per ! ?i)]"
    have i: "?i < length per" using True widest_bound by simp
    have long: "2 \<le> length (per ! ?i)"
    proof (rule ccontr)
      assume "\<not> 2 \<le> length (per ! ?i)"
      then have short: "length xs \<le> 1" if "xs \<in> set per" for xs
        using widest_longest [of _ per] that by (fastforce simp: in_set_conv_nth)
      have "prod_list (map length ps) \<le> 1" if "\<forall>xs \<in> set ps. length xs \<le> 1" for ps :: "json list list"
        using that by (induction ps) (auto simp: le_Suc_eq)
      from this [of per] short have "grid_count per \<le> 1" by (simp add: grid_count_prod)
      with True show False by (simp add: MAX_POINTS_def)
    qed
    have ne: "butlast (per ! ?i) \<noteq> []" using long by (cases "per ! ?i" rule: rev_cases) auto
    have "\<forall>xs \<in> set ?per. xs \<noteq> []" using ne 1(2) by (auto dest: set_update_subset_insert [THEN subsetD])
    from 1(1) [OF True refl this] have IH: "grid_count (shrink ?per) \<le> MAX_POINTS"
      "list_all2 (\<lambda>xs ys. xs \<noteq> [] \<and> prefix xs ys) (shrink ?per) ?per" by auto
    have step: "shrink per = shrink ?per" using True by (subst shrink.simps) (simp add: Let_def)
    have "prefix xs (per ! n)" if "n < length per" "prefix xs (?per ! n)" for n xs
    proof (cases "n = ?i")
      case True
      then have "prefix xs (butlast (per ! ?i))" using that i by simp
      then show ?thesis using prefixeq_butlast True by (metis prefix_order.trans)
    qed (use that in simp)
    with IH step show ?thesis by (auto simp: list_all2_conv_all_nth)
  qed
qed

definition bindable :: "func \<Rightarrow> json \<Rightarrow> bool" where
  "bindable fn b \<longleftrightarrow>
     (\<exists>pid s. field_text ''param'' b = Inr pid \<and> field_text ''domain'' b = Inr s \<and>
        s \<in> set DOMAINS \<and> find_param fn pid \<noteq> None)"

text \<open>What every value of a dimension satisfies.\<close>

definition fits :: "func \<Rightarrow> json \<Rightarrow> json \<Rightarrow> bool" where
  "fits fn b v \<longleftrightarrow>
     (\<exists>pid s p. field_text ''param'' b = Inr pid \<and> field_text ''domain'' b = Inr s \<and>
        find_param fn pid = Some p \<and> has_sort v s \<and>
        (s = ''int'' \<longrightarrow> (case integer_range (p_integer_type p) of
            None \<Rightarrow> True | Some (lo, hi) \<Rightarrow> in_range lo hi v)))"

lemma neighbours_ints:
  "\<forall>v \<in> set vals. has_sort v ''int'' \<Longrightarrow> \<forall>v \<in> set (neighbours lits vals). has_sort v ''int''"
proof -
  have "\<forall>v \<in> set (foldl add_new vals ws). has_sort v ''int''"
    if "\<forall>v \<in> set vals. has_sort v ''int''" "\<forall>w \<in> set ws. has_sort w ''int''" for ws vals
    using that
  proof (induction ws arbitrary: vals)
    case Nil
    then show ?case by simp
  next
    case (Cons w ws)
    have "\<forall>v \<in> set (add_new vals w). has_sort v ''int''"
      using Cons.prems by (simp add: add_new_def)
    from Cons.IH [OF this] Cons.prems(2) show ?case by simp
  qed
  note grow = this
  assume "\<forall>v \<in> set vals. has_sort v ''int''"
  then show "\<forall>v \<in> set (neighbours lits vals). has_sort v ''int''"
    unfolding neighbours_def by (rule grow) (auto simp: has_sort_def)
qed

lemma neighbours_nonempty: "vals \<noteq> [] \<Longrightarrow> neighbours lits vals \<noteq> []"
proof -
  have "foldl add_new vals ws \<noteq> []" if "vals \<noteq> []" for ws vals
    using that by (induction ws arbitrary: vals) (auto simp: add_new_def)
  then show "vals \<noteq> [] \<Longrightarrow> neighbours lits vals \<noteq> []" by (simp add: neighbours_def)
qed

lemma integer_range_ordered: "integer_range t = Some (lo, hi) \<Longrightarrow> lo \<le> hi"
proof -
  assume "integer_range t = Some (lo, hi)"
  then consider w where "lo = - (2 ^ (w - 1))" "hi = 2 ^ (w - 1) - 1" | w :: nat where "lo = 0" "hi = 2 ^ w - 1"
    by (auto simp: integer_range_def split: option.splits)
  then show "lo \<le> hi"
  proof cases
    case (1 w)
    moreover have "(0::int) < 2 ^ (w - 1)" by simp
    ultimately show ?thesis by linarith
  qed simp
qed

lemma clip_member:
  assumes "v \<in> set (clip p vals)"
  shows "(v \<in> set vals \<or> has_sort v ''int'') \<and>
         (case integer_range (p_integer_type p) of None \<Rightarrow> True | Some (lo, hi) \<Rightarrow> in_range lo hi v)"
proof (cases "integer_range (p_integer_type p)")
  case (Some r)
  obtain lo hi where "r = (lo, hi)" by (cases r)
  moreover have "has_sort v ''int''" if "in_range lo hi v"
    using that by (cases v) (simp_all add: in_range_def has_sort_def)
  moreover have "set (clip p vals) \<subseteq>
      {v. (v \<in> set vals \<or> v \<in> {JInt lo, JInt hi, JInt (lo + 1), JInt (hi - 1)}) \<and> in_range lo hi v}"
    using Some \<open>r = (lo, hi)\<close> by (auto simp: clip_def)
  ultimately show ?thesis using assms Some by auto
qed (use assms in \<open>simp add: clip_def\<close>)

lemma dimension_ok:
  assumes "bindable fn b"
  shows "\<exists>vs. dimension fn lits b = Inr vs \<and> vs \<noteq> [] \<and> (\<forall>v \<in> set vs. fits fn b v)"
proof -
  from assms obtain pid s p where b: "field_text ''param'' b = Inr pid" "field_text ''domain'' b = Inr s"
    "s \<in> set DOMAINS" "find_param fn pid = Some p" by (auto simp: bindable_def)
  then obtain vals where vals: "sample_values s lits = Inr vals"
    by (auto simp: sample_values_def base_values_def DOMAINS_def)
  note sorted = sample_values_sorted [OF vals]
  let ?vs = "if s = ''int'' then dedupe (clip p (neighbours lits vals)) else dedupe vals"
  have dim: "dimension fn lits b = Inr ?vs" using b vals by (simp add: dimension_def)
  have "fits fn b v" if v: "v \<in> set ?vs" for v
  proof (cases "s = ''int''")
    case True
    with v have clip: "v \<in> set (clip p (neighbours lits vals))"
      using dedupe_subset [of "clip p (neighbours lits vals)"] by auto
    from True sorted have "\<forall>v \<in> set (neighbours lits vals). has_sort v ''int''"
      by (intro neighbours_ints) simp
    with clip clip_member [OF clip] True b show ?thesis by (auto simp: fits_def)
  next
    case False
    with v sorted dedupe_subset [of vals] b show ?thesis by (auto simp: fits_def)
  qed
  moreover have "?vs \<noteq> []"
  proof (cases "integer_range (p_integer_type p)")
    case None
    then show ?thesis using sorted neighbours_nonempty by (simp add: clip_def dedupe_nonempty)
  next
    case (Some r)
    then obtain lo hi where r: "integer_range (p_integer_type p) = Some (lo, hi)" by (cases r) auto
    have "JInt lo \<in> set (clip p (neighbours lits vals))"
      using integer_range_ordered [OF r] by (simp add: clip_def r in_range_def)
    then have "clip p (neighbours lits vals) \<noteq> []" by auto
    then show ?thesis using sorted by (simp add: dedupe_nonempty)
  qed
  ultimately show ?thesis using dim by blast
qed

lemma dimensions_ok:
  "list_all (bindable fn) bs \<Longrightarrow>
   \<exists>per. mapM (dimension fn lits) bs = Inr per \<and>
     list_all2 (\<lambda>b vs. vs \<noteq> [] \<and> (\<forall>v \<in> set vs. fits fn b v)) bs per"
  by (induction bs) (auto dest!: dimension_ok [of fn _ lits])

text \<open>
  C9. The finite domain of a claim whose bindings are well formed always comes out, is never
  empty and never exceeds the budget of 400 points, and every point gives each quantified
  parameter a value of its sort within the range of its declared integer type.
\<close>

theorem domain_points_fit:
  assumes "forall_of claim = Inr bs" and "list_all (bindable fn) bs"
  shows "\<exists>points. domain_points claim fn extra = Inr points \<and> points \<noteq> [] \<and> length points \<le> MAX_POINTS \<and>
           (\<forall>pt \<in> set points. list_all2 (fits fn) bs pt)"
proof -
  obtain per where per: "mapM (dimension fn (func_literals fn @ extra)) bs = Inr per"
    "list_all2 (\<lambda>b vs. vs \<noteq> [] \<and> (\<forall>v \<in> set vs. fits fn b v)) bs per"
    using dimensions_ok [OF assms(2)] by blast
  let ?per = "shrink per"
  have ne: "\<forall>xs \<in> set per. xs \<noteq> []" using per(2) by (auto simp: list_all2_conv_all_nth in_set_conv_nth)
  note inv = shrink_invariant [OF ne]
  have fits: "list_all2 (\<lambda>b vs. vs \<noteq> [] \<and> (\<forall>v \<in> set vs. fits fn b v)) bs ?per"
    using per(2) inv by (auto simp: list_all2_conv_all_nth) (meson set_mono_prefix subsetD)
  let ?points = "if ?per \<noteq> [] then product ?per else [[]]"
  have "domain_points claim fn extra = Inr ?points"
    using assms(1) per(1) by (simp add: domain_points_def Let_def)
  moreover have "length ?points \<le> MAX_POINTS"
    using inv by (simp add: product_length grid_count_prod MAX_POINTS_def)
  moreover have "?points \<noteq> []"
  proof -
    have "prod_list (map length xss) \<noteq> 0" if "\<forall>xs \<in> set xss. xs \<noteq> []" for xss :: "json list list"
      using that by (auto simp: prod_list_zero_iff)
    moreover have "\<forall>xs \<in> set ?per. xs \<noteq> []" using fits by (auto simp: list_all2_conv_all_nth in_set_conv_nth)
    ultimately have "length (product ?per) \<noteq> 0" by (simp add: product_length)
    then show ?thesis by auto
  qed
  moreover have "list_all2 (fits fn) bs pt" if "pt \<in> set ?points" for pt
  proof (cases "?per = []")
    case True
    with that fits show ?thesis by simp
  next
    case False
    with that have "list_all2 (\<lambda>v xs. v \<in> set xs) pt ?per" by (simp add: product_member)
    with fits show ?thesis by (auto simp: list_all2_conv_all_nth)
  qed
  ultimately show ?thesis by blast
qed

definition int_binding :: "string \<Rightarrow> json" where
  "int_binding i = JObj [(''param'', JStr i), (''domain'', JStr ''int'')]"

definition wide_claim :: dict where
  "wide_claim = [(''forall'', JList (map int_binding [''V_0001'', ''V_0002'', ''V_0003'']))]"

lemma domain_points_fit_witness:
  "\<exists>points. domain_points wide_claim wide_fn [] = Inr points \<and> points \<noteq> [] \<and> length points \<le> 400"
proof -
  have "forall_of wide_claim = Inr (map int_binding [''V_0001'', ''V_0002'', ''V_0003''])" by code_simp
  moreover have "list_all (bindable wide_fn) (map int_binding [''V_0001'', ''V_0002'', ''V_0003''])"
    by (auto simp: bindable_def int_binding_def field_text_def ditem_def text_of_def DOMAINS_def
        find_param_def wide_fn_def)
  ultimately show ?thesis using domain_points_fit [of wide_claim] unfolding MAX_POINTS_def by blast
qed

lemma domain_points_alt:
  "domain_points claim fn extra =
     rbind (rbind (forall_of claim) (mapM (dimension fn (func_literals fn @ extra)))) (\<lambda>per. Inr (product (shrink per)))"
proof -
  have "(if xss \<noteq> [] then product xss else [[]]) = product xss" for xss :: "json list list"
    by (cases xss) simp_all
  then show ?thesis by (cases "forall_of claim") (simp_all add: domain_points_def Let_def)
qed

text \<open>
  The budget can silently remove the width boundaries. The bounds of a declared integer type are
  appended last and the grid is shrunk from the end, so already with three \<open>i32\<close> parameters
  the checked domain holds neither bound of the first two: an overflow there is never sampled.
\<close>

theorem boundaries_dropped:
  "\<exists>points. domain_points wide_claim wide_fn [] = Inr points \<and>
     list_all (\<lambda>pt. pt ! 0 \<notin> {JInt (2 ^ 31 - 1), JInt (2 ^ 31 - 2)} \<and> pt ! 1 \<notin> {JInt (2 ^ 31 - 1), JInt (2 ^ 31 - 2)})
       points"
proof -
  let ?low = "map JInt [-2, -1, 0, 1, 2, 3, - (2 ^ 31)]"
  let ?all = "?low @ map JInt [2147483647, -2147483647, 2147483646]"
  have "rbind (forall_of wide_claim) (mapM (dimension wide_fn (func_literals wide_fn))) = Inr [?all, ?all, ?all]"
    by code_simp
  moreover have "shrink [?all, ?all, ?all] = [?low, ?low, ?low @ [JInt 2147483647]]"
    by (simp add: shrink.simps widest_def grid_count_def MAX_POINTS_def upt_rec nth_Cons')
  ultimately have "domain_points wide_claim wide_fn [] = Inr (product [?low, ?low, ?low @ [JInt 2147483647]])"
    unfolding domain_points_alt by (simp only: rbind_Inr append_Nil2)
  moreover have "pt ! 0 \<notin> {JInt (2 ^ 31 - 1), JInt (2 ^ 31 - 2)} \<and> pt ! 1 \<notin> {JInt (2 ^ 31 - 1), JInt (2 ^ 31 - 2)}"
    if "pt \<in> set (product [?low, ?low, ?low @ [JInt 2147483647]])" for pt
  proof -
    have "pt ! 0 \<in> set ?low \<and> pt ! 1 \<in> set ?low"
      using that unfolding product_member by (auto simp only: list_all2_Cons2 nth_Cons_0 One_nat_def nth_Cons_Suc)
    then show ?thesis by auto
  qed
  ultimately show ?thesis unfolding list_all_iff by blast
qed

end
