(* ===== verification/ObligationMeaning.thy ===== *)
theory ObligationMeaning
  imports Obligation
begin

text \<open>
  What the Lean formulas of \<open>src/src/autoform/harness/compiler.py\<close> mean. A syntax tree for the
  fragment the compiler emits, its printer and its evaluation; for every formula the sort checker
  accepts, the emitted text is the print of a tree whose value at every sorted environment is what
  \<open>eval_formula\<close> computes there.
\<close>

section \<open>The emitted fragment\<close>

datatype lterm = LVar string | LInt int | LBool bool | LStr string
  | LOp string lterm lterm | LNeg lterm | LLen lterm

datatype lform = LConst bool | LRel glyph lterm lterm | LAnd "lform list" | LOr "lform list"
  | LNot lform | LImp lform lform | LIff lform lform

primrec print_term :: "lterm \<Rightarrow> string" where
  "print_term (LVar n) = n"
| "print_term (LInt i) = ''('' @ dec_int i @ '' : Int)''"
| "print_term (LBool b) = (if b then ''true'' else ''false'')"
| "print_term (LStr s) = lean_str s"
| "print_term (LOp op a b) = ''('' @ print_term a @ '' '' @ op @ '' '' @ print_term b @ '')''"
| "print_term (LNeg a) = ''(-'' @ print_term a @ '')''"
| "print_term (LLen a) = ''(Int.ofNat (String.length '' @ print_term a @ ''))''"

fun print_form :: "lform \<Rightarrow> lean" where
  "print_form (LConst b) = truth_text b"
| "print_form (LRel g a b) = bracket (asc (print_term a) @ spaced g @ asc (print_term b))"
| "print_form (LAnd ps) = bracket (join_lean (spaced Wedge) (map print_form ps))"
| "print_form (LOr ps) = bracket (join_lean (spaced Vee) (map print_form ps))"
| "print_form (LNot p) = bracket ([Neg] @ asc '' '' @ print_form p)"
| "print_form (LImp p q) = bracket (print_form p @ spaced To @ print_form q)"
| "print_form (LIff p q) = bracket (print_form p @ spaced Iff @ print_form q)"

type_synonym valuation = "string \<Rightarrow> json"

fun int_val :: "json \<Rightarrow> int" where
  "int_val (JInt i) = i"
| "int_val _ = 0"

fun str_val :: "json \<Rightarrow> string" where
  "str_val (JStr s) = s"
| "str_val _ = []"

definition op_val :: "string \<Rightarrow> int \<Rightarrow> int \<Rightarrow> int" where
  "op_val op i j = (if op = ''+'' then i + j else if op = ''-'' then i - j else i * j)"

primrec teval :: "valuation \<Rightarrow> lterm \<Rightarrow> json" where
  "teval v (LVar n) = v n"
| "teval v (LInt i) = JInt i"
| "teval v (LBool b) = JBool b"
| "teval v (LStr s) = JStr s"
| "teval v (LOp op a b) = JInt (op_val op (int_val (teval v a)) (int_val (teval v b)))"
| "teval v (LNeg a) = JInt (- int_val (teval v a))"
| "teval v (LLen a) = JInt (int (length (str_val (teval v a))))"

definition rel_val :: "glyph \<Rightarrow> json \<Rightarrow> json \<Rightarrow> bool" where
  "rel_val g x y =
     (if g = Ch CHR 0x3D then x = y else if g = Neq then x \<noteq> y
      else if g = Ch CHR 0x3C then int_val x < int_val y else if g = Le then int_val x \<le> int_val y
      else if g = Ch CHR 0x3E then int_val y < int_val x else int_val y \<le> int_val x)"

fun feval :: "valuation \<Rightarrow> lform \<Rightarrow> bool" where
  "feval v (LConst b) = b"
| "feval v (LRel g a b) = rel_val g (teval v a) (teval v b)"
| "feval v (LAnd ps) = list_all (feval v) ps"
| "feval v (LOr ps) = list_ex (feval v) ps"
| "feval v (LNot p) = (\<not> feval v p)"
| "feval v (LImp p q) = (feval v p \<longrightarrow> feval v q)"
| "feval v (LIff p q) = (feval v p \<longleftrightarrow> feval v q)"

section \<open>Terms\<close>

text \<open>A Lean valuation reads the sampled environment through the variable names.\<close>

definition reads :: "names \<Rightarrow> sorts \<Rightarrow> dict \<Rightarrow> valuation \<Rightarrow> bool" where
  "reads names env m v \<longleftrightarrow>
     (\<forall>p n. p \<in> fst ` set env \<longrightarrow> map_of names p = Some n \<longrightarrow> map_of m p = Some (v n)) \<and>
     (\<forall>x. map_of m ''result'' = Some x \<longrightarrow> v ''res'' = x)"

definition covers :: "names \<Rightarrow> sorts \<Rightarrow> bool" where
  "covers names env \<longleftrightarrow> (\<forall>p \<in> fst ` set env. map_of names p \<noteq> None)"

definition term_means :: "names \<Rightarrow> sorts \<Rightarrow> json \<Rightarrow> string option \<Rightarrow> lterm \<Rightarrow> bool" where
  "term_means names env t rs p \<longleftrightarrow>
     lterm_text t names = Inr (print_term p) \<and>
     (\<forall>m v. env_ok env m \<longrightarrow> result_ok rs m \<longrightarrow> reads names env m v \<longrightarrow>
        (\<forall>x. eval_term t m = Inr x \<longrightarrow> teval v p = x))"

lemma term_means_grows: "term_means names env t a p \<Longrightarrow> grows a b \<Longrightarrow> term_means names env t b p"
  unfolding term_means_def by (blast dest: result_ok_grows)

lemma args_loop_means:
  assumes "foldM (\<lambda>rs a. rbind (term_sort a env rs) (\<lambda>(s, rs1).
             rbind (unify s w rs1) (\<lambda>u. Inr (snd u)))) rs args = Inr rs'"
    and "\<And>a rs s rs1. a \<in> set args \<Longrightarrow> term_sort a env rs = Inr (s, rs1) \<Longrightarrow> rs_ok rs \<Longrightarrow>
           \<exists>p. term_means names env a rs1 p"
    and "rs_ok rs" and w: "w \<in> set DOMAINS" and dom: "set (map snd env) \<subseteq> set DOMAINS"
  shows "grows rs rs' \<and> (\<exists>ps. list_all2 (\<lambda>a p. term_means names env a rs' p) args ps)"
  using assms(1-3)
proof (induction args arbitrary: rs)
  case (Cons a args)
  from Cons.prems(1) obtain s rs1 s2 rs2 where
    ts: "term_sort a env rs = Inr (s, rs1)" and un: "unify s w rs1 = Inr (s2, rs2)"
    and rest: "foldM (\<lambda>rs a. rbind (term_sort a env rs) (\<lambda>(s, rs1).
             rbind (unify s w rs1) (\<lambda>u. Inr (snd u)))) rs2 args = Inr rs'"
    by (auto simp: res_simps)
  from term_sort_sound [OF ts Cons.prems(3) dom] have a: "grows rs rs1" "rs_ok rs1" "term_ok env a s rs1" by blast+
  from unify_sound [OF un a(3,2) w] have u: "grows rs1 rs2" "rs_ok rs2" by blast+
  obtain p where p: "term_means names env a rs1 p" using Cons.prems(2) [OF _ ts Cons.prems(3)] by auto
  have "grows rs2 rs' \<and> (\<exists>ps. list_all2 (\<lambda>a p. term_means names env a rs' p) args ps)"
    by (rule Cons.IH [OF rest _ u(2)]) (rule Cons.prems(2), auto)
  then obtain ps where ps: "grows rs2 rs'" "list_all2 (\<lambda>a p. term_means names env a rs' p) args ps" by blast
  have "grows rs1 rs'" using u(1) ps(1) by (rule grows_trans)
  with p have "term_means names env a rs' p" by (rule term_means_grows)
  with ps(2) have "list_all2 (\<lambda>a p. term_means names env a rs' p) (a # args) (p # ps)" by simp
  moreover have "grows rs rs'" using a(1) \<open>grows rs1 rs'\<close> by (rule grows_trans)
  ultimately show ?case by blast
qed (auto intro: exI [of _ "[]"])

lemma mapM_texts:
  "list_all2 (\<lambda>a p. term_means names env a rs p) args ps \<Longrightarrow>
   mapM (\<lambda>x. lterm_text x names) args = Inr (map print_term ps)"
  by (induction rule: list_all2_induct) (auto simp: term_means_def)

lemma mapM_values:
  assumes "list_all2 (\<lambda>a p. term_means names env a rs p) args ps"
    and "env_ok env m" "result_ok rs m" "reads names env m v"
  shows "mapM (\<lambda>x. eval_term x m) args = Inr xs \<Longrightarrow> xs = map (teval v) ps"
  using assms(1)
proof (induction arbitrary: xs rule: list_all2_induct)
  case (Cons a args p ps)
  then show ?case using assms(2-) by (auto simp: res_simps term_means_def)
qed simp

text \<open>The tree of an arithmetic operator.\<close>

definition op_tree :: "string \<Rightarrow> lterm list \<Rightarrow> lterm" where
  "op_tree op ps =
     (if op = ''ADD'' then LOp ''+'' (ps ! 0) (ps ! 1) else if op = ''SUB'' then LOp ''-'' (ps ! 0) (ps ! 1)
      else if op = ''MUL'' then LOp ''*'' (ps ! 0) (ps ! 1) else if op = ''NEG'' then LNeg (ps ! 0)
      else LLen (ps ! 0))"

lemma op_tree_text:
  assumes "map_of ARITH op = Some n" and "length ps = n"
  shows "op_text (JStr op) (map print_term ps) = Inr (print_term (op_tree op ps))"
  using assms(1)
  by (cases rule: ARITH_cases; use assms(2) in
    \<open>auto simp: op_text_def infix_text_def nth_text_def op_tree_def length_Suc_conv numeral_2_eq_2\<close>)

lemma op_tree_value:
  assumes "map_of ARITH op = Some n" and "length ps = n"
    and "list_all (\<lambda>p. has_sort (teval v p) (if op = ''LEN'' then ''str'' else ''int'')) ps"
  shows "apply_op (JStr op) (map (teval v) ps) = Inr (teval v (op_tree op ps))"
  using assms(1)
proof (cases rule: ARITH_cases)
  case 1
  with assms obtain p where "ps = [p]" "has_sort (teval v p) ''str''" by (auto simp: length_Suc_conv)
  with 1 show ?thesis by (auto dest!: has_sort_cases(2) simp: apply_op_values op_tree_def)
next
  case 2
  with assms obtain p where "ps = [p]" "has_sort (teval v p) ''int''" by (auto simp: length_Suc_conv)
  with 2 show ?thesis by (auto dest!: has_sort_cases(1) simp: apply_op_values op_tree_def)
next
  case 3
  with assms obtain p q where "ps = [p, q]" "has_sort (teval v p) ''int''" "has_sort (teval v q) ''int''"
    by (auto simp: length_Suc_conv numeral_2_eq_2)
  with 3 show ?thesis by (auto dest!: has_sort_cases(1) simp: apply_op_values op_tree_def op_val_def)
next
  case 4
  with assms obtain p q where "ps = [p, q]" "has_sort (teval v p) ''int''" "has_sort (teval v q) ''int''"
    by (auto simp: length_Suc_conv numeral_2_eq_2)
  with 4 show ?thesis by (auto dest!: has_sort_cases(1) simp: apply_op_values op_tree_def op_val_def)
next
  case 5
  with assms obtain p q where "ps = [p, q]" "has_sort (teval v p) ''int''" "has_sort (teval v q) ''int''"
    by (auto simp: length_Suc_conv numeral_2_eq_2)
  with 5 show ?thesis by (auto dest!: has_sort_cases(1) simp: apply_op_values op_tree_def op_val_def)
qed

definition lit_tree :: "json \<Rightarrow> lterm" where
  "lit_tree v = (case v of JBool b \<Rightarrow> LBool b | JInt i \<Rightarrow> LInt i | JStr s \<Rightarrow> LStr s | _ \<Rightarrow> LBool False)"

lemma lit_tree: "lit_sort v = Inr s \<Longrightarrow> lean_lit v = Inr (print_term (lit_tree v)) \<and> teval f (lit_tree v) = v"
  by (cases v) (simp_all add: lit_sort_def lean_lit_def lit_tree_def)

lemma term_sort_means:
  "term_sort t env rs = Inr (s, rs') \<Longrightarrow> rs_ok rs \<Longrightarrow> set (map snd env) \<subseteq> set DOMAINS \<Longrightarrow> covers names env \<Longrightarrow>
   \<exists>p. term_means names env t rs' p"
proof (induction t arbitrary: rs s rs' rule: measure_induct_rule [where f = size])
  case (less t)
  then obtain d where t: "t = JObj d" by (cases t) simp_all
  note prems = less.prems [unfolded t]
  have "\<exists>p. term_means names env (JObj d) rs' p"
  proof (cases "dhas d ''param''")
    case True
    with prems(1) obtain p where p: "dget d ''param'' JNull = JStr p" "map_of env p = Some s"
      by (auto simp: res_simps param_sort_def split: json.splits option.splits)
    then have "p \<in> fst ` set env" by (force dest: map_of_SomeD)
    with prems(4) obtain n where "map_of names p = Some n" by (auto simp: covers_def)
    with True p \<open>p \<in> fst ` set env\<close> have "term_means names env (JObj d) rs' (LVar n)"
      by (auto simp: term_means_def name_at_def reads_def lookup_env_def ditem_def)
    then show ?thesis ..
  next
    case noparam: False
    show ?thesis
    proof (cases "dhas d ''result''")
      case True
      with noparam have "term_means names env (JObj d) rs' (LVar ''res'')"
        by (auto simp: term_means_def reads_def split: option.splits)
      then show ?thesis ..
    next
      case noresult: False
      show ?thesis
      proof (cases "dhas d ''lit''")
        case True
        with noparam noresult prems(1) have "lit_sort (dget d ''lit'' JNull) = Inr s" by (auto simp: res_simps)
        from lit_tree [OF this] True noparam noresult
        have "term_means names env (JObj d) rs' (lit_tree (dget d ''lit'' JNull))" by (simp add: term_means_def)
        then show ?thesis ..
      next
        case nolit: False
        with noparam noresult prems(1) obtain op n args where
          op: "dget d ''op'' JNull = JStr op" "map_of ARITH op = Some n" and
          args: "args_of d n = Inr args" and
          loop: "foldM (\<lambda>rs a. rbind (term_sort a env rs) (\<lambda>(s, rs1).
             rbind (unify s (if op = ''LEN'' then ''str'' else ''int'') rs1) (\<lambda>u. Inr (snd u)))) rs args = Inr rs'"
          by (auto simp: res_simps in_strs_Inr Let_def map_of_eq_None_iff split: json.splits if_splits option.splits)
        let ?w = "if op = ''LEN'' then ''str'' else ''int''"
        have w: "?w \<in> set DOMAINS" by (simp add: DOMAINS_def)
        have args': "map_of d ''args'' = Some (JList args)" "length args = n"
          using args by (auto simp: args_of_Inr dget_def split: option.splits)
        have op': "ditem d ''op'' = Inr (JStr op)"
          using op(1) by (auto simp: dget_def ditem_def split: option.splits)
        have arg_sorts: "\<forall>a \<in> set args. arg_ok env ?w rs' a"
          using args_loop_sound [OF loop _ prems(2) w] term_sort_sound [OF _ _ prems(3)] by blast
        have "\<exists>ps. list_all2 (\<lambda>a p. term_means names env a rs' p) args ps"
        proof (rule args_loop_means [OF loop _ prems(2) w prems(3), THEN conjunct2])
          fix a rs s rs1
          assume a: "a \<in> set args" and rest: "term_sort a env rs = Inr (s, rs1)" "rs_ok rs"
          from args a have "size a < size t" unfolding t by (auto intro: size_args_of)
          from less.IH [OF this rest prems(3,4)] show "\<exists>p. term_means names env a rs1 p" .
        qed
        then obtain ps where ps: "list_all2 (\<lambda>a p. term_means names env a rs' p) args ps" ..
        then have len: "length ps = n" using args'(2) by (simp add: list_all2_lengthD [symmetric])
        have printed: "lterm_text (JObj d) names = Inr (print_term (op_tree op ps))"
          using noparam noresult nolit args'(1) op' mapM_texts [OF ps] op_tree_text [OF op(2) len] by simp
        have "teval v (op_tree op ps) = x"
          if m: "env_ok env m" "result_ok rs' m" "reads names env m v" and x: "eval_term (JObj d) m = Inr x" for m v x
        proof -
          from mapM_args [OF arg_sorts m(1,2)] obtain vs where vs: "mapM (\<lambda>x. eval_term x m) args = Inr vs"
            "list_all (\<lambda>v. has_sort v ?w) vs" by blast
          with mapM_values [OF ps m] have vs': "vs = map (teval v) ps" by blast
          with vs(2) have "list_all (\<lambda>p. has_sort (teval v p) ?w) ps" by (simp add: list_all_iff)
          from op_tree_value [OF op(2) len this] noparam noresult nolit args'(1) op' vs(1) vs' x
          show ?thesis by simp
        qed
        with printed have "term_means names env (JObj d) rs' (op_tree op ps)" by (simp add: term_means_def)
        then show ?thesis ..
      qed
    qed
  qed
  then show ?case unfolding t .
qed

section \<open>Formulas\<close>

text \<open>The environment's outcome entries are the constants the arm was compiled with.\<close>

definition outcomes_are :: "atoms \<Rightarrow> dict \<Rightarrow> bool" where
  "outcomes_are atoms m \<longleftrightarrow>
     (\<forall>op \<in> set OUTCOME. map_of atoms op = Some (truthy (dget m (''outcome:'' @ op) (JBool True))))"

definition total_atoms :: "atoms \<Rightarrow> bool" where
  "total_atoms atoms \<longleftrightarrow> (\<forall>op \<in> set OUTCOME. map_of atoms op \<noteq> None)"

definition form_means :: "names \<Rightarrow> sorts \<Rightarrow> atoms \<Rightarrow> json \<Rightarrow> string option \<Rightarrow> lform \<Rightarrow> bool" where
  "form_means names env atoms f rs p \<longleftrightarrow>
     lformula f names atoms = Inr (print_form p) \<and>
     (\<forall>m v. env_ok env m \<longrightarrow> result_ok rs m \<longrightarrow> reads names env m v \<longrightarrow> outcomes_are atoms m \<longrightarrow>
        eval_formula f m = Inr (feval v p))"

lemma form_means_grows:
  "form_means names env atoms t a p \<Longrightarrow> grows a b \<Longrightarrow> form_means names env atoms t b p"
  unfolding form_means_def by (blast dest: result_ok_grows)

lemma bool_lit_means: "is_bool_lit a \<Longrightarrow> \<exists>p. form_means names env atoms a rs p"
proof (erule is_bool_litE)
  fix d b assume "a = JObj d" "map_of d ''lit'' = Some (JBool b)"
  then have "form_means names env atoms a rs (LConst b)" by (simp add: form_means_def)
  then show ?thesis ..
qed

lemma boolean_loop_means:
  assumes "foldM (\<lambda>rs a. if is_bool_lit a then Inr rs else check_formula a env rs fn) rs args = Inr rs'"
    and "\<And>a rs rs1. a \<in> set args \<Longrightarrow> check_formula a env rs fn = Inr rs1 \<Longrightarrow> rs_ok rs \<Longrightarrow>
           \<exists>p. form_means names env atoms a rs1 p"
    and "rs_ok rs" and dom: "set (map snd env) \<subseteq> set DOMAINS"
  shows "grows rs rs' \<and> (\<exists>ps. list_all2 (\<lambda>a p. form_means names env atoms a rs' p) args ps)"
  using assms(1-3)
proof (induction args arbitrary: rs)
  case (Cons a args)
  from Cons.prems(1) obtain rs1 where
    step: "(if is_bool_lit a then Inr rs else check_formula a env rs fn) = Inr rs1"
    and rest: "foldM (\<lambda>rs a. if is_bool_lit a then Inr rs else check_formula a env rs fn) rs1 args = Inr rs'"
    by (auto simp: res_simps)
  have a: "grows rs rs1 \<and> rs_ok rs1 \<and> (\<exists>p. form_means names env atoms a rs1 p)"
  proof (cases "is_bool_lit a")
    case True
    with step Cons.prems(3) bool_lit_means show ?thesis by auto
  next
    case False
    with step have chk: "check_formula a env rs fn = Inr rs1" by simp
    from check_formula_evals [OF this Cons.prems(3) dom] Cons.prems(2) [OF _ chk Cons.prems(3)]
    show ?thesis by auto
  qed
  then obtain p where p: "form_means names env atoms a rs1 p" and "rs_ok rs1" "grows rs rs1" by blast
  have "grows rs1 rs' \<and> (\<exists>ps. list_all2 (\<lambda>a p. form_means names env atoms a rs' p) args ps)"
    by (rule Cons.IH [OF rest _ \<open>rs_ok rs1\<close>]) (rule Cons.prems(2), auto)
  then obtain ps where ps: "grows rs1 rs'" "list_all2 (\<lambda>a p. form_means names env atoms a rs' p) args ps" by blast
  have "list_all2 (\<lambda>a p. form_means names env atoms a rs' p) (a # args) (p # ps)"
    using ps(2) form_means_grows [OF p ps(1)] by simp
  moreover have "grows rs rs'" using \<open>grows rs rs1\<close> ps(1) by (rule grows_trans)
  ultimately show ?case by blast
qed (auto intro: exI [of _ "[]"])

lemma mapM_forms:
  "list_all2 (\<lambda>a p. form_means names env atoms a rs p) args ps \<Longrightarrow>
   mapM (\<lambda>x. lformula x names atoms) args = Inr (map print_form ps)"
  by (induction rule: list_all2_induct) (auto simp: form_means_def)

lemma loops_mean:
  assumes "list_all2 (\<lambda>a p. form_means names env atoms a rs p) args ps"
    and "env_ok env m" "result_ok rs m" "reads names env m v" "outcomes_are atoms m"
  shows "allM (\<lambda>x. eval_formula x m) args = Inr (list_all (feval v) ps)"
    and "anyM (\<lambda>x. eval_formula x m) args = Inr (list_ex (feval v) ps)"
    and "\<And>i. i < length args \<Longrightarrow> eval_formula (args ! i) m = Inr (feval v (ps ! i))"
proof -
  have "list_all2 (\<lambda>a p. eval_formula a m = Inr (feval v p)) args ps"
    using assms(1) by (rule list_all2_mono) (use assms(2-) in \<open>auto simp: form_means_def\<close>)
  then show "allM (\<lambda>x. eval_formula x m) args = Inr (list_all (feval v) ps)"
    "anyM (\<lambda>x. eval_formula x m) args = Inr (list_ex (feval v) ps)"
    "\<And>i. i < length args \<Longrightarrow> eval_formula (args ! i) m = Inr (feval v (ps ! i))"
    by (induction rule: list_all2_induct) (auto simp: nth_Cons split: nat.splits)
qed

definition bool_tree :: "string \<Rightarrow> lform list \<Rightarrow> lform" where
  "bool_tree op ps =
     (if op = ''AND'' then LAnd ps else if op = ''OR'' then LOr ps else if op = ''NOT'' then LNot (ps ! 0)
      else if op = ''IMPLIES'' then LImp (ps ! 0) (ps ! 1) else LIff (ps ! 0) (ps ! 1))"

lemma BOOLEAN_cases:
  assumes "op \<in> set BOOLEAN"
  obtains "op = ''AND''" | "op = ''OR''" | "op = ''NOT''" | "op = ''IMPLIES''" | "op = ''IFF''"
  using assms by (auto simp: BOOLEAN_def)

lemma bool_tree_text:
  assumes "op \<in> set BOOLEAN" and "boolean_arity op (length ps)"
  shows "boolean_text op (map print_form ps) = Inr (print_form (bool_tree op ps))"
  using assms(1)
  by (cases rule: BOOLEAN_cases) (use assms(2) in
    \<open>simp_all add: boolean_text_def bool_tree_def boolean_arity_def nth_text_def\<close>)

lemma boolean_means:
  assumes lit: "map_of d ''lit'' = None" and op: "map_of d ''op'' = Some (JStr op)" "op \<in> set BOOLEAN"
    and args: "map_of d ''args'' = Some (JList xs)" "boolean_arity op (length xs)"
    and ps: "list_all2 (\<lambda>a p. form_means names env atoms a rs p) xs ps"
  shows "form_means names env atoms (JObj d) rs (bool_tree op ps)"
proof -
  have notcmp: "op \<notin> set COMPARE" "map_of REL op = None" "op \<notin> set OUTCOME"
    using op(2) by (auto simp: BOOLEAN_def COMPARE_def REL_def OUTCOME_def)
  have len: "length xs = length ps" using ps by (rule list_all2_lengthD)
  have "lformula (JObj d) names atoms = Inr (print_form (bool_tree op ps))"
    using lit op(1) args notcmp mapM_forms [OF ps] bool_tree_text [OF op(2)] len
    by (simp add: ditem_def dget_def)
  moreover have "eval_formula (JObj d) m = Inr (feval v (bool_tree op ps))"
    if m: "env_ok env m" "result_ok rs m" "reads names env m v" "outcomes_are atoms m" for m v
    using op(2)
  proof (cases rule: BOOLEAN_cases)
    case 1
    with lit op(1) args(1) notcmp(1) loops_mean(1) [OF ps m] show ?thesis by (simp add: bool_tree_def)
  next
    case 2
    with lit op(1) args(1) notcmp(1) loops_mean(2) [OF ps m] show ?thesis by (simp add: bool_tree_def)
  next
    case 3
    with lit op(1) args notcmp(1) loops_mean(3) [OF ps m, of 0] show ?thesis
      by (simp add: bool_tree_def boolean_arity_def index_arg_def arg_at_def)
  next
    case 4
    with lit op(1) args notcmp(1) loops_mean(3) [OF ps m, of 0] loops_mean(3) [OF ps m, of 1] show ?thesis
      by (simp add: bool_tree_def boolean_arity_def index_arg_def arg_at_def)
  next
    case 5
    with lit op(1) args notcmp(1) loops_mean(3) [OF ps m, of 0] loops_mean(3) [OF ps m, of 1] show ?thesis
      by (simp add: bool_tree_def boolean_arity_def index_arg_def arg_at_def)
  qed
  ultimately show ?thesis by (simp add: form_means_def)
qed

text \<open>Comparisons: on values of one sort, Python's comparison and Lean's relation agree.\<close>

lemma REL_COMPARE: "op \<in> set COMPARE \<longleftrightarrow> map_of REL op \<noteq> None"
  by (auto simp: COMPARE_def REL_def)

lemma compare_value:
  assumes "map_of REL op = Some g" and "has_sort x s" and "has_sort y s"
    and "op \<in> set ORDER \<Longrightarrow> s = ''int''"
  shows "py_compare op x y = Inr (rel_val g x y)"
proof -
  have eq: "py_eq x y \<longleftrightarrow> x = y"
    using assms(2,3) by (cases x; cases y; simp add: has_sort_def) auto
  obtain lt gt where less: "py_less x y = Inr lt" "py_less y x = Inr gt"
    using assms(2,3) by (cases x; cases y; simp add: has_sort_def py_less_def)
  from assms(1) consider "op = ''EQ''" "g = Ch CHR 0x3D" | "op = ''NEQ''" "g = Neq"
    | "op \<in> set ORDER" "(op, g) \<in> {(''LT'', Ch CHR 0x3C), (''LTE'', Le), (''GT'', Ch CHR 0x3E), (''GTE'', Ge)}"
    by (auto simp: REL_def ORDER_def split: if_splits)
  then show ?thesis
  proof cases
    case 3
    from assms(4) [OF 3(1)] assms(2,3) has_sort_cases(1) obtain i j where ij: "x = JInt i" "y = JInt j" by blast
    have less: "py_less (JInt i) (JInt j) = Inr (i < j)" "py_less (JInt j) (JInt i) = Inr (j < i)"
      by (simp_all add: py_less_def)
    from 3(2) consider "op = ''LT''" "g = Ch CHR 0x3C" | "op = ''LTE''" "g = Le"
      | "op = ''GT''" "g = Ch CHR 0x3E" | "op = ''GTE''" "g = Ge" by blast
    then show ?thesis
      by cases (simp_all only: ij py_compare_def less rbind_Inr Let_def rel_val_def int_val.simps, auto)
  qed (simp_all add: py_compare_def less eq rel_val_def Let_def)
qed

lemma check_compare_means:
  assumes chk: "check_compare op [a, b] env rs = Inr rs'" and ok: "rs_ok rs"
    and dom: "set (map snd env) \<subseteq> set DOMAINS" and cov: "covers names env"
  shows "\<exists>p q s. term_means names env a rs' p \<and> term_means names env b rs' q \<and>
           arg_ok env s rs' a \<and> arg_ok env s rs' b \<and> (op \<in> set ORDER \<longrightarrow> s = ''int'')"
proof -
  from chk obtain sa rs1 sb rs2 sort where
    a: "term_sort a env rs = Inr (sa, rs1)" and b: "term_sort b env rs1 = Inr (sb, rs2)"
    and not_both: "\<not> (sa = ''result?'' \<and> sb = ''result?'')"
    and un: "(if sa = ''result?'' then unify sa sb rs2
              else if sb = ''result?'' then unify sb sa rs2 else unify sa sb rs2) = Inr (sort, rs')"
    and ord: "\<not> (op \<in> set ORDER \<and> sort \<noteq> ''int'')"
    by (auto simp: check_compare_def res_simps split: if_splits)
  from term_sort_sound [OF a ok dom] have A: "grows rs rs1" "rs_ok rs1" "term_ok env a sa rs1" by blast+
  from term_sort_sound [OF b A(2) dom] have B: "grows rs1 rs2" "rs_ok rs2" "term_ok env b sb rs2" by blast+
  have A2: "term_ok env a sa rs2" using A(3) B(1) by (rule term_ok_grows)
  obtain p where p: "term_means names env a rs1 p" using term_sort_means [OF a ok dom cov] ..
  obtain q where q: "term_means names env b rs2 q" using term_sort_means [OF b A(2) dom cov] ..
  have "\<exists>s. grows rs2 rs' \<and> arg_ok env s rs' a \<and> arg_ok env s rs' b \<and> (op \<in> set ORDER \<longrightarrow> s = ''int'')"
  proof (cases "sa = ''result?''")
    case True
    then have sb: "sb \<in> set DOMAINS" "arg_ok env sb rs2 b"
      using not_both B(3) by (auto simp: term_ok_def arg_ok_def)
    from un True have "unify sa sb rs2 = Inr (sort, rs')" by simp
    from unify_sound [OF this A2 B(2) sb(1)] sb ord show ?thesis by (blast intro: arg_ok_grows)
  next
    case False
    then have sa: "sa \<in> set DOMAINS" "arg_ok env sa rs2 a"
      using A2 by (auto simp: term_ok_def arg_ok_def)
    have "unify sb sa rs2 = Inr (sort, rs') \<and> sort = sa"
      using un False by (auto simp: unify_def split: if_splits)
    then have "unify sb sa rs2 = Inr (sort, rs')" "sort = sa" by simp_all
    from unify_sound [OF this(1) B(3,2) sa(1)] sa this(2) ord show ?thesis by (blast intro: arg_ok_grows)
  qed
  then obtain s where s: "grows rs2 rs'" "arg_ok env s rs' a \<and> arg_ok env s rs' b \<and> (op \<in> set ORDER \<longrightarrow> s = ''int'')"
    by blast
  have "term_means names env a rs' p" using p grows_trans [OF B(1) s(1)] by (rule term_means_grows)
  moreover have "term_means names env b rs' q" using q s(1) by (rule term_means_grows)
  ultimately show ?thesis using s(2) by blast
qed

lemma compare_means:
  assumes lit: "map_of d ''lit'' = None" and op: "map_of d ''op'' = Some (JStr op)" "map_of REL op = Some g"
    and args: "map_of d ''args'' = Some (JList [a, b])"
    and p: "term_means names env a rs p" and q: "term_means names env b rs q"
    and s: "arg_ok env s rs a" "arg_ok env s rs b" "op \<in> set ORDER \<longrightarrow> s = ''int''"
  shows "form_means names env atoms (JObj d) rs (LRel g p q)"
proof -
  have "lformula (JObj d) names atoms = Inr (print_form (LRel g p q))"
    using lit op args p q by (simp add: ditem_def compare_text_def index_arg_def arg_at_def term_means_def)
  moreover have "eval_formula (JObj d) m = Inr (feval v (LRel g p q))"
    if m: "env_ok env m" "result_ok rs m" "reads names env m v" "outcomes_are atoms m" for m v
  proof -
    from s(1,2) m obtain x y where xy: "eval_term a m = Inr x" "eval_term b m = Inr y" "has_sort x s" "has_sort y s"
      unfolding arg_ok_def by blast
    with p q m have "teval v p = x" "teval v q = y" unfolding term_means_def by blast+
    with compare_value [OF op(2) xy(3,4)] s(3) xy lit op args REL_COMPARE [of op]
    show ?thesis by (simp add: eval_compare_def)
  qed
  ultimately show ?thesis by (simp add: form_means_def)
qed

lemma check_formula_means:
  "check_formula f env rs fn = Inr rs' \<Longrightarrow> rs_ok rs \<Longrightarrow> set (map snd env) \<subseteq> set DOMAINS \<Longrightarrow> covers names env \<Longrightarrow>
   behavioral f \<Longrightarrow> total_atoms atoms \<Longrightarrow> \<exists>p. form_means names env atoms f rs' p"
proof (induction f arbitrary: rs rs' rule: measure_induct_rule [where f = size])
  case (less f)
  then obtain d where f: "f = JObj d" by (cases f) simp_all
  note prems = less.prems [unfolded f]
  from prems(1) obtain op where op: "dget d ''op'' JNull = JStr op"
    by (auto split: json.splits)
  note op' = dget_JNullD [OF op, simplified]
  from prems(1) op have keys: "set (map fst d) \<subseteq> set formula_keys" by (auto split: if_splits)
  then have lit: "map_of d ''lit'' = None" by (auto simp: map_of_eq_None_iff formula_keys_def)
  have "\<exists>p. form_means names env atoms (JObj d) rs' p"
  proof (cases "op \<in> set COMPARE")
    case True
    with prems(1) op keys obtain args where args: "dget d ''args'' JNull = JList args" "length args = 2"
      and chk: "check_compare op args env rs = Inr rs'"
      by (auto simp: res_simps args_of_Inr)
    then obtain a b where ab: "args = [a, b]" by (auto simp: length_Suc_conv numeral_2_eq_2)
    have args': "map_of d ''args'' = Some (JList [a, b])" using dget_JNullD [OF args(1)] ab by simp
    from True obtain g where g: "map_of REL op = Some g" using REL_COMPARE by auto
    from check_compare_means [OF chk [unfolded ab] prems(2-4)] obtain p q s where
      "term_means names env a rs' p" "term_means names env b rs' q" "arg_ok env s rs' a" "arg_ok env s rs' b"
      "op \<in> set ORDER \<longrightarrow> s = ''int''" by blast
    from compare_means [OF lit op' g args' this] show ?thesis by blast
  next
    case notcmp: False
    show ?thesis
    proof (cases "op \<in> set BOOLEAN")
      case True
      with prems(1) op keys notcmp obtain args where args: "dget d ''args'' JNull = JList args"
        and arity: "boolean_arity op (length args)"
        and loop: "foldM (\<lambda>rs a. if is_bool_lit a then Inr rs else check_formula a env rs fn) rs args = Inr rs'"
        by (auto split: json.splits if_splits)
      have args': "map_of d ''args'' = Some (JList args)" by (rule dget_JNullD [OF args]) simp
      have "\<exists>ps. list_all2 (\<lambda>a p. form_means names env atoms a rs' p) args ps"
      proof (rule boolean_loop_means [OF loop _ prems(2,3), THEN conjunct2])
        fix a rs rs1 assume a: "a \<in> set args" and rest: "check_formula a env rs fn = Inr rs1" "rs_ok rs"
        from args a have "size a < size f" unfolding f by (auto intro: size_arg)
        from less.IH [OF this rest prems(3,4) behavioral_arg [OF prems(5) args' a] prems(6)]
        show "\<exists>p. form_means names env atoms a rs1 p" .
      qed
      then obtain ps where "list_all2 (\<lambda>a p. form_means names env atoms a rs' p) args ps" ..
      from boolean_means [OF lit op' True args' arity this] show ?thesis by blast
    next
      case notbool: False
      from behavioral_op [OF prems(5) op] prems(1) op keys notcmp notbool have out: "op \<in> set OUTCOME"
        by (auto split: if_splits)
      with prems(6) obtain b where b: "map_of atoms op = Some b" by (auto simp: total_atoms_def)
      have names: "JStr op \<notin> {JStr ''AND'', JStr ''OR'', JStr ''NOT'', JStr ''IMPLIES'', JStr ''IFF''}"
        using notbool by (auto simp: BOOLEAN_def)
      have "form_means names env atoms (JObj d) rs' (LConst b)"
        using lit op' notcmp out b names REL_COMPARE [of op] by (auto simp: form_means_def ditem_def outcomes_are_def)
      then show ?thesis ..
    qed
  qed
  then show ?case unfolding f .
qed


text \<open>\<open>result <= x\<close> and the function returns, for an integer parameter.\<close>

definition bound_formula :: json where
  "bound_formula = JObj [(''op'', JStr ''AND''), (''args'', JList
     [JObj [(''op'', JStr ''LTE''), (''args'', JList [JObj [(''result'', JBool True)], JObj [(''param'', JStr ''V_0001'')]])],
      JObj [(''op'', JStr ''RETURNS'')]])]"

definition bound_point :: dict where
  "bound_point = [(''V_0001'', JInt 7), (''result'', JInt 5), (''outcome:RETURNS'', JBool True),
     (''outcome:THROWS'', JBool False), (''outcome:TERMINATES'', JBool True)]"


end
