(* ===== verification/Structural.thy ===== *)
theory Structural
  imports Critic
begin

text \<open>
  The structural backend of \<open>src/src/autoform/harness/verifier.py\<close>: queries over the Core AST
  of a function (which callees it names, what it writes) and the must-precede analysis. The
  statement and expression analyses thread a pair: \<open>done\<close> (the first callee has certainly been
  called) and whether a violation was recorded. The second half gives the AST a trace semantics and
  relates the analysis to it.
\<close>

section \<open>Queries\<close>

text \<open>\<open>_callee(node)\<close>, \<open>None\<close> being \<open>JNull\<close>.\<close>

definition callee_of :: "dict \<Rightarrow> json" where
  "callee_of d =
     (let k = dget d ''k'' JNull in
      if k = JStr ''call'' then dget d ''f'' JNull
      else if k = JStr ''mcall'' then JStr (CHR ''.'' # py_str (dget d ''m'' JNull))
      else JNull)"

definition child_values :: "dict \<Rightarrow> json list" where
  "child_values d = map snd (filter (\<lambda>kv. fst kv \<noteq> ''k'') d)"

definition nodes_size :: "json list \<Rightarrow> nat" where
  "nodes_size xs = sum_list (map (\<lambda>v. Suc (size v)) xs)"

lemma nodes_size_simps [simp]:
  "nodes_size [] = 0" "nodes_size (v # xs) = Suc (size v) + nodes_size xs"
  "nodes_size (xs @ ys) = nodes_size xs + nodes_size ys" "nodes_size (rev xs) = nodes_size xs"
  by (simp_all add: nodes_size_def rev_map [symmetric])

lemma nodes_size_list: "nodes_size xs = size_list size xs"
  by (induction xs) simp_all

lemma size_list_rev [simp]: "size_list size (rev xs) = size_list size (xs :: json list)"
  using nodes_size_simps(4) [of xs] by (simp only: nodes_size_list)

lemma nodes_size_children: "nodes_size (child_values d) \<le> size_list (\<lambda>x. Suc (size (snd x))) d"
  by (induction d) (auto simp: child_values_def)

text \<open>The loop of \<open>_calls_in_order\<close>; the head of the list is the top of the stack.\<close>

function (sequential) calls_loop :: "json list \<Rightarrow> json list \<Rightarrow> json list" where
  "calls_loop [] out = out"
| "calls_loop (JObj d # stack) out =
     (let c = callee_of d in calls_loop (child_values d @ stack) (if truthy c then out @ [c] else out))"
| "calls_loop (JList xs # stack) out = calls_loop (xs @ stack) out"
| "calls_loop (_ # stack) out = calls_loop stack out"
  by pat_completeness auto
termination
proof (relation "measure (\<lambda>(stack, out). nodes_size stack)", goal_cases)
  case (2 d stack out x)
  show ?case using nodes_size_children [of d] by simp
qed (simp_all add: nodes_size_list)

definition calls_in_order :: "json \<Rightarrow> json list" where
  "calls_in_order node = calls_loop [node] []"

definition written :: "dict \<Rightarrow> string list" where
  "written d =
     (let k = dget d ''k'' JNull in
      if k = JStr ''setGlobal'' \<or> k = JStr ''del'' then [py_str (dget d ''x'' JNull)]
      else if k = JStr ''setField'' then [py_str (dget d ''f'' JNull)] else [])"

function (sequential) writes_loop :: "json list \<Rightarrow> string list \<Rightarrow> string list" where
  "writes_loop [] out = out"
| "writes_loop (JObj d # stack) out = writes_loop (rev (child_values d) @ stack) (out @ written d)"
| "writes_loop (JList xs # stack) out = writes_loop (rev xs @ stack) out"
| "writes_loop (_ # stack) out = writes_loop stack out"
  by pat_completeness auto
termination
proof (relation "measure (\<lambda>(stack, out). nodes_size stack)", goal_cases)
  case (2 d stack out)
  show ?case using nodes_size_children [of d] by simp
qed (simp_all add: nodes_size_list)

text \<open>The set of writes, as a sorted list.\<close>

definition writes_of :: "json \<Rightarrow> string list" where
  "writes_of node = sorted_set (writes_loop [node] [])"

section \<open>The must-precede analysis\<close>

lemma size_dget_less [termination_simp]: "size (dget d k JNull) < Suc (size_list (\<lambda>x. Suc (size (snd x))) d)"
  using size_dget [of d k JNull] by auto

lemma size_child [termination_simp]:
  "v \<in> set (child_values d) \<Longrightarrow> size v < Suc (size_list (\<lambda>x. Suc (size (snd x))) d)"
  by (auto simp: child_values_def dest: size_dict_item)

type_synonym mp = "bool \<times> bool"

text \<open>At a node, after its children: record a violation, then learn that \<open>first\<close> was called.\<close>

definition at_call :: "json \<Rightarrow> json \<Rightarrow> json \<Rightarrow> mp \<Rightarrow> mp" where
  "at_call fr thn c s = (fst s \<or> py_eq c fr, snd s \<or> (py_eq c thn \<and> \<not> fst s))"

text \<open>\<open>x(done) and y(done)\<close>: the second analysis runs only if the first one yields \<open>done\<close>.\<close>

definition meet_and :: "(mp \<Rightarrow> mp) \<Rightarrow> (mp \<Rightarrow> mp) \<Rightarrow> mp \<Rightarrow> mp" where
  "meet_and x y s =
     (let (dt, v1) = x s in if \<not> dt then (False, v1) else y (fst s, v1))"

lemma meet_and_parts [simp]:
  "fst (meet_and x y s) \<longleftrightarrow> fst (x s) \<and> fst (y (fst s, snd (x s)))"
  "snd (meet_and x y s) \<longleftrightarrow> (if fst (x s) then snd (y (fst s, snd (x s))) else snd (x s))"
  by (auto simp: meet_and_def split: prod.splits)

lemma meet_and_cong [fundef_cong]:
  "s = s' \<Longrightarrow> (\<And>s. x s = x' s) \<Longrightarrow> (\<And>s. y s = y' s) \<Longrightarrow> meet_and x y s = meet_and x' y' s'"
  by (simp add: meet_and_def split: prod.split)

function (sequential) mp_expr :: "json \<Rightarrow> json \<Rightarrow> json \<Rightarrow> mp \<Rightarrow> mp" where
  "mp_expr f t (JList xs) s = fold (mp_expr f t) xs s"
| "mp_expr f t (JObj d) s =
     (if dget d ''k'' JNull = JStr ''cond'' then
        meet_and (mp_expr f t (dget d ''t'' JNull)) (mp_expr f t (dget d ''e'' JNull))
          (mp_expr f t (dget d ''c'' JNull) s)
      else at_call f t (callee_of d) (fold (mp_expr f t) (child_values d) s))"
| "mp_expr f t _ s = s"
  by pat_completeness auto
termination
  by (relation "measure (\<lambda>(f, t, v, s). size v)")
    (auto intro: size_list_elem size_dget_less size_child)

function (sequential) mp_stmt :: "json \<Rightarrow> json \<Rightarrow> json \<Rightarrow> mp \<Rightarrow> mp" where
  "mp_stmt f t (JObj d) s =
     (let k = dget d ''k'' JNull in
      if k = JStr ''seq'' then
        mp_stmt f t (dget d ''b'' JNull) (mp_stmt f t (dget d ''a'' JNull) s)
      else if k = JStr ''ifte'' then
        meet_and (mp_stmt f t (dget d ''t'' JNull)) (mp_stmt f t (dget d ''e'' JNull))
          (mp_expr f t (dget d ''c'' JNull) s)
      else if k = JStr ''loop'' \<or> k = JStr ''forIn'' then
        (let entry = mp_expr f t (dget d (if k = JStr ''loop'' then ''c'' else ''e'') JNull) s
         in (fst entry, snd (mp_stmt f t (dget d ''body'' JNull) entry)))
      else if k = JStr ''tryCatch'' then
        (let after = mp_stmt f t (dget d ''body'' JNull) s;
             h = mp_stmt f t (dget d ''handler'' JNull) (fst s, snd after)
         in (fst after \<and> fst s, snd h))
      else if k = JStr ''tryFinally'' then
        mp_stmt f t (dget d ''fin'' JNull) (mp_stmt f t (dget d ''body'' JNull) s)
      else if k = JStr ''breakBlock'' then
        (fst s, snd (mp_stmt f t (dget d ''body'' JNull) s))
      else mp_expr f t (JObj (filter (\<lambda>kv. fst kv \<noteq> ''k'') d)) s)"
| "mp_stmt f t _ s = s"
  by pat_completeness auto
termination
  by (relation "measure (\<lambda>(f, t, v, s). size v)") (auto intro: size_dget_less)

definition must_precede :: "json \<Rightarrow> json \<Rightarrow> json \<Rightarrow> bool \<times> json" where
  "must_precede body fr thn =
     (let bad = snd (mp_stmt fr thn body (False, False))
      in (\<not> bad, if bad then JStr (py_str thn @ '' reachable without a preceding '' @ py_str fr) else JNull))"

section \<open>Formulas and the verdict\<close>

text \<open>
  \<open>_eval\<close>: a truth value and a witness. The text of a write set is the print of a Python set,
  whose order is not fixed: the printer is a parameter.
\<close>

definition note_unless :: "bool \<Rightarrow> string \<Rightarrow> bool \<times> json" where
  "note_unless b txt = (b, if b then JNull else JStr txt)"

definition query :: "(string list \<Rightarrow> string) \<Rightarrow> string \<Rightarrow> dict \<Rightarrow> json \<Rightarrow> (bool \<times> json) res" where
  "query show_set op d body =
     (if op = ''CALLS'' then
        rbind (ditem d ''callee'') (\<lambda>c.
          Inr (note_unless (py_mem c (calls_in_order body)) (py_str c @ '' is never called'')))
      else if op = ''NOT_CALLS'' then
        rbind (ditem d ''callee'') (\<lambda>c.
          Inr (note_unless (\<not> py_mem c (calls_in_order body)) (py_str c @ '' is called'')))
      else if op = ''WRITES'' \<or> op = ''NO_WRITE'' then
        rbind (ditem d ''target'') (\<lambda>w. rbind (in_strs w (writes_of body)) (\<lambda>hit.
          Inr (note_unless (if op = ''WRITES'' then hit else \<not> hit) (''write set '' @ show_set (writes_of body)))))
      else if op = ''BEFORE'' then
        rbind (ditem d ''first'') (\<lambda>f. rbind (ditem d ''then'') (\<lambda>t. Inr (must_precede body f t)))
      else Inl (ValueError op))"

text \<open>The loops of \<open>AND\<close> (stops at the first failure) and \<open>OR\<close> (stops at the first success).\<close>

primrec and_loop :: "(json \<Rightarrow> (bool \<times> json) res) \<Rightarrow> json list \<Rightarrow> (bool \<times> json) res" where
  "and_loop ev [] = Inr (True, JNull)"
| "and_loop ev (a # as) = rbind (ev a) (\<lambda>(ok, w). if \<not> ok then Inr (ok, w) else and_loop ev as)"

primrec or_loop :: "(json \<Rightarrow> (bool \<times> json) res) \<Rightarrow> json list \<Rightarrow> json list \<Rightarrow> (bool \<times> json) res" where
  "or_loop ev ws [] = Inr (False, JList ws)"
| "or_loop ev ws (a # as) = rbind (ev a) (\<lambda>(ok, w). if ok then Inr (True, JNull) else or_loop ev (ws @ [w]) as)"

lemma and_loop_cong [fundef_cong]:
  "xs = ys \<Longrightarrow> (\<And>x. x \<in> set ys \<Longrightarrow> f x = g x) \<Longrightarrow> and_loop f xs = and_loop g ys"
proof (induction xs arbitrary: ys)
  case (Cons x xs)
  then show ?case by (cases ys) (auto intro!: rbind_cong split: prod.split)
qed simp

lemma or_loop_cong [fundef_cong]:
  "xs = ys \<Longrightarrow> ws = vs \<Longrightarrow> (\<And>x. x \<in> set ys \<Longrightarrow> f x = g x) \<Longrightarrow> or_loop f ws xs = or_loop g vs ys"
proof (induction xs arbitrary: ys ws vs)
  case (Cons x xs)
  then show ?case by (cases ys) (auto intro!: rbind_cong split: prod.split)
qed simp

function (sequential) eval_structural ::
    "(string list \<Rightarrow> string) \<Rightarrow> json \<Rightarrow> json \<Rightarrow> (bool \<times> json) res" where
  "eval_structural show_set (JObj d) body =
     (case map_of d ''op'' of
        None \<Rightarrow> Inl KeyError
      | Some op \<Rightarrow>
          if op \<in> {JStr ''AND'', JStr ''OR'', JStr ''NOT''} then
            (case map_of d ''args'' of
              None \<Rightarrow> Inl KeyError
            | Some v \<Rightarrow>
                if op = JStr ''NOT'' then
                  rbind (index_arg v 0) (\<lambda>x. rbind (eval_structural show_set x body) (\<lambda>(ok, w).
                    Inr (\<not> ok, if \<not> ok then JNull else JStr ''negated structural fact holds'')))
                else rbind (py_iter v) (\<lambda>xs.
                  if op = JStr ''AND'' then and_loop (\<lambda>a. eval_structural show_set a body) xs
                  else or_loop (\<lambda>a. eval_structural show_set a body) [] xs))
          else query show_set (case op of JStr s \<Rightarrow> s | _ \<Rightarrow> []) d body)"
| "eval_structural show_set _ body = Inl TypeError"
  by pat_completeness auto
termination
  by (relation "measure (\<lambda>(p, t, m). size t)") (auto intro: size_iter_field dest: size_index_arg)

text \<open>\<open>StructuralBackend.verify\<close>: the AST maps function names to bodies.\<close>

definition verify_structural ::
    "(string list \<Rightarrow> string) \<Rightarrow> (string \<times> json) list \<Rightarrow> dict \<Rightarrow> func \<Rightarrow> dict res" where
  "verify_structural show_set ast claim fn =
     (let body = (case map_of ast (f_name fn) of None \<Rightarrow> JNull | Some b \<Rightarrow> b); holes = (f_holes fn \<noteq> []) in
      rbind (ditem claim ''property'') (\<lambda>p.
      rbind (eval_structural show_set p body) (\<lambda>(ok, w).
        let r = [(''backend'', JStr ''cpir-structural''), (''backend_version'', JStr ''1''),
                 (''certificate'', JStr ''structural re-check of the Core AST'')]
        in Inr (if ok then
                  r @ [(''status'', JStr (if holes then ''MODEL_INCOMPLETE'' else ''PROVED''))] @
                  (if holes then [(''reason'',
                     JStr ''the function contains untranslated statements the check cannot see'')] else [])
                else r @ [(''status'', JStr ''REFUTED''), (''witness'', JObj [(''path'', w)])]))))"

section \<open>Traces\<close>

text \<open>
  What a path does, as far as calls go: a call is attempted, and if it does not raise it is
  completed. \<open>etr v tr n\<close>: evaluating \<open>v\<close> may do \<open>tr\<close>; \<open>n\<close> tells whether it ends normally.
  Every evaluation step may raise. The right operand of a short-circuit operator, which the
  exporter writes last, may be skipped.
\<close>

datatype event = Try json | Done json

definition is_short :: "dict \<Rightarrow> bool" where
  "is_short d \<longleftrightarrow> dget d ''k'' JNull = JStr ''binop'' \<and> dget d ''op'' JNull \<in> {JStr ''&&'', JStr ''||''}"

definition left_values :: "dict \<Rightarrow> json list" where
  "left_values d = child_values (takeWhile (\<lambda>kv. fst kv \<noteq> ''b'') d)"

definition right_values :: "dict \<Rightarrow> json list" where
  "right_values d = child_values (dropWhile (\<lambda>kv. fst kv \<noteq> ''b'') d)"

inductive etr :: "json \<Rightarrow> event list \<Rightarrow> bool \<Rightarrow> bool" and etrs :: "json list \<Rightarrow> event list \<Rightarrow> bool \<Rightarrow> bool" where
  e_atom: "\<not> is_obj v \<Longrightarrow> \<not> is_list v \<Longrightarrow> etr v [] True"
| e_list: "etrs xs tr n \<Longrightarrow> etr (JList xs) tr n"
| e_node: "dget d ''k'' JNull \<noteq> JStr ''cond'' \<Longrightarrow> etrs (child_values d) tr True \<Longrightarrow> callee_of d = JNull \<Longrightarrow> etr (JObj d) tr n"
| e_stop: "dget d ''k'' JNull \<noteq> JStr ''cond'' \<Longrightarrow> etrs (child_values d) tr False \<Longrightarrow> etr (JObj d) tr False"
| e_call: "dget d ''k'' JNull \<noteq> JStr ''cond'' \<Longrightarrow> etrs (child_values d) tr True \<Longrightarrow> callee_of d = c \<Longrightarrow> c \<noteq> JNull \<Longrightarrow>
    etr (JObj d) (tr @ [Try c, Done c]) True"
| e_fail: "dget d ''k'' JNull \<noteq> JStr ''cond'' \<Longrightarrow> etrs (child_values d) tr True \<Longrightarrow> callee_of d = c \<Longrightarrow> c \<noteq> JNull \<Longrightarrow>
    etr (JObj d) (tr @ [Try c]) False"
| e_short: "is_short d \<Longrightarrow> etrs (left_values d) tr True \<Longrightarrow> etr (JObj d) tr True"
| e_cond: "dget d ''k'' JNull = JStr ''cond'' \<Longrightarrow> etr (dget d ''c'' JNull) tr True \<Longrightarrow> br = ''t'' \<or> br = ''e'' \<Longrightarrow>
    etr (dget d br JNull) tr' n \<Longrightarrow> etr (JObj d) (tr @ tr') n"
| e_cond_stop: "dget d ''k'' JNull = JStr ''cond'' \<Longrightarrow> etr (dget d ''c'' JNull) tr False \<Longrightarrow> etr (JObj d) tr False"
| s_nil: "etrs [] [] True"
| s_cons: "etr v tr True \<Longrightarrow> etrs vs tr' n \<Longrightarrow> etrs (v # vs) (tr @ tr') n"
| s_stop: "etr v tr False \<Longrightarrow> etrs (v # vs) tr False"

definition leaf_kind :: "json \<Rightarrow> bool" where
  "leaf_kind k \<longleftrightarrow> k \<notin> JStr ` {''seq'', ''ifte'', ''loop'', ''forIn'', ''tryCatch'', ''tryFinally'', ''breakBlock''}"

definition jumps :: "json \<Rightarrow> bool" where
  "jumps k \<longleftrightarrow> k \<in> JStr ` {''ret'', ''raise'', ''brk'', ''cont''}"

definition header :: "dict \<Rightarrow> json" where
  "header d = dget d (if dget d ''k'' JNull = JStr ''loop'' then ''c'' else ''e'') JNull"

text \<open>Statements; \<open>ltr h b\<close>: a loop with header \<open>h\<close> and body \<open>b\<close>.\<close>

inductive str :: "json \<Rightarrow> event list \<Rightarrow> bool \<Rightarrow> bool" and ltr :: "json \<Rightarrow> json \<Rightarrow> event list \<Rightarrow> bool \<Rightarrow> bool" where
  t_atom: "\<not> is_obj v \<Longrightarrow> str v [] True"
| t_seq: "dget d ''k'' JNull = JStr ''seq'' \<Longrightarrow> str (dget d ''a'' JNull) tr True \<Longrightarrow> str (dget d ''b'' JNull) tr' n \<Longrightarrow>
    str (JObj d) (tr @ tr') n"
| t_seq_stop: "dget d ''k'' JNull = JStr ''seq'' \<Longrightarrow> str (dget d ''a'' JNull) tr False \<Longrightarrow> str (JObj d) tr False"
| t_if: "dget d ''k'' JNull = JStr ''ifte'' \<Longrightarrow> etr (dget d ''c'' JNull) tr True \<Longrightarrow> br = ''t'' \<or> br = ''e'' \<Longrightarrow>
    str (dget d br JNull) tr' n \<Longrightarrow> str (JObj d) (tr @ tr') n"
| t_if_stop: "dget d ''k'' JNull = JStr ''ifte'' \<Longrightarrow> etr (dget d ''c'' JNull) tr False \<Longrightarrow> str (JObj d) tr False"
| t_loop: "dget d ''k'' JNull = JStr ''loop'' \<or> dget d ''k'' JNull = JStr ''forIn'' \<Longrightarrow>
    ltr (header d) (dget d ''body'' JNull) tr n \<Longrightarrow> str (JObj d) tr n"
| t_try: "dget d ''k'' JNull = JStr ''tryCatch'' \<Longrightarrow> str (dget d ''body'' JNull) tr n \<Longrightarrow> str (JObj d) tr n"
| t_catch: "dget d ''k'' JNull = JStr ''tryCatch'' \<Longrightarrow> str (dget d ''body'' JNull) tr False \<Longrightarrow>
    str (dget d ''handler'' JNull) tr' n \<Longrightarrow> str (JObj d) (tr @ tr') n"
| t_finally: "dget d ''k'' JNull = JStr ''tryFinally'' \<Longrightarrow> str (dget d ''body'' JNull) tr n \<Longrightarrow>
    str (dget d ''fin'' JNull) tr' m \<Longrightarrow> str (JObj d) (tr @ tr') (n \<and> m)"
| t_block: "dget d ''k'' JNull = JStr ''breakBlock'' \<Longrightarrow> str (dget d ''body'' JNull) tr n \<Longrightarrow> n \<longrightarrow> m \<Longrightarrow>
    str (JObj d) tr m"
| t_leaf: "leaf_kind (dget d ''k'' JNull) \<Longrightarrow> etrs (child_values d) tr True \<Longrightarrow>
    n \<longrightarrow> \<not> jumps (dget d ''k'' JNull) \<Longrightarrow> str (JObj d) tr n"
| t_leaf_stop: "leaf_kind (dget d ''k'' JNull) \<Longrightarrow> etrs (child_values d) tr False \<Longrightarrow> str (JObj d) tr False"
| l_exit: "etr h tr n \<Longrightarrow> ltr h b tr n"
| l_again: "etr h tr True \<Longrightarrow> str b tr' n \<Longrightarrow> ltr h b tr'' m \<Longrightarrow> ltr h b (tr @ tr' @ tr'') m"
| l_leave: "etr h tr True \<Longrightarrow> str b tr' False \<Longrightarrow> ltr h b (tr @ tr') m"

text \<open>Every attempt at \<open>thn\<close> comes after a completed call of \<open>fr\<close>.\<close>

fun preceded :: "json \<Rightarrow> json \<Rightarrow> bool \<Rightarrow> event list \<Rightarrow> bool" where
  "preceded fr thn b [] = True"
| "preceded fr thn b (Try c # tr) = ((c = thn \<longrightarrow> b) \<and> preceded fr thn b tr)"
| "preceded fr thn b (Done c # tr) = preceded fr thn (b \<or> fr = c) tr"

lemma preceded_append:
  "preceded fr thn b (tr @ tr') \<longleftrightarrow> preceded fr thn b tr \<and> preceded fr thn (b \<or> Done fr \<in> set tr) tr'"
proof (induction tr arbitrary: b)
  case (Cons e tr)
  then show ?case by (cases e) (auto simp: disj_assoc)
qed simp

lemma preceded_free: "Try thn \<notin> set tr \<Longrightarrow> preceded fr thn b tr"
proof (induction tr arbitrary: b)
  case (Cons e tr)
  then show ?case by (cases e) auto
qed simp

section \<open>Soundness of the analysis\<close>

text \<open>Does the tree contain a call of \<open>c\<close>?\<close>

fun calls_name :: "json \<Rightarrow> json \<Rightarrow> bool" where
  "calls_name c (JObj d) = (callee_of d = c \<or> list_ex (calls_name c) (child_values d))"
| "calls_name c (JList xs) = list_ex (calls_name c) xs"
| "calls_name c _ = False"

text \<open>
  The fragment on which the analysis is right: the second branch of a condition and a
  \<open>finally\<close> clause do not call \<open>thn\<close>, and the operand a short-circuit operator may skip
  does not call \<open>fr\<close>.
\<close>

fun expr_fragment :: "json \<Rightarrow> json \<Rightarrow> json \<Rightarrow> bool" where
  "expr_fragment fr thn (JObj d) =
     (list_all (expr_fragment fr thn) (child_values d) \<and>
      (dget d ''k'' JNull = JStr ''cond'' \<longrightarrow> \<not> calls_name thn (dget d ''e'' JNull)) \<and>
      (is_short d \<longrightarrow> list_all (\<lambda>v. \<not> calls_name fr v) (right_values d)))"
| "expr_fragment fr thn (JList xs) = list_all (expr_fragment fr thn) xs"
| "expr_fragment fr thn _ = True"

function (sequential) stmt_fragment :: "json \<Rightarrow> json \<Rightarrow> json \<Rightarrow> bool" where
  "stmt_fragment fr thn (JObj d) =
     (let k = dget d ''k'' JNull; sub = (\<lambda>x. stmt_fragment fr thn (dget d x JNull)) in
      if k = JStr ''seq'' then sub ''a'' \<and> sub ''b''
      else if k = JStr ''ifte'' then
        expr_fragment fr thn (dget d ''c'' JNull) \<and> sub ''t'' \<and> sub ''e'' \<and> \<not> calls_name thn (dget d ''e'' JNull)
      else if k = JStr ''loop'' \<or> k = JStr ''forIn'' then expr_fragment fr thn (header d) \<and> sub ''body''
      else if k = JStr ''tryCatch'' then sub ''body'' \<and> sub ''handler''
      else if k = JStr ''tryFinally'' then sub ''body'' \<and> sub ''fin'' \<and> \<not> calls_name thn (dget d ''fin'' JNull)
      else if k = JStr ''breakBlock'' then sub ''body''
      else list_all (expr_fragment fr thn) (child_values d))"
| "stmt_fragment fr thn _ = True"
  by pat_completeness auto
termination
  by (relation "measure (\<lambda>(f, t, v). size v)") (auto intro: size_dget_less)

lemma dget_child: "k \<noteq> ''k'' \<Longrightarrow> dget d k JNull = JNull \<or> dget d k JNull \<in> set (child_values d)"
  by (cases "map_of d k") (force simp: dget_def child_values_def dest: map_of_SomeD)+

lemma fragment_child:
  "expr_fragment fr thn (JObj d) \<Longrightarrow> k \<noteq> ''k'' \<Longrightarrow> expr_fragment fr thn (dget d k JNull)"
  using dget_child [of k d] by (auto simp: list_all_iff)

lemma calls_child: "calls_name c (dget d k JNull) \<Longrightarrow> k \<noteq> ''k'' \<Longrightarrow> calls_name c (JObj d)"
  using dget_child [of k d] by (auto simp: list_ex_iff)

lemma not_calls_child: "\<not> calls_name c (JObj d) \<Longrightarrow> k \<noteq> ''k'' \<Longrightarrow> \<not> calls_name c (dget d k JNull)"
  using calls_child by blast

lemma left_right: "child_values d = left_values d @ right_values d"
  by (simp add: left_values_def right_values_def child_values_def filter_append [symmetric]
      del: filter_append flip: map_append)

text \<open>A tree that does not call \<open>c\<close> never attempts it.\<close>

lemma etr_free:
  "etr v tr n \<Longrightarrow> \<not> calls_name c v \<Longrightarrow> Try c \<notin> set tr"
  "etrs vs tr n \<Longrightarrow> \<forall>v \<in> set vs. \<not> calls_name c v \<Longrightarrow> Try c \<notin> set tr"
proof (induction rule: etr_etrs.inducts)
  case (e_cond d tr br tr' n)
  then show ?case using calls_child [of c d] by auto
next
  case (e_cond_stop d tr)
  then show ?case using calls_child [of c d "''c''"] by auto
qed (auto simp: list_ex_iff left_right)

lemma str_free:
  "str v tr n \<Longrightarrow> \<not> calls_name c v \<Longrightarrow> Try c \<notin> set tr"
  "ltr h b tr n \<Longrightarrow> \<not> calls_name c h \<Longrightarrow> \<not> calls_name c b \<Longrightarrow> Try c \<notin> set tr"
proof (induction rule: str_ltr.inducts)
  case (t_leaf d tr n)
  then show ?case using etr_free(2) [OF t_leaf(2)] by (auto simp: list_ex_iff)
next
  case (t_leaf_stop d tr)
  then show ?case using etr_free(2) [OF t_leaf_stop(2)] by (auto simp: list_ex_iff)
next
  case (t_loop d tr n)
  then show ?case using not_calls_child [of c d] unfolding header_def
    by (auto simp del: calls_name.simps split: if_splits)
next
  case (t_if d tr br tr' n)
  then show ?case using not_calls_child [of c d] etr_free(1) [OF t_if(2)] by (auto simp del: calls_name.simps)
next
  case (t_if_stop d tr)
  then show ?case using not_calls_child [of c d] etr_free(1) [OF t_if_stop(2)] by (auto simp del: calls_name.simps)
qed (auto simp: not_calls_child simp del: calls_name.simps dest: etr_free(1))

lemma mp_expr_violation: "snd s \<Longrightarrow> snd (mp_expr f t v s)"
proof (induction v arbitrary: s rule: measure_induct_rule [where f = size])
  case (less v)
  have loop: "\<forall>x \<in> set xs. size x < size v \<Longrightarrow> snd s \<Longrightarrow> snd (fold (mp_expr f t) xs s)" for xs s
    using less.IH by (induction xs arbitrary: s) auto
  show ?case
  proof (cases v)
    case (JList xs)
    with less.prems loop [of xs s] show ?thesis by (auto dest: size_list_elem)
  next
    case (JObj d)
    have sz: "size (dget d k JNull) < size v" for k unfolding JObj using size_dget_less by simp
    have sub: "snd (mp_expr f t (dget d k JNull) s)" if "snd s" for k s using less.IH [OF sz that] .
    show ?thesis
    proof (cases "dget d ''k'' JNull = JStr ''cond''")
      case True
      with sub less.prems show ?thesis unfolding JObj by simp
    next
      case False
      have "\<forall>x \<in> set (child_values d). size x < size v" unfolding JObj by (auto dest: size_child)
      from loop [OF this less.prems] False show ?thesis unfolding JObj by (simp add: at_call_def)
    qed
  qed (use less.prems in simp_all)
qed

lemma fold_violation: "snd s \<Longrightarrow> snd (fold (mp_expr f t) vs s)"
  by (induction vs arbitrary: s) (simp_all add: mp_expr_violation)

text \<open>A tree without a call of \<open>first\<close> does not make the analysis believe in one.\<close>

lemma py_eq_JStr: "py_eq c (JStr x) \<longleftrightarrow> c = JStr x"
  by (cases c) auto

lemma mp_expr_unlearned: "\<not> calls_name (JStr f) v \<Longrightarrow> fst (mp_expr (JStr f) t v s) \<Longrightarrow> fst s"
proof (induction v arbitrary: s rule: measure_induct_rule [where f = size])
  case (less v)
  let ?f = "JStr f"
  have loop: "\<forall>x \<in> set xs. size x < size v \<and> \<not> calls_name ?f x \<Longrightarrow> fst (fold (mp_expr ?f t) xs s) \<Longrightarrow> fst s" for xs s
  proof (induction xs arbitrary: s)
    case (Cons x xs)
    then have "fst (mp_expr ?f t x s)" by simp
    with Cons.prems(1) less.IH [of x s] show ?case by simp
  qed simp
  show ?case
  proof (cases v)
    case (JList xs)
    with less.prems loop [of xs s] show ?thesis by (auto dest: size_list_elem simp: list_ex_iff)
  next
    case (JObj d)
    show ?thesis
    proof (cases "dget d ''k'' JNull = JStr ''cond''")
      case True
      have sz: "size (dget d k JNull) < size v" for k unfolding JObj using size_dget_less by simp
      have no: "\<not> calls_name ?f (dget d k JNull)" if "k \<noteq> ''k''" for k
        using less.prems(1) that unfolding JObj by (rule not_calls_child)
      from less.prems(2) True have "fst (mp_expr ?f t (dget d ''t'' JNull) (mp_expr ?f t (dget d ''c'' JNull) s))"
        unfolding JObj by simp
      from less.IH [OF sz no this] have "fst (mp_expr ?f t (dget d ''c'' JNull) s)" by simp
      from less.IH [OF sz no this] show ?thesis by simp
    next
      case False
      have "\<forall>x \<in> set (child_values d). size x < size v \<and> \<not> calls_name ?f x"
        using less.prems(1) unfolding JObj by (auto dest: size_child simp: list_ex_iff)
      note L = loop [OF this, of s]
      have "callee_of d \<noteq> ?f" using less.prems(1) unfolding JObj by simp
      with L less.prems(2) False show ?thesis unfolding JObj by (simp add: at_call_def py_eq_JStr)
    qed
  qed (use less.prems in simp_all)
qed

lemma fold_unlearned:
  "\<forall>v \<in> set vs. \<not> calls_name (JStr f) v \<Longrightarrow> fst (fold (mp_expr (JStr f) t) vs s) \<Longrightarrow> fst s"
proof (induction vs arbitrary: s)
  case (Cons v vs)
  then have "fst (mp_expr (JStr f) t v s)" by simp
  moreover have "\<not> calls_name (JStr f) v" using Cons.prems(1) by simp
  ultimately show ?case using mp_expr_unlearned by blast
qed simp

text \<open>Soundness for expressions.\<close>

definition reached :: "json \<Rightarrow> bool \<Rightarrow> event list \<Rightarrow> bool" where
  "reached fr b tr \<longleftrightarrow> b \<or> Done fr \<in> set tr"

lemma etr_sound:
  fixes f t :: string
  defines "F \<equiv> JStr f" and "T \<equiv> JStr t"
  shows "etr v tr n \<Longrightarrow> expr_fragment F T v \<Longrightarrow> \<not> snd (mp_expr F T v s) \<Longrightarrow> (fst s \<longrightarrow> b) \<Longrightarrow>
      preceded F T b tr \<and> (n \<longrightarrow> fst (mp_expr F T v s) \<longrightarrow> reached F b tr)"
    and "etrs vs tr n \<Longrightarrow> list_all (expr_fragment F T) vs \<Longrightarrow> \<not> snd (fold (mp_expr F T) vs s) \<Longrightarrow> (fst s \<longrightarrow> b) \<Longrightarrow>
      preceded F T b tr \<and> (n \<longrightarrow> fst (fold (mp_expr F T) vs s) \<longrightarrow> reached F b tr)"
proof (induction arbitrary: s b and s b rule: etr_etrs.inducts)
  case (e_atom v)
  then show ?case by (cases v) (simp_all add: reached_def)
next
  case (e_list xs tr n)
  then show ?case by simp
next
  case (e_node d tr n)
  then have viol: "\<not> snd (fold (mp_expr F T) (child_values d) s)" by (simp add: at_call_def)
  from e_node.prems have frag: "list_all (expr_fragment F T) (child_values d)" by simp
  from e_node.IH [OF frag viol e_node.prems(3)] e_node.hyps show ?case
    by (simp add: at_call_def F_def)
next
  case (e_stop d tr)
  then have viol: "\<not> snd (fold (mp_expr F T) (child_values d) s)" by (simp add: at_call_def)
  from e_stop.prems have frag: "list_all (expr_fragment F T) (child_values d)" by simp
  from e_stop.IH [OF frag viol e_stop.prems(3)] show ?case by simp
next
  case (e_call d tr c)
  let ?s = "fold (mp_expr F T) (child_values d) s"
  from e_call have viol: "\<not> snd ?s" and own: "py_eq c T \<longrightarrow> fst ?s" by (simp_all add: at_call_def)
  from e_call.prems have frag: "list_all (expr_fragment F T) (child_values d)" by simp
  from e_call.IH [OF frag viol e_call.prems(3)] have IH: "preceded F T b tr" "fst ?s \<longrightarrow> reached F b tr" by simp_all
  with own e_call.hyps show ?case
    by (auto simp: preceded_append reached_def at_call_def py_eq_JStr F_def T_def)
next
  case (e_fail d tr c)
  let ?s = "fold (mp_expr F T) (child_values d) s"
  from e_fail have viol: "\<not> snd ?s" and own: "py_eq c T \<longrightarrow> fst ?s" by (simp_all add: at_call_def)
  from e_fail.prems have frag: "list_all (expr_fragment F T) (child_values d)" by simp
  from e_fail.IH [OF frag viol e_fail.prems(3)] have IH: "preceded F T b tr" "fst ?s \<longrightarrow> reached F b tr" by simp_all
  with own e_fail.hyps show ?case
    by (auto simp: preceded_append reached_def py_eq_JStr T_def)
next
  case (e_short d tr)
  let ?l = "fold (mp_expr F T) (left_values d) s"
  have notcond: "dget d ''k'' JNull \<noteq> JStr ''cond''" "callee_of d = JNull"
    using e_short.hyps(1) by (auto simp: is_short_def callee_of_def)
  from e_short.prems notcond have "\<not> snd (fold (mp_expr F T) (right_values d) ?l)"
    by (simp add: at_call_def left_right)
  then have viol: "\<not> snd ?l" using fold_violation by blast
  from e_short.prems have frag: "list_all (expr_fragment F T) (left_values d)" by (simp add: left_right)
  from e_short.prems e_short.hyps have free: "\<forall>v \<in> set (right_values d). \<not> calls_name F v"
    by (simp add: list_all_iff)
  have "fst (mp_expr F T (JObj d) s) \<longrightarrow> fst ?l"
    using fold_unlearned [OF free [unfolded F_def], of T ?l] notcond by (simp add: at_call_def left_right F_def)
  with e_short.IH [OF frag viol e_short.prems(3)] show ?case by blast
next
  case (e_cond d tr br tr' n)
  let ?c = "mp_expr F T (dget d ''c'' JNull) s"
  let ?t = "mp_expr F T (dget d ''t'' JNull) ?c"
  let ?e = "mp_expr F T (dget d ''e'' JNull) (fst ?c, snd ?t)"
  have m: "mp_expr F T (JObj d) s = (fst ?t \<and> fst ?e, if fst ?t then snd ?e else snd ?t)"
    using e_cond.hyps(1) by (simp add: prod_eq_iff)
  have violt: "\<not> snd ?t" using e_cond.prems(2) mp_expr_violation [of "(fst ?c, snd ?t)"] unfolding m
    by (auto split: if_splits)
  then have violc: "\<not> snd ?c" using mp_expr_violation by blast
  have frag: "expr_fragment F T (dget d k JNull)" if "k \<noteq> ''k''" for k
    using e_cond.prems(1) that by (rule fragment_child)
  from e_cond.IH(1) [OF frag violc e_cond.prems(3)]
  have C: "preceded F T b tr" "fst ?c \<longrightarrow> reached F b tr" by simp_all
  show ?case
  proof (cases "br = ''t''")
    case True
    from e_cond.IH(2) [of ?c "reached F b tr"] True frag violt C(2) have
      "preceded F T (reached F b tr) tr' \<and> (n \<longrightarrow> fst ?t \<longrightarrow> reached F (reached F b tr) tr')" by simp
    with C m show ?thesis by (auto simp: preceded_append reached_def)
  next
    case False
    with e_cond.hyps have br: "br = ''e''" by blast
    show ?thesis
    proof (cases "fst ?t")
      case True
      with e_cond.prems(2) have "\<not> snd ?e" unfolding m by simp
      from e_cond.IH(2) [of "(fst ?c, snd ?t)" "reached F b tr"] br frag this C(2) have
        "preceded F T (reached F b tr) tr' \<and> (n \<longrightarrow> fst ?e \<longrightarrow> reached F (reached F b tr) tr')" by simp
      with C m show ?thesis by (auto simp: preceded_append reached_def)
    next
      case False
      have "\<not> calls_name T (dget d br JNull)" using e_cond.prems(1) e_cond.hyps(1) br by simp
      from preceded_free [OF etr_free(1) [OF e_cond.hyps(4) this]] C False m show ?thesis
        by (simp add: preceded_append)
    qed
  qed
next
  case (e_cond_stop d tr)
  let ?c = "mp_expr F T (dget d ''c'' JNull) s"
  let ?t = "mp_expr F T (dget d ''t'' JNull) ?c"
  have "\<not> snd ?t" using e_cond_stop mp_expr_violation [of "(fst ?c, snd ?t)"]
    by (auto split: if_splits)
  then have "\<not> snd ?c" using mp_expr_violation by blast
  from e_cond_stop.IH [OF fragment_child [OF e_cond_stop.prems(1)] this e_cond_stop.prems(3)] show ?case by simp
next
  case s_nil
  then show ?case by (simp add: reached_def)
next
  case (s_cons v tr vs tr' n)
  let ?s = "mp_expr F T v s"
  from s_cons.prems have viol: "\<not> snd ?s" using fold_violation [of ?s] by auto
  from s_cons.IH(1) [OF _ viol s_cons.prems(3)] s_cons.prems(1)
  have "preceded F T b tr" "fst ?s \<longrightarrow> reached F b tr" by simp_all
  with s_cons.IH(2) [of ?s "reached F b tr"] s_cons.prems show ?case
    by (auto simp: preceded_append reached_def)
next
  case (s_stop v tr vs)
  let ?s = "mp_expr F T v s"
  from s_stop.prems have viol: "\<not> snd ?s" using fold_violation [of ?s] by auto
  from s_stop.IH [OF _ viol s_stop.prems(3)] s_stop.prems(1) show ?case by simp
qed

text \<open>Statements.\<close>

lemma leaf_analysis:
  assumes "leaf_kind (dget d ''k'' JNull)"
  shows "mp_stmt (JStr f) (JStr t) (JObj d) s = fold (mp_expr (JStr f) (JStr t)) (child_values d) s"
proof -
  let ?d = "filter (\<lambda>kv. fst kv \<noteq> ''k'') d"
  have nokey: "dget ?d ''k'' JNull = JNull"
  proof -
    have "''k'' \<notin> fst ` set ?d" by auto
    then show ?thesis by (simp add: dget_def map_of_eq_None_iff [THEN iffD2])
  qed
  then have "callee_of ?d = JNull" by (simp add: callee_of_def)
  moreover have "child_values ?d = child_values d" by (simp add: child_values_def)
  moreover have "mp_stmt (JStr f) (JStr t) (JObj d) s = mp_expr (JStr f) (JStr t) (JObj ?d) s"
    using assms by (auto simp: leaf_kind_def Let_def)
  ultimately show ?thesis using nokey by (simp add: at_call_def)
qed

lemma kinds: "leaf_kind k \<or> k \<in> JStr ` {''seq'', ''ifte'', ''loop'', ''forIn'', ''tryCatch'', ''tryFinally'', ''breakBlock''}"
  by (auto simp: leaf_kind_def)

lemma mp_stmt_violation: "snd s \<Longrightarrow> snd (mp_stmt (JStr f) (JStr t) v s)"
proof (induction v arbitrary: s rule: measure_induct_rule [where f = size])
  case (less v)
  show ?case
  proof (cases v)
    case (JObj d)
    have sz: "size (dget d k JNull) < size v" for k unfolding JObj using size_dget_less by simp
    have sub: "snd (mp_stmt (JStr f) (JStr t) (dget d k JNull) s)" if "snd s" for k s using less.IH [OF sz that] .
    note ex = mp_expr_violation [OF less.prems, of "JStr f" "JStr t"]
    show ?thesis
    proof (cases "leaf_kind (dget d ''k'' JNull)")
      case True
      show ?thesis unfolding JObj leaf_analysis [OF True] using less.prems by (rule fold_violation)
    next
      case False
      then have "dget d ''k'' JNull \<in> JStr ` {''seq'', ''ifte'', ''loop'', ''forIn'', ''tryCatch'', ''tryFinally'', ''breakBlock''}"
        using kinds by blast
      with sub ex less.prems show ?thesis unfolding JObj by (auto simp: Let_def)
    qed
  qed (use less.prems in simp_all)
qed

lemma no_violation: "\<not> snd (mp_stmt (JStr f) (JStr t) v s) \<Longrightarrow> \<not> snd s"
  using mp_stmt_violation by blast

lemma meet_no_violation: "\<not> snd (meet_and x y s) \<Longrightarrow> (\<And>r. snd r \<Longrightarrow> snd (y r)) \<Longrightarrow> \<not> snd (x s)"
  by (auto split: if_splits)

lemma loop_analysis:
  assumes "dget d ''k'' JNull = JStr ''loop'' \<or> dget d ''k'' JNull = JStr ''forIn''"
  shows "mp_stmt F T (JObj d) s =
    (fst (mp_expr F T (header d) s), snd (mp_stmt F T (dget d ''body'' JNull) (mp_expr F T (header d) s)))"
  using assms by (auto simp: header_def Let_def)

lemma reached_mono: "reached F b tr \<Longrightarrow> (b \<longrightarrow> c) \<Longrightarrow> reached F c tr"
  by (auto simp: reached_def)

lemma reached_append: "reached F b (tr @ tr') \<longleftrightarrow> reached F (reached F b tr) tr'"
  by (auto simp: reached_def)

lemma preceded_reached: "preceded F T b (tr @ tr') \<longleftrightarrow> preceded F T b tr \<and> preceded F T (reached F b tr) tr'"
  by (simp add: preceded_append reached_def)

text \<open>The analysis and the fragment, kind by kind.\<close>

lemma mp_stmt_kinds:
  "dget d ''k'' JNull = JStr ''seq'' \<Longrightarrow>
     mp_stmt F T (JObj d) s = mp_stmt F T (dget d ''b'' JNull) (mp_stmt F T (dget d ''a'' JNull) s)"
  "dget d ''k'' JNull = JStr ''ifte'' \<Longrightarrow>
     mp_stmt F T (JObj d) s = meet_and (mp_stmt F T (dget d ''t'' JNull)) (mp_stmt F T (dget d ''e'' JNull))
       (mp_expr F T (dget d ''c'' JNull) s)"
  "dget d ''k'' JNull = JStr ''tryCatch'' \<Longrightarrow>
     mp_stmt F T (JObj d) s = (fst (mp_stmt F T (dget d ''body'' JNull) s) \<and> fst s,
       snd (mp_stmt F T (dget d ''handler'' JNull) (fst s, snd (mp_stmt F T (dget d ''body'' JNull) s))))"
  "dget d ''k'' JNull = JStr ''tryFinally'' \<Longrightarrow>
     mp_stmt F T (JObj d) s = mp_stmt F T (dget d ''fin'' JNull) (mp_stmt F T (dget d ''body'' JNull) s)"
  "dget d ''k'' JNull = JStr ''breakBlock'' \<Longrightarrow>
     mp_stmt F T (JObj d) s = (fst s, snd (mp_stmt F T (dget d ''body'' JNull) s))"
  by (subst mp_stmt.simps, simp add: Let_def)+

lemma fragment_kinds:
  "dget d ''k'' JNull = JStr ''seq'' \<Longrightarrow>
     stmt_fragment F T (JObj d) \<longleftrightarrow> stmt_fragment F T (dget d ''a'' JNull) \<and> stmt_fragment F T (dget d ''b'' JNull)"
  "dget d ''k'' JNull = JStr ''ifte'' \<Longrightarrow>
     stmt_fragment F T (JObj d) \<longleftrightarrow> expr_fragment F T (dget d ''c'' JNull) \<and> stmt_fragment F T (dget d ''t'' JNull) \<and>
       stmt_fragment F T (dget d ''e'' JNull) \<and> \<not> calls_name T (dget d ''e'' JNull)"
  "dget d ''k'' JNull = JStr ''loop'' \<or> dget d ''k'' JNull = JStr ''forIn'' \<Longrightarrow>
     stmt_fragment F T (JObj d) \<longleftrightarrow> expr_fragment F T (header d) \<and> stmt_fragment F T (dget d ''body'' JNull)"
  "dget d ''k'' JNull = JStr ''tryCatch'' \<Longrightarrow>
     stmt_fragment F T (JObj d) \<longleftrightarrow> stmt_fragment F T (dget d ''body'' JNull) \<and> stmt_fragment F T (dget d ''handler'' JNull)"
  "dget d ''k'' JNull = JStr ''tryFinally'' \<Longrightarrow>
     stmt_fragment F T (JObj d) \<longleftrightarrow> stmt_fragment F T (dget d ''body'' JNull) \<and> stmt_fragment F T (dget d ''fin'' JNull) \<and>
       \<not> calls_name T (dget d ''fin'' JNull)"
  "dget d ''k'' JNull = JStr ''breakBlock'' \<Longrightarrow>
     stmt_fragment F T (JObj d) \<longleftrightarrow> stmt_fragment F T (dget d ''body'' JNull)"
  "leaf_kind (dget d ''k'' JNull) \<Longrightarrow> stmt_fragment F T (JObj d) \<longleftrightarrow> list_all (expr_fragment F T) (child_values d)"
  by (auto simp: Let_def leaf_kind_def)

lemma str_sound:
  fixes f t :: string
  defines "F \<equiv> JStr f" and "T \<equiv> JStr t"
  shows "str v tr n \<Longrightarrow> stmt_fragment F T v \<Longrightarrow> \<not> snd (mp_stmt F T v s) \<Longrightarrow> (fst s \<longrightarrow> b) \<Longrightarrow>
      preceded F T b tr \<and> (n \<longrightarrow> fst (mp_stmt F T v s) \<longrightarrow> reached F b tr)"
    and "ltr h v tr n \<Longrightarrow> expr_fragment F T h \<Longrightarrow> stmt_fragment F T v \<Longrightarrow>
      \<not> snd (mp_stmt F T v (mp_expr F T h s)) \<Longrightarrow> (fst s \<longrightarrow> b) \<Longrightarrow>
      preceded F T b tr \<and> (n \<longrightarrow> fst (mp_expr F T h s) \<longrightarrow> reached F b tr)"
proof (induction arbitrary: s b and s b rule: str_ltr.inducts)
  case (t_atom v)
  then show ?case by (cases v) (simp_all add: reached_def)
next
  case (t_seq d tr tr' n)
  let ?a = "mp_stmt F T (dget d ''a'' JNull) s"
  have m: "mp_stmt F T (JObj d) s = mp_stmt F T (dget d ''b'' JNull) ?a" by (rule mp_stmt_kinds(1) [OF t_seq.hyps(1)])
  have viol: "\<not> snd ?a" using t_seq.prems(2) [unfolded m] unfolding F_def T_def by (rule no_violation)
  have frag: "stmt_fragment F T (dget d ''a'' JNull)" "stmt_fragment F T (dget d ''b'' JNull)"
    using fragment_kinds(1) [THEN iffD1, OF t_seq.hyps(1) t_seq.prems(1)] by simp_all
  from t_seq.IH(1) [OF frag(1) viol t_seq.prems(3)] have A: "preceded F T b tr" "fst ?a \<longrightarrow> reached F b tr" by simp_all
  from t_seq.IH(2) [OF frag(2) t_seq.prems(2) [unfolded m] A(2)] A(1) show ?case
    unfolding m preceded_reached reached_append by blast
next
  case (t_seq_stop d tr)
  let ?a = "mp_stmt F T (dget d ''a'' JNull) s"
  have m: "mp_stmt F T (JObj d) s = mp_stmt F T (dget d ''b'' JNull) ?a" by (rule mp_stmt_kinds(1) [OF t_seq_stop.hyps(1)])
  have viol: "\<not> snd ?a" using t_seq_stop.prems(2) [unfolded m] unfolding F_def T_def by (rule no_violation)
  have frag: "stmt_fragment F T (dget d ''a'' JNull)"
    using fragment_kinds(1) [THEN iffD1, OF t_seq_stop.hyps(1) t_seq_stop.prems(1)] by simp_all
  from t_seq_stop.IH [OF frag viol t_seq_stop.prems(3)] show ?case by simp
next
  case (t_if d tr br tr' n)
  let ?c = "mp_expr F T (dget d ''c'' JNull) s"
  let ?t = "mp_stmt F T (dget d ''t'' JNull) ?c"
  let ?e = "mp_stmt F T (dget d ''e'' JNull) (fst ?c, snd ?t)"
  have m: "mp_stmt F T (JObj d) s = (fst ?t \<and> fst ?e, if fst ?t then snd ?e else snd ?t)"
    using t_if.hyps(1) by (simp add: prod_eq_iff mp_stmt_kinds del: mp_stmt.simps)
  have violt: "\<not> snd ?t"
    using t_if.prems(2) [unfolded mp_stmt_kinds(2) [OF t_if.hyps(1)]] mp_stmt_violation unfolding F_def T_def
    by (rule meet_no_violation)
  then have violc: "\<not> snd ?c" unfolding F_def T_def by (rule no_violation)
  have frag: "expr_fragment F T (dget d ''c'' JNull)" "stmt_fragment F T (dget d ''t'' JNull)"
    "stmt_fragment F T (dget d ''e'' JNull)" "\<not> calls_name T (dget d ''e'' JNull)"
    using fragment_kinds(2) [THEN iffD1, OF t_if.hyps(1) t_if.prems(1)] by simp_all
  from etr_sound(1) [where f = f and t = t, folded F_def T_def, OF t_if.hyps(2) frag(1) violc t_if.prems(3)]
  have C: "preceded F T b tr" "fst ?c \<longrightarrow> reached F b tr" by simp_all
  show ?case
  proof (cases "br = ''t''")
    case True
    from t_if.IH [of ?c "reached F b tr"] True frag violt C(2) have
      "preceded F T (reached F b tr) tr' \<and> (n \<longrightarrow> fst ?t \<longrightarrow> reached F (reached F b tr) tr')" by simp
    with C m show ?thesis unfolding preceded_reached reached_append by simp
  next
    case False
    with t_if.hyps have br: "br = ''e''" by blast
    show ?thesis
    proof (cases "fst ?t")
      case True
      with t_if.prems(2) have "\<not> snd ?e" unfolding m by simp
      from t_if.IH [of "(fst ?c, snd ?t)" "reached F b tr"] br frag this C(2) have
        "preceded F T (reached F b tr) tr' \<and> (n \<longrightarrow> fst ?e \<longrightarrow> reached F (reached F b tr) tr')" by simp
      with C m show ?thesis unfolding preceded_reached reached_append by simp
    next
      case False
      from preceded_free [OF str_free(1) [OF t_if.hyps(4)]] frag(4) br C False m show ?thesis
        by (simp add: preceded_reached)
    qed
  qed
next
  case (t_if_stop d tr)
  let ?c = "mp_expr F T (dget d ''c'' JNull) s"
  let ?t = "mp_stmt F T (dget d ''t'' JNull) ?c"
  have "\<not> snd ?t"
    using t_if_stop.prems(2) [unfolded mp_stmt_kinds(2) [OF t_if_stop.hyps(1)]] mp_stmt_violation unfolding F_def T_def
    by (rule meet_no_violation)
  then have "\<not> snd ?c" unfolding F_def T_def by (rule no_violation)
  moreover have "expr_fragment F T (dget d ''c'' JNull)" using fragment_kinds(2) [THEN iffD1, OF t_if_stop.hyps(1) t_if_stop.prems(1)] by simp_all
  ultimately show ?case
    using etr_sound(1) [where f = f and t = t, folded F_def T_def, OF t_if_stop.hyps(2) _ _ t_if_stop.prems(3)] by simp
next
  case (t_loop d tr n)
  have frag: "expr_fragment F T (header d)" "stmt_fragment F T (dget d ''body'' JNull)"
    using fragment_kinds(3) [THEN iffD1, OF t_loop.hyps(1) t_loop.prems(1)] by simp_all
  from t_loop.IH [OF frag _ t_loop.prems(3)] t_loop.prems(2) loop_analysis [OF t_loop.hyps(1)] show ?case by simp
next
  case (t_try d tr n)
  let ?a = "mp_stmt F T (dget d ''body'' JNull) s"
  let ?h = "mp_stmt F T (dget d ''handler'' JNull) (fst s, snd ?a)"
  have m: "mp_stmt F T (JObj d) s = (fst ?a \<and> fst s, snd ?h)" by (rule mp_stmt_kinds(3) [OF t_try.hyps(1)])
  have "\<not> snd ?h" using t_try.prems(2) unfolding m by simp
  then have viol: "\<not> snd ?a" using no_violation [of f t _ "(fst s, snd ?a)"] unfolding F_def T_def by simp
  have frag: "stmt_fragment F T (dget d ''body'' JNull)" using fragment_kinds(4) [THEN iffD1, OF t_try.hyps(1) t_try.prems(1)] by simp_all
  from t_try.IH [OF frag viol t_try.prems(3)] show ?case unfolding m by auto
next
  case (t_catch d tr tr' n)
  let ?a = "mp_stmt F T (dget d ''body'' JNull) s"
  let ?h = "mp_stmt F T (dget d ''handler'' JNull) (fst s, snd ?a)"
  have m: "mp_stmt F T (JObj d) s = (fst ?a \<and> fst s, snd ?h)" by (rule mp_stmt_kinds(3) [OF t_catch.hyps(1)])
  have violh: "\<not> snd ?h" using t_catch.prems(2) unfolding m by simp
  then have viol: "\<not> snd ?a" using no_violation [of f t _ "(fst s, snd ?a)"] unfolding F_def T_def by simp
  have frag: "stmt_fragment F T (dget d ''body'' JNull)" "stmt_fragment F T (dget d ''handler'' JNull)"
    using fragment_kinds(4) [THEN iffD1, OF t_catch.hyps(1) t_catch.prems(1)] by simp_all
  from t_catch.IH(1) [OF frag(1) viol t_catch.prems(3)] have A: "preceded F T b tr" by simp
  have "fst (fst s, snd ?a) \<longrightarrow> reached F b tr" using t_catch.prems(3) by (simp add: reached_def)
  from t_catch.IH(2) [OF frag(2) violh this] A t_catch.prems(3) show ?case
    unfolding m preceded_reached reached_append by (auto simp: reached_def)
next
  case (t_finally d tr n tr' k)
  let ?a = "mp_stmt F T (dget d ''body'' JNull) s"
  have m: "mp_stmt F T (JObj d) s = mp_stmt F T (dget d ''fin'' JNull) ?a" by (rule mp_stmt_kinds(4) [OF t_finally.hyps(1)])
  have viol: "\<not> snd ?a" using t_finally.prems(2) [unfolded m] unfolding F_def T_def by (rule no_violation)
  have frag: "stmt_fragment F T (dget d ''body'' JNull)" "stmt_fragment F T (dget d ''fin'' JNull)"
    "\<not> calls_name T (dget d ''fin'' JNull)"
    using fragment_kinds(5) [THEN iffD1, OF t_finally.hyps(1) t_finally.prems(1)] by simp_all
  from t_finally.IH(1) [OF frag(1) viol t_finally.prems(3)]
  have A: "preceded F T b tr" "n \<longrightarrow> fst ?a \<longrightarrow> reached F b tr" by simp_all
  show ?case
  proof (cases n)
    case True
    with A have "fst ?a \<longrightarrow> reached F b tr" by simp
    from t_finally.IH(2) [OF frag(2) t_finally.prems(2) [unfolded m] this] A(1) show ?thesis
      unfolding m preceded_reached reached_append by blast
  next
    case False
    from preceded_free [OF str_free(1) [OF t_finally.hyps(3) frag(3)]] A(1) False show ?thesis
      by (simp add: preceded_reached)
  qed
next
  case (t_block d tr n k)
  let ?a = "mp_stmt F T (dget d ''body'' JNull) s"
  have m: "mp_stmt F T (JObj d) s = (fst s, snd ?a)" by (rule mp_stmt_kinds(5) [OF t_block.hyps(1)])
  have frag: "stmt_fragment F T (dget d ''body'' JNull)" using fragment_kinds(6) [THEN iffD1, OF t_block.hyps(1) t_block.prems(1)] by simp_all
  from t_block.IH [OF frag _ t_block.prems(3)] t_block.prems show ?case unfolding m by (simp add: reached_def)
next
  case (t_leaf d tr n)
  note m = leaf_analysis [OF t_leaf.hyps(1), of f t s, folded F_def T_def]
  have frag: "list_all (expr_fragment F T) (child_values d)"
    using fragment_kinds(7) [THEN iffD1, OF t_leaf.hyps(1) t_leaf.prems(1)] by simp_all
  from etr_sound(2) [where f = f and t = t, folded F_def T_def, OF t_leaf.hyps(2) frag _ t_leaf.prems(3)] t_leaf.prems(2) show ?case
    unfolding m by simp
next
  case (t_leaf_stop d tr)
  note m = leaf_analysis [OF t_leaf_stop.hyps(1), of f t s, folded F_def T_def]
  have frag: "list_all (expr_fragment F T) (child_values d)"
    using fragment_kinds(7) [THEN iffD1, OF t_leaf_stop.hyps(1) t_leaf_stop.prems(1)] by simp_all
  from etr_sound(2) [where f = f and t = t, folded F_def T_def, OF t_leaf_stop.hyps(2) frag _ t_leaf_stop.prems(3)] t_leaf_stop.prems(2)
  show ?case unfolding m by simp
next
  case (l_exit h tr n v)
  have "\<not> snd (mp_expr F T h s)" using l_exit.prems(3) unfolding F_def T_def by (rule no_violation)
  from etr_sound(1) [where f = f and t = t, folded F_def T_def, OF l_exit.hyps(1) l_exit.prems(1) this l_exit.prems(4)] show ?case .
next
  case (l_again h tr v tr' n tr'' k)
  let ?h = "mp_expr F T h s"
  have viol: "\<not> snd ?h" using l_again.prems(3) unfolding F_def T_def by (rule no_violation)
  from etr_sound(1) [where f = f and t = t, folded F_def T_def, OF l_again.hyps(1) l_again.prems(1) viol l_again.prems(4)]
  have H: "preceded F T b tr" "fst ?h \<longrightarrow> reached F b tr" by simp_all
  from l_again.IH(1) [OF l_again.prems(2,3) H(2)] have B: "preceded F T (reached F b tr) tr'" by simp
  have "fst s \<longrightarrow> reached F (reached F b tr) tr'" using l_again.prems(4) by (simp add: reached_def)
  from l_again.IH(2) [OF l_again.prems(1-3) this] H(1) B show ?case
    unfolding preceded_reached reached_append by simp
next
  case (l_leave h tr v tr' k)
  let ?h = "mp_expr F T h s"
  have viol: "\<not> snd ?h" using l_leave.prems(3) unfolding F_def T_def by (rule no_violation)
  from etr_sound(1) [where f = f and t = t, folded F_def T_def, OF l_leave.hyps(1) l_leave.prems(1) viol l_leave.prems(4)]
  have H: "preceded F T b tr" "fst ?h \<longrightarrow> reached F b tr" by simp_all
  from l_leave.IH [OF l_leave.prems(2,3) H(2)] H show ?case
    unfolding preceded_reached reached_append by (auto simp: reached_def)
qed

section \<open>Properties\<close>

text \<open>
  C12. On its fragment the must-precede analysis is sound for every path: if a body has no
  second branch and no \<open>finally\<close> clause that calls \<open>thn\<close>, and no skippable operand that calls
  \<open>first\<close>, then a positive answer means that on every trace of the body, whether it ends
  normally, returns, breaks or raises at any point, each attempt at \<open>thn\<close> comes after a
  completed call of \<open>first\<close>.
\<close>

theorem must_precede_sound:
  assumes "fst (must_precede body (JStr first) (JStr thn))" and "stmt_fragment (JStr first) (JStr thn) body"
    and "str body tr n"
  shows "preceded (JStr first) (JStr thn) False tr"
proof -
  have "\<not> snd (mp_stmt (JStr first) (JStr thn) body (False, False))"
    using assms(1) unfolding must_precede_def Let_def fst_conv .
  from str_sound(1) [OF assms(3,2) this] show ?thesis by simp
qed

definition call_node :: "string \<Rightarrow> json" where
  "call_node c = JObj [(''k'', JStr ''call''), (''f'', JStr c)]"

definition expr_stmt :: "json \<Rightarrow> json" where
  "expr_stmt e = JObj [(''k'', JStr ''exprS''), (''e'', e)]"

definition skip_node :: json where
  "skip_node = JObj [(''k'', JStr ''skip'')]"

definition if_node :: "json \<Rightarrow> json \<Rightarrow> json" where
  "if_node t e = JObj [(''k'', JStr ''ifte''), (''c'', JObj [(''k'', JStr ''name''), (''v'', JStr ''x'')]), (''t'', t), (''e'', e)]"

definition seq_node :: "json \<Rightarrow> json \<Rightarrow> json" where
  "seq_node a b = JObj [(''k'', JStr ''seq''), (''a'', a), (''b'', b)]"

lemma call_trace: "etr (call_node c) [Try (JStr c), Done (JStr c)] True" "etr (call_node c) [Try (JStr c)] False"
proof -
  have kids: "etrs (child_values [(''k'', JStr ''call''), (''f'', JStr c)]) [] True"
    using s_cons [OF e_atom [of "JStr c"] s_nil] by (simp add: child_values_def)
  show "etr (call_node c) [Try (JStr c), Done (JStr c)] True" "etr (call_node c) [Try (JStr c)] False"
    using e_call [OF _ kids, of "JStr c"] e_fail [OF _ kids, of "JStr c"]
    by (simp_all add: call_node_def callee_of_def)
qed

lemma expr_stmt_trace: "etr e tr True \<Longrightarrow> str (expr_stmt e) tr True" "etr e tr False \<Longrightarrow> str (expr_stmt e) tr False"
proof -
  show "str (expr_stmt e) tr True" if "etr e tr True"
  proof -
    have "etrs (child_values [(''k'', JStr ''exprS''), (''e'', e)]) tr True"
      using s_cons [OF that s_nil] by (simp add: child_values_def)
    then show ?thesis unfolding expr_stmt_def by (rule t_leaf [rotated]) (simp_all add: leaf_kind_def jumps_def)
  qed
  show "str (expr_stmt e) tr False" if "etr e tr False"
  proof -
    have "etrs (child_values [(''k'', JStr ''exprS''), (''e'', e)]) tr False"
      using s_stop [OF that, of "[]"] by (simp add: child_values_def)
    then show ?thesis unfolding expr_stmt_def by (rule t_leaf_stop [rotated]) (simp add: leaf_kind_def)
  qed
qed

lemma must_precede_sound_witness:
  "fst (must_precede (seq_node (expr_stmt (call_node ''lock'')) (expr_stmt (call_node ''write''))) (JStr ''lock'') (JStr ''write'')) \<and>
   preceded (JStr ''lock'') (JStr ''write'') False [Try (JStr ''lock'')]"
proof -
  let ?body = "seq_node (expr_stmt (call_node ''lock'')) (expr_stmt (call_node ''write''))"
  have ok: "fst (must_precede ?body (JStr ''lock'') (JStr ''write''))" by code_simp
  have frag: "stmt_fragment (JStr ''lock'') (JStr ''write'') ?body" by code_simp
  have "str ?body [Try (JStr ''lock'')] False"
    unfolding seq_node_def by (rule t_seq_stop) (simp_all add: expr_stmt_trace call_trace)
  from must_precede_sound [OF ok frag this] ok show ?thesis by blast
qed

text \<open>
  The analysis skips the second branch of a condition. Both branches are joined with
  Python's \<open>and\<close>, so when the first branch does not call \<open>first\<close>, the second is not looked at:
  a body that calls \<open>write\<close> without \<open>lock\<close> in its else branch gets the verdict PROVED, for
  every claim that \<open>lock\<close> comes before \<open>write\<close>.
\<close>

theorem else_branch_skipped:
  "\<exists>body tr. verify_structural (\<lambda>_. []) [(f_name demo_fn, body)]
       [(''property'', JObj [(''op'', JStr ''BEFORE''), (''first'', JStr ''lock''), (''then'', JStr ''write'')])] demo_fn =
     Inr [(''backend'', JStr ''cpir-structural''), (''backend_version'', JStr ''1''),
          (''certificate'', JStr ''structural re-check of the Core AST''), (''status'', JStr ''PROVED'')] \<and>
     str body tr True \<and> \<not> preceded (JStr ''lock'') (JStr ''write'') False tr"
proof -
  let ?body = "if_node skip_node (expr_stmt (call_node ''write''))"
  have v: "verify_structural (\<lambda>_. []) [(f_name demo_fn, ?body)]
       [(''property'', JObj [(''op'', JStr ''BEFORE''), (''first'', JStr ''lock''), (''then'', JStr ''write'')])] demo_fn =
     Inr [(''backend'', JStr ''cpir-structural''), (''backend_version'', JStr ''1''),
          (''certificate'', JStr ''structural re-check of the Core AST''), (''status'', JStr ''PROVED'')]"
    by code_simp
  have "etr (JObj [(''k'', JStr ''name''), (''v'', JStr ''x'')]) [] True"
    by (rule e_node) (use s_cons [OF e_atom [of "JStr ''x''"] s_nil] in \<open>simp_all add: child_values_def callee_of_def\<close>)
  then have "str ?body ([] @ [Try (JStr ''write''), Done (JStr ''write'')]) True"
    unfolding if_node_def by (intro t_if [where br = "''e''"]) (simp_all add: expr_stmt_trace call_trace)
  moreover have "\<not> preceded (JStr ''lock'') (JStr ''write'') False ([] @ [Try (JStr ''write''), Done (JStr ''write'')])" by simp
  ultimately show ?thesis using v by blast
qed

text \<open>
  A \<open>finally\<close> clause is analyzed as if its body had ended normally: with \<open>lock\<close> in the
  body and \<open>write\<close> in the clause the order is reported as certain, although \<open>lock\<close> may raise
  and the clause then runs without it.
\<close>

theorem finally_after_raise:
  "\<exists>body tr. fst (must_precede body (JStr ''lock'') (JStr ''write'')) \<and> str body tr False \<and>
     \<not> preceded (JStr ''lock'') (JStr ''write'') False tr"
proof -
  let ?body = "JObj [(''k'', JStr ''tryFinally''), (''body'', expr_stmt (call_node ''lock'')),
     (''fin'', expr_stmt (call_node ''write''))]"
  let ?tr = "[Try (JStr ''lock'')] @ [Try (JStr ''write''), Done (JStr ''write'')]"
  have "fst (must_precede ?body (JStr ''lock'') (JStr ''write''))" by code_simp
  moreover have "str ?body ?tr (False \<and> True)"
    by (rule t_finally) (simp_all add: expr_stmt_trace call_trace)
  moreover have "\<not> preceded (JStr ''lock'') (JStr ''write'') False ?tr" by simp
  ultimately show ?thesis by (intro exI [of _ ?body] exI [of _ ?tr]) (simp only: simp_thms)
qed

end
