(* ===== verification/EnvModel.thy ===== *)
theory EnvModel
  imports Obligation
begin

text \<open>
  The environment model of \<open>src/src/autoform/harness/environment.py\<close>: the classification of the
  callees a program does not define, the assumptions a verdict depends on, and the externals that
  make it incomplete. The text of the interpreter's source (read for its builtin names) and the
  overrides file are parameters.
\<close>

definition CLASSES :: "string list" where
  "CLASSES = [''INLINE'', ''MODELED'', ''UNINTERPRETED'', ''NONDETERMINISTIC'', ''UNSUPPORTED'']"

definition semantics_entry :: "string \<Rightarrow> json" where
  "semantics_entry s = JObj [(''semantics'', JStr s)]"

definition DEFAULT_ENVIRONMENT :: dict where
  "DEFAULT_ENVIRONMENT =
     [(''filesystem'', semantics_entry ''not_modeled''),
      (''network'', semantics_entry ''not_modeled''),
      (''time'', JObj [(''monotonic_clock'', JStr ''not_modeled''), (''wall_clock'', JStr ''not_modeled'')]),
      (''randomness'', semantics_entry ''not_modeled''),
      (''database'', semantics_entry ''not_modeled''),
      (''process'', JObj [(''fork'', JStr ''unsupported''), (''signals'', JStr ''unsupported'')]),
      (''concurrency'', JObj [(''model'', JStr ''single_threaded'')]),
      (''memory'', JObj [(''model'', JStr ''core_heap''), (''pointer_provenance'', JStr ''reference_identity''),
         (''integer_model'', JStr ''dialect_specific''), (''undefined_behavior'', JStr ''hole'')])]"

section \<open>The name patterns\<close>

text \<open>Python's \<open>\\w\<close> and \<open>\\s\<close> on the characters below 256.\<close>

definition is_word :: "char \<Rightarrow> bool" where
  "is_word c =
     (is_alnum c \<or> c = CHR ''_'' \<or>
      (let n = (of_char c :: nat)
       in n \<in> {170, 178, 179, 181, 185, 186, 188, 189, 190} \<or> (192 \<le> n \<and> n \<noteq> 215 \<and> n \<noteq> 247)))"

definition is_space :: "char \<Rightarrow> bool" where
  "is_space c = (let n = (of_char c :: nat) in n \<in> {32, 133, 160} \<or> (9 \<le> n \<and> n \<le> 13) \<or> (28 \<le> n \<and> n \<le> 31))"

definition is_digit :: "char \<Rightarrow> bool" where
  "is_digit c = (let n = (of_char c :: nat) in 48 \<le> n \<and> n \<le> 57)"

text \<open>\<open>$\<close> also matches before a final newline.\<close>

definition chop :: "string \<Rightarrow> string" where
  "chop s = (if s \<noteq> [] \<and> last s = CHR 0x0A then butlast s else s)"

definition starts_then :: "string \<Rightarrow> (string \<Rightarrow> bool) \<Rightarrow> string \<Rightarrow> bool" where
  "starts_then p rest s = (startswith s p \<and> rest (drop (length p) s))"

text \<open>\<open>^(random|rand|time|clock|now|urandom|uuid\\d?|getpid|input|read|recv)$\<close>.\<close>

definition is_nondet_word :: "string \<Rightarrow> bool" where
  "is_nondet_word s =
     (s \<in> set [''random'', ''rand'', ''time'', ''clock'', ''now'', ''urandom'', ''getpid'', ''input'', ''read'', ''recv'']
      \<or> starts_then ''uuid'' (\<lambda>r. r = [] \<or> (case r of [d] \<Rightarrow> is_digit d | _ \<Rightarrow> False)) s)"

definition NONDETERMINISTIC :: "string \<Rightarrow> bool" where
  "NONDETERMINISTIC s = (is_nondet_word s \<or> is_nondet_word (chop s))"

definition is_effect_word :: "string \<Rightarrow> bool" where
  "is_effect_word s =
     (s \<in> set [''open'', ''write'', ''send'', ''connect'', ''socket'', ''system'', ''popen'', ''fork'', ''remove'',
              ''unlink'', ''mkdir'', ''rmdir'', ''rename'', ''print'', ''fopen'', ''fwrite'', ''fread'', ''malloc'', ''free'']
      \<or> starts_then ''exec'' (list_all is_word) s
      \<or> starts_then ''pthread_'' (\<lambda>r. r \<noteq> [] \<and> list_all is_word r) s)"

definition EFFECTFUL :: "string \<Rightarrow> bool" where
  "EFFECTFUL s = (is_effect_word s \<or> is_effect_word (chop s))"

section \<open>The interpreter's builtins\<close>

text \<open>
  One match of \<open>\\|\\s*"([A-Za-z_][A-Za-z0-9_]*)"\\s*(?:,|=>)\<close> at the head of a text: the name and
  the text behind the match. Every greedy step of the pattern is forced.
\<close>

definition is_ident_char :: "char \<Rightarrow> bool" where
  "is_ident_char c = (is_alnum c \<or> c = CHR ''_'')"

definition skip_space :: "string \<Rightarrow> string" where
  "skip_space = dropWhile is_space"

definition match_arm_end :: "string \<Rightarrow> string option" where
  "match_arm_end s =
     (if startswith s '','' then Some (drop 1 s) else if startswith s ''=>'' then Some (drop 2 s) else None)"

definition match_name :: "string \<Rightarrow> (string \<times> string) option" where
  "match_name s =
     (let name = takeWhile is_ident_char s; r = dropWhile is_ident_char s
      in if name = [] \<or> is_digit (hd name) \<or> \<not> startswith r [CHR 0x22] then None else Some (name, drop 1 r))"

definition match_builtin :: "string \<Rightarrow> (string \<times> string) option" where
  "match_builtin s =
     (if \<not> startswith s ''|'' then None
      else let q = skip_space (drop 1 s) in
        if \<not> startswith q [CHR 0x22] then None
        else (case match_name (drop 1 q) of
            None \<Rightarrow> None
          | Some (name, r) \<Rightarrow> (case match_arm_end (skip_space r) of None \<Rightarrow> None | Some t \<Rightarrow> Some (name, t))))"

lemma match_builtin_shorter: "match_builtin s = Some (n, t) \<Longrightarrow> length t < length s"
proof -
  have skip: "length (skip_space s) \<le> length s" for s by (simp add: skip_space_def length_dropWhile_le)
  assume m: "match_builtin s = Some (n, t)"
  then obtain r where r: "match_name (drop 1 (skip_space (drop 1 s))) = Some (n, r)"
    and e: "match_arm_end (skip_space r) = Some t" and s: "s \<noteq> []"
    by (cases s) (auto simp: match_builtin_def Let_def startswith_def split: if_splits option.splits)
  have "length r \<le> length (drop 1 (skip_space (drop 1 s)))"
    using r length_dropWhile_le [of is_ident_char "drop 1 (skip_space (drop 1 s))"]
    by (auto simp: match_name_def Let_def split: if_splits)
  also have "\<dots> \<le> length (drop 1 s)" using skip [of "drop 1 s"] by simp
  finally have "length r < length s" using s by (cases s) auto
  moreover have "length t \<le> length r"
    using e skip [of r] by (auto simp: match_arm_end_def split: if_splits)
  ultimately show "length t < length s" by simp
qed

function find_builtins :: "string \<Rightarrow> string list" where
  "find_builtins [] = []"
| "find_builtins (c # s) =
     (case match_builtin (c # s) of
        Some (n, t) \<Rightarrow> n # find_builtins t
      | None \<Rightarrow> find_builtins s)"
  by pat_completeness auto
termination
  by (relation "measure length") (auto dest: match_builtin_shorter)

definition interpreter_builtins :: "string option \<Rightarrow> string list" where
  "interpreter_builtins source = (case source of None \<Rightarrow> [] | Some text \<Rightarrow> sorted_set (find_builtins text))"

section \<open>The environment\<close>

record environment =
  e_model :: dict
  e_builtins :: "string list"
  e_declared :: "(string \<times> dict) list"
  e_hash :: string

definition items_of :: "json \<Rightarrow> dict res" where
  "items_of v = (case v of JObj d \<Rightarrow> Inr d | _ \<Rightarrow> Inl AttributeError)"

definition declare_external :: "(string \<times> dict) list \<Rightarrow> json \<Rightarrow> (string \<times> dict) list res" where
  "declare_external ds entry =
     (case entry of
        JObj d \<Rightarrow>
          if dget d ''semantics'' JNull \<notin> JStr ` set CLASSES then Inl (ValueError ''semantics must be one of CLASSES'')
          else rbind (ditem d ''name'') (\<lambda>n. case n of
              JStr s \<Rightarrow> Inr (AList.update s (dset ''source'' (JStr ''environment file'') d) ds)
            | _ \<Rightarrow> if hashable n then Inl Unmodelled else Inl TypeError)
      | _ \<Rightarrow> Inl AttributeError)"

definition make_environment :: "(string \<Rightarrow> string) \<Rightarrow> string option \<Rightarrow> dict \<Rightarrow> environment res" where
  "make_environment sha source overrides =
     rbind (items_of (py_or (dget overrides ''environment'' JNull) (JObj []))) (\<lambda>items.
       let model = foldl (\<lambda>m (k, v). dset k v m) DEFAULT_ENVIRONMENT items;
           builtins = interpreter_builtins source
       in
     rbind (py_iter (dget overrides ''externals'' (JList []))) (\<lambda>es.
     rbind (foldM declare_external [] es) (\<lambda>declared.
       Inr \<lparr>e_model = model, e_builtins = builtins, e_declared = declared,
            e_hash = sha256 sha (JObj [(''model'', JObj model),
              (''externals'', JObj (map (\<lambda>(k, d). (k, JObj d)) declared)),
              (''builtins'', JList (map JStr builtins))])\<rparr>)))"

definition bare_name :: "string \<Rightarrow> string" where
  "bare_name name = lstrip_char (CHR ''.'') name"

definition summary_of :: "string \<Rightarrow> string \<Rightarrow> string \<Rightarrow> string \<Rightarrow> dict" where
  "summary_of name sem trust source =
     [(''name'', JStr name), (''semantics'', JStr sem), (''trust_class'', JStr trust), (''source'', JStr source)]"

definition summary :: "environment \<Rightarrow> string \<Rightarrow> dict" where
  "summary env name =
     (case map_of (e_declared env) name of
        Some d \<Rightarrow> d
      | None \<Rightarrow>
          let bare = bare_name name in
          if startswith name ''<operator>'' \<or> startswith name ''.'' \<and> bare \<in> set (e_builtins env) then
            summary_of name ''INLINE'' ''trusted'' ''Core interpreter operator/method semantics''
          else if NONDETERMINISTIC bare then
            summary_of name ''NONDETERMINISTIC'' ''unsupported'' ''no environment model for nondeterministic input''
          else if EFFECTFUL bare then
            summary_of name ''UNSUPPORTED'' ''unsupported'' ''effect outside the modeled environment''
          else if bare \<in> set (e_builtins env) then
            summary_of name ''MODELED'' ''modeled''
              ''Core interpreter builtin (unsupported argument shapes evaluate to a hole)''
          else if startswith name ''.'' then
            summary_of name ''MODELED'' ''modeled'' ''dynamic method dispatch inside the Core heap model''
          else
            summary_of name ''UNSUPPORTED'' ''unsupported'' ''no definition in the program and no declared summary'')"

definition semantics_of :: "environment \<Rightarrow> string \<Rightarrow> json" where
  "semantics_of env name = dget (summary env name) ''semantics'' JNull"

section \<open>Assumptions\<close>

definition assumption :: "string \<Rightarrow> string \<Rightarrow> json \<Rightarrow> dict" where
  "assumption i kind txt = [(''id'', JStr i), (''kind'', JStr kind), (''text'', txt)]"

definition base_assumptions :: "dict list" where
  "base_assumptions =
     [assumption ''A_KERNEL'' ''tcb''
        (JStr ''The Lean kernel, the obligation compiler and the Core AST printer are correct.''),
      assumption ''A_SEMANTICS'' ''semantics''
        (JStr ''The Core interpreter models the source dialect faithfully for the constructs this function uses (differential tests are evidence, not proof).''),
      assumption ''A_FRONTEND'' ''frontend''
        (JStr ''The pinned Joern front end and exporter translated the source without mistranslation.''),
      assumption ''A_SINGLE_THREADED'' ''environment''
        (JStr ''Execution is single-threaded; no concurrent writer mutates shared state.'')]"

definition domain_assumption :: "func \<Rightarrow> json \<Rightarrow> dict list res" where
  "domain_assumption fn b =
     (case b of
        JObj d \<Rightarrow>
          rbind (ditem d ''param'') (\<lambda>pv.
            case find (\<lambda>p. JStr (p_id p) = pv) (f_params fn) of
              None \<Rightarrow> Inr []
            | Some p \<Rightarrow>
                if p_sort p \<noteq> ''any'' then Inr []
                else rbind (ditem d ''domain'') (\<lambda>dom.
                  Inr [assumption (''A_DOMAIN_'' @ p_id p) ''input_domain''
                    (JStr (''Callers pass `'' @ p_name p @ ''` as a '' @ py_str dom @
                       '' value (the source does not declare its type).''))]))
      | _ \<Rightarrow> Inl TypeError)"

definition ext_id :: "string \<Rightarrow> string" where
  "ext_id name = ''A_EXT_'' @ take 40 (sanitize (bare_name name))"

definition external_assumption :: "environment \<Rightarrow> string \<Rightarrow> dict list res" where
  "external_assumption env name =
     (let s = summary env name in
      rbind (ditem s ''semantics'') (\<lambda>sem.
        if sem = JStr ''INLINE'' then Inr []
        else rbind (case sem of JStr t \<Rightarrow> Inr t | _ \<Rightarrow> Inl AttributeError) (\<lambda>t.
             rbind (ditem s ''source'') (\<lambda>src.
               Inr [assumption (ext_id name) ''external''
                      (JStr (''`'' @ name @ ''`: '' @ lower t @ '' ('' @ py_str src @ '')''))
                    @ [(''semantics'', sem)]]))))"

definition claim_assumption :: "(string \<Rightarrow> string) \<Rightarrow> json \<Rightarrow> dict" where
  "claim_assumption sha txt =
     assumption (''A_CLAIM_'' @ take 8 (drop 7 (sha256 sha txt))) ''claim'' txt"

definition assumption_id :: "dict \<Rightarrow> json" where
  "assumption_id a = dget a ''id'' JNull"

definition keep_first :: "dict list \<Rightarrow> dict list" where
  "keep_first out =
     rev (foldl (\<lambda>acc a. if assumption_id a \<in> assumption_id ` set acc then acc else a # acc) [] out)"

definition assumptions_for ::
    "(string \<Rightarrow> string) \<Rightarrow> environment \<Rightarrow> program \<Rightarrow> func \<Rightarrow> dict \<Rightarrow> dict list res" where
  "assumptions_for sha env P fn claim =
     rbind (py_iter (dget claim ''forall'' (JList []))) (\<lambda>bs.
     rbind (mapM (domain_assumption fn) bs) (\<lambda>ds.
     rbind (closure P (f_id fn)) (\<lambda>fids.
     rbind (mapM (\<lambda>fid. rbind (externals P fid) (mapM (external_assumption env))) fids) (\<lambda>xs.
     rbind (py_iter (dget claim ''assumptions'' (JList []))) (\<lambda>texts.
       Inr (keep_first (base_assumptions @ concat ds @ concat (concat xs) @
              map (claim_assumption sha) texts)))))))"

definition blocks_proof :: "environment \<Rightarrow> string \<Rightarrow> bool res" where
  "blocks_proof env name =
     rbind (ditem (summary env name) ''semantics'') (\<lambda>s.
       Inr (s = JStr ''UNSUPPORTED'' \<or> s = JStr ''NONDETERMINISTIC''))"

definition filterM :: "('a \<Rightarrow> bool res) \<Rightarrow> 'a list \<Rightarrow> 'a list res" where
  "filterM p xs = rbind (mapM (\<lambda>x. rbind (p x) (\<lambda>b. Inr (x, b))) xs) (\<lambda>ys. Inr (map fst (filter snd ys)))"

definition unsupported_reach :: "environment \<Rightarrow> program \<Rightarrow> func \<Rightarrow> string list res" where
  "unsupported_reach env P fn =
     rbind (closure P (f_id fn)) (\<lambda>fids.
     rbind (mapM (\<lambda>fid. rbind (externals P fid) (filterM (blocks_proof env))) fids) (\<lambda>xs.
       Inr (sorted_set (concat xs))))"

section \<open>Properties\<close>

text \<open>Every declared summary carries a class, as the constructor checks.\<close>

definition decls_wf :: "(string \<times> dict) list \<Rightarrow> bool" where
  "decls_wf ds \<longleftrightarrow> (\<forall>n d. map_of ds n = Some d \<longrightarrow> (\<exists>s \<in> set CLASSES. map_of d ''semantics'' = Some (JStr s)))"

definition env_wf :: "environment \<Rightarrow> bool" where
  "env_wf env \<longleftrightarrow> decls_wf (e_declared env)"

lemma declare_external_wf:
  assumes "declare_external ds entry = Inr ds'" and "decls_wf ds"
  shows "decls_wf ds'"
proof -
  from assms(1) obtain d where entry: "entry = JObj d" by (cases entry) (simp_all add: declare_external_def)
  with assms(1) have d: "dget d ''semantics'' JNull \<in> JStr ` set CLASSES"
    by (simp add: declare_external_def split: if_splits)
  from assms(1) entry d obtain v where "ditem d ''name'' = Inr v"
    by (auto simp: declare_external_def res_simps)
  with assms(1) entry d obtain n where ds': "ds' = AList.update n (dset ''source'' (JStr ''environment file'') d) ds"
    by (cases v) (auto simp: declare_external_def split: if_splits)
  from d obtain s where "s \<in> set CLASSES" "map_of d ''semantics'' = Some (JStr s)"
    by (auto dest!: dget_JNullD)
  then have "map_of (dset ''source'' (JStr ''environment file'') d) ''semantics'' = Some (JStr s)"
    by (simp add: map_of_update)
  with \<open>s \<in> set CLASSES\<close> assms(2) show ?thesis unfolding ds' decls_wf_def by (auto simp: update_conv')
qed

lemma make_environment_wf: "make_environment sha src overrides = Inr env \<Longrightarrow> env_wf env"
proof -
  assume "make_environment sha src overrides = Inr env"
  then obtain es declared where "foldM declare_external [] es = Inr declared" and env: "e_declared env = declared"
    by (auto simp: make_environment_def res_simps Let_def)
  have "decls_wf declared"
    by (rule foldM_invariant [OF \<open>foldM declare_external [] es = Inr declared\<close>])
      (simp add: decls_wf_def, rule declare_external_wf)
  with env show "env_wf env" by (simp add: env_wf_def)
qed

lemma semantics_summary_of: "dget (summary_of n s t src) ''semantics'' JNull = JStr s"
  by (simp add: summary_of_def)

lemma map_of_semantics:
  "env_wf env \<Longrightarrow> map_of (summary env n) ''semantics'' = Some (semantics_of env n) \<and>
     (\<exists>s \<in> set CLASSES. semantics_of env n = JStr s)"
proof (cases "map_of (e_declared env) n")
  case None
  then show ?thesis
    by (simp add: summary_def semantics_of_def Let_def summary_of_def CLASSES_def)
next
  case (Some d)
  assume "env_wf env"
  with Some show ?thesis by (fastforce simp: env_wf_def decls_wf_def summary_def semantics_of_def dget_def)
qed

text \<open>
  Nothing is silently stubbed: every name has a class of the vocabulary, and a name that the
  environment file does not declare is inlined only if it is an operator or a builtin method,
  nondeterministic exactly if it then matches the nondeterminism pattern, and modeled only if it is
  a builtin or a method that is neither nondeterministic nor effectful; all others are unsupported.
\<close>

theorem summary_classes:
  assumes "make_environment sha src overrides = Inr env"
  shows "(\<exists>s \<in> set CLASSES. semantics_of env n = JStr s) \<and>
    (map_of (e_declared env) n = None \<longrightarrow>
      (let b = bare_name n; inl = startswith n ''<operator>'' \<or> startswith n ''.'' \<and> b \<in> set (e_builtins env);
           modeled = \<not> inl \<and> \<not> NONDETERMINISTIC b \<and> \<not> EFFECTFUL b \<and> (b \<in> set (e_builtins env) \<or> startswith n ''.'')
       in semantics_of env n =
         JStr (if inl then ''INLINE'' else if NONDETERMINISTIC b then ''NONDETERMINISTIC''
               else if modeled then ''MODELED'' else ''UNSUPPORTED'')))"
proof -
  from assms have "env_wf env" by (rule make_environment_wf)
  with map_of_semantics have "\<exists>s \<in> set CLASSES. semantics_of env n = JStr s" by blast
  moreover have "semantics_of env n = dget (summary env n) ''semantics'' JNull" by (simp add: semantics_of_def)
  ultimately show ?thesis by (simp add: summary_def Let_def semantics_summary_of)
qed

definition bare_env :: environment where
  "bare_env = projr (make_environment (\<lambda>s. ''0'') (Some ''| \"len\", [x] => f | \"now\" => g'') [])"

lemma bare_env: "make_environment (\<lambda>s. ''0'') (Some ''| \"len\", [x] => f | \"now\" => g'') [] = Inr bare_env"
proof -
  have "\<not> isl (make_environment (\<lambda>s. ''0'') (Some ''| \"len\", [x] => f | \"now\" => g'') [])" by code_simp
  then show ?thesis unfolding bare_env_def by (cases "make_environment (\<lambda>s. ''0'') (Some ''| \"len\", [x] => f | \"now\" => g'') []") simp_all
qed

lemma summary_classes_witness:
  "map (semantics_of bare_env) [''.len'', ''len'', ''now'', ''.go'', ''exec_it'', ''m.h''] =
     map JStr [''INLINE'', ''MODELED'', ''NONDETERMINISTIC'', ''MODELED'', ''UNSUPPORTED'', ''UNSUPPORTED''] \<and>
   (\<exists>s \<in> set CLASSES. semantics_of bare_env ''len'' = JStr s)"
proof -
  have "map (semantics_of bare_env) [''.len'', ''len'', ''now'', ''.go'', ''exec_it'', ''m.h''] =
     map JStr [''INLINE'', ''MODELED'', ''NONDETERMINISTIC'', ''MODELED'', ''UNSUPPORTED'', ''UNSUPPORTED'']"
    by code_simp
  with summary_classes [OF bare_env, of "''len''"] show ?thesis by blast
qed

text \<open>The loops over the externals of the call closure.\<close>

lemma blocks_proof_eq:
  "env_wf env \<Longrightarrow> blocks_proof env n = Inr (semantics_of env n \<in> {JStr ''UNSUPPORTED'', JStr ''NONDETERMINISTIC''})"
  using map_of_semantics [of env n] by (simp add: blocks_proof_def ditem_def)

lemma filterM_Inr: "(\<And>x. x \<in> set xs \<Longrightarrow> p x = Inr (q x)) \<Longrightarrow> filterM p xs = Inr (filter q xs)"
proof -
  assume "\<And>x. x \<in> set xs \<Longrightarrow> p x = Inr (q x)"
  then have "mapM (\<lambda>x. rbind (p x) (\<lambda>b. Inr (x, b))) xs = Inr (map (\<lambda>x. (x, q x)) xs)"
    by (intro mapM_Inr) simp
  then show ?thesis by (simp add: filterM_def filter_map o_def)
qed

definition external_names :: "program \<Rightarrow> string \<Rightarrow> string list" where
  "external_names P fid = (case externals P fid of Inr xs \<Rightarrow> xs | Inl _ \<Rightarrow> [])"

lemma externals_defined: "by_id P fid = Some f \<Longrightarrow> externals P fid = Inr (external_names P fid)"
  by (simp add: external_names_def externals_def)

lemma set_external_names:
  "by_id P fid = Some f \<Longrightarrow>
   set (external_names P fid) = cs_callee ` {c \<in> set (f_calls f). cs_resolved c \<in> {None, Some []}}"
  by (auto simp: external_names_def externals_def)

lemma reached_defined:
  assumes "build sha data m h = Inr P" and "(calls_edge P)\<^sup>*\<^sup>* i g" and "\<exists>f. by_id P i = Some f"
  shows "\<exists>f. by_id P g = Some f"
  using assms(2,3)
proof (induction rule: rtranclp_induct)
  case (step y z)
  then obtain f where f: "by_id P y = Some f" "z \<in> set (resolved_calls f)" by (auto simp: calls_edge_def)
  then have "y \<in> set (map f_id (pr_functions P))" by (auto dest: by_id_SomeD)
  from built_callees_total [OF assms(1) this] f have "z \<in> set (map f_id (pr_functions P))"
    by (auto simp: callees_def)
  then show ?case by (rule by_id_defined)
qed

text \<open>The externals a function can reach, by name.\<close>

definition reaches_external :: "program \<Rightarrow> string \<Rightarrow> string \<Rightarrow> bool" where
  "reaches_external P i n \<longleftrightarrow>
     (\<exists>g f c. (calls_edge P)\<^sup>*\<^sup>* i g \<and> by_id P g = Some f \<and> c \<in> set (f_calls f) \<and>
        cs_resolved c \<in> {None, Some []} \<and> cs_callee c = n)"

lemma closure_externals:
  assumes "build sha data m h = Inr P" and "fn \<in> set (pr_functions P)"
  shows "\<exists>cs. closure P (f_id fn) = Inr cs \<and> (\<forall>g \<in> set cs. \<exists>f. by_id P g = Some f) \<and>
           (\<forall>n. n \<in> (\<Union>g \<in> set cs. set (external_names P g)) \<longleftrightarrow> reaches_external P (f_id fn) n)"
proof -
  have fid: "f_id fn \<in> set (map f_id (pr_functions P))" using assms(2) by simp
  from closure_spec [OF assms(1) fid] obtain cs where cs: "closure P (f_id fn) = Inr cs"
    "set cs = {g. (calls_edge P)\<^sup>*\<^sup>* (f_id fn) g}" by blast
  have def: "\<exists>f. by_id P g = Some f" if "g \<in> set cs" for g
    using that cs(2) reached_defined [OF assms(1) _ by_id_defined [OF fid]] by simp
  have "n \<in> (\<Union>g \<in> set cs. set (external_names P g)) \<longleftrightarrow> reaches_external P (f_id fn) n" for n
    using def cs(2) set_external_names unfolding reaches_external_def by fastforce
  with cs(1) def show ?thesis by blast
qed

text \<open>
  \<open>unsupported_reach\<close> misses nothing: on a built program it returns, sorted and without
  repetition, exactly the unresolved callees of functions reachable from the target whose summary
  is unsupported or nondeterministic.
\<close>

theorem unsupported_reach_exact:
  assumes "build sha data m h = Inr P" and "fn \<in> set (pr_functions P)"
    and "make_environment sha src overrides = Inr env"
  shows "\<exists>names. unsupported_reach env P fn = Inr names \<and> sorted names \<and> distinct names \<and>
           set names = {n. reaches_external P (f_id fn) n \<and>
             semantics_of env n \<in> {JStr ''UNSUPPORTED'', JStr ''NONDETERMINISTIC''}}"
proof -
  from closure_externals [OF assms(1,2)] obtain cs where cs: "closure P (f_id fn) = Inr cs"
    "\<forall>g \<in> set cs. \<exists>f. by_id P g = Some f"
    "\<forall>n. n \<in> (\<Union>g \<in> set cs. set (external_names P g)) \<longleftrightarrow> reaches_external P (f_id fn) n" by blast
  let ?bad = "\<lambda>n. semantics_of env n \<in> {JStr ''UNSUPPORTED'', JStr ''NONDETERMINISTIC''}"
  let ?xs = "map (\<lambda>g. filter ?bad (external_names P g)) cs"
  have "mapM (\<lambda>fid. rbind (externals P fid) (filterM (blocks_proof env))) cs = Inr ?xs"
  proof (rule mapM_Inr)
    fix g assume "g \<in> set cs"
    with cs(2) obtain f where "by_id P g = Some f" by blast
    from externals_defined [OF this] filterM_Inr [of _ "blocks_proof env" ?bad]
      blocks_proof_eq [OF make_environment_wf [OF assms(3)]]
    show "rbind (externals P g) (filterM (blocks_proof env)) = Inr (filter ?bad (external_names P g))" by simp
  qed
  then have "unsupported_reach env P fn = Inr (sorted_set (concat ?xs))"
    by (simp add: unsupported_reach_def cs(1))
  moreover have "set (concat ?xs) = {n. reaches_external P (f_id fn) n \<and> ?bad n}"
    using cs(3) by auto
  ultimately show ?thesis by simp
qed

text \<open>A function that calls a dynamic method \<open>.a_b\<close> and an undefined function \<open>a.b\<close>.\<close>

definition clash_ast :: json where
  "clash_ast = JList [JObj [(''name'', JStr ''m.f''), (''body'', JObj [(''k'', JStr ''exprS''),
     (''e'', JObj [(''k'', JStr ''mcall''), (''m'', JStr ''a_b'')]),
     (''c'', JObj [(''k'', JStr ''call''), (''f'', JStr ''a.b'')])])]]"

definition clash_program :: program where
  "clash_program = projr (build (\<lambda>s. ''0'') clash_ast ''m'' ''h'')"

lemma clash_build: "build (\<lambda>s. ''0'') clash_ast ''m'' ''h'' = Inr clash_program"
proof -
  have "\<not> isl (build (\<lambda>s. ''0'') clash_ast ''m'' ''h'')" by code_simp
  then show ?thesis unfolding clash_program_def by (cases "build (\<lambda>s. ''0'') clash_ast ''m'' ''h''") simp_all
qed

lemma unsupported_reach_exact_witness:
  "unsupported_reach bare_env clash_program (hd (pr_functions clash_program)) = Inr [''a.b''] \<and>
   {n. reaches_external clash_program (f_id (hd (pr_functions clash_program))) n \<and>
       semantics_of bare_env n \<in> {JStr ''UNSUPPORTED'', JStr ''NONDETERMINISTIC''}} = {''a.b''}"
proof -
  have "unsupported_reach bare_env clash_program (hd (pr_functions clash_program)) = Inr [''a.b'']" by code_simp
  moreover have "hd (pr_functions clash_program) \<in> set (pr_functions clash_program)"
  proof (rule hd_in_set)
    have "length (pr_functions clash_program) = 1" by code_simp
    then show "pr_functions clash_program \<noteq> []" by auto
  qed
  ultimately show ?thesis using unsupported_reach_exact [OF clash_build _ bare_env] by fastforce
qed

text \<open>
  Assumption identifiers can collide and drop the graver entry. The identifier of an external is
  its name without leading dots, sanitized; the ledger keeps the first entry of an identifier. Here
  the method \<open>.a_b\<close> (modeled) comes first and the undefined function \<open>a.b\<close> (unsupported)
  leaves no trace in the list of assumptions the verdict is said to depend on.
\<close>

theorem assumption_dropped:
  "\<exists>out. assumptions_for (\<lambda>s. ''0'') bare_env clash_program (hd (pr_functions clash_program)) [] = Inr out \<and>
     map (\<lambda>a. dget a ''semantics'' JNull) (filter (\<lambda>a. dget a ''kind'' JNull = JStr ''external'') out) = [JStr ''MODELED''] \<and>
     semantics_of bare_env ''a.b'' = JStr ''UNSUPPORTED'' \<and>
     reaches_external clash_program (f_id (hd (pr_functions clash_program))) ''a.b''"
proof -
  let ?r = "assumptions_for (\<lambda>s. ''0'') bare_env clash_program (hd (pr_functions clash_program)) []"
  have ran: "rbind ?r (\<lambda>out. Inr (map (\<lambda>a. dget a ''semantics'' JNull)
      (filter (\<lambda>a. dget a ''kind'' JNull = JStr ''external'') out))) = Inr [JStr ''MODELED'']" by code_simp
  have uns: "semantics_of bare_env ''a.b'' = JStr ''UNSUPPORTED''" by code_simp
  have fid: "f_id (hd (pr_functions clash_program)) = ''F_0001''" by code_simp
  have "by_id clash_program ''F_0001'' = Some (hd (pr_functions clash_program))" by code_simp
  moreover have "list_ex (\<lambda>c. cs_resolved c = None \<and> cs_callee c = ''a.b'') (f_calls (hd (pr_functions clash_program)))"
    by code_simp
  then obtain c where "c \<in> set (f_calls (hd (pr_functions clash_program)))" "cs_resolved c \<in> {None, Some []}"
    "cs_callee c = ''a.b''" by (auto simp: list_ex_iff)
  ultimately have "reaches_external clash_program ''F_0001'' ''a.b''"
    unfolding reaches_external_def by blast
  with ran uns fid show ?thesis by (auto simp: res_simps)
qed

end
