(* ===== verification/ProofLedger.thy ===== *)
theory ProofLedger
  imports EnvModel
begin

text \<open>
  The assumption ledger, the proof cache and the certificates of
  \<open>src/src/autoform/harness/ledger.py\<close>. The cache works on a file store, a map from paths to
  contents that the operations take and return; the digest \<open>sha\<close> and the JSON reader
  \<open>parse\<close> are parameters.
\<close>

definition KERNEL_STATUSES :: "string list" where
  "KERNEL_STATUSES = [''PROVED'', ''BOUNDED_PROVED'', ''REFUTED'', ''ASSUMPTION_DEPENDENT'']"

section \<open>The assumption ledger\<close>

record ledger =
  l_assumptions :: "(string \<times> dict) list"
  l_dependents :: "(string \<times> string list) list"

definition empty_ledger :: ledger where
  "empty_ledger = \<lparr>l_assumptions = [], l_dependents = []\<rparr>"

definition dependents_of :: "ledger \<Rightarrow> string \<Rightarrow> string list" where
  "dependents_of L i = (case map_of (l_dependents L) i of None \<Rightarrow> [] | Some cs \<Rightarrow> cs)"

definition text_field :: "string \<Rightarrow> dict \<Rightarrow> string res" where
  "text_field k d = rbind (ditem d k) text_of"

definition record_one :: "string \<Rightarrow> ledger \<Rightarrow> dict \<Rightarrow> ledger res" where
  "record_one cid L a =
     rbind (text_field ''id'' a) (\<lambda>i.
       let as = (if map_of (l_assumptions L) i = None then l_assumptions L @ [(i, a)] else l_assumptions L);
           old = dependents_of L i
       in Inr \<lparr>l_assumptions = as,
               l_dependents = AList.update i (if cid \<in> set old then old else old @ [cid]) (l_dependents L)\<rparr>)"

definition record_claim :: "ledger \<Rightarrow> string \<times> dict list \<Rightarrow> ledger res" where
  "record_claim L ca = foldM (record_one (fst ca)) L (snd ca)"

definition invalidated_by :: "ledger \<Rightarrow> string list \<Rightarrow> string list" where
  "invalidated_by L ids = sorted_set (concat (map (dependents_of L) ids))"

definition ledger_entry :: "(string \<Rightarrow> string) \<Rightarrow> ledger \<Rightarrow> dict \<Rightarrow> (string \<times> dict) res" where
  "ledger_entry sha L a =
     rbind (text_field ''id'' a) (\<lambda>i.
     rbind (ditem a ''text'') (\<lambda>t.
       Inr (i, dset ''text_sha256'' (JStr (sha256 sha t))
                 (dset ''dependents'' (JList (map JStr (sort (dependents_of L i)))) a))))"

definition ledger_json :: "(string \<Rightarrow> string) \<Rightarrow> ledger \<Rightarrow> json res" where
  "ledger_json sha L =
     rbind (mapM (ledger_entry sha L) (map snd (l_assumptions L))) (\<lambda>es.
       Inr (JObj [(''assumptions'', JList (map (\<lambda>e. JObj (snd e)) (sort_key fst es)))]))"

section \<open>The proof cache\<close>

type_synonym files = "(string \<times> string) list"

definition is_file :: "files \<Rightarrow> string \<Rightarrow> bool" where
  "is_file fs p = (map_of fs p \<noteq> None)"

record cache =
  c_dir :: "string option"
  c_index :: json
  c_hits :: nat

definition child :: "string \<Rightarrow> string \<Rightarrow> string" where
  "child dir name = dir @ ''/'' @ name"

definition open_cache :: "(string \<Rightarrow> json option) \<Rightarrow> string option \<Rightarrow> files \<Rightarrow> cache" where
  "open_cache parse dir fs =
     (let index = (case dir of
          None \<Rightarrow> JObj []
        | Some d \<Rightarrow> (case map_of fs (child d ''index.json'') of
              None \<Rightarrow> JObj []
            | Some text \<Rightarrow> (case parse text of None \<Rightarrow> JObj [] | Some v \<Rightarrow> v)))
      in \<lparr>c_dir = dir, c_index = index, c_hits = 0\<rparr>)"

definition semantics_hash_of :: "program \<Rightarrow> string \<Rightarrow> string res" where
  "semantics_hash_of P i = (case by_id P i of None \<Rightarrow> Inl KeyError | Some f \<Rightarrow> Inr (f_semantics_hash f))"

definition cache_key ::
    "(string \<Rightarrow> string) \<Rightarrow> dict \<Rightarrow> program \<Rightarrow> func \<Rightarrow> string \<Rightarrow> string \<Rightarrow> string \<Rightarrow> nat \<Rightarrow> string res" where
  "cache_key sha claim P fn model_sha env_hash backend fuel =
     rbind (closure P (f_id fn)) (\<lambda>fids.
     rbind (mapM (semantics_hash_of P) fids) (\<lambda>hashes.
     rbind (ditem claim ''id'') (\<lambda>cid.
     rbind (ditem claim ''preconditions'') (\<lambda>pre.
     rbind (ditem claim ''property'') (\<lambda>p.
       Inr (sha256 sha (JObj [(''claim'', cid), (''closure'', JList (map JStr hashes)),
         (''model'', JStr model_sha), (''env'', JStr env_hash), (''backend'', JStr backend),
         (''fuel'', JInt (int fuel)), (''pre'', pre), (''prop'', p)])))))))"

definition path_exists :: "files \<Rightarrow> json \<Rightarrow> bool res" where
  "path_exists fs p = (case p of JStr s \<Rightarrow> Inr (is_file fs s) | _ \<Rightarrow> Inl TypeError)"

definition as_dict :: "json \<Rightarrow> dict res" where
  "as_dict v = (case v of JObj d \<Rightarrow> Inr d | _ \<Rightarrow> Inl TypeError)"

definition cache_get :: "files \<Rightarrow> string \<Rightarrow> cache \<Rightarrow> (dict option \<times> cache) res" where
  "cache_get fs key c =
     rbind (jget (c_index c) key) (\<lambda>hit.
       if \<not> truthy hit then Inr (None, c)
       else (case hit of
           JObj h \<Rightarrow>
             rbind (py_iter (dget h ''artifacts'' (JList []))) (\<lambda>ps.
             rbind (allM (path_exists fs) ps) (\<lambda>ok.
               if \<not> ok then Inr (None, c)
               else rbind (ditem h ''result'') (\<lambda>v.
                    rbind (as_dict v) (\<lambda>r.
                      Inr (Some (dset ''cache'' (JStr ''hit'') r), c\<lparr>c_hits := Suc (c_hits c)\<rparr>)))))
         | _ \<Rightarrow> Inl AttributeError))"

definition artifact_path :: "string \<Rightarrow> string \<Rightarrow> string" where
  "artifact_path dir h = child dir (''artifacts/'' @ h @ ''.lean'')"

text \<open>One of the two artifact fields: the file is copied under its digest and the field redirected.\<close>

definition keep_artifact ::
    "(string \<Rightarrow> string) \<Rightarrow> string \<Rightarrow> dict \<times> json list \<times> files \<Rightarrow> string \<Rightarrow> (dict \<times> json list \<times> files) res" where
  "keep_artifact sha dir st field =
     (let (result, kept, fs) = st; src = dget result field JNull in
      if \<not> truthy src then Inr st
      else (case src of
          JStr p \<Rightarrow>
            (case map_of fs p of
              None \<Rightarrow> Inr st
            | Some content \<Rightarrow>
                let dst = artifact_path dir (sha content);
                    fs1 = (if is_file fs dst then fs else AList.update dst content fs)
                in Inr (dset field (JStr dst) result, kept @ [JStr dst], fs1))
        | _ \<Rightarrow> Inl TypeError))"

definition cache_put ::
    "(string \<Rightarrow> string) \<Rightarrow> string \<Rightarrow> dict \<Rightarrow> files \<times> cache \<Rightarrow> (files \<times> cache) res" where
  "cache_put sha key result st =
     (let (fs, c) = st in
      case c_dir c of
        None \<Rightarrow> Inr st
      | Some dir \<Rightarrow>
          rbind (in_strs (dget result ''status'' JNull) KERNEL_STATUSES) (\<lambda>ok.
            if \<not> ok then Inr st
            else rbind (foldM (keep_artifact sha dir) (result, [], fs) [''lean_file'', ''witness_file'']) (\<lambda>(r, kept, fs1).
              rbind (as_dict (c_index c)) (\<lambda>ix.
                Inr (fs1, c\<lparr>c_index := JObj (dset key (JObj [(''result'', JObj r), (''artifacts'', JList kept)]) ix)\<rparr>)))))"

lemma as_dict_Inr: "as_dict v = Inr d \<longleftrightarrow> v = JObj d"
  by (cases v) (auto simp: as_dict_def)

text \<open>\<open>json.dumps(v, indent=1, sort_keys=...)\<close>.\<close>

definition break_line :: "nat \<Rightarrow> string" where
  "break_line n = CHR 0x0A # replicate n (CHR '' '')"

definition field_order :: "bool \<Rightarrow> dict \<Rightarrow> dict" where
  "field_order srt d = (if srt then sort_key fst d else d)"

lemma set_field_order [simp]: "set (field_order srt d) = set d"
  by (simp add: field_order_def)

fun json_indent :: "bool \<Rightarrow> nat \<Rightarrow> json \<Rightarrow> string" where
  "json_indent srt n (JList xs) =
     (if xs = [] then ''[]''
      else ''['' @ break_line (Suc n) @ join ('','' @ break_line (Suc n)) (map (json_indent srt (Suc n)) xs) @
           break_line n @ '']'')"
| "json_indent srt n (JObj d) =
     (if d = [] then ''{}''
      else ''{'' @ break_line (Suc n) @
           join ('','' @ break_line (Suc n))
             (map (\<lambda>kv. json_str True (fst kv) @ '': '' @ json_indent srt (Suc n) (snd kv))
                (field_order srt d)) @
           break_line n @ ''}'')"
| "json_indent srt n v = json_dumps True v"

definition cache_save :: "files \<times> cache \<Rightarrow> files" where
  "cache_save st =
     (case c_dir (snd st) of
        None \<Rightarrow> fst st
      | Some dir \<Rightarrow> AList.update (child dir ''index.json'') (json_indent True 0 (c_index (snd st))) (fst st))"

section \<open>Certificates\<close>

definition quantification :: "dict \<Rightarrow> string \<Rightarrow> string" where
  "quantification result status =
     (if status \<in> {''PROVED'', ''ASSUMPTION_DEPENDENT''} \<and> truthy (dget result ''universal_proof'' (JBool True))
      then ''universal''
      else if status = ''BOUNDED_PROVED'' then
        ''finite domain of '' @ py_str (dget result ''domain_size'' JNull) @ '' points''
      else if status = ''REFUTED'' then ''single witness'' else ''n/a'')"

definition function_name_of :: "program \<Rightarrow> string \<Rightarrow> json res" where
  "function_name_of P i = (case by_id P i of None \<Rightarrow> Inl KeyError | Some f \<Rightarrow> Inr (JStr (f_name f)))"

text \<open>The fixed soundness sentence holds symbols outside Latin-1 and is passed as a value.\<close>

definition certificate ::
    "json \<Rightarrow> dict \<Rightarrow> dict \<Rightarrow> func \<Rightarrow> program \<Rightarrow> json \<Rightarrow> json \<Rightarrow> dict list \<Rightarrow> dict option res" where
  "certificate soundness claim result fn P model_sha env_hash assumptions =
     rbind (in_strs (dget result ''status'' JNull) KERNEL_STATUSES) (\<lambda>ok.
       case dget result ''status'' JNull of
         JStr status \<Rightarrow>
           if \<not> ok then Inr None
           else
             (let lean = (dget result ''backend'' JNull = JStr ''lean-kernel''); refuted = (status = ''REFUTED'');
                  artifact = dget result (if refuted then ''witness_file'' else ''lean_file'') JNull in
              rbind (ditem claim ''id'') (\<lambda>cid.
              rbind (mapM (\<lambda>a. ditem a ''id'') assumptions) (\<lambda>ids.
              rbind (closure P (f_id fn)) (\<lambda>fids.
              rbind (mapM (function_name_of P) fids) (\<lambda>names.
                Inr (Some
                  [(''claim_id'', cid), (''status'', JStr status),
                   (''semantics_hash'', JStr (f_semantics_hash fn)), (''model_sha256'', model_sha),
                   (''environment_hash'', env_hash), (''assumptions'', JList ids),
                   (''backend'', JObj [(''name'', dget result ''backend'' JNull),
                      (''version'', dget result ''backend_version'' JNull)]),
                   (''solver_result'', JStr (if refuted then ''kernel-checked counterexample''
                      else if lean then ''kernel-checked proof'' else ''structural re-check'')),
                   (''certificate'', JObj
                      [(''format'', JStr (if lean then ''lean4-theorem'' else ''cpir-structural-query'')),
                       (''artifact'', artifact),
                       (''artifact_sha256'', dget result (if refuted then ''witness_file_sha256''
                           else ''lean_file_sha256'') JNull),
                       (''theorems'', dget result ''theorems'' (JList [])),
                       (''axioms'', JList (if lean then map JStr [''propext'', ''Classical.choice'', ''Quot.sound'']
                           else []))]),
                   (''scope'', JObj [(''functions'', JList names),
                      (''quantification'', JStr (quantification result status))]),
                   (''soundness'', soundness)]))))))
       | _ \<Rightarrow> Inr None)"

section \<open>Properties\<close>

text \<open>What the ledger has seen: which claim recorded which assumption.\<close>

definition recorded :: "(string \<times> dict list) list \<Rightarrow> string \<Rightarrow> string \<Rightarrow> bool" where
  "recorded hist i cid \<longleftrightarrow> (\<exists>as a. (cid, as) \<in> set hist \<and> a \<in> set as \<and> text_field ''id'' a = Inr i)"

lemma record_one_dependents:
  assumes "record_one cid L a = Inr L'"
  shows "set (dependents_of L' i) = set (dependents_of L i) \<union> (if text_field ''id'' a = Inr i then {cid} else {})"
proof -
  from assms obtain j where j: "text_field ''id'' a = Inr j"
    and L': "l_dependents L' = AList.update j (if cid \<in> set (dependents_of L j) then dependents_of L j
        else dependents_of L j @ [cid]) (l_dependents L)"
    by (auto simp: record_one_def res_simps Let_def)
  show ?thesis by (simp add: dependents_of_def [of L'] L' update_conv' j) (auto simp: dependents_of_def)
qed

lemma record_claim_dependents:
  "foldM (record_one cid) L as = Inr L' \<Longrightarrow>
   set (dependents_of L' i) = set (dependents_of L i) \<union> (if \<exists>a \<in> set as. text_field ''id'' a = Inr i then {cid} else {})"
proof (induction as arbitrary: L)
  case (Cons a as)
  then obtain L1 where "record_one cid L a = Inr L1" "foldM (record_one cid) L1 as = Inr L'"
    by (auto simp: res_simps)
  from record_one_dependents [OF this(1), of i] Cons.IH [OF this(2)] show ?case by auto
qed simp

lemma record_history:
  "foldM record_claim L hist = Inr L' \<Longrightarrow>
   set (dependents_of L' i) = set (dependents_of L i) \<union> {cid. recorded hist i cid}"
proof (induction hist arbitrary: L)
  case (Cons ca hist)
  then have "\<exists>L1. record_claim L ca = Inr L1 \<and> foldM record_claim L1 hist = Inr L'"
    by (simp only: foldM.simps rbind_eq_Inr)
  then obtain L1 where one: "foldM (record_one (fst ca)) L (snd ca) = Inr L1"
    and rest: "foldM record_claim L1 hist = Inr L'" by (auto simp: res_simps record_claim_def)
  have "{cid. recorded (ca # hist) i cid} =
      (if \<exists>a \<in> set (snd ca). text_field ''id'' a = Inr i then {fst ca} else {}) \<union> {cid. recorded hist i cid}"
    by (cases ca) (auto simp: recorded_def)
  with record_claim_dependents [OF one, of i] Cons.IH [OF rest] show ?case by auto
qed (auto simp: recorded_def)

text \<open>
  Invalidating assumptions invalidates exactly the claims that rest on them: after any history of
  recordings, \<open>invalidated_by ids\<close> is the sorted list, without repetition, of the claims that
  recorded an assumption with one of the identifiers.
\<close>

theorem invalidated_by_exact:
  assumes "foldM record_claim empty_ledger hist = Inr L"
  shows "sorted (invalidated_by L ids) \<and> distinct (invalidated_by L ids) \<and>
         set (invalidated_by L ids) = {cid. \<exists>i \<in> set ids. recorded hist i cid}"
  using record_history [OF assms] by (auto simp: invalidated_by_def dependents_of_def empty_ledger_def)

definition demo_history :: "(string \<times> dict list) list" where
  "demo_history = [(''claim_b'', base_assumptions), (''claim_a'', take 2 base_assumptions)]"

lemma invalidated_by_exact_witness:
  "\<exists>L. foldM record_claim empty_ledger demo_history = Inr L \<and>
     invalidated_by L [''A_KERNEL''] = [''claim_a'', ''claim_b''] \<and>
     set (invalidated_by L [''A_KERNEL'']) = {cid. \<exists>i \<in> set [''A_KERNEL'']. recorded demo_history i cid}"
proof -
  have "rbind (foldM record_claim empty_ledger demo_history) (\<lambda>L. Inr (invalidated_by L [''A_KERNEL''])) =
      Inr [''claim_a'', ''claim_b'']" by code_simp
  then obtain L where L: "foldM record_claim empty_ledger demo_history = Inr L"
    "invalidated_by L [''A_KERNEL''] = [''claim_a'', ''claim_b'']" by (auto simp: res_simps)
  with invalidated_by_exact [OF L(1)] show ?thesis by blast
qed

text \<open>
  The artifacts are content addressed: a file under a digest's name has that digest. Putting a
  result never overwrites a file.
\<close>

definition store_ok :: "(string \<Rightarrow> string) \<Rightarrow> string \<Rightarrow> files \<Rightarrow> bool" where
  "store_ok sha dir fs \<longleftrightarrow> (\<forall>h y. map_of fs (artifact_path dir h) = Some y \<longrightarrow> sha y = h)"

definition grown :: "(string \<Rightarrow> string) \<Rightarrow> string \<Rightarrow> files \<Rightarrow> files \<Rightarrow> bool" where
  "grown sha dir fs fs' \<longleftrightarrow>
     store_ok sha dir fs' \<and> map_of fs \<subseteq>\<^sub>m map_of fs' \<and> ran (map_of fs') = ran (map_of fs)"

lemma artifact_path_inject [simp]: "artifact_path dir h = artifact_path dir h' \<longleftrightarrow> h = h'"
  by (simp add: artifact_path_def child_def)

lemma grown_refl: "store_ok sha dir fs \<Longrightarrow> grown sha dir fs fs"
  by (simp add: grown_def)

lemma grown_trans: "grown sha dir a b \<Longrightarrow> grown sha dir b c \<Longrightarrow> grown sha dir a c"
  by (auto simp: grown_def intro: map_le_trans)

lemma grown_store:
  assumes "store_ok sha dir fs" and "map_of fs p = Some content"
  shows "\<not> is_file fs (artifact_path dir (sha content)) \<Longrightarrow>
    grown sha dir fs (AList.update (artifact_path dir (sha content)) content fs)"
proof -
  assume new: "\<not> is_file fs (artifact_path dir (sha content))"
  let ?fs = "AList.update (artifact_path dir (sha content)) content fs"
  have "store_ok sha dir ?fs"
    using assms(1) by (auto simp: store_ok_def update_conv')
  moreover have "map_of fs \<subseteq>\<^sub>m map_of ?fs"
    using new by (auto simp: map_le_def update_conv' is_file_def)
  moreover have "ran (map_of ?fs) = insert content (ran (map_of fs))"
    using new by (simp add: update_conv' is_file_def)
  moreover have "content \<in> ran (map_of fs)" using assms(2) by (rule ranI)
  ultimately show ?thesis by (simp add: grown_def insert_absorb)
qed

lemma keep_artifact_step:
  assumes "keep_artifact sha dir (r, kept, fs) field = Inr (r', kept', fs')" and "store_ok sha dir fs"
    and "inj_on sha (ran (map_of fs))"
  shows "grown sha dir fs fs' \<and> (\<forall>k. k \<noteq> field \<longrightarrow> map_of r' k = map_of r k) \<and>
    (\<forall>v \<in> set kept' - set kept. \<exists>q. v = JStr q \<and> is_file fs' q) \<and>
    (\<forall>p content. dget r field JNull = JStr p \<longrightarrow> p \<noteq> [] \<longrightarrow> map_of fs p = Some content \<longrightarrow>
       (\<exists>q. dget r' field JNull = JStr q \<and> map_of fs' q = Some content))"
proof (cases "truthy (dget r field JNull)")
  case False
  with assms show ?thesis by (auto simp: keep_artifact_def Let_def grown_refl)
next
  case True
  with assms(1) obtain p where p: "dget r field JNull = JStr p"
    by (cases "dget r field JNull") (simp_all add: keep_artifact_def Let_def)
  show ?thesis
  proof (cases "map_of fs p")
    case None
    with assms p True show ?thesis by (auto simp: keep_artifact_def Let_def grown_refl)
  next
    case (Some content)
    let ?dst = "artifact_path dir (sha content)"
    let ?fs = "if is_file fs ?dst then fs else AList.update ?dst content fs"
    from assms(1) p True Some have new: "r' = dset field (JStr ?dst) r" "kept' = kept @ [JStr ?dst]" "fs' = ?fs"
      by (auto simp: keep_artifact_def Let_def)
    have g: "grown sha dir fs fs'"
      unfolding new using grown_store [OF assms(2) Some] grown_refl [OF assms(2)] by simp
    obtain y where y: "map_of fs' ?dst = Some y"
      unfolding new by (cases "is_file fs ?dst") (auto simp: is_file_def update_conv')
    from g y have "sha y = sha content" by (auto simp: grown_def store_ok_def)
    moreover have "y \<in> ran (map_of fs)"
      using g ranI [where m = "map_of fs'", OF y] by (simp add: grown_def)
    ultimately have "y = content"
      using inj_onD [OF assms(3) _ _ ranI [where m = "map_of fs", OF Some]] by blast
    with y g p Some show ?thesis by (auto simp: new(1,2) map_of_update dget_update is_file_def)
  qed
qed

text \<open>
  C10. A cached verdict comes back intact. For a kernel status, with a content-addressed store whose
  digests do not collide on the files present, \<open>put\<close> succeeds in keeping every file and \<open>get\<close>
  then answers with the result: every field as it was, and each artifact field naming a file that
  holds the original content, marked as a cache hit.
\<close>

theorem cache_roundtrip:
  assumes "cache_put sha key result (fs, c) = Inr (fs', c')" and "c_dir c = Some dir"
    and "dget result ''status'' JNull = JStr s" and "s \<in> set KERNEL_STATUSES"
    and "store_ok sha dir fs" and "inj_on sha (ran (map_of fs))"
  shows "\<exists>r. cache_get fs' key c' = Inr (Some (dset ''cache'' (JStr ''hit'') r), c'\<lparr>c_hits := Suc (c_hits c)\<rparr>) \<and>
           (\<forall>k. k \<notin> {''lean_file'', ''witness_file''} \<longrightarrow> map_of r k = map_of result k) \<and>
           (\<forall>field \<in> {''lean_file'', ''witness_file''}. \<forall>p content.
              dget result field JNull = JStr p \<longrightarrow> p \<noteq> [] \<longrightarrow> map_of fs p = Some content \<longrightarrow>
              (\<exists>q. dget r field JNull = JStr q \<and> map_of fs' q = Some content)) \<and>
           store_ok sha dir fs' \<and> map_of fs \<subseteq>\<^sub>m map_of fs'"
proof -
  from assms(1-4) obtain r1 kept1 fs1 r kept ix where
    one: "keep_artifact sha dir (result, [], fs) ''lean_file'' = Inr (r1, kept1, fs1)"
    and two: "keep_artifact sha dir (r1, kept1, fs1) ''witness_file'' = Inr (r, kept, fs')"
    and ix: "c_index c = JObj ix"
    and c': "c' = c\<lparr>c_index := JObj (dset key (JObj [(''result'', JObj r), (''artifacts'', JList kept)]) ix)\<rparr>"
    by (auto simp: cache_put_def res_simps as_dict_Inr)
  note A = keep_artifact_step [OF one assms(5,6)]
  from A have ok1: "store_ok sha dir fs1" "inj_on sha (ran (map_of fs1))"
    using assms(6) by (simp_all add: grown_def)
  note B = keep_artifact_step [OF two ok1]
  have le: "map_of fs1 \<subseteq>\<^sub>m map_of fs'" using B by (simp add: grown_def)
  have up: "map_of fs1 q = Some x \<Longrightarrow> map_of fs' q = Some x" for q x
    using le by (metis domI map_le_def)
  have arts: "\<exists>q. v = JStr q \<and> is_file fs' q" if "v \<in> set kept" for v
    using that A B up unfolding is_file_def by (cases "v \<in> set kept1") force+
  have "allM (path_exists fs') kept = Inr (list_all (\<lambda>v. True) kept)"
  proof (rule allM_Inr)
    fix v assume "v \<in> set kept"
    from arts [OF this] show "path_exists fs' v = Inr True" by (auto simp: path_exists_def)
  qed
  then have all: "allM (path_exists fs') kept = Inr True" by (simp add: list_all_iff)
  have hit: "jget (c_index c') key = Inr (JObj [(''result'', JObj r), (''artifacts'', JList kept)])"
    unfolding c' by (simp add: dget_update)
  have hits: "c_hits c' = c_hits c" unfolding c' by simp
  from all have get: "cache_get fs' key c' = Inr (Some (dset ''cache'' (JStr ''hit'') r), c'\<lparr>c_hits := Suc (c_hits c)\<rparr>)"
    unfolding cache_get_def hit rbind_Inr by (simp add: hits as_dict_def ditem_def)
  have gr: "grown sha dir fs fs'" by (rule grown_trans [OF conjunct1 [OF A] conjunct1 [OF B]])
  have other: "\<forall>k. k \<notin> {''lean_file'', ''witness_file''} \<longrightarrow> map_of r k = map_of result k"
    using A B by simp
  have lean: "\<exists>q. dget r ''lean_file'' JNull = JStr q \<and> map_of fs' q = Some content"
    if "dget result ''lean_file'' JNull = JStr p" "p \<noteq> []" "map_of fs p = Some content" for p content
  proof -
    from A that obtain q where "dget r1 ''lean_file'' JNull = JStr q" "map_of fs1 q = Some content" by blast
    moreover have "map_of r ''lean_file'' = map_of r1 ''lean_file''" using B by simp
    ultimately show ?thesis using up by (simp add: dget_def)
  qed
  have wit: "\<exists>q. dget r ''witness_file'' JNull = JStr q \<and> map_of fs' q = Some content"
    if "dget result ''witness_file'' JNull = JStr p" "p \<noteq> []" "map_of fs p = Some content" for p content
  proof -
    have "map_of r1 ''witness_file'' = map_of result ''witness_file''" using A by simp
    moreover have "map_of fs1 p = Some content"       using conjunct1 [OF A] that(3) unfolding grown_def map_le_def by (metis domI)
    ultimately show ?thesis using B that by (simp add: dget_def)
  qed
  have "store_ok sha dir fs'" "map_of fs \<subseteq>\<^sub>m map_of fs'" using gr by (simp_all add: grown_def)
  moreover have "\<forall>field \<in> {''lean_file'', ''witness_file''}. \<forall>p content.
      dget result field JNull = JStr p \<longrightarrow> p \<noteq> [] \<longrightarrow> map_of fs p = Some content \<longrightarrow>
      (\<exists>q. dget r field JNull = JStr q \<and> map_of fs' q = Some content)"
    by (intro ballI allI impI, elim insertE emptyE) (simp_all only:, (rule lean wit; assumption)+)
  ultimately show ?thesis using get other by (intro exI [of _ r] conjI)
qed

definition proved_result :: dict where
  "proved_result = [(''status'', JStr ''PROVED''), (''lean_file'', JStr ''w/a.lean''), (''seconds'', JInt 3)]"

definition fresh_cache :: cache where
  "fresh_cache = open_cache (\<lambda>s. None) (Some ''c'') [(''w/a.lean'', ''theorem'')]"

lemma cache_roundtrip_witness:
  "\<exists>fs' c' r. cache_put (\<lambda>s. s) ''k'' proved_result ([(''w/a.lean'', ''theorem'')], fresh_cache) = Inr (fs', c') \<and>
     cache_get fs' ''k'' c' = Inr (Some (dset ''cache'' (JStr ''hit'') r), c'\<lparr>c_hits := 1\<rparr>) \<and>
     map_of r ''seconds'' = Some (JInt 3) \<and> (\<exists>q. dget r ''lean_file'' JNull = JStr q \<and> map_of fs' q = Some ''theorem'')"
proof -
  let ?fs = "[(''w/a.lean'', ''theorem'')]"
  have "\<not> isl (cache_put (\<lambda>s. s) ''k'' proved_result (?fs, fresh_cache))" by code_simp
  then obtain fs' c' where put: "cache_put (\<lambda>s. s) ''k'' proved_result (?fs, fresh_cache) = Inr (fs', c')"
    by (cases "cache_put (\<lambda>s. s) ''k'' proved_result (?fs, fresh_cache)") auto
  have c: "c_dir fresh_cache = Some ''c''" "c_hits fresh_cache = 0" by code_simp+
  have "store_ok (\<lambda>s. s) ''c'' ?fs" by (simp add: store_ok_def artifact_path_def child_def)
  from cache_roundtrip [OF put c(1) _ _ this, of "''PROVED''"] obtain r where
    "cache_get fs' ''k'' c' = Inr (Some (dset ''cache'' (JStr ''hit'') r), c'\<lparr>c_hits := Suc (c_hits fresh_cache)\<rparr>)"
    "\<forall>k. k \<notin> {''lean_file'', ''witness_file''} \<longrightarrow> map_of r k = map_of proved_result k"
    "\<forall>field \<in> {''lean_file'', ''witness_file''}. \<forall>p content.
       dget proved_result field JNull = JStr p \<longrightarrow> p \<noteq> [] \<longrightarrow> map_of ?fs p = Some content \<longrightarrow>
       (\<exists>q. dget r field JNull = JStr q \<and> map_of fs' q = Some content)"
    by (auto simp: proved_result_def KERNEL_STATUSES_def)
  with put c(2) show ?thesis by (intro exI [of _ fs'] exI [of _ c'] exI [of _ r]) (simp add: proved_result_def)
qed

text \<open>
  C11. A certificate never claims more than the verdict. None is issued for a status without kernel
  evidence; an issued one carries the claim's id and the verdict's status, names the counterexample
  file for a refutation and the proof file otherwise, and speaks of universal quantification only
  for a proof that is not marked as merely bounded.
\<close>

theorem certificate_honest:
  assumes "certificate sn claim result fn P ms eh as = Inr out"
  shows "(out = None \<longleftrightarrow> dget result ''status'' JNull \<notin> JStr ` set KERNEL_STATUSES) \<and>
    (\<forall>cert. out = Some cert \<longrightarrow>
       map_of cert ''claim_id'' = map_of claim ''id'' \<and> map_of cert ''status'' = map_of result ''status'' \<and>
       (\<exists>d sc q. map_of cert ''certificate'' = Some (JObj d) \<and> map_of cert ''scope'' = Some (JObj sc) \<and>
          map_of d ''artifact'' = Some (dget result (if dget result ''status'' JNull = JStr ''REFUTED''
             then ''witness_file'' else ''lean_file'') JNull) \<and>
          map_of sc ''quantification'' = Some (JStr q) \<and>
          (q = ''universal'' \<longrightarrow> dget result ''status'' JNull \<in> {JStr ''PROVED'', JStr ''ASSUMPTION_DEPENDENT''} \<and>
             truthy (dget result ''universal_proof'' (JBool True)))))"
proof -
  from assms have hash: "hashable (dget result ''status'' JNull)"
    by (auto simp: certificate_def res_simps in_strs_Inr)
  show ?thesis
  proof (cases "dget result ''status'' JNull")
    case (JStr s)
    show ?thesis
    proof (cases "s \<in> set KERNEL_STATUSES")
      case True
      have q: "quantification result s = ''universal'' \<longrightarrow> s \<in> {''PROVED'', ''ASSUMPTION_DEPENDENT''} \<and>
          truthy (dget result ''universal_proof'' (JBool True))"
        by (auto simp: quantification_def)
      have st: "map_of result ''status'' = Some (JStr s)" using dget_JNullD [OF JStr] by simp
      from assms JStr True obtain cert where out: "out = Some cert"
        and cert: "map_of cert ''claim_id'' = map_of claim ''id''" "map_of cert ''status'' = Some (JStr s)"
          "\<exists>d sc. map_of cert ''certificate'' = Some (JObj d) \<and> map_of cert ''scope'' = Some (JObj sc) \<and>
             map_of d ''artifact'' = Some (dget result (if s = ''REFUTED'' then ''witness_file'' else ''lean_file'') JNull) \<and>
             map_of sc ''quantification'' = Some (JStr (quantification result s))"
        by (auto simp: certificate_def res_simps Let_def ditem_Inr)
      with JStr True st q show ?thesis by auto
    next
      case False
      with assms JStr show ?thesis by (auto simp: certificate_def)
    qed
  qed (use assms hash in \<open>auto simp: certificate_def in_strs_def\<close>)
qed

lemma certificate_honest_witness:
  "\<exists>cert. certificate JNull demo_claim_out proved_result (hd (pr_functions demo_program)) demo_program JNull JNull [] = Inr (Some cert) \<and>
     map_of cert ''status'' = Some (JStr ''PROVED'')"
proof -
  let ?r = "certificate JNull demo_claim_out proved_result (hd (pr_functions demo_program)) demo_program JNull JNull []"
  have "\<not> isl ?r" by code_simp
  then obtain out where out: "?r = Inr out" by (cases ?r) auto
  from certificate_honest [OF out] obtain cert where "out = Some cert" "map_of cert ''status'' = Some (JStr ''PROVED'')"
    by (cases out) (auto simp: proved_result_def KERNEL_STATUSES_def)
  with out show ?thesis by blast
qed

end
