(* ===== verification/LeanVerdicts.thy ===== *)
theory LeanVerdicts
  imports Structural ProofLedger
begin

text \<open>
  The Lean side of \<open>src/src/autoform/harness/verifier.py\<close>: which backend can express a
  claim, the freshness check of the model's build, the two Lean runs of a chunk of claims (search,
  then certification of the witnesses), how their output becomes a verdict, and the comparison of
  a native run with the model's outcome. The file texts come from \<open>compiler.py\<close>. Lean
  itself, \<open>lake\<close> and the hash are parameters. Text beyond Latin-1 is stored in its UTF-8
  encoding.
\<close>

section \<open>The file header\<close>

definition SYMBOLIC_EVAL :: lean where
  "SYMBOLIC_EVAL = concat (map (\<lambda>l. l @ asc [CHR 0x0A]) [
     [],
     asc ''open Lean Meta in'',
     asc ''/-- Head-normalize an interpreter application by unfolding and iota-reduction only. -/'',
     asc ''partial def afHead (e : Lean.Expr) (fuel : Nat) : MetaM Lean.Expr := do'',
     asc ''  if fuel == 0 then return e'',
     asc ''  let e '' @ [Gets] @ asc '' whnfCore e'',
     asc ''  if let .const n _ := e.getAppFn then'',
     asc ''    if ('' @ [Gets] @ asc '' getEnv).find? n matches some (.ctorInfo _) then return e'',
     asc ''  match '' @ [Gets] @ asc '' unfoldDefinition? e with'',
     asc ''  | some e' => afHead e' (fuel - 1)'',
     asc ''  | none => return e'',
     [],
     asc ''open Lean Elab Tactic Meta in'',
     asc ''/-- Symbolic evaluation: replace each `runFunc '' @ [Dots] @ asc ''` in the goal by its head-normal form.'',
     asc ''The replacement is a `change`, so the kernel re-checks it by definitional equality;'',
     asc (''this tac'' @ ''tic cannot make a false goal provable. -/''),
     asc (''elab '' @ [CHR 0x22] @ ''af_eval'' @ [CHR 0x22] @ '' : tac'' @ ''tic => withMainContext do''),
     asc ''  let g '' @ [Gets] @ asc '' getMainGoal'',
     asc ''  let t '' @ [Gets] @ asc '' instantiateMVars ('' @ [Gets] @ asc '' g.getType)'',
     asc ''  let t' '' @ [Gets] @ asc '' withTransparency .all <| Meta.transform t (pre := fun e => do'',
     asc ''    if e.isAppOf ``Autoform.Core.runFunc then'',
     asc ''      return .done ('' @ [Gets] @ asc '' afHead e 200000)'',
     asc ''    return .continue)'',
     asc ''  replaceMainGoal ['' @ [Gets] @ asc '' withTransparency .all <| g.change t']''
   ])"

definition UNIVERSAL :: string where
  "UNIVERSAL = ''intros'' @ [CHR 0x0A] @ ''  af_eval'' @ [CHR 0x0A] @
     ''  first | trivial | simp | simp [Val.beq] | decide | omega '' @
     ''| (simp; omega) | (simp [Val.beq]; omega) | simp_all [Val.beq]''"

definition DEEP :: string where
  "DEEP = ''intros'' @ [CHR 0x0A] @ ''  first | decide +kernel | portfolio''"

definition header_text :: "string \<Rightarrow> lean" where
  "header_text md =
     concat (map (\<lambda>l. asc (l @ [CHR 0x0A]))
       [''import Autoform.Generated.'' @ md, ''import Autoform.Tactics.Portfolio'', ''import Lean.Data.Json'',
        ''set_option autoImplicit false'', ''set_option maxRecDepth 100000'', ''set_option maxHeartbeats 4000000'',
        ''set_option linter.all false'', ''set_option maxErrors 100000'', ''open Autoform.Core'']) @ SYMBOLIC_EVAL"

text \<open>A character is its eight bits, the lowest first.\<close>

fun utf8_glyph :: "glyph \<Rightarrow> string" where
  "utf8_glyph (Ch (Char b0 b1 b2 b3 b4 b5 b6 b7)) =
     (if \<not> b7 then [Char b0 b1 b2 b3 b4 b5 b6 b7]
      else [Char b6 b7 False False False False True True, Char b0 b1 b2 b3 b4 b5 False True])"
| "utf8_glyph Neq = [CHR 0xE2, CHR 0x89, CHR 0xA0]"
| "utf8_glyph Le = [CHR 0xE2, CHR 0x89, CHR 0xA4]"
| "utf8_glyph Ge = [CHR 0xE2, CHR 0x89, CHR 0xA5]"
| "utf8_glyph Wedge = [CHR 0xE2, CHR 0x88, CHR 0xA7]"
| "utf8_glyph Vee = [CHR 0xE2, CHR 0x88, CHR 0xA8]"
| "utf8_glyph Neg = [CHR 0xC2, CHR 0xAC]"
| "utf8_glyph To = [CHR 0xE2, CHR 0x86, CHR 0x92]"
| "utf8_glyph Iff = [CHR 0xE2, CHR 0x86, CHR 0x94]"
| "utf8_glyph All = [CHR 0xE2, CHR 0x88, CHR 0x80]"
| "utf8_glyph Gets = [CHR 0xE2, CHR 0x86, CHR 0x90]"
| "utf8_glyph Dots = [CHR 0xE2, CHR 0x80, CHR 0xA6]"

definition utf8 :: "lean \<Rightarrow> string" where
  "utf8 t = concat (map utf8_glyph t)"

section \<open>Backends\<close>

definition STATUSES :: "string list" where
  "STATUSES = [''PROVED'', ''BOUNDED_PROVED'', ''REFUTED'', ''UNKNOWN'', ''TIMEOUT'', ''UNSUPPORTED'',
     ''MODEL_INCOMPLETE'', ''ASSUMPTION_DEPENDENT'', ''INCONSISTENT_MODEL'']"

definition ALLOWED_AXIOMS :: "string list" where
  "ALLOWED_AXIOMS = [''propext'', ''Classical.choice'', ''Quot.sound'']"

definition LEAN_OPS :: "string list" where
  "LEAN_OPS = COMPARE @ BOOLEAN @ map fst ARITH @ OUTCOME"

record backend =
  b_name :: string
  b_text :: string
  b_expresses :: "string list"
  b_available :: bool

definition BACKENDS :: "backend list" where
  "BACKENDS =
    [\<lparr>b_name = ''lean-kernel'',
      b_text = ''Lean 4 kernel over the Core interpreter: universal proof attempt, '' @
        ''kernel-checked finite-domain proof, kernel-checked witnesses.'',
      b_expresses = LEAN_OPS, b_available = True\<rparr>,
     \<lparr>b_name = ''cpir-structural'',
      b_text = ''Deterministic structural check over the CPIR call/write order (every path, structured control flow).'',
      b_expresses = STRUCTURAL, b_available = True\<rparr>,
     \<lparr>b_name = ''z3'', b_text = ''SMT (bitvectors, integers); needs an SMT encoding of the function body.'',
      b_expresses = COMPARE @ BOOLEAN @ map fst ARITH, b_available = False\<rparr>,
     \<lparr>b_name = ''chc'', b_text = ''Constrained Horn clauses (loops, invariants).'', b_expresses = [], b_available = False\<rparr>,
     \<lparr>b_name = ''cbmc'', b_text = ''Bounded model checking for C memory safety.'', b_expresses = [], b_available = False\<rparr>,
     \<lparr>b_name = ''angr'', b_text = ''Binary symbolic execution.'', b_expresses = [], b_available = False\<rparr>,
     \<lparr>b_name = ''model-checker'', b_text = ''Temporal properties over state machines.'', b_expresses = [],
      b_available = False\<rparr>]"

text \<open>An option of a decision: its id and its text.\<close>

type_synonym opt = "string \<times> string"

definition claim_operators :: "dict \<Rightarrow> string list res" where
  "claim_operators claim =
     rbind (ditem claim ''property'') (\<lambda>p. rbind (ditem claim ''preconditions'') (\<lambda>v. rbind (py_iter v) (\<lambda>ps.
       Inr (operators p @ concat (map operators ps)))))"

definition feasible_backends :: "dict \<Rightarrow> opt list res" where
  "feasible_backends claim =
     rbind (claim_operators claim) (\<lambda>ops.
       Inr (map (\<lambda>b. (b_name b, b_text b))
         (filter (\<lambda>b. b_available b \<and> ops \<noteq> [] \<and> set ops \<subseteq> set (b_expresses b)) BACKENDS)))"

section \<open>Reading Lean's output\<close>

text \<open>\<open>re.finditer\<close>: leftmost matches that do not overlap. A matcher gives the groups and the rest.\<close>

function scan_all :: "(string \<Rightarrow> ('a \<times> string) option) \<Rightarrow> string \<Rightarrow> 'a list" where
  "scan_all m [] = []"
| "scan_all m (c # s) =
     (case m (c # s) of
        None \<Rightarrow> scan_all m s
      | Some (x, r) \<Rightarrow> x # scan_all m (drop (length s - length r) s))"
  by pat_completeness auto
termination
  by (relation "measure (\<lambda>(m, s). length s)") auto

definition quote :: char where
  "quote = CHR 0x27"

text \<open>\<open>'([^']+)' depends on axioms: \\[([^\\]]*)\\]\<close> and \<open>'([^']+)' does not depend on any axioms\<close>.\<close>

definition match_quoted :: "string \<Rightarrow> string \<Rightarrow> (string \<times> string) option" where
  "match_quoted tail s =
     (if \<not> startswith s [quote] then None
      else let name = takeWhile (\<lambda>c. c \<noteq> quote) (drop 1 s); r = dropWhile (\<lambda>c. c \<noteq> quote) (drop 1 s)
        in if name \<noteq> [] \<and> startswith r (quote # tail) then Some (name, drop (Suc (length tail)) r) else None)"

definition match_depends :: "string \<Rightarrow> ((string \<times> string) \<times> string) option" where
  "match_depends s =
     (case match_quoted '' depends on axioms: ['' s of
        None \<Rightarrow> None
      | Some (name, r) \<Rightarrow>
          (case dropWhile (\<lambda>c. c \<noteq> CHR '']'') r of
             [] \<Rightarrow> None
           | _ # r2 \<Rightarrow> Some ((name, takeWhile (\<lambda>c. c \<noteq> CHR '']'') r), r2)))"

definition strip :: "string \<Rightarrow> string" where
  "strip s = rev (dropWhile is_space (rev (dropWhile is_space s)))"

definition axiom_names :: "string \<Rightarrow> string list" where
  "axiom_names s = filter (\<lambda>a. a \<noteq> []) (map strip (split_char CHR '','' s))"

type_synonym axioms = "(string \<times> string list) list"

definition axioms_of :: "string \<Rightarrow> axioms" where
  "axioms_of output =
     (let some = foldl (\<lambda>m (n, s). AList.update n (axiom_names s) m) [] (scan_all match_depends output)
      in foldl (\<lambda>m n. AList.update n [] m) some
           (scan_all (match_quoted '' does not depend on any axioms'') output))"

definition certified :: "string \<Rightarrow> axioms \<Rightarrow> bool" where
  "certified name axs = (case map_of axs name of None \<Rightarrow> False | Some as \<Rightarrow> set as \<subseteq> set ALLOWED_AXIOMS)"

text \<open>\<open>KEY (\\S+) (\\[.*\\])\<close> and \<open>KEY (\\S+) (".*")\<close>: up to the last closing character of the line.\<close>

definition up_to_last :: "char \<Rightarrow> string \<Rightarrow> string" where
  "up_to_last c s = rev (dropWhile (\<lambda>x. x \<noteq> c) (rev s))"

definition match_report :: "string \<Rightarrow> char \<Rightarrow> char \<Rightarrow> string \<Rightarrow> ((string \<times> string) \<times> string) option" where
  "match_report key opening closing s =
     (if \<not> startswith s key then None
      else let t = drop (length key) s; name = takeWhile (\<lambda>c. \<not> is_space c) t; r = dropWhile (\<lambda>c. \<not> is_space c) t;
          body = up_to_last closing (takeWhile (\<lambda>c. c \<noteq> CHR 0x0A) (drop 1 r))
        in if name \<noteq> [] \<and> startswith r [CHR '' '', opening] \<and> 2 \<le> length body
           then Some ((name, body), drop (1 + length body) r) else None)"

definition match_word :: "string \<Rightarrow> string \<Rightarrow> (string \<times> string) option" where
  "match_word key s =
     (if \<not> startswith s key then None
      else let t = drop (length key) s; name = takeWhile (\<lambda>c. \<not> is_space c) t
        in if name \<noteq> [] then Some (name, dropWhile (\<lambda>c. \<not> is_space c) t) else None)"

text \<open>\<open>json.loads\<close> of the reported texts is a parameter; a text that is no JSON raises \<open>ValueError\<close>.\<close>

definition loaded :: "(string \<Rightarrow> 'a option) \<Rightarrow> string \<Rightarrow> 'a res" where
  "loaded loads t = (case loads t of None \<Rightarrow> Inl (ValueError ''json'') | Some v \<Rightarrow> Inr v)"

definition reports :: "(string \<Rightarrow> 'a option) \<Rightarrow> (string \<times> string) list \<Rightarrow> (string \<times> 'a) list res" where
  "reports loads found = foldM (\<lambda>m (n, t). rbind (loaded loads t) (\<lambda>v. Inr (AList.update n v m))) [] found"

definition witnesses_of :: "(string \<Rightarrow> json list option) \<Rightarrow> string \<Rightarrow> (string \<times> json list) list res" where
  "witnesses_of loads output = reports loads (scan_all (match_report ''AUTOFORM_CE '' (CHR ''['') (CHR '']'')) output)"

definition no_witness_of :: "string \<Rightarrow> string list" where
  "no_witness_of output = scan_all (match_word ''AUTOFORM_NOCE '') output"

definition outcomes_of :: "(string \<Rightarrow> string option) \<Rightarrow> string \<Rightarrow> (string \<times> string) list res" where
  "outcomes_of loads output =
     reports loads (scan_all (match_report ''AUTOFORM_OUTCOME '' (CHR 0x22) (CHR 0x22)) output)"

definition outcome_kind :: "string \<Rightarrow> string" where
  "outcome_kind t =
     (if substr ''EResult.hole'' t \<and> substr (CHR 0x22 # ''ub:'') t then ''undefined_behavior''
      else if substr ''EResult.val'' t then ''value''
      else if substr ''EResult.exn'' t then ''exception''
      else if substr ''EResult.hole'' t then ''hole''
      else if substr ''EResult.outOfFuel'' t then ''out_of_fuel''
      else ''unknown'')"

section \<open>The build of the model\<close>

text \<open>\<open>lake\<close>: \<open>None\<close> on a timeout, else the exit code and the standard output.\<close>

definition build_status ::
    "(string list \<Rightarrow> (int \<times> string) option) \<Rightarrow> (string \<Rightarrow> string) \<Rightarrow> string option \<Rightarrow> string \<Rightarrow> string \<Rightarrow> bool \<Rightarrow> nat \<Rightarrow> dict" where
  "build_status lake digest content home md rebuild timeout =
     (let goal = ''Autoform.Generated.'' @ md;
          src = child (child home ''Autoform/Generated'') (md @ ''.lean'');
          command = [''lake'', ''build'', goal] @ (if rebuild then [] else [''--no-build'']);
          bad = (\<lambda>reason. [(''ok'', JBool False), (''reason'', JStr reason)])
      in case content of
           None \<Rightarrow> bad (src @ '' does not exist; translate the source first (autoform source)'')
         | Some bytes \<Rightarrow>
             (case lake command of
                None \<Rightarrow> bad (join '' '' command @ '' exceeded '' @ dec timeout @ ''s'')
              | Some (code, out) \<Rightarrow>
                  if code \<noteq> 0 then
                    bad (if \<not> rebuild
                         then goal @ '' is not built or is out of date; rerun with --build or run: lake build '' @ goal
                         else ''lake build '' @ goal @ '' failed: '' @ drop (length out - 800) out)
                  else [(''ok'', JBool True), (''model_sha256'', JStr (digest bytes))]))"

section \<open>A chunk of claims\<close>

record lean_backend =
  lb_version :: string
  lb_module :: string
  lb_workdir :: string
  lb_timeout :: nat
  lb_fuel :: nat
  lb_universal :: bool
  lb_script :: string

text \<open>The constructor; \<open>toolchain\<close> is the content of \<open>lean-toolchain\<close>, if the file exists.\<close>

definition lean_backend :: "string option \<Rightarrow> string \<Rightarrow> string \<Rightarrow> nat \<Rightarrow> nat \<Rightarrow> bool \<Rightarrow> bool \<Rightarrow> lean_backend" where
  "lean_backend toolchain md workdir timeout fuel universal deep =
     \<lparr>lb_version = (case toolchain of Some t \<Rightarrow> strip t | None \<Rightarrow> ''unknown''), lb_module = md, lb_workdir = workdir,
      lb_timeout = timeout, lb_fuel = fuel, lb_universal = universal, lb_script = (if deep then DEEP else UNIVERSAL)\<rparr>"

definition CHUNK :: nat where
  "CHUNK = 24"

type_synonym row = "string \<times> obligation \<times> dict"

text \<open>\<open>r.update(...)\<close>.\<close>

definition dupdate :: "dict \<Rightarrow> dict \<Rightarrow> dict" where
  "dupdate r upd = foldl (\<lambda>m (k, v). dset k v m) r upd"

definition line :: "string \<Rightarrow> lean" where
  "line s = asc (s @ [CHR 0x0A])"

definition search_block :: "lean_backend \<Rightarrow> obligation \<Rightarrow> lean list res" where
  "search_block lb ob =
     rbind (check_def ob) (\<lambda>chk. rbind (domain_def ob) (\<lambda>dd.
     rbind (if lb_universal lb
            then rbind (prop_text ob) (\<lambda>p. Inr [asc (''theorem univ_'' @ o_tag ob @ '' : '') @ p @
                   asc ('' := by'' @ [CHR 0x0A] @ ''  '') @ line (lb_script lb)])
            else Inr []) (\<lambda>univ.
     rbind (search_text ob) (\<lambda>s.
       Inr ([chk, asc dd] @ univ @
         [asc (''theorem bounded_'' @ o_tag ob @ '' : (dom_'' @ o_tag ob @ '').all (fun p => '' @ apply_text ob ''p'' @
            '') = true := by'' @ [CHR 0x0A]) @ line ''  decide +kernel'', asc s] @
         (if lb_universal lb then [line (''#print axioms univ_'' @ o_tag ob)] else []) @
         [line (''#print axioms bounded_'' @ o_tag ob)])))))"

definition obligations :: "lean_backend \<Rightarrow> (dict \<times> func) list \<Rightarrow> (string \<times> obligation) list res" where
  "obligations lb cs =
     foldM (\<lambda>m (c, fn). rbind (claim_name c) (\<lambda>cid.
        rbind (make_obligation c fn (lb_module lb) (lb_fuel lb) []) (\<lambda>ob. Inr (AList.update cid ob m)))) [] cs"

definition unique_text :: "lean list \<Rightarrow> lean" where
  "unique_text parts = join_lean (asc [CHR 0x0A]) parts"

definition first_text :: "lean_backend \<Rightarrow> (string \<times> obligation) list \<Rightarrow> lean res" where
  "first_text lb obls =
     rbind (mapM (\<lambda>(cid, ob). search_block lb ob) obls) (\<lambda>blocks.
       Inr (unique_text (header_text (lb_module lb) # concat blocks)))"

definition status_is :: "string \<Rightarrow> string \<Rightarrow> dict" where
  "status_is s reason = [(''status'', JStr s), (''reason'', JStr reason)]"

definition log_tail :: "string \<Rightarrow> json" where
  "log_tail out = JStr (drop (length out - 2000) out)"

text \<open>The file name of a run: its directory is \<open>workdir\<close>.\<close>

definition run_name :: "lean_backend \<Rightarrow> string \<Rightarrow> nat \<Rightarrow> string" where
  "run_name lb kind index = lb_module lb @ kind @ dec index @ ''.lean''"

record run_output =
  run_code :: int
  run_out :: string
  run_secs :: json

text \<open>The loop after the first run, for one claim.\<close>

definition theorems_of :: "(string \<times> bool) list \<Rightarrow> json" where
  "theorems_of ts = JList (map (\<lambda>(t, ok). JStr t) (filter (\<lambda>(t, ok). ok) ts))"

definition read_search ::
    "(string \<times> json list) list \<Rightarrow> string list \<Rightarrow> string \<Rightarrow> axioms \<Rightarrow> string \<Rightarrow> obligation \<Rightarrow> dict \<Rightarrow> dict" where
  "read_search witnesses nowit out axs cid ob r =
     (let univ = certified (''univ_'' @ o_tag ob) axs; bounded = certified (''bounded_'' @ o_tag ob) axs;
          r1 = dupdate r [(''universal_proof'', JBool univ), (''bounded_proof'', JBool bounded),
                 (''theorems'', theorems_of [(''univ_'' @ o_tag ob, univ), (''bounded_'' @ o_tag ob, bounded)])]
      in case map_of witnesses cid of
           Some w \<Rightarrow>
             let r2 = dset ''witness_candidate'' (JList w) r1
             in if bounded then dupdate r2 (status_is ''INCONSISTENT_MODEL'' (''compiled evaluation reports a failing '' @
                  ''point but the kernel proved the domain; the evaluator and the kernel disagree''))
                else r2
         | None \<Rightarrow>
             if cid \<notin> set nowit
             then dupdate r1 (status_is ''UNKNOWN'' ''witness search produced no result'' @ [(''log_tail'', log_tail out)])
             else r1)"

definition first_verdict ::
    "lean_backend \<Rightarrow> string \<Rightarrow> string \<Rightarrow> run_output \<Rightarrow> (string \<times> json list) list \<Rightarrow> string \<times> obligation \<Rightarrow> row res" where
  "first_verdict lb fname sha run witnesses = (\<lambda>(cid, ob).
     rbind (points_in_pre ob) (\<lambda>pts. rbind (prop_text ob) (\<lambda>p.
       let r = dupdate [(''backend'', JStr ''lean-kernel''), (''backend_version'', JStr (lb_version lb))]
                 [(''lean_file'', JStr (child (lb_workdir lb) fname)), (''lean_file_sha256'', JStr sha),
                  (''seconds'', run_secs run), (''domain_size'', JInt (int (length (o_points ob)))),
                  (''domain_points_in_precondition'', JInt (int pts)), (''statement'', JStr (utf8 p))];
           r1 = (if run_code run = 124 then
                   dupdate r (status_is ''TIMEOUT'' (''Lean exceeded '' @ dec (lb_timeout lb) @ ''s''))
                 else if run_code run \<notin> {0, 1} then
                   dupdate r (status_is ''UNKNOWN'' (''Lean exited with '' @ dec_int (run_code run) @ ''; see '' @ fname) @
                     [(''log_tail'', log_tail (run_out run))])
                 else read_search witnesses (no_witness_of (run_out run)) (run_out run) (axioms_of (run_out run)) cid ob r)
       in Inr (cid, ob, r1))))"

definition is_pending :: "row \<Rightarrow> bool" where
  "is_pending = (\<lambda>(cid, ob, r). dhas r ''witness_candidate'' \<and> \<not> dhas r ''status'')"

definition candidate :: "dict \<Rightarrow> json list" where
  "candidate r = (case dget r ''witness_candidate'' JNull of JList w \<Rightarrow> w | _ \<Rightarrow> [])"

definition witness_block :: "row \<Rightarrow> lean list res" where
  "witness_block = (\<lambda>(cid, ob, r). let q = [CHR 0x22] in
     rbind (check_def ob) (\<lambda>chk. rbind (apply_point ob (candidate r)) (\<lambda>ap.
     rbind (outcome_call ob (candidate r)) (\<lambda>call.
       Inr [chk, asc (''theorem refute_'' @ o_tag ob @ '' : '' @ ap @ '' = false := by'' @ [CHR 0x0A]) @ line ''  decide +kernel'',
            line (''#print axioms refute_'' @ o_tag ob),
            line (''#eval IO.println ('' @ q @ ''AUTOFORM_OUTCOME '' @ cid @ '' '' @ q @
              '' ++ (Lean.toJson (toString (repr ('' @ call @ '')))).compress)'')]))))"

definition second_text :: "lean_backend \<Rightarrow> row list \<Rightarrow> lean res" where
  "second_text lb pending =
     rbind (mapM witness_block pending) (\<lambda>blocks. Inr (unique_text (header_text (lb_module lb) # concat blocks)))"

text \<open>The names of the quantified parameters, and the inputs of the witness.\<close>

definition input_name :: "func \<Rightarrow> json \<Rightarrow> string res" where
  "input_name fn b =
     (case b of
        JObj d \<Rightarrow> rbind (ditem d ''param'') (\<lambda>pv.
          case find (\<lambda>p. JStr (p_id p) = pv) (f_params fn) of
            None \<Rightarrow> Inl AttributeError | Some p \<Rightarrow> Inr (p_name p))
      | _ \<Rightarrow> Inl TypeError)"

definition inputs_of :: "obligation \<Rightarrow> json list \<Rightarrow> dict res" where
  "inputs_of ob w =
     rbind (forall_of (o_claim ob)) (\<lambda>bs. rbind (mapM (input_name (o_fn ob)) bs) (\<lambda>names.
       Inr (foldl (\<lambda>m (n, v). dset n v m) [] (zip names w))))"

text \<open>The loop after the second run, for one pending claim.\<close>

definition witness_status :: "run_output \<Rightarrow> string \<Rightarrow> dict \<Rightarrow> dict" where
  "witness_status run refute r =
     (if run_code run = 124 then dupdate r (status_is ''TIMEOUT'' ''witness certification exceeded its deadline'')
      else if certified refute (axioms_of (run_out run)) then
        dupdate r [(''theorems'', JList ((case dget r ''theorems'' (JList []) of JList ts \<Rightarrow> ts | _ \<Rightarrow> []) @ [JStr refute])),
          (''status'', JStr ''REFUTED'')]
      else dupdate r (status_is ''INCONSISTENT_MODEL''
        ''compiled evaluation found a failing point the kernel does not confirm''))"

definition second_verdict ::
    "lean_backend \<Rightarrow> string \<Rightarrow> string \<Rightarrow> run_output \<Rightarrow> (string \<times> string) list \<Rightarrow> row \<Rightarrow> row res" where
  "second_verdict lb fname sha run outcomes = (\<lambda>(cid, ob, r).
     if \<not> is_pending (cid, ob, r) then Inr (cid, ob, r)
     else
       let outcome = (case map_of outcomes cid of None \<Rightarrow> [] | Some t \<Rightarrow> t) in
       rbind (inputs_of ob (candidate r)) (\<lambda>inputs.
         Inr (cid, ob, witness_status run (''refute_'' @ o_tag ob)
           (dupdate r [(''witness_file'', JStr (child (lb_workdir lb) fname)), (''witness_file_sha256'', JStr sha),
              (''witness'', JObj [(''inputs'', JObj inputs), (''model_outcome'', JStr outcome),
                 (''outcome_kind'', JStr (outcome_kind outcome))])]))))"

text \<open>The last loop: a claim without a status gets one from its proofs.\<close>

definition settle :: "string \<Rightarrow> dict \<Rightarrow> dict" where
  "settle fname r =
     (if dhas r ''status'' then r
      else if truthy (dget r ''universal_proof'' JNull) then dset ''status'' (JStr ''PROVED'') r
      else if truthy (dget r ''bounded_proof'' JNull) then
        if dget r ''domain_points_in_precondition'' JNull = JInt 0
        then dupdate r (status_is ''UNKNOWN'' ''bounded proof is vacuous: no domain point meets the preconditions'')
        else dset ''status'' (JStr ''BOUNDED_PROVED'') r
      else dupdate r (status_is ''UNKNOWN'' (''no proof and no witness; see '' @ fname)))"

text \<open>
  \<open>_verify_chunk\<close>. \<open>lean path text\<close> is a run of Lean on a file; \<open>digest\<close> the hash of the
  file's bytes; \<open>loads\<close> and \<open>loads_str\<close> read a reported list and a reported string.
\<close>

definition certify ::
    "(string \<Rightarrow> string \<Rightarrow> run_output) \<Rightarrow> (string \<Rightarrow> string) \<Rightarrow> (string \<Rightarrow> string option) \<Rightarrow> lean_backend \<Rightarrow> nat \<Rightarrow> row list \<Rightarrow>
     row list res" where
  "certify lean digest loads_str lb index rows =
     (if filter is_pending rows = [] then Inr rows
      else rbind (second_text lb (filter is_pending rows)) (\<lambda>t.
        let fname = run_name lb ''_witnesses_'' index; run = lean (child (lb_workdir lb) fname) (utf8 t) in
      rbind (outcomes_of loads_str (run_out run)) (\<lambda>outcomes.
        mapM (second_verdict lb fname (digest (utf8 t)) run outcomes) rows)))"

definition verify_chunk ::
    "(string \<Rightarrow> string \<Rightarrow> run_output) \<Rightarrow> (string \<Rightarrow> string) \<Rightarrow> (string \<Rightarrow> json list option) \<Rightarrow> (string \<Rightarrow> string option) \<Rightarrow>
     lean_backend \<Rightarrow> nat \<Rightarrow> (dict \<times> func) list \<Rightarrow> (string \<times> dict) list res" where
  "verify_chunk lean digest loads loads_str lb index cs =
     rbind (obligations lb cs) (\<lambda>obls.
       if obls = [] then Inr []
       else rbind (first_text lb obls) (\<lambda>t.
         let fname = run_name lb ''_obligations_'' index; run = lean (child (lb_workdir lb) fname) (utf8 t) in
       rbind (witnesses_of loads (run_out run)) (\<lambda>witnesses.
       rbind (mapM (first_verdict lb fname (digest (utf8 t)) run witnesses) obls) (\<lambda>rows.
       rbind (certify lean digest loads_str lb index rows) (\<lambda>rows2.
         Inr (map (\<lambda>(cid, ob, r). (cid, settle fname r)) rows2))))))"

function verify_chunks ::
    "(string \<Rightarrow> string \<Rightarrow> run_output) \<Rightarrow> (string \<Rightarrow> string) \<Rightarrow> (string \<Rightarrow> json list option) \<Rightarrow> (string \<Rightarrow> string option) \<Rightarrow>
     lean_backend \<Rightarrow> nat \<Rightarrow> (dict \<times> func) list \<Rightarrow> (string \<times> dict) list \<Rightarrow> (string \<times> dict) list res" where
  "verify_chunks lean digest loads loads_str lb i cs acc =
     (if cs = [] then Inr acc
      else rbind (verify_chunk lean digest loads loads_str lb i (take CHUNK cs)) (\<lambda>part.
        verify_chunks lean digest loads loads_str lb (Suc i) (drop CHUNK cs)
          (foldl (\<lambda>m (k, v). AList.update k v m) acc part)))"
  by pat_completeness auto
termination
  by (relation "measure (\<lambda>(_, _, _, _, _, _, cs, _). length cs)") (auto simp: CHUNK_def)

declare verify_chunks.simps [simp del]

definition verify_lean ::
    "(string \<Rightarrow> string \<Rightarrow> run_output) \<Rightarrow> (string \<Rightarrow> string) \<Rightarrow> (string \<Rightarrow> json list option) \<Rightarrow> (string \<Rightarrow> string option) \<Rightarrow>
     lean_backend \<Rightarrow> (dict \<times> func) list \<Rightarrow> (string \<times> dict) list res" where
  "verify_lean lean digest loads loads_str lb cs = verify_chunks lean digest loads loads_str lb 0 cs []"

section \<open>Native replay\<close>

text \<open>The digits \<open>\\(?-?\\d+\\)?\<close> after \<open>Val.int \<close>, as \<open>int\<close> reads them; \<open>search\<close> takes the leftmost match.\<close>

definition match_int :: "string \<Rightarrow> (int \<times> string) option" where
  "match_int s =
     (if \<not> startswith s ''Val.int '' then None
      else let t = drop (length ''Val.int '') s; t1 = (if startswith t ''('' then drop 1 t else t);
          neg = startswith t1 ''-''; t2 = (if neg then drop 1 t1 else t1); ds = takeWhile is_digit t2
        in if ds \<noteq> []
           then Some ((if neg then - int (undec ds) else int (undec ds)), dropWhile is_digit t2) else None)"

definition match_bool :: "string \<Rightarrow> (bool \<times> string) option" where
  "match_bool s =
     (if startswith s ''Val.bool true'' then Some (True, drop (length ''Val.bool true'') s)
      else if startswith s ''Val.bool false'' then Some (False, drop (length ''Val.bool false'') s) else None)"

text \<open>\<open>Val\\.str (".*?")\<close>: up to the next quote, on one line.\<close>

definition match_str :: "string \<Rightarrow> (string \<times> string) option" where
  "match_str s =
     (let key = ''Val.str '' @ [CHR 0x22] in
      if \<not> startswith s key then None
      else let t = drop (length key) s; body = takeWhile (\<lambda>c. c \<noteq> CHR 0x22 \<and> c \<noteq> CHR 0x0A) t;
          r = dropWhile (\<lambda>c. c \<noteq> CHR 0x22 \<and> c \<noteq> CHR 0x0A) t
        in if startswith r [CHR 0x22] then Some (CHR 0x22 # body @ [CHR 0x22], drop 1 r) else None)"

definition first_match :: "(string \<Rightarrow> ('a \<times> string) option) \<Rightarrow> string \<Rightarrow> 'a option" where
  "first_match m s = (case scan_all m s of [] \<Rightarrow> None | x # _ \<Rightarrow> Some x)"

definition parse_value :: "(string \<Rightarrow> string option) \<Rightarrow> string \<Rightarrow> (string \<times> json) option res" where
  "parse_value loads_str t =
     (let val = substr ''EResult.val'' t in
      case (if val then first_match match_int t else None) of
        Some i \<Rightarrow> Inr (Some (''value'', JInt i))
      | None \<Rightarrow>
          (case (if val then first_match match_bool t else None) of
             Some b \<Rightarrow> Inr (Some (''value'', JBool b))
           | None \<Rightarrow>
               (case (if val then first_match match_str t else None) of
                  Some q \<Rightarrow> rbind (loaded loads_str q) (\<lambda>s. Inr (Some (''value'', JStr s)))
                | None \<Rightarrow> Inr (if substr ''EResult.exn'' t then Some (''exception'', JNull) else None))))"

text \<open>
  \<open>native_agrees\<close>: \<open>None\<close> when there is nothing to compare. Equal value and equal type of a
  decoded integer, truth value or string is equality of the representations.
\<close>

definition native_agrees :: "(string \<Rightarrow> string option) \<Rightarrow> dict \<Rightarrow> string \<Rightarrow> json res" where
  "native_agrees loads_str native t =
     (if dget native ''status'' JNull \<noteq> JStr ''ran'' then Inr JNull
      else rbind (parse_value loads_str t) (\<lambda>decoded.
        case decoded of
          None \<Rightarrow> Inr JNull
        | Some (kind, v) \<Rightarrow>
            rbind (ditem native ''result'') (\<lambda>res.
              case res of
                JObj d \<Rightarrow> rbind (ditem d ''kind'') (\<lambda>k.
                  Inr (JBool (if kind = ''exception'' then k = JStr ''exception''
                              else k = JStr ''value'' \<and> dget d ''value'' JNull = v)))
              | _ \<Rightarrow> Inl TypeError)))"

text \<open>\<open>name.split(p, 1)[-1]\<close> and the last line of a stripped text.\<close>

fun after_first :: "string \<Rightarrow> string \<Rightarrow> string option" where
  "after_first p s =
     (if startswith s p then Some (drop (length p) s)
      else case s of [] \<Rightarrow> None | _ # t \<Rightarrow> after_first p t)"

definition is_line_break :: "char \<Rightarrow> bool" where
  "is_line_break c = ((of_char c :: nat) \<in> {10, 11, 12, 13, 28, 29, 30, 133})"

definition last_line :: "string \<Rightarrow> string" where
  "last_line s = rev (takeWhile (\<lambda>c. \<not> is_line_break c) (rev (strip s)))"

text \<open>A sandboxed run of the function: it exceeds its deadline, or leaves two texts and the sandbox record.\<close>

datatype replay = Expired string | Ran string string json

definition not_run :: "string \<Rightarrow> dict" where
  "not_run reason = [(''status'', JStr ''not_run''), (''reason'', JStr reason)]"

definition native_replay ::
    "(string \<Rightarrow> string \<Rightarrow> string \<Rightarrow> replay res) \<Rightarrow> (string \<Rightarrow> bool) \<Rightarrow> (string \<Rightarrow> string + json) \<Rightarrow> string option \<Rightarrow> func \<Rightarrow>
     json list \<Rightarrow> dict res" where
  "native_replay exec file loads source fn inputs =
     (let local = (case after_first ''<module>.'' (f_name fn) of None \<Rightarrow> f_name fn | Some t \<Rightarrow> t) in
      if source = None \<or> source = Some [] \<or> \<not> endswith (f_file fn) ''.py'' \<or> f_source_name fn = [] \<or> CHR ''.'' \<in> set local
      then Inr (not_run ''native replay supports top-level Python functions only'')
      else let path = child (the source) (f_file fn) in
        if \<not> file path then Inr (not_run ''source file unavailable'')
        else rbind (exec path (f_source_name fn) (json_dumps False (JList inputs))) (\<lambda>run.
          case run of
            Expired e \<Rightarrow> Inr [(''status'', JStr ''error''), (''reason'', JStr e)]
          | Ran out err rec \<Rightarrow>
              if last_line out = [] then
                Inr [(''status'', JStr ''error''), (''reason'', JStr (drop (length err - 500) err)), (''sandbox'', rec)]
              else (case loads (last_line out) of
                  Inl e \<Rightarrow> Inr [(''status'', JStr ''error''), (''reason'', JStr e)]
                | Inr v \<Rightarrow> Inr [(''status'', JStr ''ran''), (''result'', v), (''sandbox'', rec)])))"

declare after_first.simps [simp del]

section \<open>What a verdict rests on\<close>

definition status_of :: "dict \<Rightarrow> json" where
  "status_of r = dget r ''status'' JNull"

lemma map_of_dupdate: "map_of (dupdate r upd) k = (case map_of (rev upd) k of Some v \<Rightarrow> Some v | None \<Rightarrow> map_of r k)"
  by (induction upd rule: rev_induct) (auto simp: dupdate_def map_of_update split: option.split)

lemma dget_dupdate: "dget (dupdate r upd) k dv = (case map_of (rev upd) k of Some v \<Rightarrow> v | None \<Rightarrow> dget r k dv)"
  by (simp add: dget_def map_of_dupdate split: option.split)

lemma dhas_dupdate: "dhas (dupdate r upd) k \<longleftrightarrow> k \<in> fst ` set upd \<or> dhas r k"
proof (cases "map_of (rev upd) k")
  case None
  then have "k \<notin> fst ` set upd" by (simp add: map_of_eq_None_iff)
  with None show ?thesis by (simp add: dhas_def map_of_dupdate)
next
  case (Some v)
  then have "k \<in> fst ` set upd" using map_of_SomeD by force
  with Some show ?thesis by (simp add: dhas_def map_of_dupdate)
qed

lemma dhas_dset: "dhas (dset k v r) j \<longleftrightarrow> j = k \<or> dhas r j"
  by (simp add: dhas_def map_of_update)

lemmas dict_views = dget_dupdate dhas_dupdate dhas_dset dget_update status_is_def status_of_def

text \<open>What is known of a row after the first run.\<close>

definition searched :: "axioms \<Rightarrow> (string \<times> json list) list \<Rightarrow> row \<Rightarrow> bool" where
  "searched axs witnesses = (\<lambda>(cid, ob, r).
     (dhas r ''status'' \<longrightarrow> status_of r \<in> JStr ` {''TIMEOUT'', ''UNKNOWN'', ''INCONSISTENT_MODEL''}) \<and>
     (\<not> dhas r ''status'' \<longrightarrow>
        dget r ''universal_proof'' JNull = JBool (certified (''univ_'' @ o_tag ob) axs) \<and>
        dget r ''bounded_proof'' JNull = JBool (certified (''bounded_'' @ o_tag ob) axs) \<and>
        (\<exists>n. points_in_pre ob = Inr n \<and> dget r ''domain_points_in_precondition'' JNull = JInt (int n))) \<and>
     (map_of witnesses cid \<noteq> None \<longrightarrow> dhas r ''status'' \<or> dhas r ''witness_candidate''))"

lemma read_search_searched:
  assumes "\<not> dhas r ''status''" and "\<not> dhas r ''witness_candidate''"
    and "dget r ''domain_points_in_precondition'' JNull = JInt (int n)" and "points_in_pre ob = Inr n"
  shows "searched axs witnesses (cid, ob, read_search witnesses nowit out axs cid ob r)"
  using assms by (simp add: searched_def read_search_def Let_def dict_views split: option.split)

lemma first_verdict_searched:
  assumes "first_verdict lb fname sha run witnesses (cid, ob) = Inr (c, ob', r)"
  shows "c = cid \<and> ob' = ob \<and> searched (axioms_of (run_out run)) witnesses (cid, ob, r)"
proof -
  from assms obtain n p where n: "points_in_pre ob = Inr n" and p: "prop_text ob = Inr p"
    by (auto simp: first_verdict_def res_simps)
  let ?r = "dupdate [(''backend'', JStr ''lean-kernel''), (''backend_version'', JStr (lb_version lb))]
                 [(''lean_file'', JStr (child (lb_workdir lb) fname)), (''lean_file_sha256'', JStr sha),
                  (''seconds'', run_secs run), (''domain_size'', JInt (int (length (o_points ob)))),
                  (''domain_points_in_precondition'', JInt (int n)), (''statement'', JStr (utf8 p))]"
  have r: "\<not> dhas ?r ''status''" "\<not> dhas ?r ''witness_candidate''"
    "dget ?r ''domain_points_in_precondition'' JNull = JInt (int n)"
    by (simp_all add: dict_views) (simp_all add: dhas_def)
  have eq: "c = cid" "ob' = ob" and
    R: "r = (if run_code run = 124 then
                   dupdate ?r (status_is ''TIMEOUT'' (''Lean exceeded '' @ dec (lb_timeout lb) @ ''s''))
                 else if run_code run \<notin> {0, 1} then
                   dupdate ?r (status_is ''UNKNOWN'' (''Lean exited with '' @ dec_int (run_code run) @ ''; see '' @ fname) @
                     [(''log_tail'', log_tail (run_out run))])
                 else read_search witnesses (no_witness_of (run_out run)) (run_out run) (axioms_of (run_out run)) cid ob ?r)"
    using assms unfolding first_verdict_def by (simp_all add: n p Let_def)
  show ?thesis
  proof (cases "run_code run \<in> {0, 1}")
    case True
    then show ?thesis unfolding eq R using read_search_searched [OF r n] by auto
  next
    case False
    then show ?thesis unfolding eq R by (simp add: searched_def dict_views)
  qed
qed

lemma witness_status_cases:
  "dhas (witness_status run refute r) ''status'' \<and>
   status_of (witness_status run refute r) \<in> JStr ` {''TIMEOUT'', ''REFUTED'', ''INCONSISTENT_MODEL''} \<and>
   (status_of (witness_status run refute r) = JStr ''REFUTED'' \<longrightarrow> certified refute (axioms_of (run_out run)))"
  by (simp add: witness_status_def dict_views)

lemma second_verdict_status:
  assumes "second_verdict lb fname sha run outcomes (cid, ob, r) = Inr (c, ob', r')"
  shows "c = cid \<and> ob' = ob \<and> (\<not> is_pending (cid, ob, r) \<longrightarrow> r' = r) \<and>
    (is_pending (cid, ob, r) \<longrightarrow> dhas r' ''status'' \<and>
       status_of r' \<in> JStr ` {''TIMEOUT'', ''REFUTED'', ''INCONSISTENT_MODEL''} \<and>
       (status_of r' = JStr ''REFUTED'' \<longrightarrow> certified (''refute_'' @ o_tag ob) (axioms_of (run_out run))))"
proof (cases "is_pending (cid, ob, r)")
  case False
  with assms show ?thesis by (simp add: second_verdict_def)
next
  case True
  with assms obtain r1 where "c = cid" "ob' = ob" "r' = witness_status run (''refute_'' @ o_tag ob) r1"
    by (auto simp: second_verdict_def res_simps Let_def)
  with True witness_status_cases [of run "''refute_'' @ o_tag ob" r1] show ?thesis by blast
qed

lemma settle_status:
  "dhas r ''status'' \<Longrightarrow> settle fname r = r"
  "\<not> dhas r ''status'' \<Longrightarrow> dget r ''universal_proof'' JNull = JBool u \<Longrightarrow> dget r ''bounded_proof'' JNull = JBool b \<Longrightarrow>
     dget r ''domain_points_in_precondition'' JNull = JInt (int n) \<Longrightarrow>
     status_of (settle fname r) =
       JStr (if u then ''PROVED'' else if b \<and> 0 < n then ''BOUNDED_PROVED'' else ''UNKNOWN'')"
  by (auto simp: settle_def dict_views)

lemma foldM_update_keys:
  assumes "foldM (\<lambda>m x. rbind (f x) (\<lambda>k. rbind (g x) (\<lambda>v. Inr (AList.update k v m)))) m0 xs = Inr m"
  shows "set (map fst m) = set (map fst m0) \<union> {k. \<exists>x \<in> set xs. f x = Inr k}" and "distinct (map fst m0) \<Longrightarrow> distinct (map fst m)"
proof -
  have "set (map fst m) = set (map fst m0) \<union> {k. \<exists>x \<in> set xs. f x = Inr k} \<and> (distinct (map fst m0) \<longrightarrow> distinct (map fst m))"
    using assms
  proof (induction xs arbitrary: m0)
    case (Cons x xs)
    from Cons.prems obtain k v where k: "f x = Inr k" and
      rest: "foldM (\<lambda>m x. rbind (f x) (\<lambda>k. rbind (g x) (\<lambda>v. Inr (AList.update k v m)))) (AList.update k v m0) xs = Inr m"
      by (auto simp: res_simps)
    from Cons.IH [OF rest] k show ?case by (auto simp: dom_update distinct_update)
  qed simp
  then show "set (map fst m) = set (map fst m0) \<union> {k. \<exists>x \<in> set xs. f x = Inr k}"
    and "distinct (map fst m0) \<Longrightarrow> distinct (map fst m)" by blast+
qed

lemma obligations_keys:
  assumes "obligations lb cs = Inr obls"
  shows "set (map fst obls) = {cid. \<exists>c \<in> set (map fst cs). claim_name c = Inr cid}" and "distinct (map fst obls)"
proof -
  have eq: "obligations lb cs = foldM (\<lambda>m x. rbind (claim_name (fst x)) (\<lambda>k.
     rbind (make_obligation (fst x) (snd x) (lb_module lb) (lb_fuel lb) []) (\<lambda>v. Inr (AList.update k v m)))) [] cs"
    by (simp add: obligations_def case_prod_beta')
  note keys = foldM_update_keys [OF assms [unfolded eq]]
  from keys(1) show "set (map fst obls) = {cid. \<exists>c \<in> set (map fst cs). claim_name c = Inr cid}" by force
  from keys(2) show "distinct (map fst obls)" by simp
qed

text \<open>The whole chunk: every row of the result comes from a row of the first run.\<close>

definition row_result ::
    "(string \<Rightarrow> string \<Rightarrow> run_output) \<Rightarrow> lean_backend \<Rightarrow> nat \<Rightarrow> axioms \<Rightarrow> (string \<times> json list) list \<Rightarrow> row \<Rightarrow> dict \<Rightarrow> bool" where
  "row_result lean lb index axs witnesses = (\<lambda>(cid, ob, r) r'.
     searched axs witnesses (cid, ob, r) \<and>
     (\<not> is_pending (cid, ob, r) \<longrightarrow> r' = r) \<and>
     (is_pending (cid, ob, r) \<longrightarrow> dhas r' ''status'' \<and>
       status_of r' \<in> JStr ` {''TIMEOUT'', ''REFUTED'', ''INCONSISTENT_MODEL''} \<and>
       (status_of r' = JStr ''REFUTED'' \<longrightarrow>
         (\<exists>rows t. (cid, ob, r) \<in> set rows \<and> second_text lb rows = Inr t \<and>
            certified (''refute_'' @ o_tag ob)
              (axioms_of (run_out (lean (child (lb_workdir lb) (run_name lb ''_witnesses_'' index)) (utf8 t))))))))"

lemma certify_rows:
  assumes "certify lean digest loads_str lb index rows = Inr rows2" and "list_all (searched axs witnesses) rows"
  shows "list_all2 (\<lambda>(cid, ob, r) (cid', ob', r'). cid' = cid \<and> ob' = ob \<and>
    row_result lean lb index axs witnesses (cid, ob, r) r') rows rows2"
proof (cases "filter is_pending rows = []")
  case True
  with assms have eq: "rows2 = rows" by (simp add: certify_def)
  from True have np: "\<forall>x \<in> set rows. \<not> is_pending x" by (simp add: filter_empty_conv)
  show ?thesis unfolding eq
    using assms(2) np by (intro list.rel_refl_strong) (auto simp: row_result_def list_all_iff)
next
  case False
  let ?ps = "filter is_pending rows" and ?fname = "run_name lb ''_witnesses_'' index"
  from assms(1) False obtain t where t: "second_text lb ?ps = Inr t" by (auto simp: certify_def res_simps Let_def)
  let ?run = "lean (child (lb_workdir lb) ?fname) (utf8 t)"
  from assms(1) False t obtain outcomes where
    "mapM (second_verdict lb ?fname (digest (utf8 t)) ?run outcomes) rows = Inr rows2"
    by (auto simp: certify_def res_simps Let_def)
  then have "list_all2 (\<lambda>x y. second_verdict lb ?fname (digest (utf8 t)) ?run outcomes x = Inr y) rows rows2"
    by (simp add: mapM_eq_Inr)
  then show ?thesis
  proof (rule list.rel_mono_strong)
    fix x y
    assume x: "x \<in> set rows" and v: "second_verdict lb ?fname (digest (utf8 t)) ?run outcomes x = Inr y"
    obtain cid ob r c ob' r' where xy: "x = (cid, ob, r)" "y = (c, ob', r')" by (cases x, cases y) auto
    have mem: "is_pending (cid, ob, r) \<Longrightarrow> (cid, ob, r) \<in> set ?ps" using x unfolding xy by simp
    have sr: "searched axs witnesses (cid, ob, r)" using assms(2) x unfolding xy list_all_iff by blast
    from second_verdict_status [OF v [unfolded xy]] mem sr t
    show "(case x of (cid, ob, r) \<Rightarrow> \<lambda>(cid', ob', r'). cid' = cid \<and> ob' = ob \<and> row_result lean lb index axs witnesses (cid, ob, r) r') y"
      unfolding xy row_result_def prod.case by blast
  qed
qed

definition search_run ::
    "(string \<Rightarrow> string \<Rightarrow> run_output) \<Rightarrow> lean_backend \<Rightarrow> nat \<Rightarrow> lean \<Rightarrow> run_output" where
  "search_run lean lb index t = lean (child (lb_workdir lb) (run_name lb ''_obligations_'' index)) (utf8 t)"

lemma verify_chunk_rows:
  assumes "verify_chunk lean digest loads loads_str lb index cs = Inr rs"
  obtains obls where "obligations lb cs = Inr obls" and "map fst rs = map fst obls"
    and "\<And>cid r. (cid, r) \<in> set rs \<Longrightarrow> \<exists>ob t witnesses r0 r1. (cid, ob) \<in> set obls \<and> first_text lb obls = Inr t \<and>
      witnesses_of loads (run_out (search_run lean lb index t)) = Inr witnesses \<and>
      row_result lean lb index (axioms_of (run_out (search_run lean lb index t))) witnesses (cid, ob, r0) r1 \<and>
      r = settle (run_name lb ''_obligations_'' index) r1"
proof -
  from assms obtain obls where obls: "obligations lb cs = Inr obls" by (auto simp: verify_chunk_def res_simps)
  show ?thesis
  proof (cases "obls = []")
    case True
    with assms obls have "rs = []" by (simp add: verify_chunk_def)
    with True obls show ?thesis by (intro that [of obls]) simp_all
  next
    case False
    from assms obls False obtain t where t: "first_text lb obls = Inr t"
      by (auto simp: verify_chunk_def res_simps Let_def)
    let ?fname = "run_name lb ''_obligations_'' index" and ?run = "search_run lean lb index t"
    let ?axs = "axioms_of (run_out ?run)"
    from assms obls False t obtain witnesses rows rows2 where w: "witnesses_of loads (run_out ?run) = Inr witnesses"
      and rows: "mapM (first_verdict lb ?fname (digest (utf8 t)) ?run witnesses) obls = Inr rows"
      and rows2: "certify lean digest loads_str lb index rows = Inr rows2"
      and rs: "rs = map (\<lambda>(cid, ob, r). (cid, settle ?fname r)) rows2"
      by (auto simp: verify_chunk_def res_simps Let_def search_run_def)
    have one: "list_all2 (\<lambda>(cid, ob) (c, ob', r). c = cid \<and> ob' = ob \<and> searched ?axs witnesses (cid, ob, r)) obls rows"
      using rows [unfolded mapM_eq_Inr]
      by (rule list.rel_mono_strong) (auto dest: first_verdict_searched)
    have all: "list_all (searched ?axs witnesses) rows"
      unfolding list_all_length
    proof (intro allI impI)
      fix i
      assume "i < length rows"
      from list_all2_nthD2 [OF one this] show "searched ?axs witnesses (rows ! i)"
        by (cases "obls ! i", cases "rows ! i") simp
    qed
    note two = certify_rows [OF rows2 all]
    have n: "length rows = length obls" "length rows2 = length rows"
      using one two by (simp_all add: list_all2_lengthD)
    have at: "\<exists>cid ob r0 r1. obls ! i = (cid, ob) \<and> rows2 ! i = (cid, ob, r1) \<and>
        row_result lean lb index ?axs witnesses (cid, ob, r0) r1" if "i < length rows2" for i
      using that n list_all2_nthD2 [OF one, of i] list_all2_nthD2 [OF two, of i]
      by (cases "obls ! i", cases "rows ! i", cases "rows2 ! i") auto
    have "map fst rs ! i = map fst obls ! i" if "i < length rows2" for i
      using that n at [OF that] by (auto simp: rs)
    then have "map fst rs = map fst obls"
      using n by (intro nth_equalityI) (auto simp: rs)
    moreover have "\<exists>ob t witnesses r0 r1. (cid, ob) \<in> set obls \<and> first_text lb obls = Inr t \<and>
      witnesses_of loads (run_out (search_run lean lb index t)) = Inr witnesses \<and>
      row_result lean lb index (axioms_of (run_out (search_run lean lb index t))) witnesses (cid, ob, r0) r1 \<and>
      r = settle ?fname r1" if mem: "(cid, r) \<in> set rs" for cid r
    proof -
      from mem obtain i where i: "i < length rows2" and e: "(cid, r) = (\<lambda>(cid, ob, r). (cid, settle ?fname r)) (rows2 ! i)"
        unfolding rs by (auto simp: in_set_conv_nth)
      from at [OF i] obtain ob r0 r1 where o: "obls ! i = (cid, ob)" and "rows2 ! i = (cid, ob, r1)" and
        R: "row_result lean lb index ?axs witnesses (cid, ob, r0) r1" using e by auto
      then have "r = settle ?fname r1" using e by simp
      moreover have "(cid, ob) \<in> set obls" using nth_mem [of i obls] i n o by simp
      ultimately show ?thesis using t w R by blast
    qed
    ultimately show ?thesis using obls that by blast
  qed
qed

lemma row_verdict:
  assumes "row_result lean lb index axs witnesses (cid, ob, r0) r1" and "r = settle fname r1"
  shows "status_of r \<in> JStr ` {''PROVED'', ''BOUNDED_PROVED'', ''REFUTED'', ''UNKNOWN'', ''TIMEOUT'', ''INCONSISTENT_MODEL''}"
    and "status_of r = JStr ''PROVED'' \<Longrightarrow> certified (''univ_'' @ o_tag ob) axs \<and> map_of witnesses cid = None"
    and "status_of r = JStr ''BOUNDED_PROVED'' \<Longrightarrow> certified (''bounded_'' @ o_tag ob) axs \<and> map_of witnesses cid = None \<and>
      (\<exists>n > 0. points_in_pre ob = Inr n)"
    and "status_of r = JStr ''REFUTED'' \<Longrightarrow> \<exists>rows t. (cid, ob, r0) \<in> set rows \<and> second_text lb rows = Inr t \<and>
      certified (''refute_'' @ o_tag ob)
        (axioms_of (run_out (lean (child (lb_workdir lb) (run_name lb ''_witnesses_'' index)) (utf8 t))))"
proof -
  have inv: "searched axs witnesses (cid, ob, r0)" using assms(1) by (simp add: row_result_def)
  have all: "status_of r \<in> JStr ` {''PROVED'', ''BOUNDED_PROVED'', ''REFUTED'', ''UNKNOWN'', ''TIMEOUT'', ''INCONSISTENT_MODEL''} \<and>
    (status_of r = JStr ''PROVED'' \<longrightarrow> certified (''univ_'' @ o_tag ob) axs \<and> map_of witnesses cid = None) \<and>
    (status_of r = JStr ''BOUNDED_PROVED'' \<longrightarrow> certified (''bounded_'' @ o_tag ob) axs \<and> map_of witnesses cid = None \<and>
      (\<exists>n > 0. points_in_pre ob = Inr n)) \<and>
    (status_of r = JStr ''REFUTED'' \<longrightarrow> (\<exists>rows t. (cid, ob, r0) \<in> set rows \<and> second_text lb rows = Inr t \<and>
      certified (''refute_'' @ o_tag ob)
        (axioms_of (run_out (lean (child (lb_workdir lb) (run_name lb ''_witnesses_'' index)) (utf8 t))))))"
  proof (cases "is_pending (cid, ob, r0)")
    case True
    with assms(1) have "dhas r1 ''status''" and st: "status_of r1 \<in> JStr ` {''TIMEOUT'', ''REFUTED'', ''INCONSISTENT_MODEL''}"
      and ref: "status_of r1 = JStr ''REFUTED'' \<longrightarrow> (\<exists>rows t. (cid, ob, r0) \<in> set rows \<and> second_text lb rows = Inr t \<and>
        certified (''refute_'' @ o_tag ob)
          (axioms_of (run_out (lean (child (lb_workdir lb) (run_name lb ''_witnesses_'' index)) (utf8 t)))))"
      unfolding row_result_def prod.case by blast+
    then have "r = r1" using assms(2) by (simp add: settle_status(1))
    with st ref show ?thesis by auto
  next
    case False
    with assms(1) have r1: "r1 = r0" by (simp add: row_result_def)
    show ?thesis
    proof (cases "dhas r0 ''status''")
      case True
      then have "r = r0" using assms(2) r1 by (simp add: settle_status(1))
      with inv True show ?thesis by (auto simp: searched_def)
    next
      case no: False
      with False have "\<not> dhas r0 ''witness_candidate''" by (simp add: is_pending_def)
      with inv no have none: "map_of witnesses cid = None" by (auto simp: searched_def)
      from inv no obtain n where n: "points_in_pre ob = Inr n"
        and pts: "dget r0 ''domain_points_in_precondition'' JNull = JInt (int n)"
        and u: "dget r0 ''universal_proof'' JNull = JBool (certified (''univ_'' @ o_tag ob) axs)"
        and b: "dget r0 ''bounded_proof'' JNull = JBool (certified (''bounded_'' @ o_tag ob) axs)"
        by (auto simp: searched_def)
      from settle_status(2) [OF no u b pts, of fname] assms(2) r1 none n show ?thesis by (auto split: if_splits)
    qed
  qed
  show "status_of r \<in> JStr ` {''PROVED'', ''BOUNDED_PROVED'', ''REFUTED'', ''UNKNOWN'', ''TIMEOUT'', ''INCONSISTENT_MODEL''}"
    using all by (rule conjunct1)
  show "status_of r = JStr ''PROVED'' \<Longrightarrow> certified (''univ_'' @ o_tag ob) axs \<and> map_of witnesses cid = None"
    using all by blast
  show "status_of r = JStr ''BOUNDED_PROVED'' \<Longrightarrow> certified (''bounded_'' @ o_tag ob) axs \<and> map_of witnesses cid = None \<and>
      (\<exists>n > 0. points_in_pre ob = Inr n)" using all by blast
  show "status_of r = JStr ''REFUTED'' \<Longrightarrow> \<exists>rows t. (cid, ob, r0) \<in> set rows \<and> second_text lb rows = Inr t \<and>
      certified (''refute_'' @ o_tag ob)
        (axioms_of (run_out (lean (child (lb_workdir lb) (run_name lb ''_witnesses_'' index)) (utf8 t))))" using all by blast
qed

section \<open>Properties\<close>

text \<open>
  C13. Every verdict of a chunk is backed by a theorem that Lean reported with the standard
  axioms only: PROVED by the universal theorem, BOUNDED_PROVED by the domain theorem and at least
  one domain point that meets the preconditions, REFUTED by the refutation theorem of the second
  run. A claim for which the search reported a failing point is neither PROVED nor BOUNDED_PROVED.
\<close>

theorem verdicts_certified:
  assumes "verify_chunk lean digest loads loads_str lb index cs = Inr rs" and "(cid, r) \<in> set rs"
  shows "\<exists>obls ob t witnesses. obligations lb cs = Inr obls \<and> (cid, ob) \<in> set obls \<and> first_text lb obls = Inr t \<and>
     witnesses_of loads (run_out (search_run lean lb index t)) = Inr witnesses \<and>
     (let axs = axioms_of (run_out (search_run lean lb index t)) in
       (status_of r = JStr ''PROVED'' \<longrightarrow> certified (''univ_'' @ o_tag ob) axs \<and> map_of witnesses cid = None) \<and>
       (status_of r = JStr ''BOUNDED_PROVED'' \<longrightarrow> certified (''bounded_'' @ o_tag ob) axs \<and> map_of witnesses cid = None \<and>
          (\<exists>n > 0. points_in_pre ob = Inr n)) \<and>
       (status_of r = JStr ''REFUTED'' \<longrightarrow> (\<exists>rows r0 t2. (cid, ob, r0) \<in> set rows \<and> second_text lb rows = Inr t2 \<and>
          certified (''refute_'' @ o_tag ob)
            (axioms_of (run_out (lean (child (lb_workdir lb) (run_name lb ''_witnesses_'' index)) (utf8 t2)))))))"
proof -
  from assms obtain obls where obls: "obligations lb cs = Inr obls" and
    ex: "\<exists>ob t witnesses r0 r1. (cid, ob) \<in> set obls \<and> first_text lb obls = Inr t \<and>
      witnesses_of loads (run_out (search_run lean lb index t)) = Inr witnesses \<and>
      row_result lean lb index (axioms_of (run_out (search_run lean lb index t))) witnesses (cid, ob, r0) r1 \<and>
      r = settle (run_name lb ''_obligations_'' index) r1"
    by (elim verify_chunk_rows) blast
  from ex obtain ob t witnesses r0 r1 where ob: "(cid, ob) \<in> set obls" and t: "first_text lb obls = Inr t"
    and w: "witnesses_of loads (run_out (search_run lean lb index t)) = Inr witnesses"
    and R: "row_result lean lb index (axioms_of (run_out (search_run lean lb index t))) witnesses (cid, ob, r0) r1"
    and r: "r = settle (run_name lb ''_obligations_'' index) r1" by blast
  note V = row_verdict [OF R r]
  show ?thesis unfolding Let_def using obls ob t w V(2-4) by blast
qed

definition returns_claim :: dict where
  "returns_claim = [(''id'', JStr ''C_1''), (''forall'', JList []), (''preconditions'', JList []),
     (''property'', JObj [(''op'', JStr ''RETURNS'')]), (''on_exception'', JStr ''forbidden'')]"

definition demo_backend :: lean_backend where
  "demo_backend = lean_backend (Some ''v4'') ''M'' ''w'' 300 1000 True False"

definition demo_lean :: "string \<Rightarrow> string \<Rightarrow> run_output" where
  "demo_lean path t = \<lparr>run_code = 0,
     run_out = [quote] @ ''univ_c_1'' @ [quote] @ '' depends on axioms: [propext, Quot.sound]'' @ [CHR 0x0A] @
       ''AUTOFORM_NOCE C_1'' @ [CHR 0x0A],
     run_secs = JInt 1\<rparr>"

definition demo_chunk :: "(string \<times> dict) list res" where
  "demo_chunk = verify_chunk demo_lean (\<lambda>t. ''h'') (\<lambda>s. None) (\<lambda>s. None) demo_backend 0 [(returns_claim, demo_fn)]"

lemma demo_chunk_result:
  "case demo_chunk of Inl e \<Rightarrow> False | Inr rs \<Rightarrow> map (\<lambda>(c, r). (c, status_of r)) rs = [(''C_1'', JStr ''PROVED'')]"
  by code_simp

lemma demo_outputs:
  "axioms_of (run_out (demo_lean p t)) = [(''univ_c_1'', [''propext'', ''Quot.sound''])]"
  "witnesses_of (\<lambda>s. None) (run_out (demo_lean p t)) = Inr []"
proof -
  have "axioms_of (run_out (demo_lean [] [])) = [(''univ_c_1'', [''propext'', ''Quot.sound''])]"
    "witnesses_of (\<lambda>s. None) (run_out (demo_lean [] [])) = Inr []"
    by code_simp+
  then show "axioms_of (run_out (demo_lean p t)) = [(''univ_c_1'', [''propext'', ''Quot.sound''])]"
    "witnesses_of (\<lambda>s. None) (run_out (demo_lean p t)) = Inr []"
    by (simp_all add: demo_lean_def)
qed

lemma demo_chunk_singleton: "\<exists>r. demo_chunk = Inr [(''C_1'', r)] \<and> status_of r = JStr ''PROVED''"
  using demo_chunk_result by (auto split: sum.splits)

lemma verdicts_certified_witness:
  "\<exists>r. \<exists>ob :: obligation. demo_chunk = Inr [(''C_1'', r)] \<and> status_of r = JStr ''PROVED'' \<and>
     certified (''univ_'' @ o_tag ob) [(''univ_c_1'', [''propext'', ''Quot.sound''])]"
proof -
  from demo_chunk_singleton obtain r where r: "demo_chunk = Inr [(''C_1'', r)]" "status_of r = JStr ''PROVED''" by blast
  have "(''C_1'', r) \<in> set [(''C_1'', r)]" by simp
  note V = verdicts_certified [OF r(1) [unfolded demo_chunk_def] this, unfolded search_run_def demo_outputs Let_def]
  from V obtain ob :: obligation where "status_of r = JStr ''PROVED'' \<longrightarrow>
      certified (''univ_'' @ o_tag ob) [(''univ_c_1'', [''propext'', ''Quot.sound''])]"
    by (elim exE conjE) (rule that, blast)
  with r show ?thesis by blast
qed

text \<open>Chunks.\<close>

definition ids_in :: "(dict \<times> func) list \<Rightarrow> string set" where
  "ids_in cs = {cid. \<exists>c \<in> set (map fst cs). claim_name c = Inr cid}"

lemma ids_in_append: "ids_in (xs @ ys) = ids_in xs \<union> ids_in ys"
  by (auto simp: ids_in_def)

definition six_statuses :: "json set" where
  "six_statuses = JStr ` {''PROVED'', ''BOUNDED_PROVED'', ''REFUTED'', ''UNKNOWN'', ''TIMEOUT'', ''INCONSISTENT_MODEL''}"

lemma verify_chunk_ids:
  assumes "verify_chunk lean digest loads loads_str lb index cs = Inr rs"
  shows "set (map fst rs) = ids_in cs" and "\<forall>(cid, r) \<in> set rs. status_of r \<in> six_statuses"
proof -
  from assms obtain obls where o: "obligations lb cs = Inr obls" "map fst rs = map fst obls" and
    ex: "\<And>cid r. (cid, r) \<in> set rs \<Longrightarrow> \<exists>ob t witnesses r0 r1. (cid, ob) \<in> set obls \<and> first_text lb obls = Inr t \<and>
      witnesses_of loads (run_out (search_run lean lb index t)) = Inr witnesses \<and>
      row_result lean lb index (axioms_of (run_out (search_run lean lb index t))) witnesses (cid, ob, r0) r1 \<and>
      r = settle (run_name lb ''_obligations_'' index) r1"
    by (elim verify_chunk_rows) blast
  show "set (map fst rs) = ids_in cs" using obligations_keys(1) [OF o(1)] o(2) by (simp add: ids_in_def)
  show "\<forall>(cid, r) \<in> set rs. status_of r \<in> six_statuses"
  proof clarify
    fix cid r
    assume "(cid, r) \<in> set rs"
    from ex [OF this] obtain ob witnesses axs r0 r1 where "row_result lean lb index axs witnesses (cid, ob, r0) r1"
      "r = settle (run_name lb ''_obligations_'' index) r1" by blast
    from row_verdict(1) [OF this] show "status_of r \<in> six_statuses" unfolding six_statuses_def .
  qed
qed

lemma update_all:
  fixes part acc :: "(string \<times> dict) list"
  shows "set (map fst (foldl (\<lambda>m (k, v). AList.update k v m) acc part)) = set (map fst acc) \<union> set (map fst part)"
    and "distinct (map fst acc) \<Longrightarrow> distinct (map fst (foldl (\<lambda>m (k, v). AList.update k v m) acc part))"
    and "set (foldl (\<lambda>m (k, v). AList.update k v m) acc part) \<subseteq> set acc \<union> set part"
proof -
  have one: "set (AList.update k v m) \<subseteq> insert (k, v) (set m)" for k and v :: dict and m
    by (induction m) auto
  show "set (map fst (foldl (\<lambda>m (k, v). AList.update k v m) acc part)) = set (map fst acc) \<union> set (map fst part)"
  proof (induction part arbitrary: acc)
    case (Cons x part)
    obtain k v where x: "x = (k, v)" by (cases x)
    have "set (map fst (AList.update k v acc)) = insert k (set (map fst acc))" by (simp add: AList.dom_update)
    with Cons [of "AList.update k v acc"] show ?case unfolding x by simp
  qed simp
  show "distinct (map fst acc) \<Longrightarrow> distinct (map fst (foldl (\<lambda>m (k, v). AList.update k v m) acc part))"
    by (induction part arbitrary: acc) (auto simp: distinct_update)
  show "set (foldl (\<lambda>m (k, v). AList.update k v m) acc part) \<subseteq> set acc \<union> set part"
  proof (induction part arbitrary: acc)
    case (Cons x part)
    obtain k v where x: "x = (k, v)" by (cases x)
    from Cons [of "AList.update k v acc"] one [of k v acc] show ?case unfolding x by auto
  qed simp
qed

lemma verify_chunks_ids:
  assumes "verify_chunks lean digest loads loads_str lb i cs acc = Inr rs"
    and "\<forall>(cid, r) \<in> set acc. status_of r \<in> six_statuses" and "distinct (map fst acc)"
  shows "set (map fst rs) = set (map fst acc) \<union> ids_in cs \<and> distinct (map fst rs) \<and>
    (\<forall>(cid, r) \<in> set rs. status_of r \<in> six_statuses)"
  using assms
proof (induction lean digest loads loads_str lb i cs acc arbitrary: rs rule: verify_chunks.induct)
  case (1 lean digest loads loads_str lb i cs acc)
  show ?case
  proof (cases "cs = []")
    case True
    with "1.prems" show ?thesis by (simp add: verify_chunks.simps ids_in_def)
  next
    case False
    with "1.prems"(1) obtain part where part: "verify_chunk lean digest loads loads_str lb i (take CHUNK cs) = Inr part"
      and rest: "verify_chunks lean digest loads loads_str lb (Suc i) (drop CHUNK cs)
          (foldl (\<lambda>m (k, v). AList.update k v m) acc part) = Inr rs"
      by (subst (asm) verify_chunks.simps) (auto simp: res_simps)
    let ?acc = "foldl (\<lambda>m (k, v). AList.update k v m) acc part"
    note P = verify_chunk_ids [OF part]
    have "\<forall>(cid, r) \<in> set ?acc. status_of r \<in> six_statuses"
      using "1.prems"(2) P(2) update_all(3) [of acc part] by blast
    from "1.IH" [OF False part rest this update_all(2) [OF "1.prems"(3)]] P(1)
      ids_in_append [of "take CHUNK cs" "drop CHUNK cs"]
    show ?thesis unfolding update_all(1) by (simp add: Un_assoc)
  qed
qed



text \<open>
  A conjunction of structural facts has no backend. The structural evaluator handles AND,
  OR and NOT, but the capability list of its backend names the atoms only, so a claim that joins
  two of them with AND reaches no backend and is reported UNSUPPORTED.
\<close>

definition call_atom :: "string \<Rightarrow> json" where
  "call_atom c = JObj [(''op'', JStr ''CALLS''), (''callee'', JStr c)]"

theorem structural_conjunction_unroutable:
  "\<exists>claim. (\<exists>p. map_of claim ''property'' = Some p \<and> is_structural p = Inr True) \<and>
     feasible_backends claim = Inr [] \<and> \<not> isl (verify_structural (\<lambda>_. []) [] claim demo_fn)"
proof -
  let ?claim = "[(''preconditions'', JList []),
     (''property'', JObj [(''op'', JStr ''AND''), (''args'', JList [call_atom ''f'', call_atom ''g''])])]"
  have s: "is_structural (JObj [(''op'', JStr ''AND''), (''args'', JList [call_atom ''f'', call_atom ''g''])]) = Inr True"
    by code_simp
  have f: "feasible_backends ?claim = Inr []" by code_simp
  have v: "\<not> isl (verify_structural (\<lambda>_. []) [] ?claim demo_fn)" by code_simp
  have m: "map_of ?claim ''property'' =
      Some (JObj [(''op'', JStr ''AND''), (''args'', JList [call_atom ''f'', call_atom ''g''])])" by simp
  show ?thesis using s f v m by blast
qed

text \<open>
  Comparing a native run with a model outcome that is a string with a quote raises: the
  pattern for the string ends at the escaped quote, and the text cut there is no JSON. The only
  hypothesis is that \<open>json.loads\<close> rejects the text of a quote, \<open>a\<close>, a backslash and a quote.
\<close>

definition quoted_outcome :: string where
  "quoted_outcome = ''Autoform.Core.EResult.val (Autoform.Core.Val.str '' @
     [CHR 0x22, CHR ''a'', CHR 0x5C, CHR 0x22, CHR ''b'', CHR 0x22] @ '')''"

theorem quoted_string_raises:
  assumes "loads_str [CHR 0x22, CHR ''a'', CHR 0x5C, CHR 0x22] = None" and "dget native ''status'' JNull = JStr ''ran''"
  shows "native_agrees loads_str native quoted_outcome = Inl (ValueError ''json'')"
proof -
  have facts: "substr ''EResult.val'' quoted_outcome" "first_match match_int quoted_outcome = None"
    "first_match match_bool quoted_outcome = None"
    "first_match match_str quoted_outcome = Some [CHR 0x22, CHR ''a'', CHR 0x5C, CHR 0x22]"
    by code_simp+
  then have "parse_value loads_str quoted_outcome = Inl (ValueError ''json'')"
    using assms(1) by (simp add: parse_value_def loaded_def)
  then show ?thesis using assms(2) by (simp add: native_agrees_def)
qed

text \<open>A reader of JSON strings without escapes, for the witness.\<close>

definition plain_loads :: "string \<Rightarrow> string option" where
  "plain_loads s =
     (let body = butlast (drop 1 s)
      in if length s < 2 \<or> hd s \<noteq> CHR 0x22 \<or> last s \<noteq> CHR 0x22 \<or> CHR 0x22 \<in> set body \<or> CHR 0x5C \<in> set body
         then None else Some body)"

lemma quoted_string_raises_witness:
  "plain_loads [CHR 0x22, CHR ''a'', CHR 0x22] = Some ''a'' \<and>
   native_agrees plain_loads [(''status'', JStr ''ran'')] quoted_outcome = Inl (ValueError ''json'')"
proof -
  have bad: "plain_loads [CHR 0x22, CHR ''a'', CHR 0x5C, CHR 0x22] = None" by code_simp
  have ran: "dget [(''status'', JStr ''ran'')] ''status'' JNull = JStr ''ran''" by simp
  have "plain_loads [CHR 0x22, CHR ''a'', CHR 0x22] = Some ''a''" by code_simp
  with quoted_string_raises [of plain_loads, OF bad ran] show ?thesis by blast
qed

end
