(* ===== verification/ClaimText.thy ===== *)
theory ClaimText
  imports LeanVerdicts
begin

text \<open>
  What the program shows and weighs of a claim: the printed form of formulas and claims and the
  evidence score of \<open>claims.py\<close>, the coverage of a function (\<open>Program.coverage\<close> of \<open>cpir.py\<close>)
  and the confidence triple of \<open>ledger.py\<close>. Text is in UTF-8; numbers the code keeps in floats
  are exact reals, and \<open>round\<close> rounds halves to even on them.
\<close>

section \<open>Printing\<close>

definition SYMBOL :: "(string \<times> lean) list" where
  "SYMBOL = [(''EQ'', asc ''=''), (''NEQ'', [Neq]), (''LT'', asc ''<''), (''LTE'', [Le]), (''GT'', asc ''>''),
     (''GTE'', [Ge]), (''ADD'', asc ''+''), (''SUB'', asc ''-''), (''MUL'', asc ''*''), (''AND'', [Wedge]),
     (''OR'', [Vee]), (''IMPLIES'', [To]), (''IFF'', [Iff])]"

text \<open>\<open>names.get(v, v)\<close>, where \<open>v\<close> is text.\<close>

definition shown_name :: "names \<Rightarrow> json \<Rightarrow> string res" where
  "shown_name names v =
     (case v of
        JStr s \<Rightarrow> Inr (case map_of names s of Some n \<Rightarrow> n | None \<Rightarrow> s)
      | _ \<Rightarrow> if hashable v then Inl Unmodelled else Inl TypeError)"

definition named_fields :: "dict \<Rightarrow> string list res" where
  "named_fields d =
     mapM text_of (concat (map (\<lambda>k. case map_of d k of Some v \<Rightarrow> [v] | None \<Rightarrow> [])
       [''callee'', ''first'', ''then'', ''target'']))"

definition joined :: "string \<Rightarrow> string list \<Rightarrow> string res" where
  "joined op args =
     (if op = ''NOT'' then rbind (nth_text args 0) (\<lambda>a. Inr (utf8 [Neg] @ ''('' @ a @ '')''))
      else if op = ''NEG'' then rbind (nth_text args 0) (\<lambda>a. Inr (''-('' @ a @ '')''))
      else if op = ''LEN'' then rbind (nth_text args 0) (\<lambda>a. Inr (''len('' @ a @ '')''))
      else case map_of SYMBOL op of
          None \<Rightarrow> Inl KeyError
        | Some g \<Rightarrow> Inr (''('' @ join ('' '' @ utf8 g @ '' '') args @ '')''))"

function (sequential) render_text :: "json \<Rightarrow> names \<Rightarrow> string res" where
  "render_text (JObj d) names =
     (if dhas d ''param'' then shown_name names (dget d ''param'' JNull)
      else if dhas d ''result'' then Inr ''result''
      else if dhas d ''lit'' then Inr (json_dumps False (dget d ''lit'' JNull))
      else case map_of d ''op'' of
        None \<Rightarrow> Inl KeyError
      | Some ov \<Rightarrow>
          (case ov of
             JStr op \<Rightarrow>
               if op \<in> set OUTCOME then Inr (lower op)
               else if op \<in> set STRUCTURAL \<or> op \<in> set RESERVED then
                 rbind (named_fields d) (\<lambda>fields.
                 rbind (py_iter (dget d ''args'' (JList []))) (\<lambda>xs.
                 rbind (mapM (\<lambda>x. render_text x names) xs) (\<lambda>args.
                   Inr (op @ ''('' @ join '', '' (fields @ args) @ '')''))))
               else (case map_of d ''args'' of
                   None \<Rightarrow> Inl KeyError
                 | Some v \<Rightarrow>
                     rbind (py_iter v) (\<lambda>xs.
                     rbind (mapM (\<lambda>x. render_text x names) xs) (\<lambda>args. joined op args)))
           | _ \<Rightarrow> if hashable ov then Inl KeyError else Inl TypeError))"
| "render_text _ names = Inl TypeError"
  by pat_completeness auto
termination
  by (relation "measure (\<lambda>(t, m). size t)") (auto intro: size_iter_field size_iter_arg)

definition param_names_of :: "func \<Rightarrow> names" where
  "param_names_of fn = foldl (\<lambda>m p. AList.update (p_id p) (p_name p) m) [] (f_params fn)"

definition quantifier_text :: "names \<Rightarrow> json \<Rightarrow> string res" where
  "quantifier_text names b =
     (case b of
        JObj d \<Rightarrow>
          rbind (ditem d ''param'') (\<lambda>pv. rbind (name_at names pv) (\<lambda>n. rbind (ditem d ''domain'') (\<lambda>dom.
            Inr (n @ '':'' @ py_str dom))))
      | _ \<Rightarrow> Inl TypeError)"

definition render_claim :: "dict \<Rightarrow> program \<Rightarrow> string res" where
  "render_claim claim P =
     rbind (target_func P claim) (\<lambda>fn.
       let names = param_names_of fn in
     rbind (ditem claim ''forall'') (\<lambda>bv. rbind (py_iter bv) (\<lambda>bs.
     rbind (mapM (quantifier_text names) bs) (\<lambda>qs.
     rbind (ditem claim ''property'') (\<lambda>p. rbind (render_text p names) (\<lambda>main.
     rbind (ditem claim ''preconditions'') (\<lambda>pv.
     rbind (if truthy pv then rbind (py_iter pv) (\<lambda>ps. rbind (mapM (\<lambda>x. render_text x names) ps) (\<lambda>ts.
              Inr (join ('' '' @ utf8 [Wedge] @ '' '') ts @ '' '' @ [CHR 0xE2, CHR 0x87, CHR 0x92] @ '' '' @ main)))
            else Inr main) (\<lambda>shown.
       let q = join '' '' qs;
           start = (if q \<noteq> [] then utf8 [All] @ '' '' @ q @ ''. '' else []);
           ending = (if dget claim ''on_exception'' JNull = JStr ''violates'' then [] else '' (exceptions allowed)'')
       in Inr ((if f_source_name fn \<noteq> [] then f_source_name fn else f_name fn) @ '': '' @ start @ shown @ ending)))))))))"

section \<open>Scores\<close>

definition py_round :: "nat \<Rightarrow> real \<Rightarrow> real" where
  "py_round k x =
     (let y = x * 10 ^ k; n = \<lfloor>y\<rfloor>; r = y - of_int n
      in of_int (if r < 1 / 2 \<or> r = 1 / 2 \<and> even n then n else n + 1) / 10 ^ k)"

definition EVIDENCE_WEIGHT :: "(string \<times> real) list" where
  "EVIDENCE_WEIGHT = [(''assertion'', 1), (''guard'', 9 / 10), (''invariant_test'', 85 / 100), (''test'', 8 / 10),
     (''runtime_trace'', 7 / 10), (''api_contract'', 7 / 10), (''caller'', 55 / 100), (''documentation'', 5 / 10),
     (''comment'', 35 / 100), (''naming'', 2 / 10), (''template'', 15 / 100), (''counterexample'', 6 / 10)]"

definition evidence_weight :: "string \<Rightarrow> real" where
  "evidence_weight t = (case map_of EVIDENCE_WEIGHT t of Some w \<Rightarrow> w | None \<Rightarrow> 1 / 10)"

text \<open>The types form a set: a repeated type counts once.\<close>

definition evidence_score :: "dict \<Rightarrow> real res" where
  "evidence_score claim =
     rbind (py_iter (dget claim ''evidence'' (JList []))) (\<lambda>evs.
     rbind (mapM evidence_type evs) (\<lambda>ts.
       Inr (py_round 3 (1 - prod_list (map (\<lambda>t. 1 - evidence_weight t) (remdups ts))))))"

record coverage =
  cv_function :: string
  cv_blocks_total :: nat
  cv_blocks_modeled :: int
  cv_externals :: nat
  cv_fully :: nat
  cv_abstracted :: nat
  cv_unknown :: nat
  cv_confidence :: real

definition semantics_class :: "environment option \<Rightarrow> string \<Rightarrow> json res" where
  "semantics_class env name =
     (case env of None \<Rightarrow> Inr (JStr ''UNSUPPORTED'') | Some e \<Rightarrow> ditem (summary e name) ''semantics'')"

definition count_class :: "json list \<Rightarrow> string \<Rightarrow> nat" where
  "count_class cs c = length (filter (\<lambda>x. x = JStr c) cs)"

definition coverage_of :: "program \<Rightarrow> string \<Rightarrow> environment option \<Rightarrow> coverage res" where
  "coverage_of P fid env =
     (case by_id P fid of
        None \<Rightarrow> Inl KeyError
      | Some f \<Rightarrow>
          rbind (externals P fid) (\<lambda>ext. rbind (mapM (semantics_class env) ext) (\<lambda>cs.
            let total = length (f_blocks f); modeled = int total - int (length (f_holes f));
                fully = count_class cs ''INLINE'' + count_class cs ''MODELED'';
                abstracted = count_class cs ''UNINTERPRETED'' + count_class cs ''NONDETERMINISTIC'';
                unknown = count_class cs ''UNSUPPORTED'';
                blocks = (if total \<noteq> 0 then of_int modeled / real total else 1);
                externs = (if ext \<noteq> [] then (real fully + 1 / 2 * real abstracted) / real (length ext) else 1)
            in Inr \<lparr>cv_function = f_name f, cv_blocks_total = total, cv_blocks_modeled = modeled,
                    cv_externals = length ext, cv_fully = fully, cv_abstracted = abstracted, cv_unknown = unknown,
                    cv_confidence = py_round 3 (blocks * externs)\<rparr>)))"

definition PROOF_CONFIDENCE :: "(string \<times> real) list" where
  "PROOF_CONFIDENCE = [(''PROVED'', 1), (''REFUTED'', 1), (''ASSUMPTION_DEPENDENT'', 8 / 10), (''BOUNDED_PROVED'', 5 / 10),
     (''MODEL_INCOMPLETE'', 0), (''UNKNOWN'', 0), (''TIMEOUT'', 0), (''UNSUPPORTED'', 0), (''INCONSISTENT_MODEL'', 0)]"

record confidence =
  cf_intent :: real
  cf_model :: real
  cf_proof :: real

definition probability :: "(string \<times> real) list \<Rightarrow> string \<Rightarrow> real" where
  "probability ps k = (case map_of ps k of Some p \<Rightarrow> p | None \<Rightarrow> 0)"

text \<open>\<open>native_match\<close> is a truth value or \<open>None\<close>; no judgment is the empty dictionary.\<close>

definition confidence_of :: "dict \<Rightarrow> dict \<Rightarrow> (string \<times> real) list \<Rightarrow> coverage \<Rightarrow> json \<Rightarrow> confidence res" where
  "confidence_of claim result j cov native_match =
     rbind (evidence_score claim) (\<lambda>ev.
       let judged = probability j ''USEFUL_PROPERTY'' + probability j ''SECURITY_RELEVANT'';
           native = (if native_match = JBool True then 1 else if native_match = JBool False then 6 / 10 else 9 / 10)
       in Inr \<lparr>cf_intent = (if j \<noteq> [] then py_round 3 (1 / 2 * judged + 1 / 2 * ev) else ev),
               cf_model = py_round 3 (cv_confidence cov * native),
               cf_proof = (case dget result ''status'' JNull of JStr s \<Rightarrow> probability PROOF_CONFIDENCE s | _ \<Rightarrow> 0)\<rparr>)"

end
