(* ===== verification/JudgeModel.thy ===== *)
theory JudgeModel
  imports LeanVerdicts
begin

text \<open>
  The judgment layer, \<open>src/src/autoform/harness/judge.py\<close>: typed options, the scorers, the
  decision procedure with its log and counter, and the ten questions the pipeline asks. Scores and
  probabilities are exact real numbers here, where the code has floats. The learned scorer is an
  external process: a scorer is any function that meets the contract of the locale \<open>scorer\<close>, and
  the heuristic scorer of the repository is an instance of it. The decision log keeps its
  entries; the file it also writes is left out.
\<close>

section \<open>Options\<close>

definition MAX_OPTIONS :: nat where
  "MAX_OPTIONS = 16"

definition CLAIM_JUDGMENTS :: "opt list" where
  "CLAIM_JUDGMENTS =
    [(''USEFUL_PROPERTY'',
        ''A useful, non-trivial statement of the intended behavior, worth proving.''),
     (''SECURITY_RELEVANT'',
        ''States a security requirement (authorization, validation, integrity) of this code.''),
     (''TRIVIAL'',
        ''True of almost any implementation; proving it says little about this function.''),
     (''UNSUPPORTED_BY_EVIDENCE'',
        ''Nothing in the code, names, docs or tests suggests this is intended.''),
     (''TOO_STRONG'',
        ''Probably stricter than intended; likely false for legitimate behavior.''),
     (''TOO_WEAK'',
        ''Probably true but misses the essential part of the intended behavior.''),
     (''LIKELY_VACUOUS'',
        ''Its conditions are rarely or never met, so it constrains nothing.'')]"

definition COUNTEREXAMPLE_CLASSES :: "opt list" where
  "COUNTEREXAMPLE_CLASSES =
    [(''REAL_BUG'',
        ''The implementation violates what it is meant to do; the witness is a genuine defect.''),
     (''BAD_SPEC'',
        ''The code behaves as intended; the claimed property is wrong (too strong or misstated).''),
     (''MISSING_PRECONDITION'',
        ''The witness uses an input that callers are not meant to supply.''),
     (''INCOMPLETE_MODEL'',
        ''The formal model does not capture the relevant behavior (unmodeled construct, fuel bound, or a semantics gap).''),
     (''ENVIRONMENT_MISMATCH'',
        ''The violation depends on external/environment behavior that differs from what the claim takes for granted, not on this code.''),
     (''ABSTRACTION_ARTIFACT'',
        ''The witness is an artifact of the chosen bounds, domain or encoding, not reachable behavior.'')]"

definition MODEL_DEFECTS :: "opt list" where
  "MODEL_DEFECTS =
    [(''UNMODELED_CONSTRUCT'',
        ''The interpreter has no semantics for a construct the code uses (a named hole).''),
     (''FUEL_BOUND'',
        ''Evaluation ran out of fuel: a bound of the check, not necessarily a defect of the code.''),
     (''SEMANTICS_MISMATCH'',
        ''The model evaluates the construct differently from the real runtime.''),
     (''EXTERNAL_UNMODELED'',
        ''The behavior depends on a callee the program does not define and the environment does not summarize.''),
     (''FRONTEND_MISTRANSLATION'',
        ''The front end translated the source into Core incorrectly or incompletely.''),
     (''EVALUATOR_KERNEL_DISAGREEMENT'',
        ''Compiled evaluation and kernel evaluation of the same model disagree.'')]"

definition PROOF_VALUES :: "opt list" where
  "PROOF_VALUES =
    [(''HIGH_VALUE'',
        ''Establishes an essential, non-obvious part of the intended contract (e.g. a security requirement).''),
     (''ROUTINE'',
        ''Correct and useful, but a standard property one would expect to hold.''),
     (''TRIVIAL_IN_HINDSIGHT'',
        ''Holds for almost any implementation with this interface; the proof says little.''),
     (''WEAKER_THAN_INTENDED'',
        ''Holds, but only because it states less than the intended contract (weakened, bounded, or assumption-dependent).'')]"

definition ASSUMPTION_VERDICTS :: "opt list" where
  "ASSUMPTION_VERDICTS =
    [(''ACCEPTABLE'',
        ''A reasonable, standard assumption for this code and its callers.''),
     (''UNACCEPTABLE'',
        ''Hides a real defect or excludes inputs that callers legitimately supply.''),
     (''NEEDS_HUMAN_REVIEW'',
        ''Plausible but consequential; a person should confirm it.'')]"

section \<open>Scores\<close>

text \<open>\<open>max(xs)\<close> raises on an empty list; \<open>v / temperature\<close> on zero.\<close>

definition softmax :: "real list \<Rightarrow> real \<Rightarrow> real list res" where
  "softmax values temperature =
     (if values = [] then Inl (ValueError ''max'')
      else if temperature = 0 then Inl (ValueError ''division by zero'')
      else let m = Max (set (map (\<lambda>v. v / temperature) values));
               w = map (\<lambda>v. exp (v / temperature - m)) values;
               s = sum_list w
           in Inr (map (\<lambda>x. x / s) w))"

record jrow =
  jr_id :: string
  jr_state :: json
  jr_question :: string
  jr_options :: "opt list"
  jr_prior :: "(string \<times> real) list"
  jr_context :: json

record score =
  sc_ids :: "string list"
  sc_logits :: "real list"
  sc_probabilities :: "real list"
  sc_prompt :: json
  sc_miss :: bool

definition lookup :: "(string \<times> 'a) list \<Rightarrow> string \<Rightarrow> 'a \<Rightarrow> 'a" where
  "lookup m k dv = (case map_of m k of None \<Rightarrow> dv | Some v \<Rightarrow> v)"

definition weight :: "jrow \<Rightarrow> opt \<Rightarrow> real" where
  "weight row o1 = max (lookup (jr_prior row) (fst o1) (1 / 1000)) (1 / 1000000)"

definition heuristic_one :: "jrow \<Rightarrow> score res" where
  "heuristic_one row =
     (let logits = map (\<lambda>o1. ln (weight row o1)) (jr_options row) in
      rbind (softmax logits 1) (\<lambda>p.
        Inr \<lparr>sc_ids = map fst (jr_options row), sc_logits = logits, sc_probabilities = p, sc_prompt = JNull, sc_miss = False\<rparr>))"

definition heuristic_score :: "jrow list \<Rightarrow> bool \<Rightarrow> score list res" where
  "heuristic_score rows shared = mapM heuristic_one rows"

text \<open>\<open>row_key\<close>, over the hash of a JSON value.\<close>

definition options_json :: "opt list \<Rightarrow> json" where
  "options_json os = JList (map (\<lambda>(i, d). JObj [(''id'', JStr i), (''description'', JStr d)]) os)"

definition sha_of :: "(string \<Rightarrow> string) \<Rightarrow> json \<Rightarrow> string" where
  "sha_of digest v = digest (json_dumps True v)"

definition row_key :: "(string \<Rightarrow> string) \<Rightarrow> jrow \<Rightarrow> string" where
  "row_key digest row = sha_of digest (JObj [(''state'', jr_state row), (''question'', JStr (jr_question row)),
     (''options'', options_json (jr_options row))])"

text \<open>The replay scorer: the table maps keys to option ids and logits.\<close>

type_synonym recorded_scores = "(string \<times> string list \<times> real list) list"

definition replay_one :: "(string \<Rightarrow> string) \<Rightarrow> recorded_scores \<Rightarrow> jrow \<Rightarrow> score res" where
  "replay_one digest table row =
     (case map_of table (row_key digest row) of
        None \<Rightarrow> rbind (heuristic_one row) (\<lambda>s. Inr (s\<lparr>sc_miss := True\<rparr>))
      | Some (ids, logits) \<Rightarrow>
          if ids = map fst (jr_options row)
          then rbind (softmax logits 1) (\<lambda>p. Inr \<lparr>sc_ids = ids, sc_logits = logits, sc_probabilities = p, sc_prompt = JNull, sc_miss = False\<rparr>)
          else rbind (heuristic_one row) (\<lambda>s. Inr (s\<lparr>sc_miss := True\<rparr>)))"

definition replay_score :: "(string \<Rightarrow> string) \<Rightarrow> recorded_scores \<Rightarrow> jrow list \<Rightarrow> bool \<Rightarrow> score list res" where
  "replay_score digest table rows shared = mapM (replay_one digest table) rows"

text \<open>
  Reading the table: an entry without scores is a forced decision and is skipped; the option list
  is under \<open>option_ids\<close> or \<open>options\<close>; a later entry of the same key wins.
\<close>

record entry =
  en_key :: string
  en_option_ids :: "string list"
  en_options :: "string list"
  en_logits :: "real list"

definition replay_table :: "entry list \<Rightarrow> recorded_scores" where
  "replay_table es =
     foldl (\<lambda>m e. if en_logits e = [] then m
                  else AList.update (en_key e) (if en_option_ids e \<noteq> [] then en_option_ids e else en_options e, en_logits e) m) [] es"

section \<open>Deciding\<close>

text \<open>What only a scored decision records.\<close>

record scoring =
  sg_state_sha :: string
  sg_state :: json
  sg_question :: string
  sg_descriptions :: "string list"
  sg_logits :: "real list"
  sg_temperature :: real
  sg_prompt :: json
  sg_miss :: bool
  sg_status :: string

record decision =
  d_id :: string
  d_task :: string
  d_key :: string
  d_forced :: bool
  d_options :: "string list"
  d_chosen :: string
  d_probabilities :: "(string \<times> real) list"
  d_backend :: string
  d_context :: json
  d_scoring :: "scoring option"

record judge =
  jg_name :: string
  jg_score :: "jrow list \<Rightarrow> bool \<Rightarrow> score list res"
  jg_digest :: "string \<Rightarrow> string"
  jg_temperature :: "(string \<times> real) list"
  jg_counter :: nat
  jg_entries :: "decision list"

definition make_judge ::
    "string \<Rightarrow> (jrow list \<Rightarrow> bool \<Rightarrow> score list res) \<Rightarrow> (string \<Rightarrow> string) \<Rightarrow> (string \<times> real) list \<Rightarrow> judge" where
  "make_judge name score digest temperature =
     \<lparr>jg_name = name, jg_score = score, jg_digest = digest, jg_temperature = temperature, jg_counter = 0, jg_entries = []\<rparr>"

definition decision_name :: "nat \<Rightarrow> string \<Rightarrow> string" where
  "decision_name n task = ''D_'' @ pad 5 n @ ''_'' @ task"

definition log_decision :: "decision \<Rightarrow> judge \<Rightarrow> judge" where
  "log_decision d j = j\<lparr>jg_counter := Suc (jg_counter j), jg_entries := jg_entries j @ [d]\<rparr>"

definition forced_decision :: "string \<Rightarrow> string \<Rightarrow> judge \<Rightarrow> jrow \<Rightarrow> decision" where
  "forced_decision task chosen j row =
     \<lparr>d_id = decision_name (Suc (jg_counter j)) task, d_task = task, d_key = row_key (jg_digest j) row, d_forced = True,
      d_options = map fst (jr_options row), d_chosen = chosen, d_probabilities = [(chosen, 1)], d_backend = ''forced'',
      d_context = jr_context row, d_scoring = None\<rparr>"

primrec forced_loop :: "string \<Rightarrow> string \<Rightarrow> jrow list \<Rightarrow> judge \<Rightarrow> decision list \<times> judge" where
  "forced_loop task chosen [] j = ([], j)"
| "forced_loop task chosen (row # rows) j =
     (let d = forced_decision task chosen j row; (ds, j') = forced_loop task chosen rows (log_decision d j) in (d # ds, j'))"

text \<open>\<open>max(range(len(ids)), key=probs.__getitem__)\<close>: the first index with the greatest value.\<close>

fun argmax_from :: "real list \<Rightarrow> nat \<Rightarrow> nat \<Rightarrow> real \<Rightarrow> nat" where
  "argmax_from [] i best b = best"
| "argmax_from (p # ps) i best b = (if b < p then argmax_from ps (Suc i) i p else argmax_from ps (Suc i) best b)"

definition argmax :: "nat \<Rightarrow> real list \<Rightarrow> nat res" where
  "argmax n ps =
     (if n = 0 then Inl (ValueError ''max'') else if length ps < n then Inl IndexError
      else Inr (argmax_from (take (n - 1) (drop 1 ps)) 1 0 (hd ps)))"

definition dict_zip :: "string list \<Rightarrow> 'a list \<Rightarrow> (string \<times> 'a) list" where
  "dict_zip ks vs = foldl (\<lambda>m (k, v). AList.update k v m) [] (zip ks vs)"

definition scoring_of :: "judge \<Rightarrow> real \<Rightarrow> jrow \<Rightarrow> score \<Rightarrow> scoring" where
  "scoring_of j t row s =
     \<lparr>sg_state_sha = sha_of (jg_digest j) (jr_state row), sg_state = jr_state row, sg_question = jr_question row,
      sg_descriptions = map snd (jr_options row), sg_logits = sc_logits s, sg_temperature = t, sg_prompt = sc_prompt s,
      sg_miss = sc_miss s,
      sg_status = (if t = 1 then ''uncalibrated option score'' else ''temperature-scaled option score'')\<rparr>"

definition scored_decision :: "string \<Rightarrow> judge \<Rightarrow> jrow \<Rightarrow> score \<Rightarrow> decision res" where
  "scored_decision task j row s =
     (let t = lookup (jg_temperature j) task 1 in
      rbind (softmax (sc_logits s) t) (\<lambda>probs.
      rbind (argmax (length (sc_ids s)) probs) (\<lambda>i.
        Inr \<lparr>d_id = decision_name (Suc (jg_counter j)) task, d_task = task, d_key = row_key (jg_digest j) row,
             d_forced = False, d_options = sc_ids s, d_chosen = sc_ids s ! i,
             d_probabilities = dict_zip (sc_ids s) probs, d_backend = jg_name j,
             d_context = jr_context row, d_scoring = Some (scoring_of j t row s)\<rparr>)))"

primrec scored_loop :: "string \<Rightarrow> (jrow \<times> score) list \<Rightarrow> judge \<Rightarrow> (decision list \<times> judge) res" where
  "scored_loop task [] j = Inr ([], j)"
| "scored_loop task (rs # rest) j =
     rbind (scored_decision task j (fst rs) (snd rs)) (\<lambda>d.
     rbind (scored_loop task rest (log_decision d j)) (\<lambda>(ds, j'). Inr (d # ds, j')))"

text \<open>The rows are scored 32 at a time.\<close>

function score_rows :: "(jrow list \<Rightarrow> bool \<Rightarrow> score list res) \<Rightarrow> bool \<Rightarrow> jrow list \<Rightarrow> score list res" where
  "score_rows score shared rows =
     (if rows = [] then Inr []
      else rbind (score (take 32 rows) shared) (\<lambda>ss. rbind (score_rows score shared (drop 32 rows)) (\<lambda>rest. Inr (ss @ rest))))"
  by pat_completeness auto
termination
  by (relation "measure (\<lambda>(_, _, rows). length rows)") auto

declare score_rows.simps [simp del]

definition decide_rows :: "string \<Rightarrow> jrow list \<Rightarrow> bool \<Rightarrow> string option \<Rightarrow> judge \<Rightarrow> (decision list \<times> judge) res" where
  "decide_rows task rows shared forced j =
     (case forced of
        Some chosen \<Rightarrow> Inr (forced_loop task chosen rows j)
      | None \<Rightarrow> rbind (score_rows (jg_score j) shared rows) (\<lambda>ss. scored_loop task (zip rows ss) j))"

text \<open>\<open>self._decide(...)[0]\<close>.\<close>

definition decide_one :: "string \<Rightarrow> jrow \<Rightarrow> string option \<Rightarrow> judge \<Rightarrow> (decision \<times> judge) res" where
  "decide_one task row forced j =
     rbind (decide_rows task [row] False forced j) (\<lambda>(ds, j'). case ds of [] \<Rightarrow> Inl IndexError | d # _ \<Rightarrow> Inr (d, j'))"

section \<open>The questions\<close>

definition jrow :: "string \<Rightarrow> json \<Rightarrow> string \<Rightarrow> opt list \<Rightarrow> (string \<times> real) list \<Rightarrow> json \<Rightarrow> jrow" where
  "jrow i state question os prior ctx =
     \<lparr>jr_id = i, jr_state = state, jr_question = question, jr_options = os, jr_prior = prior, jr_context = ctx\<rparr>"

definition newline :: string where
  "newline = [CHR 0x0A]"

definition zip3 :: "'a list \<Rightarrow> 'b list \<Rightarrow> 'c list \<Rightarrow> (nat \<times> 'a \<times> 'b \<times> 'c) list" where
  "zip3 xs ys zs = enumerate 0 (zip xs (zip ys zs))"

definition claim_rows ::
    "json \<Rightarrow> string list \<Rightarrow> (string \<times> real) list list \<Rightarrow> json list \<Rightarrow> jrow list" where
  "claim_rows state rendered priors contexts =
     map (\<lambda>(i, txt, prior, ctx). jrow (''claim-'' @ dec i) state
            (''Candidate specification for this function:'' @ newline @ txt @ newline @
             ''Which judgment best describes this candidate?'') CLAIM_JUDGMENTS prior ctx)
         (zip3 rendered priors contexts)"

definition judge_claims ::
    "json \<Rightarrow> string list \<Rightarrow> (string \<times> real) list list \<Rightarrow> json list \<Rightarrow> judge \<Rightarrow> (decision list \<times> judge) res" where
  "judge_claims state rendered priors contexts j =
     decide_rows ''PROPERTY_JUDGMENT'' (claim_rows state rendered priors contexts) True None j"

text \<open>Listwise selection: 16 candidates at a time; a chunk of one is certain and not logged.\<close>

definition select_row :: "nat \<Rightarrow> json \<Rightarrow> opt list \<Rightarrow> (string \<times> real) list \<Rightarrow> json \<Rightarrow> jrow" where
  "select_row start state chunk priors ctx =
     jrow (''select-'' @ dec start) state
       (''Which candidate is the most useful, evidence-supported statement of what '' @
        ''this function is meant to do, and therefore most worth proving?'')
       chunk (map (\<lambda>(c, t). (c, lookup priors c (1 / 10))) chunk) ctx"

function select_loop ::
    "nat \<Rightarrow> json \<Rightarrow> opt list \<Rightarrow> (string \<times> real) list \<Rightarrow> json \<Rightarrow> judge \<Rightarrow> ((string \<times> real) list list \<times> judge) res" where
  "select_loop start state candidates priors ctx j =
     (if candidates = [] then Inr ([], j)
      else let chunk = take MAX_OPTIONS candidates in
        rbind (if length chunk < 2 then Inr ([(fst (hd chunk), 1)], j)
               else rbind (decide_rows ''PROPERTY_SELECTION'' [select_row start state chunk priors ctx] False None j) (\<lambda>(ds, j').
                    Inr (concat (map d_probabilities ds), j'))) (\<lambda>(probs, j1).
        rbind (select_loop (start + MAX_OPTIONS) state (drop MAX_OPTIONS candidates) priors ctx j1) (\<lambda>(rest, j2).
          Inr (probs # rest, j2))))"
  by pat_completeness auto
termination
  by (relation "measure (\<lambda>(_, _, cs, _). length cs)") (auto simp: MAX_OPTIONS_def)

declare select_loop.simps [simp del]

definition normalized :: "(string \<times> real) list \<Rightarrow> (string \<times> real) list" where
  "normalized m = (let s = sum_list (map snd m); total = (if s = 0 then 1 else s) in map (\<lambda>(k, v). (k, v / total)) m)"

definition merge_all :: "(string \<times> 'a) list list \<Rightarrow> (string \<times> 'a) list" where
  "merge_all ms = foldl (\<lambda>m (k, v). AList.update k v m) [] (concat ms)"

definition select_candidates ::
    "json \<Rightarrow> opt list \<Rightarrow> (string \<times> real) list \<Rightarrow> json \<Rightarrow> judge \<Rightarrow> ((string \<times> real) list \<times> judge) res" where
  "select_candidates state candidates priors ctx j =
     rbind (select_loop 0 state candidates priors ctx j) (\<lambda>(ps, j'). Inr (normalized (merge_all ps), j'))"

definition intent ::
    "json \<Rightarrow> opt list \<Rightarrow> (string \<times> real) list \<Rightarrow> json \<Rightarrow> judge \<Rightarrow> (decision \<times> judge) res" where
  "intent state readings priors ctx j =
     decide_one ''INTENT_SELECTION''
       (jrow ''intent'' state
          (''These candidate specifications are mutually exclusive: no implementation can satisfy '' @
           ''all of them, so at most one describes the intended behavior. Based on the name, '' @
           ''signature, documentation, tests and callers, which one is intended?'')
          (take MAX_OPTIONS readings) (map (\<lambda>(c, t). (c, lookup priors c (1 / 10))) (take MAX_OPTIONS readings)) ctx) None j"

text \<open>A question with one option only is forced; its row has no question and no prior.\<close>

definition ask ::
    "string \<Rightarrow> string \<Rightarrow> json \<Rightarrow> string \<Rightarrow> opt list \<Rightarrow> nat \<Rightarrow> (string \<times> real) list \<Rightarrow> json \<Rightarrow> judge \<Rightarrow> (decision \<times> judge) res" where
  "ask task i state question os limit prior ctx j =
     (case os of
        [o1] \<Rightarrow> decide_one task (jrow i state [] [o1] [] ctx) (Some (fst o1)) j
      | _ \<Rightarrow> decide_one task (jrow i state question (take limit os) prior ctx) None j)"

definition described :: "opt list \<Rightarrow> string list \<Rightarrow> opt list res" where
  "described table ks = mapM (\<lambda>k. case map_of table k of None \<Rightarrow> Inl KeyError | Some d \<Rightarrow> Inr (k, d)) ks"

definition classify_counterexample ::
    "json \<Rightarrow> string list \<Rightarrow> (string \<times> real) list \<Rightarrow> json \<Rightarrow> judge \<Rightarrow> (decision \<times> judge) res" where
  "classify_counterexample state allowed prior ctx j =
     rbind (described COUNTEREXAMPLE_CLASSES allowed) (\<lambda>os.
       ask ''COUNTEREXAMPLE_CLASSIFICATION'' ''ce'' state
         ''The verifier found this counterexample to the claim. What does it most likely mean?'' os (length os) prior ctx j)"

definition select_precondition ::
    "json \<Rightarrow> opt list \<Rightarrow> (string \<times> real) list \<Rightarrow> json \<Rightarrow> judge \<Rightarrow> (decision \<times> judge) res" where
  "select_precondition state candidates prior ctx j =
     ask ''PRECONDITION_SELECTION'' ''precondition'' state
       (''The counterexample uses an input callers are not meant to supply. Which '' @
        ''precondition states the input contract callers are actually expected to respect '' @
        ''(not merely one that excludes the witness)?'') candidates MAX_OPTIONS prior ctx j"

definition classify_model_defect ::
    "json \<Rightarrow> string list \<Rightarrow> (string \<times> real) list \<Rightarrow> json \<Rightarrow> judge \<Rightarrow> (decision \<times> judge) res" where
  "classify_model_defect state allowed prior ctx j =
     rbind (described MODEL_DEFECTS allowed) (\<lambda>os.
       ask ''MODEL_DEFECT_CLASSIFICATION'' ''defect'' state
         (''Verification attributes this result to the formal model, not to the code. '' @
          ''What kind of model defect is it?'') os (length os) prior ctx j)"

definition rank_repairs ::
    "json \<Rightarrow> opt list \<Rightarrow> (string \<times> real) list \<Rightarrow> json \<Rightarrow> judge \<Rightarrow> (decision \<times> judge) res" where
  "rank_repairs state repairs prior ctx j =
     ask ''REPAIR_SELECTION'' ''repair'' state
       (''Which repair of the refuted claim is the minimal, evidence-consistent '' @
        ''interpretation of the intended behavior (not merely one that becomes provable)?'') repairs MAX_OPTIONS prior ctx j"

definition route_backend ::
    "json \<Rightarrow> opt list \<Rightarrow> (string \<times> real) list \<Rightarrow> json \<Rightarrow> judge \<Rightarrow> (decision \<times> judge) res" where
  "route_backend state feasible prior ctx j =
     ask ''BACKEND_SELECTION'' ''route'' state ''Which verification backend should check this claim first?''
       feasible (length feasible) prior ctx j"

definition judge_assumption ::
    "json \<Rightarrow> string \<Rightarrow> (string \<times> real) list \<Rightarrow> json \<Rightarrow> judge \<Rightarrow> (decision \<times> judge) res" where
  "judge_assumption state txt prior ctx j =
     decide_one ''ASSUMPTION_ACCEPTABILITY''
       (jrow ''assumption'' state (''A repair proposes to add this assumption: '' @ txt @ newline @ ''Is it acceptable?'')
          ASSUMPTION_VERDICTS prior ctx) None j"

definition proof_value ::
    "json \<Rightarrow> string list \<Rightarrow> (string \<times> real) list list \<Rightarrow> json list \<Rightarrow> judge \<Rightarrow> (decision list \<times> judge) res" where
  "proof_value state rendered priors contexts j =
     (let rows = map (\<lambda>(i, txt, prior, ctx). jrow (''value-'' @ dec i) state
            (''The verifier established this claim about the function:'' @ newline @ txt @ newline @
             ''Judged against what the function is meant to do, what is this proof worth?'') PROOF_VALUES prior ctx)
         (zip3 rendered priors contexts)
      in if rows = [] then Inr ([], j) else decide_rows ''PROOF_VALUE_JUDGMENT'' rows True None j)"

section \<open>Softmax and argmax\<close>

lemma sum_list_pos: "xs \<noteq> [] \<Longrightarrow> \<forall>x \<in> set xs. 0 < x \<Longrightarrow> 0 < sum_list (xs :: real list)"
  by (induction xs rule: list_nonempty_induct) (auto intro: add_pos_pos)

lemma softmax_distribution:
  assumes "softmax vs t = Inr ps"
  shows "length ps = length vs" and "ps \<noteq> []" and "\<forall>p \<in> set ps. 0 < p" and "sum_list ps = 1"
    and "i < length vs \<Longrightarrow> j < length vs \<Longrightarrow> ps ! i \<le> ps ! j \<longleftrightarrow> vs ! i / t \<le> vs ! j / t"
proof -
  define w where "w = map (\<lambda>v. exp (v / t - Max (set (map (\<lambda>v. v / t) vs)))) vs"
  from assms have vs: "vs \<noteq> []" and ps: "ps = map (\<lambda>x. x / sum_list w) w"
    by (auto simp: softmax_def Let_def w_def split: if_splits)
  have w: "w \<noteq> []" "\<forall>x \<in> set w. 0 < x" "length w = length vs" using vs by (auto simp: w_def)
  then have s: "0 < sum_list w" by (intro sum_list_pos) simp_all
  show "length ps = length vs" using w by (simp add: ps)
  show "ps \<noteq> []" using w by (simp add: ps)
  show "\<forall>p \<in> set ps. 0 < p" using w s by (auto simp: ps)
  have "sum_list (map (\<lambda>x. x / sum_list w) w) = sum_list w / sum_list w"
    using sum_list_mult_const [of "\<lambda>x. x" "1 / sum_list w" w] by simp
  with s show "sum_list ps = 1" by (simp add: ps)
  show "i < length vs \<Longrightarrow> j < length vs \<Longrightarrow> ps ! i \<le> ps ! j \<longleftrightarrow> vs ! i / t \<le> vs ! j / t"
    using s w(3) by (simp add: ps w_def divide_le_cancel)
qed

lemma argmax_from_spec:
  assumes "best < i" and "\<forall>k < i. full ! k \<le> full ! best" and "\<forall>k < best. full ! k < full ! best" and "b = full ! best"
    and "\<forall>k < length ps. full ! (i + k) = ps ! k"
  shows "let r = argmax_from ps i best b in r < i + length ps \<and> (\<forall>k < i + length ps. full ! k \<le> full ! r) \<and>
    (\<forall>k < r. full ! k < full ! r)"
  using assms
proof (induction ps arbitrary: i best b)
  case Nil
  then show ?case by simp
next
  case (Cons p ps)
  have p: "full ! i = p" using Cons.prems(5) [rule_format, of 0] by simp
  have rest: "\<forall>k < length ps. full ! (Suc i + k) = ps ! k"
    using Cons.prems(5) by (metis Suc_less_eq add_Suc_shift length_Cons nth_Cons_Suc)
  show ?case
  proof (cases "b < p")
    case True
    have lt: "full ! k < full ! i" if "k < i" for k
      using Cons.prems(2) [rule_format, OF that] Cons.prems(4) True p by simp
    then have "\<forall>k < Suc i. full ! k \<le> full ! i" by (auto simp: less_Suc_eq dest: order.strict_implies_order)
    from Cons.IH [OF lessI this _ p [symmetric] rest] lt True show ?thesis by (simp add: Let_def)
  next
    case False
    have "\<forall>k < Suc i. full ! k \<le> full ! best" using Cons.prems(2,4) False p by (auto simp: less_Suc_eq)
    from Cons.IH [OF less_SucI [OF Cons.prems(1)] this Cons.prems(3,4) rest] False show ?thesis by (simp add: Let_def)
  qed
qed

lemma argmax_spec:
  assumes "argmax n ps = Inr i"
  shows "i < n" and "n \<le> length ps" and "k < n \<Longrightarrow> ps ! k \<le> ps ! i" and "k < i \<Longrightarrow> ps ! k < ps ! i"
proof -
  from assms have n: "0 < n" "n \<le> length ps" and i: "i = argmax_from (take (n - 1) (drop 1 ps)) 1 0 (hd ps)"
    by (auto simp: argmax_def split: if_splits)
  have hd: "hd ps = ps ! 0" using n by (intro hd_conv_nth) auto
  have "\<forall>k < length (take (n - 1) (drop 1 ps)). ps ! (1 + k) = take (n - 1) (drop 1 ps) ! k"
    using n by auto
  from argmax_from_spec [of 0 1 ps "hd ps", OF _ _ _ hd this] n
  have "i < n \<and> (\<forall>k < n. ps ! k \<le> ps ! i) \<and> (\<forall>k < i. ps ! k < ps ! i)"
    unfolding i Let_def by (simp add: min_absorb1 Suc_pred')
  then show "i < n" and "n \<le> length ps" and "k < n \<Longrightarrow> ps ! k \<le> ps ! i" and "k < i \<Longrightarrow> ps ! k < ps ! i"
    using n by blast+
qed

lemma dict_zip_member: "(k, v) \<in> set (dict_zip ks vs) \<Longrightarrow> (k, v) \<in> set (zip ks vs)"
proof -
  have upd: "set (AList.update k v m) \<subseteq> insert (k, v) (set m)" for k :: string and v :: 'a and m
    by (induction m) auto
  have "set (foldl (\<lambda>m (k, v). AList.update k v m) m xs) \<subseteq> set m \<union> set xs" for xs :: "(string \<times> 'a) list" and m
  proof (induction xs arbitrary: m)
    case (Cons x xs)
    obtain k v where x: "x = (k, v)" by (cases x)
    from Cons [of "AList.update k v m"] upd [of k v m] show ?case unfolding x by auto
  qed simp
  from this [of "[]" "zip ks vs"] show "(k, v) \<in> set (dict_zip ks vs) \<Longrightarrow> (k, v) \<in> set (zip ks vs)"
    by (auto simp: dict_zip_def)
qed

section \<open>The contract of a scorer\<close>

text \<open>A scorer answers each row with the row's option ids and one logit per option.\<close>

definition answer_ok :: "jrow \<Rightarrow> score \<Rightarrow> bool" where
  "answer_ok row s \<longleftrightarrow> sc_ids s = map fst (jr_options row) \<and> length (sc_logits s) = length (sc_ids s)"

locale scorer =
  fixes score :: "jrow list \<Rightarrow> bool \<Rightarrow> score list res"
  assumes answers: "score rows shared = Inr ss \<Longrightarrow> list_all2 answer_ok rows ss"
begin

lemma score_rows_answers: "score_rows score shared rows = Inr ss \<Longrightarrow> list_all2 answer_ok rows ss"
proof (induction "length rows" arbitrary: rows ss rule: less_induct)
  case less
  show ?case
  proof (cases "rows = []")
    case True
    with less.prems show ?thesis by (simp add: score_rows.simps)
  next
    case False
    with less.prems obtain s1 s2 where s: "score (take 32 rows) shared = Inr s1"
      "score_rows score shared (drop 32 rows) = Inr s2" "ss = s1 @ s2"
      by (subst (asm) score_rows.simps) (auto simp: res_simps)
    have "list_all2 answer_ok (drop 32 rows) s2" using less.hyps [OF _ s(2)] False by simp
    from list_all2_appendI [OF answers [OF s(1)] this] show ?thesis by (simp add: s(3))
  qed
qed

lemma scored_chosen:
  assumes "answer_ok row s" and "scored_decision task j row s = Inr d"
  shows "d_chosen d \<in> fst ` set (jr_options row)" and "(k, p) \<in> set (d_probabilities d) \<Longrightarrow> 0 < p \<and> k \<in> fst ` set (jr_options row)"
proof -
  let ?t = "lookup (jg_temperature j) task 1"
  from assms(2) obtain probs i where probs: "softmax (sc_logits s) ?t = Inr probs"
    and i: "argmax (length (sc_ids s)) probs = Inr i"
    and d: "d_chosen d = sc_ids s ! i" "d_probabilities d = dict_zip (sc_ids s) probs"
    by (auto simp: scored_decision_def res_simps Let_def)
  have "sc_ids s ! i \<in> set (sc_ids s)" using argmax_spec(1) [OF i] by simp
  then show "d_chosen d \<in> fst ` set (jr_options row)" using assms(1) by (simp add: answer_ok_def d)
  show "(k, p) \<in> set (d_probabilities d) \<Longrightarrow> 0 < p \<and> k \<in> fst ` set (jr_options row)"
    using softmax_distribution(3) [OF probs] assms(1)
    by (auto simp: d answer_ok_def dest!: dict_zip_member dest: set_zip_leftD set_zip_rightD)
qed

end

section \<open>The decision log\<close>

lemma scored_loop_each:
  assumes "scored_loop task rss j = Inr (ds, j')"
  shows "list_all2 (\<lambda>rs d. \<exists>j0. scored_decision task j0 (fst rs) (snd rs) = Inr d \<and> jg_temperature j0 = jg_temperature j) rss ds"
    and "j' = fold log_decision ds j" and "map d_id ds = map (\<lambda>n. decision_name n task) [Suc (jg_counter j)..<Suc (jg_counter j + length ds)]"
    and "\<forall>d \<in> set ds. d_task d = task"
proof -
  have "list_all2 (\<lambda>rs d. \<exists>j0. scored_decision task j0 (fst rs) (snd rs) = Inr d \<and> jg_temperature j0 = jg_temperature j) rss ds \<and>
    j' = fold log_decision ds j \<and> map d_id ds = map (\<lambda>n. decision_name n task) [Suc (jg_counter j)..<Suc (jg_counter j + length ds)] \<and>
    (\<forall>d \<in> set ds. d_task d = task)"
    using assms
  proof (induction rss arbitrary: j ds)
    case (Cons rs rss)
    from Cons.prems obtain d ds' where d: "scored_decision task j (fst rs) (snd rs) = Inr d" and ds: "ds = d # ds'"
      and rest: "scored_loop task rss (log_decision d j) = Inr (ds', j')"
      by (auto simp: res_simps)
    from d have "d_id d = decision_name (Suc (jg_counter j)) task" "d_task d = task"
      by (auto simp: scored_decision_def res_simps Let_def)
    with Cons.IH [OF rest] d show ?case
      by (auto simp: ds log_decision_def upt_conv_Cons simp del: upt_Suc)
  qed simp
  then show "list_all2 (\<lambda>rs d. \<exists>j0. scored_decision task j0 (fst rs) (snd rs) = Inr d \<and> jg_temperature j0 = jg_temperature j) rss ds"
    and "j' = fold log_decision ds j" and "map d_id ds = map (\<lambda>n. decision_name n task) [Suc (jg_counter j)..<Suc (jg_counter j + length ds)]"
    and "\<forall>d \<in> set ds. d_task d = task" by blast+
qed

lemma forced_loop_each:
  assumes "forced_loop task chosen rows j = (ds, j')"
  shows "length ds = length rows \<and> j' = fold log_decision ds j \<and>
    map d_id ds = map (\<lambda>n. decision_name n task) [Suc (jg_counter j)..<Suc (jg_counter j + length ds)] \<and>
    (\<forall>d \<in> set ds. d_task d = task \<and> d_chosen d = chosen)"
  using assms
proof (induction rows arbitrary: j ds)
  case (Cons row rows)
  let ?d = "forced_decision task chosen j row"
  obtain ds' where ds: "ds = ?d # ds'" and rest: "forced_loop task chosen rows (log_decision ?d j) = (ds', j')"
    using Cons.prems by (auto simp: Let_def split: prod.splits)
  have "d_id ?d = decision_name (Suc (jg_counter j)) task" "d_task ?d = task" "d_chosen ?d = chosen"
    by (simp_all add: forced_decision_def)
  with Cons.IH [OF rest] show ?case by (auto simp: ds log_decision_def upt_conv_Cons simp del: upt_Suc)
qed simp

lemma fold_log:
  "jg_counter (fold log_decision ds j) = jg_counter j + length ds"
  "jg_entries (fold log_decision ds j) = jg_entries j @ ds"
  "jg_score (fold log_decision ds j) = jg_score j"
  "jg_temperature (fold log_decision ds j) = jg_temperature j"
  by (induction ds arbitrary: j) (simp_all add: log_decision_def)

lemma decide_rows_log:
  assumes "decide_rows task rows shared forced j = Inr (ds, j')"
  shows "j' = fold log_decision ds j"
    and "map d_id ds = map (\<lambda>n. decision_name n task) [Suc (jg_counter j)..<Suc (jg_counter j + length ds)]"
    and "\<forall>d \<in> set ds. d_task d = task"
proof -
  have all: "j' = fold log_decision ds j \<and>
    map d_id ds = map (\<lambda>n. decision_name n task) [Suc (jg_counter j)..<Suc (jg_counter j + length ds)] \<and>
    (\<forall>d \<in> set ds. d_task d = task)"
  proof (cases forced)
    case None
    with assms obtain ss where "scored_loop task (zip rows ss) j = Inr (ds, j')" by (auto simp: decide_rows_def res_simps)
    from scored_loop_each(2-4) [OF this] show ?thesis by blast
  next
    case (Some c)
    with assms have "forced_loop task c rows j = (ds, j')" by (simp add: decide_rows_def)
    from forced_loop_each [OF this] show ?thesis by blast
  qed
  then show "j' = fold log_decision ds j"
    and "map d_id ds = map (\<lambda>n. decision_name n task) [Suc (jg_counter j)..<Suc (jg_counter j + length ds)]"
    and "\<forall>d \<in> set ds. d_task d = task" by blast+
qed

text \<open>The judge in a run: it starts empty and answers questions.\<close>

inductive judge_reaches :: "judge \<Rightarrow> bool" where
  start: "judge_reaches (make_judge name score digest temperature)"
| asked: "judge_reaches j \<Longrightarrow> decide_rows task rows shared forced j = Inr (ds, j') \<Longrightarrow> judge_reaches j'"

definition logged :: "judge \<Rightarrow> bool" where
  "logged j \<longleftrightarrow> map d_id (jg_entries j) = map (\<lambda>(n, d). decision_name n (d_task d)) (enumerate 1 (jg_entries j)) \<and>
     jg_counter j = length (jg_entries j)"

lemma decision_name_inject: "decision_name m s = decision_name n t \<Longrightarrow> m = n"
proof -
  have free: "CHR ''_'' \<notin> set (pad 5 k)" for k using underscore_no_digit by (simp add: pad_def)
  assume "decision_name m s = decision_name n t"
  then have "pad 5 m @ CHR ''_'' # s = pad 5 n @ CHR ''_'' # t" by (simp add: decision_name_def)
  with split_at_first [OF free free] show "m = n" by simp
qed

lemma enumerate_ids: "\<forall>d \<in> set ds. d_task d = task \<Longrightarrow>
   map (\<lambda>n. decision_name n task) [k..<k + length ds] = map (\<lambda>(n, d). decision_name n (d_task d)) (enumerate k ds)"
proof (induction ds arbitrary: k)
  case (Cons d ds)
  from Cons.IH [of "Suc k"] Cons.prems show ?case by (simp add: upt_conv_Cons del: upt_Suc)
qed simp

lemma reached_logged: "judge_reaches j \<Longrightarrow> logged j"
proof (induction rule: judge_reaches.induct)
  case (start name score digest temperature)
  show ?case by (simp add: logged_def make_judge_def)
next
  case (asked j task rows shared forced ds j')
  note L = decide_rows_log [OF asked.hyps(2)]
  have "map d_id ds = map (\<lambda>(n, d). decision_name n (d_task d)) (enumerate (Suc (jg_counter j)) ds)"
    using L(2) enumerate_ids [OF L(3), of "Suc (jg_counter j)"] by simp
  then show ?case using asked.IH by (simp add: logged_def L(1) fold_log enumerate_append_eq add.commute)
qed

section \<open>Selection\<close>

lemma update_entries:
  fixes m :: "(string \<times> 'a) list"
  shows "fst ` set (foldl (\<lambda>m (k, v). AList.update k v m) m xs) = fst ` set m \<union> fst ` set xs"
    and "set (foldl (\<lambda>m (k, v). AList.update k v m) m xs) \<subseteq> set m \<union> set xs"
proof -
  have upd: "set (AList.update k v m) \<subseteq> insert (k, v) (set m)" for k :: string and v :: 'a and m
    by (induction m) auto
  show "set (foldl (\<lambda>m (k, v). AList.update k v m) m xs) \<subseteq> set m \<union> set xs"
  proof (induction xs arbitrary: m)
    case (Cons x xs)
    obtain k v where x: "x = (k, v)" by (cases x)
    from Cons [of "AList.update k v m"] upd [of k v m] show ?case unfolding x by auto
  qed simp
  show "fst ` set (foldl (\<lambda>m (k, v). AList.update k v m) m xs) = fst ` set m \<union> fst ` set xs"
  proof (induction xs arbitrary: m)
    case (Cons x xs)
    obtain k v where x: "x = (k, v)" by (cases x)
    from Cons [of "AList.update k v m"] show ?case unfolding x by (simp add: AList.dom_update)
  qed simp
qed

lemma dict_zip_keys: "length vs = length ks \<Longrightarrow> fst ` set (dict_zip ks vs) = set ks"
  unfolding dict_zip_def update_entries(1) by (simp flip: set_map add: map_fst_zip)

context scorer
begin

lemma scored_keys:
  assumes "answer_ok row s" and "scored_decision task j row s = Inr d"
  shows "fst ` set (d_probabilities d) = fst ` set (jr_options row)"
proof -
  let ?t = "lookup (jg_temperature j) task 1"
  from assms(2) obtain probs where probs: "softmax (sc_logits s) ?t = Inr probs"
    and d: "d_probabilities d = dict_zip (sc_ids s) probs"
    by (auto simp: scored_decision_def res_simps Let_def)
  show ?thesis unfolding d
    using dict_zip_keys [of probs "sc_ids s"] softmax_distribution(1) [OF probs] assms(1) by (simp add: answer_ok_def)
qed

lemma decide_single:
  assumes "decide_rows task [row] shared None j = Inr (ds, j')" and "jg_score j = score"
  shows "\<exists>d. ds = [d] \<and> d_chosen d \<in> fst ` set (jr_options row) \<and> fst ` set (d_probabilities d) = fst ` set (jr_options row) \<and>
     (\<forall>(k, p) \<in> set (d_probabilities d). 0 < p)"
proof -
  from assms obtain ss where ss: "score_rows score shared [row] = Inr ss" and l: "scored_loop task (zip [row] ss) j = Inr (ds, j')"
    by (auto simp: decide_rows_def res_simps)
  from score_rows_answers [OF ss] obtain s where s: "ss = [s]" "answer_ok row s" by (auto simp: list_all2_Cons1)
  from scored_loop_each(1) [OF l] s obtain d j0 where d: "ds = [d]" "scored_decision task j0 row s = Inr d"
    by (auto simp: list_all2_Cons1)
  from scored_chosen [OF s(2) d(2)] scored_keys [OF s(2) d(2)] d(1) show ?thesis by auto
qed

lemma select_loop_probs:
  assumes "select_loop start state cs priors ctx j = Inr (ps, j')" and "jg_score j = score"
  shows "fst ` set (concat ps) = fst ` set cs \<and> (\<forall>(k, p) \<in> set (concat ps). 0 < p)"
  using assms
proof (induction "length cs" arbitrary: start cs j ps rule: less_induct)
  case less
  show ?case
  proof (cases "cs = []")
    case True
    with less.prems show ?thesis by (simp add: select_loop.simps)
  next
    case False
    let ?chunk = "take MAX_OPTIONS cs"
    have ne: "?chunk \<noteq> []" using False by (simp add: MAX_OPTIONS_def)
    from less.prems(1) False obtain probs j1 rest where
      one: "(if length ?chunk < 2 then Inr ([(fst (hd ?chunk), 1)], j)
             else rbind (decide_rows ''PROPERTY_SELECTION'' [select_row start state ?chunk priors ctx] False None j) (\<lambda>(ds, j').
                    Inr (concat (map d_probabilities ds), j'))) = Inr (probs, j1)"
      and more: "select_loop (start + MAX_OPTIONS) state (drop MAX_OPTIONS cs) priors ctx j1 = Inr (rest, j')"
      and ps: "ps = probs # rest"
      by (subst (asm) select_loop.simps) (auto simp: res_simps Let_def)
    have P: "fst ` set probs = fst ` set ?chunk \<and> (\<forall>(k, p) \<in> set probs. 0 < p) \<and> jg_score j1 = score"
    proof (cases "length ?chunk < 2")
      case True
      with ne obtain c where "?chunk = [c]" by (cases ?chunk) (auto simp: Suc_lessI)
      with one True less.prems(2) show ?thesis by auto
    next
      case False
      with one obtain ds where ds: "decide_rows ''PROPERTY_SELECTION'' [select_row start state ?chunk priors ctx] False None j = Inr (ds, j1)"
        and probs: "probs = concat (map d_probabilities ds)" by (auto simp: res_simps)
      from decide_single [OF ds less.prems(2)] obtain d where d: "ds = [d]"
        "fst ` set (d_probabilities d) = fst ` set ?chunk" "\<forall>(k, p) \<in> set (d_probabilities d). 0 < p"
        by (simp only: select_row_def jrow_def jrow.simps) blast
      from decide_rows_log(1) [OF ds] have "jg_score j1 = score" using less.prems(2) by (simp only: fold_log)
      with d probs show ?thesis by simp
    qed
    have "length (drop MAX_OPTIONS cs) < length cs" using False by (simp add: MAX_OPTIONS_def)
    from less.hyps [OF this more] P have R: "fst ` set (concat rest) = fst ` set (drop MAX_OPTIONS cs) \<and>
      (\<forall>(k, p) \<in> set (concat rest). 0 < p)" by blast
    have "fst ` set cs = fst ` set ?chunk \<union> fst ` set (drop MAX_OPTIONS cs)"
      by (metis append_take_drop_id image_Un set_append)
    moreover have "set (concat ps) = set probs \<union> set (concat rest)" by (simp add: ps)
    ultimately show ?thesis using P R by (simp only: image_Un ball_Un) blast
  qed
qed

lemma selection:
  assumes "select_candidates state cs priors ctx j = Inr (m, j')" and "jg_score j = score" and "cs \<noteq> []"
  shows "fst ` set m = fst ` set cs \<and> (\<forall>(k, p) \<in> set m. 0 < p) \<and> sum_list (map snd m) = 1"
proof -
  from assms(1) obtain ps where ps: "select_loop 0 state cs priors ctx j = Inr (ps, j')" and m: "m = normalized (merge_all ps)"
    by (auto simp: select_candidates_def res_simps)
  let ?g = "merge_all ps"
  note L = select_loop_probs [OF ps assms(2)]
  have keys: "fst ` set ?g = fst ` set cs" using L update_entries(1) [of "[]" "concat ps"] by (simp add: merge_all_def)
  have sub: "set ?g \<subseteq> set (concat ps)"
    using update_entries(2) [of "[]" "concat ps"] by (simp only: merge_all_def list.set(1) Un_empty_left)
  have pos: "\<forall>(k, p) \<in> set ?g. 0 < p" using conjunct2 [OF L] sub by blast
  have "?g \<noteq> []" using keys assms(3) by auto
  with pos have s: "0 < sum_list (map snd ?g)" by (intro sum_list_pos) auto
  have "sum_list (map (\<lambda>x. snd x / sum_list (map snd ?g)) ?g) = sum_list (map snd ?g) / sum_list (map snd ?g)"
    using sum_list_mult_const [of snd "1 / sum_list (map snd ?g)" ?g] by simp
  with s have "sum_list (map snd m) = 1" by (simp add: m normalized_def Let_def comp_def case_prod_beta')
  moreover have "fst ` set m = fst ` set cs" using keys by (simp add: m normalized_def Let_def image_image case_prod_beta')
  moreover have "\<forall>(k, p) \<in> set m. 0 < p" using pos s by (auto simp: m normalized_def Let_def)
  ultimately show ?thesis by blast
qed

end

lemma heuristic_one_ok: "heuristic_one row = Inr s \<Longrightarrow> answer_ok row s"
  by (auto simp: heuristic_one_def answer_ok_def res_simps Let_def)

interpretation heuristic: scorer heuristic_score
proof
  fix rows shared ss
  assume "heuristic_score rows shared = Inr ss"
  then have "list_all2 (\<lambda>x y. heuristic_one x = Inr y) rows ss" by (simp add: heuristic_score_def mapM_eq_Inr)
  then show "list_all2 answer_ok rows ss" by (rule list_all2_mono) (rule heuristic_one_ok)
qed

text \<open>A replay table whose entries have one logit per option is a scorer too.\<close>

lemma replay_scorer:
  assumes "\<forall>(k, ids, logits) \<in> set table. length logits = length ids"
  shows "scorer (replay_score digest table)"
proof
  fix rows shared ss
  assume "replay_score digest table rows shared = Inr ss"
  then have "list_all2 (\<lambda>x y. replay_one digest table x = Inr y) rows ss" by (simp add: replay_score_def mapM_eq_Inr)
  then show "list_all2 answer_ok rows ss"
  proof (rule list_all2_mono)
    fix row s
    assume s: "replay_one digest table row = Inr s"
    show "answer_ok row s"
    proof (cases "map_of table (row_key digest row)")
      case None
      with s obtain s0 where "heuristic_one row = Inr s0" "s = s0\<lparr>sc_miss := True\<rparr>" by (auto simp: replay_one_def res_simps)
      with heuristic_one_ok show ?thesis by (auto simp: answer_ok_def)
    next
      case (Some e)
      obtain ids logits where e: "e = (ids, logits)" by (cases e)
      have len: "length logits = length ids" using assms map_of_SomeD [OF Some [unfolded e]] by auto
      show ?thesis
      proof (cases "ids = map fst (jr_options row)")
        case True
        with s Some e len show ?thesis by (auto simp: replay_one_def res_simps answer_ok_def)
      next
        case False
        with s Some e obtain s0 where "heuristic_one row = Inr s0" "s = s0\<lparr>sc_miss := True\<rparr>"
          by (auto simp: replay_one_def res_simps)
        with heuristic_one_ok show ?thesis by (auto simp: answer_ok_def)
      qed
    qed
  qed
qed

section \<open>The heuristic scorer decides by its priors\<close>

lemma heuristic_rows:
  "score_rows heuristic_score shared rows = Inr ss \<Longrightarrow> list_all2 (\<lambda>row s. heuristic_one row = Inr s) rows ss"
proof (induction "length rows" arbitrary: rows ss rule: less_induct)
  case less
  show ?case
  proof (cases "rows = []")
    case True
    with less.prems show ?thesis by (simp add: score_rows.simps)
  next
    case False
    with less.prems obtain s1 s2 where s: "heuristic_score (take 32 rows) shared = Inr s1"
      "score_rows heuristic_score shared (drop 32 rows) = Inr s2" "ss = s1 @ s2"
      by (subst (asm) score_rows.simps) (auto simp: res_simps)
    have "list_all2 (\<lambda>row s. heuristic_one row = Inr s) (drop 32 rows) s2" using less.hyps [OF _ s(2)] False by simp
    moreover have "list_all2 (\<lambda>row s. heuristic_one row = Inr s) (take 32 rows) s1"
      using s(1) by (simp add: heuristic_score_def mapM_eq_Inr)
    ultimately have "list_all2 (\<lambda>row s. heuristic_one row = Inr s) (take 32 rows @ drop 32 rows) (s1 @ s2)"
      by (intro list_all2_appendI)
    then show ?thesis by (simp add: s(3))
  qed
qed

lemma weight_pos: "0 < weight row o1"
  by (simp add: weight_def max_def)

lemma prior_decides:
  assumes "heuristic_one row = Inr s" and "scored_decision task j row s = Inr d" and "0 < lookup (jg_temperature j) task 1"
  shows "\<exists>i < length (jr_options row). d_chosen d = fst (jr_options row ! i) \<and>
     (\<forall>k < length (jr_options row). weight row (jr_options row ! k) \<le> weight row (jr_options row ! i)) \<and>
     (\<forall>k < i. weight row (jr_options row ! k) < weight row (jr_options row ! i))"
proof -
  let ?os = "jr_options row" and ?t = "lookup (jg_temperature j) task 1"
  let ?logits = "map (\<lambda>o1. ln (weight row o1)) ?os"
  from assms(1) have s: "sc_ids s = map fst ?os" "sc_logits s = ?logits"
    by (auto simp: heuristic_one_def res_simps Let_def)
  from assms(2) obtain probs i where probs: "softmax ?logits ?t = Inr probs"
    and i: "argmax (length ?os) probs = Inr i" and d: "d_chosen d = map fst ?os ! i"
    by (auto simp: scored_decision_def res_simps Let_def s)
  note A = argmax_spec [OF i] and S = softmax_distribution(5) [OF probs]
  have le: "probs ! k \<le> probs ! l \<longleftrightarrow> weight row (?os ! k) \<le> weight row (?os ! l)"
    if "k < length ?os" "l < length ?os" for k l
    using S [of k l] that assms(3) weight_pos by (simp add: divide_le_cancel)
  have "\<forall>k < length ?os. weight row (?os ! k) \<le> weight row (?os ! i)" using A(1,3) le by blast
  moreover have "weight row (?os ! k) < weight row (?os ! i)" if "k < i" for k
    using A(1) A(4) [OF that] le [of i k] that by (simp add: not_le [symmetric])
  moreover have "d_chosen d = fst (?os ! i)" using A(1) d by simp
  ultimately show ?thesis using A(1) by blast
qed

section \<open>Properties\<close>

text \<open>
  In every run of a judge, whatever the scorer, each decision gets its own identifier: the
  log holds exactly as many entries as decisions were made and no two entries share an id.
\<close>

theorem decision_ids_unique:
  assumes "judge_reaches j"
  shows "distinct (map d_id (jg_entries j)) \<and> length (jg_entries j) = jg_counter j"
proof -
  have L: "logged j" using assms by (rule reached_logged)
  have "distinct (map d_id (jg_entries j))"
    unfolding distinct_conv_nth
  proof (intro allI impI)
    fix a b
    assume ab: "a < length (map d_id (jg_entries j))" "b < length (map d_id (jg_entries j))" "a \<noteq> b"
    have at: "map d_id (jg_entries j) ! k = decision_name (1 + k) (d_task (jg_entries j ! k))" if "k < length (jg_entries j)" for k
    proof -
      have "map d_id (jg_entries j) ! k = map (\<lambda>(n, d). decision_name n (d_task d)) (enumerate 1 (jg_entries j)) ! k"
        using L by (simp only: logged_def)
      also have "\<dots> = decision_name (1 + k) (d_task (jg_entries j ! k))" using that by (simp add: nth_enumerate_eq)
      finally show ?thesis .
    qed
    show "map d_id (jg_entries j) ! a \<noteq> map d_id (jg_entries j) ! b"
    proof
      assume "map d_id (jg_entries j) ! a = map d_id (jg_entries j) ! b"
      then have "decision_name (1 + a) (d_task (jg_entries j ! a)) = decision_name (1 + b) (d_task (jg_entries j ! b))"
        using at ab by (simp only: length_map)
      then have "1 + a = 1 + b" by (rule decision_name_inject)
      with ab(3) show False by simp
    qed
  qed
  with L show ?thesis by (simp add: logged_def)
qed

definition demo_judge :: judge where
  "demo_judge = make_judge ''heuristic'' heuristic_score (\<lambda>s. ''k'') []"

lemma decision_ids_unique_witness:
  "\<exists>d j. decide_rows ''T'' [jrow ''r'' JNull [] [(''a'', ''b'')] [] JNull] False (Some ''a'') demo_judge = Inr ([d], j) \<and>
     distinct (map d_id (jg_entries j)) \<and> jg_counter j = 1"
proof -
  let ?row = "jrow ''r'' JNull [] [(''a'', ''b'')] [] JNull"
  let ?d = "forced_decision ''T'' ''a'' demo_judge ?row"
  have step: "decide_rows ''T'' [?row] False (Some ''a'') demo_judge = Inr ([?d], log_decision ?d demo_judge)"
    by (simp add: decide_rows_def Let_def)
  have "judge_reaches (log_decision ?d demo_judge)"
    using judge_reaches.asked [OF _ step] judge_reaches.start unfolding demo_judge_def by blast
  from decision_ids_unique [OF this] have "distinct (map d_id (jg_entries (log_decision ?d demo_judge)))" by blast
  moreover have "jg_counter (log_decision ?d demo_judge) = 1"
    by (simp add: log_decision_def demo_judge_def make_judge_def)
  ultimately show ?thesis using step by blast
qed


definition two_options :: "opt list" where
  "two_options = [(''a'', ''first''), (''b'', ''second'')]"

definition two_row :: jrow where
  "two_row = jrow ''r'' JNull ''which'' two_options [(''a'', 1 / 5), (''b'', 1 / 2)] JNull"

lemma two_options_scored:
  assumes "map fst (jr_options row) = [''a'', ''b'']"
  shows "\<exists>d j'. decide_rows task [row] shared None demo_judge = Inr ([d], j')"
proof -
  obtain x y where os: "jr_options row = [x, y]" "fst x = ''a''" "fst y = ''b''" using assms by auto
  have one: "\<exists>s. heuristic_one row = Inr s \<and> sc_ids s = [''a'', ''b''] \<and> length (sc_logits s) = 2"
    by (simp add: heuristic_one_def softmax_def Let_def os)
  then obtain s where s: "heuristic_one row = Inr s" "sc_ids s = [''a'', ''b'']" "length (sc_logits s) = 2" by blast
  obtain u v where uv: "sc_logits s = [u, v]" using s(3) by (auto simp: numeral_2_eq_2 length_Suc_conv)
  have sr: "score_rows heuristic_score shared [row] = Inr [s]"
    by (subst score_rows.simps) (simp add: heuristic_score_def s score_rows.simps)
  have "\<exists>d. scored_decision task demo_judge row s = Inr d"
    by (simp add: scored_decision_def softmax_def argmax_def uv s(2) Let_def demo_judge_def make_judge_def lookup_def)
  then obtain d where "scored_decision task demo_judge row s = Inr d" by blast
  then show ?thesis using sr by (simp add: decide_rows_def demo_judge_def make_judge_def)
qed


text \<open>
  Listwise selection gives a probability distribution over all candidates, however many there
  are and in however many chunks they were scored: exactly the candidates' ids have a value, the
  values are positive and they add up to one. This needs only the contract of a scorer.
\<close>

theorem selection_distribution:
  assumes "scorer (jg_score j)" and "select_candidates state cs priors ctx j = Inr (m, j')" and "cs \<noteq> []"
  shows "fst ` set m = fst ` set cs \<and> (\<forall>(k, p) \<in> set m. 0 < p) \<and> sum_list (map snd m) = 1"
  using scorer.selection [OF assms(1) assms(2) refl assms(3)] .

lemma selection_distribution_witness:
  "\<exists>m j'. select_candidates JNull two_options [] JNull demo_judge = Inr (m, j') \<and>
     fst ` set m = {''a'', ''b''} \<and> sum_list (map snd m) = 1"
proof -
  let ?row = "select_row 0 JNull two_options [] JNull"
  have ids: "map fst (jr_options ?row) = [''a'', ''b'']" by (simp add: select_row_def jrow_def two_options_def)
  from two_options_scored [OF ids] obtain d j' where
    step: "decide_rows ''PROPERTY_SELECTION'' [?row] False None demo_judge = Inr ([d], j')" by blast
  have chunks: "take MAX_OPTIONS two_options = two_options" "drop MAX_OPTIONS two_options = []"
    by (simp_all add: MAX_OPTIONS_def two_options_def)
  have len: "\<not> length two_options < 2" "two_options \<noteq> []" by (simp_all add: two_options_def)
  have "select_loop 0 JNull two_options [] JNull demo_judge = Inr ([d_probabilities d], j')"
    by (subst select_loop.simps) (simp add: chunks len step Let_def select_loop.simps)
  then have sel: "select_candidates JNull two_options [] JNull demo_judge = Inr (normalized (merge_all [d_probabilities d]), j')"
    by (simp add: select_candidates_def)
  have "scorer (jg_score demo_judge)"
    using heuristic.scorer_axioms by (simp add: demo_judge_def make_judge_def)
  from selection_distribution [OF this sel len(2)] sel show ?thesis by (auto simp: two_options_def)
qed

end
