(* ===== verification/Cegis.thy ===== *)
theory Cegis
  imports ClaimText JudgeModel
begin

text \<open>
  Counterexample-guided refinement, \<open>src/src/autoform/harness/cegis.py\<close>: the sort of a model
  outcome, the classes a counterexample may have and the defects a model may have, their priors,
  and the bounded repairs of a refuted claim with their priors. A judge's probabilities for a claim
  are passed as a list; a native comparison is \<open>None\<close> or a truth value.
\<close>

section \<open>Reading a result\<close>

definition DELTA :: int where
  "DELTA = 12"

definition MAX_REFINEMENTS :: nat where
  "MAX_REFINEMENTS = 5"

definition value_sort :: "json \<Rightarrow> string option" where
  "value_sort outcome =
     (case outcome of
        JStr t \<Rightarrow>
          map_option fst (find (\<lambda>(srt, key). substr ''EResult.val'' t \<and> substr key t)
            [(''int'', ''Val.int''), (''bool'', ''Val.bool''), (''str'', ''Val.str''), (''float'', ''Val.float'')])
      | _ \<Rightarrow> None)"

text \<open>\<open>result.get('witness') or {}\<close>.\<close>

definition witness_of :: "dict \<Rightarrow> dict" where
  "witness_of result = (case dget result ''witness'' JNull of JObj w \<Rightarrow> w | _ \<Rightarrow> [])"

definition outcome_field :: "dict \<Rightarrow> string \<Rightarrow> json" where
  "outcome_field result k = dget (witness_of result) k JNull"

text \<open>\<open>outcome.replace('Autoform.Core.', '')\<close>, and the text after the first quote up to the next.\<close>

function strip_core :: "string \<Rightarrow> string" where
  "strip_core s =
     (if startswith s ''Autoform.Core.'' then strip_core (drop (length ''Autoform.Core.'') s)
      else case s of [] \<Rightarrow> [] | c # t \<Rightarrow> c # strip_core t)"
  by pat_completeness auto
termination
  by (relation "measure length") (auto simp: startswith_def prefix_def)

declare strip_core.simps [simp del]

definition between_quotes :: "string \<Rightarrow> string" where
  "between_quotes t = takeWhile (\<lambda>c. c \<noteq> CHR 0x22) (drop 1 (dropWhile (\<lambda>c. c \<noteq> CHR 0x22) t))"

definition outcome_phrase :: "json \<Rightarrow> string \<Rightarrow> string" where
  "outcome_phrase kind outcome =
     (if kind = JStr ''value'' then ''returned '' @ strip_core outcome
      else if kind = JStr ''exception'' then ''raised an exception''
      else if kind = JStr ''undefined_behavior'' then
        (if CHR 0x22 \<in> set outcome then ''reached undefined behavior ('' @ between_quotes outcome @ '')''
         else ''reached undefined behavior'')
      else if kind = JStr ''hole'' then ''reached an unmodeled construct''
      else if kind = JStr ''out_of_fuel'' then ''did not finish within the evaluation budget''
      else outcome)"

definition after_colon :: "string \<Rightarrow> string" where
  "after_colon t = (case after_first '': '' t of Some r \<Rightarrow> r | None \<Rightarrow> t)"

definition explain :: "dict \<Rightarrow> dict \<Rightarrow> program \<Rightarrow> string res" where
  "explain claim witness P =
     (let outcome = (case py_or (dget witness ''model_outcome'' JNull) (JStr ''unknown'') of JStr t \<Rightarrow> t | _ \<Rightarrow> []) in
      rbind (render_claim claim P) (\<lambda>shown.
        Inr (''The claim requires '' @ after_colon shown @ ''; with inputs '' @ py_str (dget witness ''inputs'' JNull) @
          '' the function '' @ outcome_phrase (dget witness ''outcome_kind'' JNull) outcome @ ''.'')))"

section \<open>What the facts allow\<close>

definition allowed_classes :: "dict \<Rightarrow> func \<Rightarrow> json \<Rightarrow> dict \<Rightarrow> string list" where
  "allowed_classes result fn native_match claim =
     (let kind = outcome_field result ''outcome_kind''; got = value_sort (outcome_field result ''model_outcome'');
          wanted = dget claim ''result_sort'' JNull
      in if claim \<noteq> [] \<and> kind = JStr ''value'' \<and> truthy wanted \<and> got \<noteq> None \<and> map_option JStr got \<noteq> Some wanted
         then [''BAD_SPEC'']
         else if kind = JStr ''undefined_behavior'' then [''REAL_BUG'', ''MISSING_PRECONDITION'']
         else if kind \<in> {JStr ''hole'', JStr ''out_of_fuel''} then [''INCOMPLETE_MODEL'']
         else if native_match = JBool False then [''INCOMPLETE_MODEL'']
         else [''REAL_BUG'', ''BAD_SPEC'', ''MISSING_PRECONDITION''] @
           (if list_ex (\<lambda>c. cs_resolved c = None) (f_calls fn) then [''ENVIRONMENT_MISMATCH''] else []) @
           (if truthy (dget result ''domain_size'' (JInt 0)) \<and> native_match = JNull then [''ABSTRACTION_ARTIFACT''] else []))"

definition prior_add :: "string \<Rightarrow> real \<Rightarrow> (string \<times> real) list \<Rightarrow> (string \<times> real) list" where
  "prior_add k x ps = map (\<lambda>(j, p). (j, if j = k then p + x else p)) ps"

definition prior_set :: "string \<Rightarrow> real \<Rightarrow> (string \<times> real) list \<Rightarrow> (string \<times> real) list" where
  "prior_set k x ps = map (\<lambda>(j, p). (j, if j = k then x else p)) ps"

definition flat_prior :: "opt list \<Rightarrow> (string \<times> real) list" where
  "flat_prior os = map (\<lambda>o1. (fst o1, 1 / 10)) os"

definition apply_if :: "bool \<Rightarrow> ('a \<Rightarrow> 'a) \<Rightarrow> 'a \<Rightarrow> 'a" where
  "apply_if b f x = (if b then f x else x)"

text \<open>The context fields a prior looks at: security relevance and the evidence.\<close>

definition has_guard :: "dict list \<Rightarrow> bool res" where
  "has_guard evs = anyM (\<lambda>e. rbind (ditem e ''type'') (\<lambda>t. Inr (t = JStr ''guard''))) evs"

definition from_template :: "dict \<Rightarrow> bool res" where
  "from_template claim = rbind (ditem claim ''provenance'') (\<lambda>v. rbind (jget v ''generator'') (\<lambda>g. Inr (g = JStr ''template'')))"

definition classification_prior ::
    "dict \<Rightarrow> (string \<times> real) list \<Rightarrow> dict \<Rightarrow> bool \<Rightarrow> dict list \<Rightarrow> json \<Rightarrow> (string \<times> real) list res" where
  "classification_prior claim judged result security evs native_match =
     (let intended = probability judged ''USEFUL_PROPERTY'' + probability judged ''SECURITY_RELEVANT'';
          doubted = probability judged ''TOO_STRONG'' + probability judged ''UNSUPPORTED_BY_EVIDENCE'';
          p0 = prior_add ''BAD_SPEC'' (1 / 2 * doubted) (prior_add ''REAL_BUG'' (1 / 2 * intended)
                 (flat_prior COUNTEREXAMPLE_CLASSES))
      in rbind (ditem claim ''category'') (\<lambda>cat.
         rbind (from_template claim) (\<lambda>tmpl.
         rbind (has_guard evs) (\<lambda>guarded.
         rbind (independent_sources claim) (\<lambda>sources.
           Inr (apply_if (native_match = JBool True) (prior_set ''ABSTRACTION_ARTIFACT'' (2 / 100) \<circ> prior_add ''REAL_BUG'' (1 / 10))
               (apply_if (outcome_field result ''outcome_kind'' = JStr ''undefined_behavior'') (prior_add ''MISSING_PRECONDITION'' (3 / 10))
               (apply_if (2 \<le> sources) (prior_add ''REAL_BUG'' (2 / 10))
               (apply_if guarded (prior_add ''MISSING_PRECONDITION'' (2 / 10))
               (apply_if (tmpl \<and> \<not> security) (prior_add ''BAD_SPEC'' (4 / 10))
               (apply_if (cat = JStr ''security'' \<and> security) (prior_add ''REAL_BUG'' (1 / 10)) p0)))))))))))"

text \<open>\<open>EResult\\.hole\\s+"((?:[^"\\\\]|\\\\.)*)"\<close>.\<close>

fun hole_body :: "string \<Rightarrow> (string \<times> string) option" where
  "hole_body [] = None"
| "hole_body (c # s) =
     (if c = CHR 0x22 then Some ([], s)
      else if c = CHR 0x5C then
        (case s of
           [] \<Rightarrow> None
         | d # t \<Rightarrow> if d = CHR 0x0A then None else map_option (\<lambda>(b, r). (c # d # b, r)) (hole_body t))
      else map_option (\<lambda>(b, r). (c # b, r)) (hole_body s))"

definition match_hole :: "string \<Rightarrow> (string \<times> string) option" where
  "match_hole s =
     (if \<not> startswith s ''EResult.hole'' then None
      else let t = drop (length ''EResult.hole'') s; r = dropWhile is_space t
        in if t \<noteq> [] \<and> is_space (hd t) \<and> startswith r [CHR 0x22] then hole_body (drop 1 r) else None)"

definition hole_label :: "json \<Rightarrow> string option" where
  "hole_label outcome =
     (let t = (case outcome of JStr s \<Rightarrow> s | _ \<Rightarrow> []) in
      if \<not> substr ''EResult.hole'' t then None
      else Some (case first_match match_hole t of Some l \<Rightarrow> l | None \<Rightarrow> []))"

definition allowed_defects :: "json \<Rightarrow> dict \<Rightarrow> func \<Rightarrow> json \<Rightarrow> string list \<Rightarrow> string list" where
  "allowed_defects status result fn native_match unsupported =
     (let kind = outcome_field result ''outcome_kind'' in
      if status = JStr ''INCONSISTENT_MODEL'' then [''EVALUATOR_KERNEL_DISAGREEMENT'']
      else if kind = JStr ''out_of_fuel'' then [''FUEL_BOUND'']
      else if kind = JStr ''hole'' then
        let label = (case hole_label (outcome_field result ''model_outcome'') of Some l \<Rightarrow> l | None \<Rightarrow> []) in
        if startswith label ''call:'' \<and> drop 5 label \<in> set unsupported then [''EXTERNAL_UNMODELED'', ''FRONTEND_MISTRANSLATION'']
        else [''UNMODELED_CONSTRUCT'', ''FRONTEND_MISTRANSLATION'']
      else if native_match = JBool False then
        [''SEMANTICS_MISMATCH'', ''FRONTEND_MISTRANSLATION''] @ (if unsupported \<noteq> [] then [''EXTERNAL_UNMODELED''] else [])
      else if witness_of result = [] \<and> f_holes fn \<noteq> [] then [''UNMODELED_CONSTRUCT'', ''FRONTEND_MISTRANSLATION'']
      else (if f_holes fn \<noteq> [] then [''UNMODELED_CONSTRUCT''] else []) @
           (if unsupported \<noteq> [] then [''EXTERNAL_UNMODELED''] else []) @
           (if native_match \<noteq> JBool True then [''SEMANTICS_MISMATCH''] else []) @ [''FRONTEND_MISTRANSLATION''])"

definition defect_prior :: "string list \<Rightarrow> dict \<Rightarrow> json \<Rightarrow> string list \<Rightarrow> (string \<times> real) list" where
  "defect_prior allowed result native_match unsupported =
     (let hole = (outcome_field result ''outcome_kind'' = JStr ''hole'') in
      filter (\<lambda>kp. fst kp \<in> set allowed)
        (apply_if hole (prior_add ''EXTERNAL_UNMODELED'' (2 / 10) \<circ> prior_add ''UNMODELED_CONSTRUCT'' (4 / 10))
        (apply_if (unsupported \<noteq> []) (prior_add ''EXTERNAL_UNMODELED'' (4 / 10))
        (apply_if (native_match = JBool False) (prior_add ''SEMANTICS_MISMATCH'' (4 / 10)) (flat_prior MODEL_DEFECTS)))))"

section \<open>Repairs\<close>

definition GUARD_OPS :: "(string \<times> string) list" where
  "GUARD_OPS = [(''=='', ''EQ''), (''!='', ''NEQ''), (''<'', ''LT''), (''<='', ''LTE''), (''>'', ''GT''), (''>='', ''GTE'')]"

definition formula :: "string \<Rightarrow> json list \<Rightarrow> json" where
  "formula op args = JObj [(''op'', JStr op), (''args'', JList args)]"

definition param_term :: "string \<Rightarrow> json" where
  "param_term i = JObj [(''param'', JStr i)]"

definition lit_term :: "json \<Rightarrow> json" where
  "lit_term v = JObj [(''lit'', v)]"

text \<open>\<open>{p.name: p}\<close>: a later parameter of the same name wins.\<close>

definition params_by_name :: "func \<Rightarrow> (string \<times> param) list" where
  "params_by_name fn = foldl (\<lambda>m p. AList.update (p_name p) p m) [] (f_params fn)"

text \<open>One side of a comparison: a parameter, a literal, or nothing usable (\<open>None\<close>).\<close>

definition guard_side :: "(string \<times> param) list \<Rightarrow> json \<Rightarrow> json option res" where
  "guard_side names v =
     (case v of
        JObj d \<Rightarrow>
          let lit = (if dget d ''k'' JNull \<in> {JStr ''int'', JStr ''str'', JStr ''bool''} \<and> dhas d ''v''
                     then Some (lit_term (dget d ''v'' JNull)) else None)
          in if dget d ''k'' JNull = JStr ''name'' then
               rbind (in_strs (dget d ''v'' JNull) (map fst names)) (\<lambda>hit.
                 Inr (if hit then (case dget d ''v'' JNull of
                          JStr s \<Rightarrow> map_option (\<lambda>p. param_term (p_id p)) (map_of names s) | _ \<Rightarrow> None)
                      else lit))
             else Inr lit
      | _ \<Rightarrow> Inr None)"

definition is_param_term :: "json \<Rightarrow> bool" where
  "is_param_term t = (case t of JObj d \<Rightarrow> dhas d ''param'' | _ \<Rightarrow> False)"

definition guard_atom :: "(string \<times> param) list \<Rightarrow> branch \<Rightarrow> json list res" where
  "guard_atom names br =
     (case br_condition br of
        JObj d \<Rightarrow>
          if dget d ''k'' JNull \<noteq> JStr ''binop'' then Inr []
          else rbind (in_strs (dget d ''op'' JNull) (map fst GUARD_OPS)) (\<lambda>known.
            if \<not> known then Inr []
            else rbind (guard_side names (dget d ''a'' JNull)) (\<lambda>a.
              case a of
                None \<Rightarrow> Inr []
              | Some s \<Rightarrow> rbind (guard_side names (dget d ''b'' JNull)) (\<lambda>b.
                  case b of
                    None \<Rightarrow> Inr []
                  | Some t \<Rightarrow>
                      if is_param_term s \<or> is_param_term t then
                        let name = (case dget d ''op'' JNull of JStr q \<Rightarrow> (case map_of GUARD_OPS q of Some n \<Rightarrow> n | None \<Rightarrow> []) | _ \<Rightarrow> []);
                            atom = formula name [s, t]
                        in Inr [atom, formula ''NOT'' [atom]]
                      else Inr [])))
      | _ \<Rightarrow> Inr [])"

definition guard_atoms :: "func \<Rightarrow> json list res" where
  "guard_atoms fn = rbind (mapM (guard_atom (params_by_name fn)) (f_branches fn)) (\<lambda>xss. Inr (concat xss))"

record repair =
  rp_id :: string
  rp_text :: string
  rp_claim :: "dict option"
  rp_kind :: string
  rp_new_assumptions :: nat
  rp_evidence :: string

definition reject_repair :: repair where
  "reject_repair = \<lparr>rp_id = ''REJECT'', rp_text = ''Reject the property: it does not describe intended behavior.'',
     rp_claim = None, rp_kind = ''reject'', rp_new_assumptions = 0, rp_evidence = ''none''\<rparr>"

definition append_to :: "string \<Rightarrow> json \<Rightarrow> dict \<Rightarrow> json res" where
  "append_to k v claim =
     rbind (ditem claim k) (\<lambda>xs. case xs of JList ys \<Rightarrow> Inr (JList (ys @ [v])) | _ \<Rightarrow> Inl TypeError)"

text \<open>The claim of a repair: no key outside the grammar, no id and no status, the parent recorded.\<close>

definition repaired_claim :: "dict \<Rightarrow> dict \<Rightarrow> string \<Rightarrow> dict res" where
  "repaired_claim claim new kind =
     (let kept = filter (\<lambda>(k, v). k \<in> set CLAIM_KEYS \<and> k \<noteq> ''id'' \<and> k \<noteq> ''status'') new in
      rbind (ditem claim ''id'') (\<lambda>cid.
      rbind (ditem claim ''provenance'') (\<lambda>pv.
      rbind (case pv of JObj d \<Rightarrow> Inr d | _ \<Rightarrow> Inl TypeError) (\<lambda>prov.
      rbind (append_to ''evidence'' (JObj [(''type'', JStr ''counterexample''), (''location'', cid)]) claim) (\<lambda>ev.
        Inr (dset ''evidence'' ev (dset ''provenance'' (JObj (dset ''repaired_from'' cid (dset ''repair'' (JStr kind) prov)))
              (dset ''parent'' cid kept))))))))"

text \<open>A precondition that is already assumed, up to canonical form, changes nothing.\<close>

definition already_assumed :: "dict \<Rightarrow> bool res" where
  "already_assumed new =
     rbind (ditem new ''preconditions'') (\<lambda>v. rbind (py_iter v) (\<lambda>ps. rbind (mapM canonical ps) (\<lambda>canon.
       if canon = [] then Inl IndexError else Inr (py_mem (last canon) (butlast canon)))))"

definition add_repair ::
    "dict \<Rightarrow> int \<Rightarrow> string \<Rightarrow> string \<Rightarrow> dict \<Rightarrow> string \<Rightarrow> nat \<Rightarrow> string \<Rightarrow> repair list res" where
  "add_repair claim base rid txt new0 kind n ev =
     rbind (repaired_claim claim new0 kind) (\<lambda>new.
     rbind (complexity new) (\<lambda>c.
       if c > base + DELTA then Inr []
       else rbind (if kind = ''precondition'' then already_assumed new else Inr False) (\<lambda>dup.
         Inr (if dup then [] else
           [\<lparr>rp_id = rid, rp_text = txt, rp_claim = Some new, rp_kind = kind, rp_new_assumptions = n, rp_evidence = ev\<rparr>]))))"

definition with_property :: "json \<Rightarrow> dict \<Rightarrow> dict" where
  "with_property p claim = dset ''property'' p claim"

definition add_precondition ::
    "dict \<Rightarrow> int \<Rightarrow> string \<Rightarrow> string \<Rightarrow> json \<Rightarrow> string \<Rightarrow> repair list res" where
  "add_precondition claim base rid txt atom ev =
     rbind (append_to ''preconditions'' atom claim) (\<lambda>ps.
       add_repair claim base rid txt (dset ''preconditions'' ps claim) ''precondition'' 0 ev)"

definition concatM :: "('a \<Rightarrow> 'b list res) \<Rightarrow> 'a list \<Rightarrow> 'b list res" where
  "concatM f xs = rbind (mapM f xs) (\<lambda>yss. Inr (concat yss))"

text \<open>Weaken: one direction of an IFF, an AND without one conjunct.\<close>

definition weaken_iff :: "dict \<Rightarrow> int \<Rightarrow> names \<Rightarrow> json list \<Rightarrow> repair list res" where
  "weaken_iff claim base names args =
     (case args of
        [a, b] \<Rightarrow>
          concatM (\<lambda>(i, x, y).
            let p = formula ''IMPLIES'' [x, y] in
            rbind (render_text p names) (\<lambda>shown.
              add_repair claim base (''WEAKEN_DIRECTION_'' @ dec i) (''Keep only one direction: '' @ shown)
                (with_property p claim) ''weaken'' 0 ''none'')) [(0, a, b), (1, b, a)]
      | _ \<Rightarrow> Inl (ValueError ''unpack''))"

definition drop_nth :: "nat \<Rightarrow> 'a list \<Rightarrow> 'a list" where
  "drop_nth i xs = take i xs @ drop (Suc i) xs"

definition drop_conjunct :: "dict \<Rightarrow> int \<Rightarrow> names \<Rightarrow> json list \<Rightarrow> repair list res" where
  "drop_conjunct claim base names args =
     concatM (\<lambda>i.
       let rest = drop_nth i args; p = (case rest of [x] \<Rightarrow> x | _ \<Rightarrow> formula ''AND'' rest) in
       rbind (render_text p names) (\<lambda>shown.
         add_repair claim base (''DROP_CONJUNCT_'' @ dec i) (''Drop one conjunct: '' @ shown)
           (with_property p claim) ''weaken'' 0 ''none'')) [0..<length args]"

definition property_args :: "dict \<Rightarrow> json list res" where
  "property_args p = rbind (ditem p ''args'') py_iter"

definition weakenings :: "dict \<Rightarrow> int \<Rightarrow> names \<Rightarrow> repair list res" where
  "weakenings claim base names =
     rbind (ditem claim ''property'') (\<lambda>pv.
       case pv of
         JObj p \<Rightarrow>
           if dget p ''op'' JNull = JStr ''IFF'' then rbind (property_args p) (weaken_iff claim base names)
           else if dget p ''op'' JNull = JStr ''AND'' then rbind (property_args p) (drop_conjunct claim base names)
           else Inr []
       | _ \<Rightarrow> Inl AttributeError)"

definition allow_exceptions :: "dict \<Rightarrow> int \<Rightarrow> dict \<Rightarrow> repair list res" where
  "allow_exceptions claim base result =
     (if outcome_field result ''outcome_kind'' = JStr ''exception'' \<and> dget claim ''on_exception'' JNull \<noteq> JStr ''allowed''
      then add_repair claim base ''ALLOW_EXCEPTIONS''
        (''Treat a raised exception as permitted behavior (the function signals '' @ ''invalid input by raising).'')
        (dset ''on_exception'' (JStr ''allowed'') claim) ''exceptions'' 0 ''none''
      else Inr [])"

definition guard_preconditions :: "dict \<Rightarrow> int \<Rightarrow> names \<Rightarrow> func \<Rightarrow> repair list res" where
  "guard_preconditions claim base names fn =
     rbind (guard_atoms fn) (\<lambda>atoms.
       concatM (\<lambda>(i, atom). rbind (render_text atom names) (\<lambda>shown.
         add_precondition claim base (''GUARD_PRECONDITION_'' @ dec i)
           (''Add precondition taken from a branch in the code: '' @ shown) atom ''code guard'')) (enumerate 0 atoms))"

definition int_params :: "json list \<Rightarrow> json list res" where
  "int_params bs =
     rbind (mapM (\<lambda>b. case b of
         JObj d \<Rightarrow> rbind (ditem d ''domain'') (\<lambda>dom. if dom = JStr ''int'' then rbind (ditem d ''param'') (\<lambda>p. Inr [p]) else Inr [])
       | _ \<Rightarrow> Inl TypeError) bs) (\<lambda>xss. Inr (concat xss))"

definition relational_precondition :: "dict \<Rightarrow> int \<Rightarrow> names \<Rightarrow> json \<Rightarrow> json \<Rightarrow> string \<Rightarrow> repair list res" where
  "relational_precondition claim base names p q rel =
     (let atom = formula rel [JObj [(''param'', p)], JObj [(''param'', q)]] in
      rbind (render_text atom names) (\<lambda>shown.
        add_precondition claim base (''REL_PRECONDITION_'' @ rel)
          (''Add precondition (no supporting evidence): '' @ shown) atom ''none''))"

definition relational_preconditions :: "dict \<Rightarrow> int \<Rightarrow> names \<Rightarrow> json list \<Rightarrow> repair list res" where
  "relational_preconditions claim base names bs =
     rbind (int_params bs) (\<lambda>ps.
       case ps of
         p # q # _ \<Rightarrow> concatM (relational_precondition claim base names p q) [''NEQ'', ''LT'']
       | _ \<Rightarrow> Inr [])"

text \<open>Guards derived from the arithmetic of the function. A name that is no quantified parameter skips the entry.\<close>

definition usable :: "(string \<times> param) list \<Rightarrow> json list \<Rightarrow> side \<Rightarrow> bool" where
  "usable names bound x =
     (case x of
        SLit i \<Rightarrow> True
      | SName n \<Rightarrow> (case map_of names n of None \<Rightarrow> False | Some p \<Rightarrow> JStr (p_id p) \<in> set bound))"

definition side_term :: "(string \<times> param) list \<Rightarrow> side \<Rightarrow> json" where
  "side_term names x =
     (case x of
        SLit i \<Rightarrow> lit_term (JInt i)
      | SName n \<Rightarrow> (case map_of names n of None \<Rightarrow> JNull | Some p \<Rightarrow> param_term (p_id p)))"

definition side_type :: "(string \<times> param) list \<Rightarrow> side \<Rightarrow> string" where
  "side_type names x =
     (case x of SLit i \<Rightarrow> [] | SName n \<Rightarrow> (case map_of names n of None \<Rightarrow> [] | Some p \<Rightarrow> p_integer_type p))"

definition side_text :: "side \<Rightarrow> string" where
  "side_text x = (case x of SName n \<Rightarrow> n | SLit i \<Rightarrow> dec_int i)"

definition width_of :: "string \<Rightarrow> nat option" where
  "width_of t = (case map_of WIDTHS t of Some w \<Rightarrow> Some w | None \<Rightarrow> map_of UWIDTHS t)"

definition or_else_range :: "(int \<times> int) option \<Rightarrow> (int \<times> int) option \<Rightarrow> (int \<times> int) option" where
  "or_else_range a b = (case a of Some r \<Rightarrow> Some r | None \<Rightarrow> b)"

definition arith_range :: "(string \<times> param) list \<Rightarrow> func \<Rightarrow> arith \<Rightarrow> (int \<times> int) option" where
  "arith_range names fn e =
     or_else_range (integer_range (ar_type e)) (or_else_range (integer_range (f_return_integer_type fn))
       (or_else_range (integer_range (side_type names (ar_a e))) (integer_range (side_type names (ar_b e)))))"

definition between :: "json \<Rightarrow> json \<Rightarrow> string \<Rightarrow> json \<Rightarrow> json" where
  "between t low op high = formula ''AND'' [formula ''GTE'' [t, lit_term low], formula op [t, lit_term high]]"

definition is_name :: "side \<Rightarrow> bool" where
  "is_name x = (case x of SName n \<Rightarrow> True | SLit i \<Rightarrow> False)"

definition ARITH_NAME :: "(string \<times> string) list" where
  "ARITH_NAME = [(''+'', ''ADD''), (''-'', ''SUB''), (''*'', ''MUL'')]"

definition arith_guard ::
    "dict \<Rightarrow> int \<Rightarrow> (string \<times> param) list \<Rightarrow> json list \<Rightarrow> func \<Rightarrow> nat \<times> arith \<Rightarrow> repair list res" where
  "arith_guard claim base names bound fn = (\<lambda>(i, e).
     if \<not> (usable names bound (ar_a e) \<and> usable names bound (ar_b e)) then Inr []
     else if ar_op e \<in> {''<<'', ''>>'', ''>>>''} \<and> is_name (ar_b e) then
       (case width_of (if ar_type e \<noteq> [] then ar_type e else side_type names (ar_a e)) of
          None \<Rightarrow> Inr []
        | Some w \<Rightarrow>
            add_precondition claim base (''SHIFT_IN_RANGE_'' @ dec i)
              (''Add precondition: shift amount '' @ side_text (ar_b e) @ '' in [0, '' @ dec w @ '')'')
              (between (side_term names (ar_b e)) (JInt 0) ''LT'' (JInt (int w))) ''declared operand width'')
     else case map_of ARITH_NAME (ar_op e) of
         None \<Rightarrow> Inr []
       | Some op \<Rightarrow>
           (case arith_range names fn e of
              None \<Rightarrow> Inr []
            | Some (lo, hi) \<Rightarrow>
                add_precondition claim base (''NO_OVERFLOW_'' @ dec i)
                  (''Add precondition: '' @ side_text (ar_a e) @ '' '' @ ar_op e @ '' '' @ side_text (ar_b e) @
                   '' does not overflow ['' @ dec_int lo @ '', '' @ dec_int hi @ '']'')
                  (between (formula op [side_term names (ar_a e), side_term names (ar_b e)]) (JInt lo) ''LTE'' (JInt hi))
                  ''declared operand width''))"

definition nonzero_divisor ::
    "dict \<Rightarrow> int \<Rightarrow> (string \<times> param) list \<Rightarrow> json list \<Rightarrow> arith \<Rightarrow> repair list res" where
  "nonzero_divisor claim base names bound e =
     (case ar_b e of
        SLit i \<Rightarrow> Inr []
      | SName n \<Rightarrow>
          if ar_op e \<in> {''/'', ''//'', ''%''} \<and> usable names bound (SName n) then
            add_precondition claim base (''NONZERO_'' @ n)
              (''Add precondition: divisor '' @ n @ '' '' @ utf8 [Neq] @ '' 0'')
              (formula ''NEQ'' [side_term names (SName n), lit_term (JInt 0)]) ''divisor in code''
          else Inr [])"

definition assume_external :: "dict \<Rightarrow> int \<Rightarrow> string \<times> json \<Rightarrow> repair list res" where
  "assume_external claim base = (\<lambda>(name, sem).
     if sem \<in> {JStr ''UNSUPPORTED'', JStr ''NONDETERMINISTIC''} then
       rbind (append_to ''assumptions'' (JStr (''`'' @ name @ ''` behaves as the caller expects'')) claim) (\<lambda>as.
         add_repair claim base (''ASSUME_'' @ name) (''Add assumption about `'' @ name @ ''` (environment).'')
           (dset ''assumptions'' as claim) ''assumption'' 1 ''none'')
     else Inr [])"

definition bound_params :: "json list \<Rightarrow> json list res" where
  "bound_params bs = mapM (\<lambda>b. case b of JObj d \<Rightarrow> ditem d ''param'' | _ \<Rightarrow> Inl TypeError) bs"

text \<open>\<open>repairs\<close>: the candidates in the order of the code, at most 16.\<close>

definition repairs :: "dict \<Rightarrow> dict \<Rightarrow> func \<Rightarrow> (string \<times> json) list \<Rightarrow> repair list res" where
  "repairs claim result fn externs =
     (let names = param_names_of fn; by_name = params_by_name fn in
      rbind (complexity claim) (\<lambda>base.
      rbind (weakenings claim base names) (\<lambda>r1.
      rbind (allow_exceptions claim base result) (\<lambda>r2.
      rbind (guard_preconditions claim base names fn) (\<lambda>r3.
      rbind (forall_of claim) (\<lambda>bs.
      rbind (relational_preconditions claim base names bs) (\<lambda>r4.
      rbind (bound_params bs) (\<lambda>bound.
      rbind (concatM (arith_guard claim base by_name bound fn) (enumerate 0 (f_arith fn))) (\<lambda>r5.
      rbind (concatM (nonzero_divisor claim base by_name bound) (f_arith fn)) (\<lambda>r6.
      rbind (concatM (assume_external claim base) externs) (\<lambda>r7.
        Inr (take 16 (reject_repair # r1 @ r2 @ r3 @ r4 @ r5 @ r6 @ r7)))))))))))))"

definition FIT :: "(string \<times> (string \<times> real) list) list" where
  "FIT = [(''reject'', [(''BAD_SPEC'', 5 / 10), (''REAL_BUG'', 2 / 10)]),
     (''weaken'', [(''BAD_SPEC'', 6 / 10)]),
     (''precondition'', [(''MISSING_PRECONDITION'', 7 / 10), (''BAD_SPEC'', 2 / 10)]),
     (''exceptions'', [(''MISSING_PRECONDITION'', 5 / 10), (''BAD_SPEC'', 3 / 10)]),
     (''assumption'', [(''ENVIRONMENT_MISMATCH'', 6 / 10)])]"

definition repair_prior :: "repair \<Rightarrow> dict \<Rightarrow> string \<Rightarrow> real res" where
  "repair_prior rp claim ce_class =
     (let fit = (case map_of FIT (rp_kind rp) of
                   None \<Rightarrow> 5 / 100
                 | Some m \<Rightarrow> (case map_of m ce_class of None \<Rightarrow> 5 / 100 | Some v \<Rightarrow> v));
          support = (if rp_evidence rp \<noteq> ''none'' then 25 / 100 else if rp_kind rp = ''precondition'' then - (2 / 10) else 0)
      in rbind (case rp_claim rp of
                  None \<Rightarrow> Inr 0
                | Some new \<Rightarrow> rbind (complexity new) (\<lambda>a. rbind (complexity claim) (\<lambda>b. Inr (a - b)))) (\<lambda>growth.
           Inr (max (1 / 100) (fit + support - 2 / 100 * of_int (max growth 0) - 25 / 100 * real (rp_new_assumptions rp)))))"

section \<open>The bounds of a repair\<close>

definition within_bounds :: "dict \<Rightarrow> repair \<Rightarrow> bool" where
  "within_bounds claim r =
     (case rp_claim r of
        None \<Rightarrow> rp_kind r = ''reject''
      | Some new \<Rightarrow>
          (\<exists>c b. complexity new = Inr c \<and> complexity claim = Inr b \<and> c \<le> b + DELTA) \<and>
          fst ` set new \<subseteq> set CLAIM_KEYS - {''id'', ''status''} \<and>
          (\<exists>cid. map_of claim ''id'' = Some cid \<and> map_of new ''parent'' = Some cid))"

lemma repaired_claim_fields:
  assumes "repaired_claim claim new0 kind = Inr new"
  shows "fst ` set new \<subseteq> set CLAIM_KEYS - {''id'', ''status''}"
    and "\<exists>cid. map_of claim ''id'' = Some cid \<and> map_of new ''parent'' = Some cid"
proof -
  let ?kept = "filter (\<lambda>(k, v). k \<in> set CLAIM_KEYS \<and> k \<noteq> ''id'' \<and> k \<noteq> ''status'') new0"
  from assms obtain cid prov ev where cid: "map_of claim ''id'' = Some cid" and
    new: "new = dset ''evidence'' ev (dset ''provenance'' prov (dset ''parent'' cid ?kept))"
    by (auto simp: repaired_claim_def res_simps Let_def ditem_Inr)
  have "fst ` set ?kept \<subseteq> set CLAIM_KEYS - {''id'', ''status''}" by auto
  moreover have "{''evidence'', ''provenance'', ''parent''} \<subseteq> set CLAIM_KEYS - {''id'', ''status''}"
    by (simp add: CLAIM_KEYS_def)
  ultimately show "fst ` set new \<subseteq> set CLAIM_KEYS - {''id'', ''status''}"
    unfolding new AList.dom_update by blast
  show "\<exists>cid. map_of claim ''id'' = Some cid \<and> map_of new ''parent'' = Some cid"
    using cid by (simp add: new map_of_update)
qed

lemma add_repair_bounds:
  assumes "add_repair claim base rid txt new0 kind n ev = Inr rs" and "complexity claim = Inr base"
  shows "list_all (within_bounds claim) rs"
proof -
  from assms(1) obtain new c where new: "repaired_claim claim new0 kind = Inr new" and c: "complexity new = Inr c"
    by (auto simp: add_repair_def res_simps)
  show ?thesis
  proof (cases "c > base + DELTA")
    case True
    with assms(1) new c show ?thesis by (simp add: add_repair_def)
  next
    case False
    let ?r = "\<lparr>rp_id = rid, rp_text = txt, rp_claim = Some new, rp_kind = kind, rp_new_assumptions = n, rp_evidence = ev\<rparr>"
    have "rs = [] \<or> rs = [?r]" using assms(1) new c False by (auto simp: add_repair_def res_simps split: if_splits)
    moreover have "within_bounds claim ?r"
      using repaired_claim_fields [OF new] c assms(2) False by (simp add: within_bounds_def)
    ultimately show ?thesis by auto
  qed
qed

lemma concat_all2: "list_all2 (\<lambda>x y. f x = Inr y) xs yss \<Longrightarrow> (\<And>x zs. f x = Inr zs \<Longrightarrow> list_all P zs) \<Longrightarrow> list_all P (concat yss)"
  by (induction xs yss rule: list_all2_induct) auto

lemma concatM_all: "concatM f xs = Inr ys \<Longrightarrow> (\<And>x zs. f x = Inr zs \<Longrightarrow> list_all P zs) \<Longrightarrow> list_all P ys"
  unfolding concatM_def by (auto simp: res_simps mapM_eq_Inr intro: concat_all2)

lemma add_precondition_bounds:
  "add_precondition claim base rid txt atom ev = Inr rs \<Longrightarrow> complexity claim = Inr base \<Longrightarrow> list_all (within_bounds claim) rs"
  by (auto simp: add_precondition_def res_simps intro: add_repair_bounds)

lemma repair_parts:
  assumes "complexity claim = Inr base"
  shows "weakenings claim base names = Inr rs \<Longrightarrow> list_all (within_bounds claim) rs"
    and "allow_exceptions claim base result = Inr rs \<Longrightarrow> list_all (within_bounds claim) rs"
    and "guard_preconditions claim base names fn = Inr rs \<Longrightarrow> list_all (within_bounds claim) rs"
    and "relational_preconditions claim base names bs = Inr rs \<Longrightarrow> list_all (within_bounds claim) rs"
    and "arith_guard claim base by_name bound fn ie = Inr rs \<Longrightarrow> list_all (within_bounds claim) rs"
    and "nonzero_divisor claim base by_name bound e = Inr rs \<Longrightarrow> list_all (within_bounds claim) rs"
    and "assume_external claim base x = Inr rs \<Longrightarrow> list_all (within_bounds claim) rs"
proof -
  note A = add_repair_bounds [OF _ assms] and P = add_precondition_bounds [OF _ assms]
  have "weaken_iff claim base names args = Inr rs \<Longrightarrow> list_all (within_bounds claim) rs" for args
    by (auto simp: weaken_iff_def res_simps Let_def split: list.splits elim!: concatM_all intro: A)
  moreover have "drop_conjunct claim base names args = Inr rs \<Longrightarrow> list_all (within_bounds claim) rs" for args
    by (auto simp: drop_conjunct_def res_simps Let_def elim!: concatM_all intro: A)
  ultimately have "weakenings claim base names = Inr rs \<Longrightarrow> ditem claim ''property'' = Inr (JObj p) \<Longrightarrow> list_all (within_bounds claim) rs" for p
    by (auto simp: weakenings_def res_simps split: if_splits)
  moreover have "weakenings claim base names = Inr rs \<Longrightarrow> \<exists>p. ditem claim ''property'' = Inr (JObj p)"
    unfolding weakenings_def rbind_eq_Inr by (elim exE conjE) (auto split: json.splits)
  ultimately show "weakenings claim base names = Inr rs \<Longrightarrow> list_all (within_bounds claim) rs" by blast
  show "allow_exceptions claim base result = Inr rs \<Longrightarrow> list_all (within_bounds claim) rs"
    by (auto simp: allow_exceptions_def split: if_splits intro: A)
  show "guard_preconditions claim base names fn = Inr rs \<Longrightarrow> list_all (within_bounds claim) rs"
    by (auto simp: guard_preconditions_def res_simps elim!: concatM_all intro: P)
  have R: "relational_precondition claim base names p q rel = Inr zs \<Longrightarrow> list_all (within_bounds claim) zs" for p q rel zs
    by (auto simp: relational_precondition_def res_simps Let_def intro: P)
  show "relational_preconditions claim base names bs = Inr rs \<Longrightarrow> list_all (within_bounds claim) rs"
    unfolding relational_preconditions_def rbind_eq_Inr
    by (elim exE conjE) (auto split: list.splits elim!: concatM_all intro: R)
  show "arith_guard claim base by_name bound fn ie = Inr rs \<Longrightarrow> list_all (within_bounds claim) rs"
    by (cases ie) (auto simp: arith_guard_def split: if_splits option.splits intro: P)
  show "nonzero_divisor claim base by_name bound e = Inr rs \<Longrightarrow> list_all (within_bounds claim) rs"
    by (auto simp: nonzero_divisor_def split: side.splits if_splits intro: P)
  show "assume_external claim base x = Inr rs \<Longrightarrow> list_all (within_bounds claim) rs"
    by (cases x) (auto simp: assume_external_def res_simps split: if_splits intro: A)
qed

section \<open>Every question about a counterexample has an answer\<close>

lemma heuristic_decides:
  assumes "jr_options row \<noteq> []" and "jg_score j = heuristic_score" and "lookup (jg_temperature j) task 1 \<noteq> 0"
  shows "\<exists>d j'. decide_one task row None j = Inr (d, j') \<and> d_chosen d \<in> fst ` set (jr_options row)"
proof -
  obtain s where s: "heuristic_one row = Inr s" "sc_ids s = map fst (jr_options row)" "length (sc_logits s) = length (jr_options row)"
    using assms(1) by (simp add: heuristic_one_def softmax_def Let_def)
  have sr: "score_rows heuristic_score False [row] = Inr [s]"
    by (subst score_rows.simps) (simp add: heuristic_score_def s score_rows.simps)
  have "sc_logits s \<noteq> []" using s(3) assms(1) by auto
  then have "\<exists>d. scored_decision task j row s = Inr d"
    using assms s by (simp add: scored_decision_def softmax_def argmax_def Let_def)
  then obtain d j' where step: "decide_rows task [row] False None j = Inr ([d], j')"
    using sr assms(2) by (auto simp: decide_rows_def)
  then show ?thesis
    using heuristic.decide_single [OF step assms(2)] by (auto simp: decide_one_def)
qed

lemma ask_answers:
  assumes "os \<noteq> []" and "0 < limit" and "jg_score j = heuristic_score" and "lookup (jg_temperature j) task 1 \<noteq> 0"
  shows "\<exists>d j'. ask task i state question os limit prior ctx j = Inr (d, j') \<and> d_chosen d \<in> fst ` set os"
proof (cases "\<exists>o1. os = [o1]")
  case True
  then show ?thesis
    by (auto simp: ask_def decide_one_def decide_rows_def forced_decision_def Let_def)
next
  case False
  let ?row = "jrow i state question (List.take limit os) prior ctx"
  have same: "ask task i state question os limit prior ctx j = decide_one task ?row None j"
    using False by (cases os rule: remdups_adj.cases) (auto simp: ask_def)
  have "jr_options ?row \<noteq> []" and sub: "fst ` set (jr_options ?row) \<subseteq> fst ` set os"
    using assms(1,2) set_take_subset [of limit os] by (auto simp: jrow_def)
  from heuristic_decides [OF this(1) assms(3,4)] obtain d j' where
    "decide_one task ?row None j = Inr (d, j')" and d: "d_chosen d \<in> fst ` set (jr_options ?row)" by blast
  then have "ask task i state question os limit prior ctx j = Inr (d, j')" unfolding same by simp
  moreover have "d_chosen d \<in> fst ` set os" by (rule subsetD [OF sub d])
  ultimately show ?thesis by (intro exI conjI)
qed

lemma described_known: "set ks \<subseteq> fst ` set table \<Longrightarrow> \<exists>os. described table ks = Inr os \<and> map fst os = ks"
proof (induction ks)
  case (Cons k ks)
  then obtain os where "described table ks = Inr os" "map fst os = ks" by auto
  moreover obtain d where "map_of table k = Some d" using Cons.prems by (cases "map_of table k") (auto simp: map_of_eq_None_iff)
  ultimately show ?case by (simp add: described_def)
qed (simp add: described_def)

lemma allowed_classes_known:
  "allowed_classes result fn nm claim \<noteq> []" "set (allowed_classes result fn nm claim) \<subseteq> fst ` set COUNTEREXAMPLE_CLASSES"
  unfolding allowed_classes_def Let_def COUNTEREXAMPLE_CLASSES_def by (simp, auto)

lemma allowed_defects_known:
  "allowed_defects status result fn nm unsupported \<noteq> []"
  "set (allowed_defects status result fn nm unsupported) \<subseteq> fst ` set MODEL_DEFECTS"
  unfolding allowed_defects_def Let_def MODEL_DEFECTS_def by (simp, auto)

section \<open>Properties\<close>



text \<open>A refuted claim about a function that divides twice by the same parameter.\<close>

definition dividing_fn :: func where
  "dividing_fn = (empty_func ''F_0001'' ''m.f'' ''f'' [] [] ''any'' [] [])
     \<lparr>f_params := [\<lparr>p_id = ''V_1'', p_name = ''a'', p_index = 0, p_sort = ''int'', p_integer_type = []\<rparr>,
                  \<lparr>p_id = ''V_2'', p_name = ''n'', p_index = 1, p_sort = ''int'', p_integer_type = []\<rparr>],
      f_arith := [\<lparr>ar_op = ''/'', ar_a = SName ''a'', ar_b = SName ''n'', ar_type = []\<rparr>,
                  \<lparr>ar_op = ''%'', ar_a = SName ''a'', ar_b = SName ''n'', ar_type = []\<rparr>]\<rparr>"

definition refuted_claim :: dict where
  "refuted_claim = [(''id'', JStr ''C1''), (''status'', JStr ''REFUTED''),
     (''forall'', JList [int_binding ''V_1'', int_binding ''V_2'']),
     (''preconditions'', JList []), (''assumptions'', JList []), (''evidence'', JList []), (''provenance'', JObj []),
     (''property'', formula ''IFF'' [formula ''LT'' [param_term ''V_1'', param_term ''V_2''],
        formula ''GT'' [param_term ''V_2'', param_term ''V_1'']])]"

definition exception_result :: dict where
  "exception_result = [(''witness'', JObj [(''outcome_kind'', JStr ''exception'')])]"

definition refuted_repairs :: "repair list" where
  "refuted_repairs = projr (repairs refuted_claim exception_result dividing_fn [])"

lemma refuted_repairs_ids: "map rp_id refuted_repairs =
    [''REJECT'', ''WEAKEN_DIRECTION_0'', ''WEAKEN_DIRECTION_1'', ''ALLOW_EXCEPTIONS'', ''REL_PRECONDITION_NEQ'',
     ''REL_PRECONDITION_LT'', ''NONZERO_n'', ''NONZERO_n'']"
  by code_simp

lemma refuted_repairs_return: "repairs refuted_claim exception_result dividing_fn [] = Inr refuted_repairs"
proof -
  have "\<not> isl (repairs refuted_claim exception_result dividing_fn [])" by code_simp
  then show ?thesis unfolding refuted_repairs_def by (simp add: sum.collapse)
qed


text \<open>
  The identifiers of the repairs offered to the judge are not unique. Two divisions by the same
  quantified parameter in the arithmetic of the function yield the same repair NONZERO twice: both
  calls build the same list, so whenever it is non-empty an identifier is repeated, and the judge's
  mapping from identifiers to probabilities loses one of the two options.
\<close>

theorem duplicate_repair_ids:
  "(\<forall>e1 e2 claim base names bound.
      ar_b e1 = ar_b e2 \<and> ar_op e1 \<in> {''/'', ''//'', ''%''} \<and> ar_op e2 \<in> {''/'', ''//'', ''%''} \<longrightarrow>
      nonzero_divisor claim base names bound e1 = nonzero_divisor claim base names bound e2) \<and>
   (\<exists>rs. repairs refuted_claim exception_result dividing_fn [] = Inr rs \<and> \<not> distinct (map rp_id rs) \<and>
      length (dict_zip (map rp_id rs) (replicate (length rs) (1 :: int))) < length rs)"
proof -
  have "nonzero_divisor claim base names bound e1 = nonzero_divisor claim base names bound e2"
    if "ar_b e1 = ar_b e2" "ar_op e1 \<in> {''/'', ''//'', ''%''}" "ar_op e2 \<in> {''/'', ''//'', ''%''}"
    for e1 e2 claim base names bound
    unfolding nonzero_divisor_def that(1) using that(2,3) by (simp split: side.split)
  then have "\<forall>e1 e2 claim base names bound.
      ar_b e1 = ar_b e2 \<and> ar_op e1 \<in> {''/'', ''//'', ''%''} \<and> ar_op e2 \<in> {''/'', ''//'', ''%''} \<longrightarrow>
      nonzero_divisor claim base names bound e1 = nonzero_divisor claim base names bound e2" by blast
  moreover have n: "length refuted_repairs = 8" using arg_cong [OF refuted_repairs_ids, of length] by simp
  have "length (dict_zip (map rp_id refuted_repairs) (replicate 8 (1 :: int))) < 8"
    unfolding refuted_repairs_ids by code_simp
  then have "length (dict_zip (map rp_id refuted_repairs) (replicate (length refuted_repairs) (1 :: int))) < length refuted_repairs"
    unfolding n .
  moreover have "\<not> distinct (map rp_id refuted_repairs)" unfolding refuted_repairs_ids by simp
  ultimately show ?thesis by (intro conjI exI [of _ refuted_repairs] refuted_repairs_return)
qed

lemma duplicate_repair_ids_witness:
  "nonzero_divisor refuted_claim 0 (params_by_name dividing_fn) [JStr ''V_2''] (hd (f_arith dividing_fn)) =
   nonzero_divisor refuted_claim 0 (params_by_name dividing_fn) [JStr ''V_2''] (last (f_arith dividing_fn))"
  using duplicate_repair_ids by (simp add: dividing_fn_def)

text \<open>
  C17. Every question about a counterexample or a model defect has an answer: with the heuristic
  scorer at nonzero temperatures both classifications return, without an error, and choose one of
  the classes or defects that the verifier's facts allow.
\<close>

theorem classes_answered:
  assumes "jg_score j = heuristic_score" and "\<forall>task. lookup (jg_temperature j) task 1 \<noteq> 0"
  shows "(\<exists>d j'. classify_counterexample state (allowed_classes result fn native_match claim) prior ctx j = Inr (d, j') \<and>
            d_chosen d \<in> set (allowed_classes result fn native_match claim)) \<and>
         (\<exists>d j'. classify_model_defect state (allowed_defects status result fn native_match unsupported) prior ctx j = Inr (d, j') \<and>
            d_chosen d \<in> set (allowed_defects status result fn native_match unsupported))"
proof -
  have answer: "\<exists>d j'. rbind (described table ks) (\<lambda>os. ask task i state question os (length os) prior ctx j) = Inr (d, j') \<and>
      d_chosen d \<in> set ks" if "ks \<noteq> []" "set ks \<subseteq> fst ` set table" for table ks task i question
  proof -
    from described_known [OF that(2)] obtain os where os: "described table ks = Inr os" "map fst os = ks" by blast
    then have "os \<noteq> []" using that(1) by auto
    then have "\<exists>d j'. ask task i state question os (length os) prior ctx j = Inr (d, j') \<and> d_chosen d \<in> fst ` set os"
      using assms by (intro ask_answers) auto
    moreover have "fst ` set os = set ks" using os(2) by (metis list.set_map)
    ultimately show ?thesis unfolding os(1) rbind_Inr by simp
  qed
  show ?thesis
    unfolding classify_counterexample_def classify_model_defect_def
    by (intro conjI answer allowed_classes_known allowed_defects_known)
qed

lemma classes_answered_witness:
  "\<exists>d j'. classify_counterexample JNull (allowed_classes [] dividing_fn JNull []) [] JNull demo_judge = Inr (d, j') \<and>
     d_chosen d \<in> {''REAL_BUG'', ''BAD_SPEC'', ''MISSING_PRECONDITION''}"
proof -
  have "jg_score demo_judge = heuristic_score" "\<forall>task. lookup (jg_temperature demo_judge) task 1 \<noteq> 0"
    by (simp_all add: demo_judge_def make_judge_def lookup_def)
  note answered = classes_answered [OF this, of JNull "[]" dividing_fn JNull "[]" "[]" JNull, THEN conjunct1]
  have classes: "allowed_classes [] dividing_fn JNull [] = [''REAL_BUG'', ''BAD_SPEC'', ''MISSING_PRECONDITION'']"
    by (simp add: allowed_classes_def outcome_field_def witness_of_def dget_def dividing_fn_def empty_func_def)
  show ?thesis using answered unfolding classes list.set .
qed

end
