(* ===== verification/ProverText.thy ===== *)
theory ProverText
  imports LeanVerdicts
begin

text \<open>
  The text side of the proving agent, \<open>src/src/autoform/harness/prover.py\<close>: jobs and the file
  built from a proof, the removal of comments and strings, the screen for forbidden constructs, the
  split of a declaration at its proof, the reading of an agent's reply and of Lean's answer, and the
  jobs of a Lean file. A text is the list of its code points; which code points beyond ASCII are
  alphanumeric is the table of the Unicode version, a parameter \<open>wide\<close>.
\<close>

section \<open>Texts\<close>

type_synonym utext = "int list"

definition codes :: "string \<Rightarrow> utext" where
  "codes s = map of_char s"

definition space_code :: "int \<Rightarrow> bool" where
  "space_code c =
     ((9 \<le> c \<and> c \<le> 13) \<or> (28 \<le> c \<and> c \<le> 32) \<or> c \<in> {133, 160, 5760, 8232, 8233, 8239, 8287, 12288} \<or>
      (8192 \<le> c \<and> c \<le> 8202))"

definition alnum_code :: "(int \<Rightarrow> bool) \<Rightarrow> int \<Rightarrow> bool" where
  "alnum_code wide c =
     ((48 \<le> c \<and> c \<le> 57) \<or> (65 \<le> c \<and> c \<le> 90) \<or> (97 \<le> c \<and> c \<le> 122) \<or> (128 \<le> c \<and> wide c))"

definition word_code :: "(int \<Rightarrow> bool) \<Rightarrow> int \<Rightarrow> bool" where
  "word_code wide c = (alnum_code wide c \<or> c = 95)"

definition lstrip_text :: "utext \<Rightarrow> utext" where
  "lstrip_text s = dropWhile space_code s"

definition rstrip_text :: "utext \<Rightarrow> utext" where
  "rstrip_text s = rev (dropWhile space_code (rev s))"

definition strip_text :: "utext \<Rightarrow> utext" where
  "strip_text s = rstrip_text (lstrip_text s)"

text \<open>\<open>s.find(p)\<close>, as what is before the first occurrence and what follows it.\<close>

fun split_first :: "utext \<Rightarrow> utext \<Rightarrow> (utext \<times> utext) option" where
  "split_first p s =
     (if prefix p s then Some ([], drop (length p) s)
      else case s of [] \<Rightarrow> None | c # t \<Rightarrow> map_option (apfst ((#) c)) (split_first p t))"

declare split_first.simps [simp del]

definition break_code :: "int \<Rightarrow> bool" where
  "break_code c = (c \<in> {10, 11, 12, 13, 28, 29, 30, 133, 8232, 8233})"

function lines_of :: "utext \<Rightarrow> utext list" where
  "lines_of s =
     (case s of
        [] \<Rightarrow> []
      | _ \<Rightarrow> takeWhile (\<lambda>c. \<not> break_code c) s #
          (case dropWhile (\<lambda>c. \<not> break_code c) s of
             [] \<Rightarrow> []
           | c # r \<Rightarrow> lines_of (if c = 13 \<and> prefix [10] r then drop 1 r else r)))"
  by pat_completeness auto
termination
proof (relation "measure length")
  fix s x y c r
  assume "s = x # y" and "dropWhile (\<lambda>c. \<not> break_code c) s = c # r"
  then have "length (c # r) \<le> length s" by (metis length_dropWhile_le)
  then show "(if c = (13 :: int) \<and> prefix [10] r then drop 1 r else r, s) \<in> measure length" by auto
qed simp

declare lines_of.simps [simp del]

section \<open>Jobs\<close>

record job =
  job_name :: utext
  job_prefix :: utext
  job_statement :: utext
  job_blueprint :: utext
  job_suffix :: utext

definition two_lines :: utext where
  "two_lines = [10, 10]"

definition helper_text :: "utext \<Rightarrow> utext" where
  "helper_text helpers = (if strip_text helpers = [] then [] else strip_text helpers @ two_lines)"

definition file_text :: "job \<Rightarrow> utext \<Rightarrow> utext \<Rightarrow> utext" where
  "file_text j proof_of helpers =
     rstrip_text (job_prefix j) @ two_lines @ helper_text helpers @ rstrip_text (job_statement j) @ codes '' :='' @ [10] @
     strip_text proof_of @ [10] @ job_suffix j"

section \<open>Comments and strings\<close>

text \<open>What follows a comment of the given depth, and what follows the contents of a string literal.\<close>

function skip_comment :: "nat \<Rightarrow> utext \<Rightarrow> utext" where
  "skip_comment 0 s = s"
| "skip_comment (Suc d) [] = []"
| "skip_comment (Suc d) (c # s) =
     (if prefix (codes ''/-'') (c # s) then skip_comment (Suc (Suc d)) (drop 1 s)
      else if prefix (codes ''-/'') (c # s) then skip_comment d (drop 1 s)
      else skip_comment (Suc d) s)"
  by pat_completeness auto
termination
  by (relation "measure (\<lambda>(d, s). length s)") auto

fun skip_string :: "utext \<Rightarrow> utext" where
  "skip_string [] = []"
| "skip_string [c] = []"
| "skip_string (c # e # s) = (if c = 34 then e # s else if c = 92 then skip_string s else skip_string (e # s))"

definition skip_line :: "utext \<Rightarrow> utext" where
  "skip_line s = dropWhile (\<lambda>c. c \<noteq> 10) s"

lemma skip_comment_suffix: "suffix (skip_comment d s) s"
  by (induction d s rule: skip_comment.induct) (auto intro: suffix_order.trans [OF _ suffix_drop] suffix_ConsI)

lemma skip_string_suffix: "suffix (skip_string s) s"
  by (induction s rule: skip_string.induct) (auto intro: suffix_ConsI)

lemma skip_line_suffix: "suffix (skip_line s) s"
  by (simp add: skip_line_def suffix_dropWhile)

lemmas skip_lengths = skip_comment_suffix [THEN suffix_length_le] skip_string_suffix [THEN suffix_length_le]
  skip_line_suffix [THEN suffix_length_le]

lemma skip_line_shorter: "prefix (codes ''--'') (c # s) \<Longrightarrow> length (skip_line (c # s)) \<le> length s"
  by (auto simp: codes_def skip_line_def intro: length_dropWhile_le)

function strip_comments_and_strings :: "utext \<Rightarrow> utext" where
  "strip_comments_and_strings [] = []"
| "strip_comments_and_strings (c # s) =
     (if prefix (codes ''--'') (c # s) then strip_comments_and_strings (skip_line (c # s))
      else if prefix (codes ''/-'') (c # s) then 32 # strip_comments_and_strings (skip_comment 1 (drop 1 s))
      else if c = 34 then 34 # 34 # strip_comments_and_strings (skip_string s)
      else c # strip_comments_and_strings s)"
  by pat_completeness auto
termination
proof (relation "measure length")
  fix c :: int and s :: utext
  assume "prefix (codes ''--'') (c # s)"
  then show "(skip_line (c # s), c # s) \<in> measure length" using skip_line_shorter [of c s] by simp
next
  fix c :: int and s :: utext
  show "(skip_comment 1 (drop 1 s), c # s) \<in> measure length" using skip_lengths(1) [of 1 "drop 1 s"] by simp
next
  fix c :: int and s :: utext
  show "(skip_string s, c # s) \<in> measure length" using skip_lengths(2) [of s] by simp
qed auto

section \<open>The screen\<close>

definition FORBIDDEN_WORDS :: "string list" where
  "FORBIDDEN_WORDS = [''so'' @ ''rry'', ''admit'', ''native_decide'', ''axiom'', ''implemented_by'', ''extern'', ''unsafe'',
     ''opaque'', ''run_cmd'', ''run_elab'', ''run_meta'', ''run_tac'', ''elab'', ''elab_rules'', ''macro'', ''macro_rules'',
     ''syntax'', ''initialize'', ''builtin_initialize'', ''skipKernelTC'']"

definition FORBIDDEN_COMMANDS :: "string list" where
  "FORBIDDEN_COMMANDS = [''#eval'', ''#exit'', ''#guard_msgs'']"

definition FORBIDDEN_ATTRIBUTES :: "string list" where
  "FORBIDDEN_ATTRIBUTES = [''extern'', ''implemented_by'', ''csimp'']"

definition starts_word :: "(int \<Rightarrow> bool) \<Rightarrow> utext \<Rightarrow> bool" where
  "starts_word wide s = (case s of [] \<Rightarrow> False | c # _ \<Rightarrow> word_code wide c)"

definition match_forbidden_word :: "(int \<Rightarrow> bool) \<Rightarrow> utext \<Rightarrow> utext option" where
  "match_forbidden_word wide s =
     (case find (\<lambda>w. prefix (codes w) s \<and> \<not> starts_word wide (drop (length w) s)) FORBIDDEN_WORDS of
        Some w \<Rightarrow> Some (codes w)
      | None \<Rightarrow>
          if prefix (codes ''debug.'') s then Some (codes ''debug.'' @ takeWhile (\<lambda>c. word_code wide c \<or> c = 46) (drop 6 s))
          else None)"

definition match_attribute :: "utext \<Rightarrow> utext option" where
  "match_attribute s =
     (if \<not> prefix (codes ''@['') s then None
      else let blanks = takeWhile space_code (drop 2 s); r = dropWhile space_code (drop 2 s)
        in map_option (\<lambda>w. codes ''@['' @ blanks @ codes w) (find (\<lambda>w. prefix (codes w) r) FORBIDDEN_ATTRIBUTES))"

definition match_forbidden :: "(int \<Rightarrow> bool) \<Rightarrow> int option \<Rightarrow> utext \<Rightarrow> utext option" where
  "match_forbidden wide prev s =
     (let word = (case prev of
           Some p \<Rightarrow> if word_code wide p \<or> p = 46 then None else match_forbidden_word wide s
         | None \<Rightarrow> match_forbidden_word wide s)
      in case word of
           Some m \<Rightarrow> Some m
         | None \<Rightarrow> (case find (\<lambda>w. prefix (codes w) s) FORBIDDEN_COMMANDS of
               Some w \<Rightarrow> Some (codes w)
             | None \<Rightarrow> match_attribute s))"

primrec search_forbidden :: "(int \<Rightarrow> bool) \<Rightarrow> int option \<Rightarrow> utext \<Rightarrow> utext option" where
  "search_forbidden wide prev [] = None"
| "search_forbidden wide prev (c # s) =
     (case match_forbidden wide prev (c # s) of Some m \<Rightarrow> Some m | None \<Rightarrow> search_forbidden wide (Some c) s)"

definition forbidden :: "(int \<Rightarrow> bool) \<Rightarrow> utext \<Rightarrow> utext option" where
  "forbidden wide s = search_forbidden wide None (strip_comments_and_strings s)"

section \<open>The split of a declaration\<close>

text \<open>The brackets: three of ASCII, the angle, the double curly and the double square ones.\<close>

definition OPEN :: "int list" where
  "OPEN = [40, 91, 123, 0x27E8, 0x2983, 0x27E6]"

definition CLOSE :: "int list" where
  "CLOSE = [41, 93, 125, 0x27E9, 0x2984, 0x27E7]"

definition match_binds :: "(int \<Rightarrow> bool) \<Rightarrow> utext \<Rightarrow> utext option" where
  "match_binds wide s =
     map_option codes (find (\<lambda>w. prefix (codes w) s \<and>
        (case drop (length w) s of [] \<Rightarrow> True | c # _ \<Rightarrow> \<not> word_code wide c \<and> c \<noteq> 39)) [''let'', ''have''])"

definition binds_here :: "(int \<Rightarrow> bool) \<Rightarrow> int option \<Rightarrow> utext \<Rightarrow> utext option" where
  "binds_here wide prev s =
     (case prev of
        Some p \<Rightarrow> if alnum_code wide p \<or> p \<in> {95, 46, 39} then None else match_binds wide s
      | None \<Rightarrow> match_binds wide s)"

text \<open>One turn of the loop: the proof starts here, or some text is passed with new counters.\<close>

datatype turn = Proof_starts | Pass utext nat nat

definition passed :: "utext \<Rightarrow> utext \<Rightarrow> utext" where
  "passed s rest = List.take (length s - length rest) s"

definition split_turn :: "(int \<Rightarrow> bool) \<Rightarrow> int option \<Rightarrow> nat \<Rightarrow> nat \<Rightarrow> int \<Rightarrow> utext \<Rightarrow> turn" where
  "split_turn wide prev depth pending c s =
     (if prefix (codes ''--'') (c # s) then Pass (passed (c # s) (skip_line (c # s))) depth pending
      else if prefix (codes ''/-'') (c # s) then Pass (passed (c # s) (skip_comment 1 (drop 1 s))) depth pending
      else if c = 34 then Pass (passed (c # s) (skip_string s)) depth pending
      else if c \<in> set OPEN then Pass [c] (Suc depth) pending
      else if c \<in> set CLOSE then Pass [c] (depth - 1) pending
      else if depth = 0 then
        if prefix (codes '':='') (c # s) then (if pending = 0 then Proof_starts else Pass (codes '':='') depth (pending - 1))
        else (case binds_here wide prev (c # s) of
                Some w \<Rightarrow> Pass w depth (Suc pending)
              | None \<Rightarrow> Pass [c] depth pending)
      else Pass [c] depth pending)"

lemma passed_suffix: "suffix r s \<Longrightarrow> passed s r @ r = s"
  by (auto simp: passed_def suffix_def)

lemma match_binds_prefix: "match_binds wide s = Some w \<Longrightarrow> w \<noteq> [] \<and> prefix w s"
  unfolding match_binds_def find.simps by (auto simp: codes_def split: if_splits)

lemma split_turn_passes:
  assumes "split_turn wide prev depth pending c s = Pass w d p"
  shows "w \<noteq> []" and "prefix w (c # s)"
proof -
  have line: "suffix (skip_line (c # s)) s" if "prefix (codes ''--'') (c # s)"
    using that by (auto simp: codes_def skip_line_def suffix_dropWhile intro: suffix_ConsI)
  have cut: "passed (c # s) r \<noteq> [] \<and> prefix (passed (c # s) r) (c # s)" if "suffix r s" for r
    using that by (auto simp: passed_def suffix_def take_is_prefix)
  have comment: "suffix (skip_comment 1 (drop 1 s)) s"
    using skip_comment_suffix [of 1 "drop 1 s"] suffix_drop [of 1 s] suffix_order.trans by blast
  from assms have "w \<noteq> [] \<and> prefix w (c # s)"
    using cut [OF line] cut [OF comment] cut [OF skip_string_suffix] match_binds_prefix [of wide "c # s"]
    by (auto simp: split_turn_def binds_here_def codes_def split: if_splits option.splits)
  then show "w \<noteq> []" "prefix w (c # s)" by blast+
qed

function split_from :: "(int \<Rightarrow> bool) \<Rightarrow> int option \<Rightarrow> nat \<Rightarrow> nat \<Rightarrow> utext \<Rightarrow> (utext \<times> utext) option" where
  "split_from wide prev depth pending [] = None"
| "split_from wide prev depth pending (c # s) =
     (case split_turn wide prev depth pending c s of
        Proof_starts \<Rightarrow> Some ([], drop 2 (c # s))
      | Pass w d p \<Rightarrow> map_option (apfst ((@) w)) (split_from wide (Some (last w)) d p (drop (length w) (c # s))))"
  by pat_completeness auto
termination
proof (relation "measure (\<lambda>(wide, prev, depth, pending, s). length s)")
  fix wide :: "int \<Rightarrow> bool" and prev depth pending c s w d p
  assume "split_turn wide prev depth pending c s = Pass w d p"
  from split_turn_passes(1) [OF this]
  show "((wide, Some (last w), d, p, drop (length w) (c # s)), wide, prev, depth, pending, c # s)
      \<in> measure (\<lambda>(wide, prev, depth, pending, s). length s)" by (cases w) auto
qed simp

definition split_decl :: "(int \<Rightarrow> bool) \<Rightarrow> utext \<Rightarrow> (utext \<times> utext) option" where
  "split_decl wide chunk = split_from wide None 0 0 chunk"

section \<open>Replies and answers\<close>

text \<open>\<open>re.findall(f'<{tag}>\\s*(.*?)\\s*</{tag}>')[-1]\<close>.\<close>

lemma split_first_parts: "split_first p s = Some (a, r) \<Longrightarrow> s = a @ p @ r"
proof (induction p s arbitrary: a r rule: split_first.induct)
  case (1 p s)
  show ?case
  proof (cases "prefix p s")
    case True
    then show ?thesis using "1.prems" by (subst (asm) split_first.simps) (auto simp: prefix_def)
  next
    case False
    with "1.prems" obtain c t where s: "s = c # t" by (subst (asm) split_first.simps) (auto split: list.splits)
    with False "1.prems" obtain a' where "split_first p t = Some (a', r)" "a = c # a'"
      by (subst (asm) split_first.simps) (auto simp: apfst_def map_prod_def split: prod.splits)
    with "1.IH" [OF False s] s show ?thesis by simp
  qed
qed

function tagged :: "utext \<Rightarrow> utext \<Rightarrow> utext list" where
  "tagged tag s =
     (case split_first (60 # tag @ [62]) s of
        None \<Rightarrow> []
      | Some (a, r) \<Rightarrow>
          (case split_first (60 # 47 # tag @ [62]) r of
             None \<Rightarrow> []
           | Some (body, rest) \<Rightarrow> strip_text body # tagged tag rest))"
  by pat_completeness auto
termination
  by (relation "measure (\<lambda>(tag, s). length s)") (auto dest!: split_first_parts)

declare tagged.simps [simp del]

definition extract_tag :: "string \<Rightarrow> utext \<Rightarrow> utext option" where
  "extract_tag tag s = (case tagged (codes tag) s of [] \<Rightarrow> None | ts \<Rightarrow> Some (last ts))"

primrec leftmost :: "(utext \<Rightarrow> 'a option) \<Rightarrow> utext \<Rightarrow> 'a option" where
  "leftmost m [] = m []"
| "leftmost m (c # s) = (case m (c # s) of Some x \<Rightarrow> Some x | None \<Rightarrow> leftmost m s)"

text \<open>\<open>'[^']*NAME' tail\<close>: the quoted text only has to end with the name; the longest start is tried first.\<close>

definition quoted_end :: "utext \<Rightarrow> utext \<Rightarrow> (utext \<Rightarrow> bool) \<Rightarrow> utext \<Rightarrow> utext option" where
  "quoted_end name tail ok s =
     (if \<not> prefix [39] s then None
      else let t = drop 1 s; w = name @ 39 # tail in
        map_option (\<lambda>k. drop (k + length w) t)
          (find (\<lambda>k. prefix w (drop k t) \<and> ok (drop (k + length w) t)) (rev [0..<Suc (length (takeWhile (\<lambda>c. c \<noteq> 39) t))])))"

definition depends_on :: "utext \<Rightarrow> utext \<Rightarrow> utext option" where
  "depends_on name s =
     map_option (takeWhile (\<lambda>c. c \<noteq> 93)) (quoted_end name (codes '' depends on axioms: ['') (\<lambda>r. 93 \<in> set r) s)"

definition depends_on_none :: "utext \<Rightarrow> utext \<Rightarrow> utext option" where
  "depends_on_none name s = quoted_end name (codes '' does not depend on any axioms'') (\<lambda>r. True) s"

fun split_on :: "int \<Rightarrow> utext \<Rightarrow> utext list" where
  "split_on c [] = [[]]"
| "split_on c (x # xs) =
     (if x = c then [] # split_on c xs
      else (case split_on c xs of [] \<Rightarrow> [[x]] | w # ws \<Rightarrow> (x # w) # ws))"

fun join_text :: "utext \<Rightarrow> utext list \<Rightarrow> utext" where
  "join_text sep [] = []"
| "join_text sep [s] = s"
| "join_text sep (s # t # ss) = s @ sep @ join_text sep (t # ss)"

definition last_codes :: "nat \<Rightarrow> utext \<Rightarrow> utext" where
  "last_codes n s = drop (length s - n) s"

definition error_lines :: "utext \<Rightarrow> utext list" where
  "error_lines out = filter (\<lambda>l. sublist (codes '': error'') l) (lines_of out)"

definition axioms_read :: "utext \<Rightarrow> utext \<Rightarrow> utext list option" where
  "axioms_read name out =
     (case leftmost (depends_on_none name) out of
        Some r \<Rightarrow> Some []
      | None \<Rightarrow> map_option (\<lambda>g. map strip_text (split_on 44 g)) (leftmost (depends_on name) out))"

text \<open>
  \<open>lean_check\<close>: Lean runs on the text with a request for the axioms appended. \<open>lean\<close> is \<open>None\<close> on a
  timeout, else the exit code and what was printed.
\<close>

definition probe_text :: "utext \<Rightarrow> utext \<Rightarrow> utext" where
  "probe_text source name = source @ [10] @ codes ''#print axioms '' @ name @ [10]"

definition lean_check :: "(utext \<Rightarrow> (int \<times> utext) option) \<Rightarrow> utext \<Rightarrow> utext \<Rightarrow> bool \<times> utext list \<times> utext" where
  "lean_check lean source name =
     (case lean (probe_text source name) of
        None \<Rightarrow> (False, [], codes ''lean timeout'')
      | Some (code, out) \<Rightarrow>
          let errors = error_lines out; read = axioms_read name out;
              axioms = (case read of Some as \<Rightarrow> as | None \<Rightarrow> []);
              shown = join_text [10] (List.take 20 errors)
          in (code = 0 \<and> errors = [] \<and> read \<noteq> None \<and> set axioms \<subseteq> codes ` set ALLOWED_AXIOMS,
              axioms, if shown \<noteq> [] then shown else last_codes 2000 out))"

section \<open>The jobs of a file\<close>

definition keyword :: "string \<Rightarrow> utext \<Rightarrow> utext option" where
  "keyword w s =
     (if prefix (codes w) s \<and> (case drop (length w) s of [] \<Rightarrow> False | c # _ \<Rightarrow> space_code c)
      then Some (lstrip_text (drop (length w) s)) else None)"

definition skip_attributes :: "utext \<Rightarrow> utext option" where
  "skip_attributes s =
     (if prefix (codes ''@['') s then
        (case dropWhile (\<lambda>c. c \<noteq> 93) (drop 2 s) of [] \<Rightarrow> None | _ # r \<Rightarrow> Some (lstrip_text r))
      else Some s)"

definition skip_modifier :: "utext \<Rightarrow> utext" where
  "skip_modifier s =
     (case keyword ''private'' s of
        Some r \<Rightarrow> r
      | None \<Rightarrow> (case keyword ''protected'' s of Some r \<Rightarrow> r | None \<Rightarrow> s))"

text \<open>\<open>DECL\<close> at the start of a line: the name of the declaration and what follows it.\<close>

definition match_decl :: "utext \<Rightarrow> (utext \<times> utext) option" where
  "match_decl s =
     (case skip_attributes s of
        None \<Rightarrow> None
      | Some s1 \<Rightarrow>
          let s2 = skip_modifier s1;
              body = (case keyword ''theorem'' s2 of Some r \<Rightarrow> Some r | None \<Rightarrow> keyword ''lemma'' s2)
          in (case body of
                None \<Rightarrow> None
              | Some r \<Rightarrow> if r = [] then None
                  else Some (takeWhile (\<lambda>c. \<not> space_code c) r, dropWhile (\<lambda>c. \<not> space_code c) r)))"

text \<open>\<open>DECL.finditer\<close>: each match as the text from its start, with the name.\<close>

function find_decls :: "bool \<Rightarrow> utext \<Rightarrow> (utext \<times> utext) list" where
  "find_decls at_line [] = []"
| "find_decls at_line (c # s) =
     (case (if at_line then match_decl (c # s) else None) of
        Some (name, r) \<Rightarrow> (c # s, name) # find_decls False (drop (length s - length r) s)
      | None \<Rightarrow> find_decls (c = 10) s)"
  by pat_completeness auto
termination
  by (relation "measure (\<lambda>(at_line, s). length s)") auto

text \<open>\<open>re.findall(r'/--(.*?)-/\\s*$', text)[-1].strip()\<close>: from the first opening of a doc comment.\<close>

definition doc_comment :: "utext \<Rightarrow> utext" where
  "doc_comment before =
     (let body = rstrip_text before in
      if suffix (codes ''-/'') body then
        (case split_first (codes ''/--'') (List.take (length body - 2) body) of
           Some (a, r) \<Rightarrow> strip_text r | None \<Rightarrow> [])
      else [])"

text \<open>\<open>re.fullmatch(r'\\s*(by\\s+)?sorry\\s*', first)\<close> on the proof's first paragraph.\<close>

definition is_open_proof :: "utext \<Rightarrow> bool" where
  "is_open_proof proof_of =
     (let cleaned = strip_comments_and_strings proof_of;
          first = (case split_first two_lines cleaned of Some (a, r) \<Rightarrow> a | None \<Rightarrow> cleaned);
          s = lstrip_text first; s1 = (case keyword ''by'' s of Some r \<Rightarrow> r | None \<Rightarrow> s)
      in prefix (codes (''so'' @ ''rry'')) s1 \<and> list_all space_code (drop 5 s1))"

definition job_of :: "(int \<Rightarrow> bool) \<Rightarrow> utext list \<Rightarrow> utext \<Rightarrow> (utext \<times> utext) \<times> utext \<Rightarrow> job list" where
  "job_of wide names source = (\<lambda>((here, name), next).
     case split_decl wide (List.take (length here - length next) here) of
       None \<Rightarrow> []
     | Some (stmt, prf) \<Rightarrow>
         let before = List.take (length source - length here) source in
         if (if names \<noteq> [] then name \<in> set names else is_open_proof prf)
         then [\<lparr>job_name = name, job_prefix = before, job_statement = stmt, job_blueprint = doc_comment before, job_suffix = []\<rparr>]
         else [])"

definition jobs_from_file :: "(int \<Rightarrow> bool) \<Rightarrow> utext list \<Rightarrow> utext \<Rightarrow> job list" where
  "jobs_from_file wide names source =
     (let ds = find_decls True source in concat (map (job_of wide names source) (zip ds (map fst (drop 1 ds) @ [[]]))))"

section \<open>What the split and the jobs keep\<close>

lemma split_from_parts: "split_from wide prev depth pending s = Some (stmt, prv) \<Longrightarrow> s = stmt @ codes '':='' @ prv"
proof (induction wide prev depth pending s arbitrary: stmt rule: split_from.induct)
  case (2 wide prev depth pending c s)
  show ?case
  proof (cases "split_turn wide prev depth pending c s")
    case Proof_starts
    then have "prefix (codes '':='') (c # s)" by (auto simp: split_turn_def split: if_splits option.splits)
    with Proof_starts "2.prems" show ?thesis by (auto simp: prefix_def codes_def)
  next
    case (Pass w d p)
    with "2.prems" obtain st where st: "split_from wide (Some (last w)) d p (drop (length w) (c # s)) = Some (st, prv)"
      and stmt: "stmt = w @ st" by (auto simp: apfst_def map_prod_def split: prod.splits)
    have "drop (length w) (c # s) = st @ codes '':='' @ prv" by (rule "2.IH" [OF Pass st])
    moreover have "c # s = w @ drop (length w) (c # s)"
      using split_turn_passes(2) [OF Pass] by (auto simp: prefix_def)
    ultimately show ?thesis using stmt by simp
  qed
qed simp

lemma suffix_of_drop: "suffix a (drop n s) \<Longrightarrow> suffix a s"
  using suffix_drop suffix_order.trans by blast

lemma find_decls_suffix: "(here, name) \<in> set (find_decls at_line s) \<Longrightarrow> suffix here s"
proof (induction at_line s rule: find_decls.induct)
  case (2 at_line c s)
  show ?case
  proof (cases "if at_line then match_decl (c # s) else None")
    case None
    with "2.IH"(1) "2.prems" show ?thesis by (auto intro: suffix_ConsI)
  next
    case (Some nr)
    then obtain n r where nr: "nr = (n, r)" by (cases nr)
    from "2.IH"(2) [OF Some nr [symmetric]] "2.prems" Some nr
    have "here = c # s \<or> suffix here (drop (length s - length r) s)" by auto
    then show ?thesis by (auto intro: suffix_ConsI dest: suffix_of_drop)
  qed
qed simp

lemma job_pieces:
  assumes "j \<in> set (jobs_from_file wide names source)"
  shows "\<exists>prv rest. source = job_prefix j @ job_statement j @ codes '':='' @ prv @ rest \<and>
    (if names = [] then is_open_proof prv else job_name j \<in> set names) \<and> job_suffix j = []"
proof -
  let ?ds = "find_decls True source"
  from assms obtain here name nxt where dn: "((here, name), nxt) \<in> set (zip ?ds (map fst (drop 1 ?ds) @ [[]]))"
    and j: "j \<in> set (job_of wide names source ((here, name), nxt))"
    unfolding jobs_from_file_def Let_def set_concat by auto
  from dn have "(here, name) \<in> set ?ds" by (rule set_zip_leftD)
  then have "suffix here source" by (rule find_decls_suffix)
  then have src: "source = List.take (length source - length here) source @ here" by (auto simp: suffix_def)
  let ?n = "length here - length nxt"
  from j have "split_decl wide (List.take ?n here) \<noteq> None"
    by (cases "split_decl wide (List.take ?n here)") (simp_all add: job_of_def)
  then obtain stmt prv where sp: "split_decl wide (List.take ?n here) = Some (stmt, prv)"
    by (metis option.exhaust surj_pair)
  from j have wanted: "if names \<noteq> [] then name \<in> set names else is_open_proof prv"
    and fields: "job_name j = name" "job_prefix j = List.take (length source - length here) source" "job_statement j = stmt"
      "job_suffix j = []"
    by (simp_all add: job_of_def sp Let_def split: if_splits)
  have "here = stmt @ codes '':='' @ prv @ drop ?n here"
    using split_from_parts [OF sp [unfolded split_decl_def]] append_take_drop_id [of ?n here] by simp
  then have "source = job_prefix j @ job_statement j @ codes '':='' @ prv @ drop ?n here"
    using src fields by simp
  then show ?thesis using wanted fields by (intro exI [of _ prv] exI [of _ "drop ?n here"]) auto
qed


definition demo_file :: utext where
  "demo_file = codes ''import A'' @ [10] @ codes ''/-- d -/'' @ [10] @ codes ''theorem t : (a := 1) = 1 := by '' @
     codes (''so'' @ ''rry'')"

definition ascii_only :: "int \<Rightarrow> bool" where
  "ascii_only c = False"

definition demo_job :: job where
  "demo_job = \<lparr>job_name = codes ''t'', job_prefix = codes ''import A'' @ [10] @ codes ''/-- d -/'' @ [10],
     job_statement = codes ''theorem t : (a := 1) = 1 '', job_blueprint = codes ''d'', job_suffix = []\<rparr>"

lemma demo_jobs: "jobs_from_file ascii_only [] demo_file = [demo_job]"
  by code_simp


end
