(* ===== verification/ProverLoop.thy ===== *)
theory ProverLoop
  imports ProverText ClaimText
begin

text \<open>
  The proving agent's loop, \<open>src/src/autoform/harness/prover.py\<close>: the shared budget, the snapshot and
  the restoration of the Lean root, the proof cache, the acceptance of a proof and the attempts at a
  job. The agent, Lean, git and the hash are parameters; times are left out.
\<close>

section \<open>The budget\<close>

record budget =
  bg_limit :: "real option"
  bg_spent :: real
  bg_reserved :: real
  bg_estimate :: real
  bg_call_cap :: real

definition CALL_CAP_USD :: real where
  "CALL_CAP_USD = 15 / 10"

definition make_budget :: "real option \<Rightarrow> real \<Rightarrow> real option \<Rightarrow> budget" where
  "make_budget limit estimate cap =
     \<lparr>bg_limit = limit, bg_spent = 0, bg_reserved = 0, bg_estimate = estimate,
      bg_call_cap = (case cap of None \<Rightarrow> CALL_CAP_USD | Some c \<Rightarrow> c)\<rparr>"

definition exhausted :: "budget \<Rightarrow> bool" where
  "exhausted b = (case bg_limit b of None \<Rightarrow> False | Some l \<Rightarrow> l \<le> bg_spent b + bg_reserved b)"

definition claim_amount :: "real \<Rightarrow> budget \<Rightarrow> real \<times> budget" where
  "claim_amount amount b = (amount, b\<lparr>bg_reserved := bg_reserved b + amount\<rparr>)"

definition reserve :: "budget \<Rightarrow> real \<times> budget" where
  "reserve b =
     (case bg_limit b of
        None \<Rightarrow> claim_amount (bg_call_cap b) b
      | Some l \<Rightarrow>
          let amount = min (bg_call_cap b) (l - bg_spent b - bg_reserved b)
          in if amount + 1 / 10 ^ 9 < min (bg_estimate b) (bg_call_cap b) then (0, b) else claim_amount amount b)"

definition charge :: "real \<Rightarrow> real \<Rightarrow> budget \<Rightarrow> budget" where
  "charge usd reserved b = b\<lparr>bg_reserved := max 0 (bg_reserved b - reserved), bg_spent := bg_spent b + usd\<rparr>"

section \<open>The Lean root\<close>

text \<open>A snapshot: the tracked files that differ from the commit, with their contents, and the untracked ones.\<close>

record snap =
  sn_dirty :: "(string \<times> string option) list"
  sn_untracked :: "string list"

lemma after_first_shorter: "after_first p s = Some r \<Longrightarrow> p \<noteq> [] \<Longrightarrow> length r < length s"
proof (induction s)
  case Nil
  then show ?case by (subst (asm) after_first.simps) (auto simp: startswith_def split: if_splits)
next
  case (Cons c s)
  show ?case
  proof (cases "startswith (c # s) p")
    case True
    then show ?thesis using Cons.prems by (subst (asm) after_first.simps) (auto simp: startswith_def dest: prefix_length_le)
  next
    case False
    then have "after_first p s = Some r" using Cons.prems by (subst (asm) after_first.simps) simp
    from Cons.IH [OF this Cons.prems(2)] show ?thesis by simp
  qed
qed

function last_piece :: "string \<Rightarrow> string" where
  "last_piece s = (case after_first '' -> '' s of None \<Rightarrow> s | Some r \<Rightarrow> last_piece r)"
  by pat_completeness auto
termination
  by (relation "measure length") (auto dest: after_first_shorter)

declare last_piece.simps [simp del]

definition unquoted :: "string \<Rightarrow> string" where
  "unquoted s = (let q = (\<lambda>c. c = CHR 0x22) in rev (dropWhile q (rev (dropWhile q s))))"

text \<open>\<open>git status --porcelain\<close> as its lines, \<open>None\<close> where git cannot tell.\<close>

definition add_line :: "(string \<Rightarrow> string option) \<Rightarrow> snap \<Rightarrow> string \<Rightarrow> snap" where
  "add_line content s entry_line =
     (let path = unquoted (last_piece (drop 3 entry_line))
      in if startswith entry_line ''??'' then s\<lparr>sn_untracked := path # sn_untracked s\<rparr>
         else s\<lparr>sn_dirty := AList.update path (content path) (sn_dirty s)\<rparr>)"

definition snapshot :: "string list option \<Rightarrow> (string \<Rightarrow> string option) \<Rightarrow> snap option" where
  "snapshot status content = map_option (foldl (add_line content) \<lparr>sn_dirty = [], sn_untracked = []\<rparr>) status"

definition PROOF_INPUTS :: "string list" where
  "PROOF_INPUTS = [''lakefile.toml'', ''lakefile.lean'', ''lean-toolchain'', ''lake-manifest.json'']"

definition proof_relevant :: "string \<Rightarrow> bool" where
  "proof_relevant path = list_ex (\<lambda>p. after_last (CHR ''/'') p \<in> set PROOF_INPUTS \<or> endswith p ''.lean'') [path, chop path]"

text \<open>What restoring does to the file tree.\<close>

datatype fileop = Save string | Put string string | Unlink string | Checkout string

definition changed_paths :: "snap \<Rightarrow> snap \<Rightarrow> string list" where
  "changed_paths before after =
     map fst (filter (\<lambda>(p, c). case map_of (sn_dirty before) p of
                                 None \<Rightarrow> c \<noteq> Some (CHR 0x00 # ''clean'') | Some old \<Rightarrow> old \<noteq> c) (sn_dirty after)) @
     filter (\<lambda>p. p \<notin> fst ` set (sn_dirty after)) (map fst (sn_dirty before))"

definition undo_change :: "snap \<Rightarrow> string \<times> string option \<Rightarrow> fileop list" where
  "undo_change before = (\<lambda>(p, c).
     if \<not> proof_relevant p then []
     else (case map_of (sn_dirty before) p of
             None \<Rightarrow> [Checkout p]
           | Some old \<Rightarrow> if c = old then [] else (case old of None \<Rightarrow> [Unlink p] | Some t \<Rightarrow> [Put p t])))"

definition undo_cleaning :: "snap \<Rightarrow> string \<times> string option \<Rightarrow> fileop list" where
  "undo_cleaning after = (\<lambda>(p, c).
     if proof_relevant p \<and> p \<notin> fst ` set (sn_dirty after) then (case c of None \<Rightarrow> [] | Some t \<Rightarrow> [Put p t]) else [])"

definition op_path :: "fileop \<Rightarrow> string" where
  "op_path oper = (case oper of Save p \<Rightarrow> p | Put p t \<Rightarrow> p | Unlink p \<Rightarrow> p | Checkout p \<Rightarrow> p)"

record restoration =
  re_ops :: "fileop list"
  re_restored :: "string list"
  re_untracked :: "string list"
  re_other :: "string list"

definition restore_ops :: "snap \<Rightarrow> snap \<Rightarrow> fileop list" where
  "restore_ops before after = concat (map (undo_change before) (sn_dirty after)) @ concat (map (undo_cleaning after) (sn_dirty before))"

definition restore :: "snap option \<Rightarrow> snap option \<Rightarrow> bool \<Rightarrow> (string \<Rightarrow> bool) \<Rightarrow> restoration" where
  "restore before after backup isfile =
     (case (before, after) of
        (Some b, Some a) \<Rightarrow>
          let changed = sorted_set (changed_paths b a); saved = filter (\<lambda>p. proof_relevant p \<and> backup \<and> isfile p) changed
          in \<lparr>re_ops = map Save saved @ restore_ops b a,
              re_restored = sorted_set (map op_path (restore_ops b a)),
              re_untracked = sorted_set (filter (\<lambda>p. p \<notin> set (sn_untracked b)) (sn_untracked a)),
              re_other = filter (\<lambda>p. \<not> proof_relevant p) changed\<rparr>
      | _ \<Rightarrow> \<lparr>re_ops = [], re_restored = [], re_untracked = [], re_other = []\<rparr>)"

section \<open>The cache\<close>

type_synonym proofs = "(string \<times> utext \<times> utext) list"

definition job_key :: "(utext \<Rightarrow> string) \<Rightarrow> job \<Rightarrow> utext option \<Rightarrow> utext option \<Rightarrow> string" where
  "job_key digest j toolchain manifest =
     digest (concat (map (\<lambda>part. part @ [0]) [job_prefix j, job_statement j,
       (case toolchain of None \<Rightarrow> codes ''-'' | Some t \<Rightarrow> t), (case manifest of None \<Rightarrow> codes ''-'' | Some t \<Rightarrow> t)]))"

definition proof_get :: "proofs option \<Rightarrow> string \<Rightarrow> (utext \<times> utext) option" where
  "proof_get cache key = (case cache of None \<Rightarrow> None | Some m \<Rightarrow> map_of m key)"

definition proof_put :: "proofs option \<Rightarrow> string \<Rightarrow> utext \<Rightarrow> utext \<Rightarrow> proofs option" where
  "proof_put cache key prv helpers = map_option (AList.update key (prv, helpers)) cache"

section \<open>Acceptance\<close>

record result =
  rs_name :: utext
  rs_status :: string
  rs_proof :: utext
  rs_helpers :: utext
  rs_reason :: utext
  rs_axioms :: "utext list"
  rs_cost :: real
  rs_certificate :: "utext option"
  rs_certificate_sha :: "string option"
  rs_cached :: bool
  rs_restored :: "string list"
  rs_untracked :: "string list"
  rs_transcripts :: "utext list"

datatype agent_run = Reply utext real | Timed_out | Crashed utext

text \<open>What the loop relies on: the Unicode table, Lean, the agent, the snapshots around an attempt, the hash.\<close>

record prover =
  pv_wide :: "int \<Rightarrow> bool"
  pv_lean :: "utext \<Rightarrow> (int \<times> utext) option"
  pv_agent :: "nat \<Rightarrow> utext \<Rightarrow> real \<Rightarrow> agent_run"
  pv_no_agent :: "utext option"
  pv_snapshots :: "nat \<Rightarrow> snap option \<times> snap option"
  pv_is_file :: "nat \<Rightarrow> string \<Rightarrow> bool"
  pv_digest :: "utext \<Rightarrow> string"
  pv_toolchain :: "utext option"
  pv_manifest :: "utext option"

text \<open>\<open>_accept\<close>: either why not, or the axioms and the file that was checked.\<close>

definition accept :: "prover \<Rightarrow> job \<Rightarrow> utext \<Rightarrow> utext \<Rightarrow> utext + (utext list \<times> utext)" where
  "accept pv j prv helpers =
     (case (case forbidden (pv_wide pv) prv of Some m \<Rightarrow> Some m | None \<Rightarrow> forbidden (pv_wide pv) helpers) of
        Some bad \<Rightarrow> Inl (codes ''proof or helpers contain a forbidden construct: '' @ bad)
      | None \<Rightarrow>
          let final = file_text j prv helpers
          in (case lean_check (pv_lean pv) final (job_name j) of
                (ok, axioms, detail) \<Rightarrow>
                  if ok then Inr (axioms, final) else Inl (codes ''independent check failed:'' @ [10] @ detail)))"

definition proved :: "prover \<Rightarrow> job \<Rightarrow> utext \<Rightarrow> utext \<Rightarrow> utext list \<times> utext \<Rightarrow> real \<Rightarrow> result" where
  "proved pv j prv helpers checked cost =
     \<lparr>rs_name = job_name j, rs_status = ''PROVED'', rs_proof = prv, rs_helpers = helpers, rs_reason = [],
      rs_axioms = fst checked, rs_cost = py_round 4 cost, rs_certificate = Some (snd checked),
      rs_certificate_sha = Some (pv_digest pv (snd checked)), rs_cached = False, rs_restored = [], rs_untracked = [],
      rs_transcripts = []\<rparr>"

section \<open>The attempts\<close>

record attempts =
  at_cost :: real
  at_reason :: utext
  at_status :: string
  at_restored :: "string list"
  at_untracked :: "string list"
  at_transcripts :: "utext list"
  at_budget :: "budget option"

definition claim_cap :: "budget option \<Rightarrow> real \<times> budget option" where
  "claim_cap b = (case b of None \<Rightarrow> (0, None) | Some x \<Rightarrow> apsnd Some (reserve x))"

definition settle_cap :: "real \<Rightarrow> real \<Rightarrow> budget option \<Rightarrow> budget option" where
  "settle_cap c cap b = map_option (charge c cap) b"

definition attempt_file :: "job \<Rightarrow> nat \<Rightarrow> utext" where
  "attempt_file j n = job_name j @ codes (''.attempt'' @ dec n @ ''.lean'')"

definition full_prompt :: "(utext \<Rightarrow> utext) \<Rightarrow> job \<Rightarrow> nat \<Rightarrow> utext \<Rightarrow> utext" where
  "full_prompt prompt j n reason =
     prompt (attempt_file j n) @
     (if reason = [] then []
      else [10, 10] @ codes ''A previous attempt failed independent checking:'' @ [10] @ List.take 3000 reason @ [10])"

definition verdict_of :: "agent_run \<Rightarrow> utext \<Rightarrow> string \<times> utext \<times> utext \<times> real" where
  "verdict_of run reason =
     (case run of
        Reply r c \<Rightarrow> (''FAILED'', reason, r, c)
      | Timed_out \<Rightarrow> (''TIMEOUT'', codes ''agent timed out (process group killed)'', [], 0)
      | Crashed e \<Rightarrow> (''ERROR'', codes ''agent error: '' @ e, [], 0))"

definition transcript_name :: "job \<Rightarrow> nat \<Rightarrow> utext" where
  "transcript_name j n = job_name j @ codes (''.attempt'' @ dec n @ ''.transcript.json'')"

text \<open>The agent runs: its cost is added and charged, the Lean root restored, the transcript kept.\<close>

definition after_agent :: "prover \<Rightarrow> job \<Rightarrow> nat \<Rightarrow> real \<Rightarrow> string \<Rightarrow> utext \<Rightarrow> real \<Rightarrow> restoration \<Rightarrow> attempts \<Rightarrow> attempts" where
  "after_agent pv j n cap status reason c re st =
     st\<lparr>at_cost := at_cost st + c, at_reason := reason, at_status := status,
        at_restored := at_restored st @ re_restored re, at_untracked := at_untracked st @ re_untracked re,
        at_transcripts := at_transcripts st @ [transcript_name j n], at_budget := settle_cap c cap (at_budget st)\<rparr>"

text \<open>The end of an attempt: a checked proof, no further attempt, or another one.\<close>

datatype attempt_end = Stop utext utext "utext list \<times> utext" attempts | Give_up attempts | Again attempts

definition final_result :: "prover \<Rightarrow> job \<Rightarrow> utext \<Rightarrow> utext \<Rightarrow> utext list \<times> utext \<Rightarrow> attempts \<Rightarrow> result" where
  "final_result pv j prv helpers checked st =
     (proved pv j prv helpers checked (at_cost st))
       \<lparr>rs_restored := sorted_set (at_restored st), rs_untracked := sorted_set (at_untracked st), rs_transcripts := at_transcripts st\<rparr>"

text \<open>The reply of an agent that left the Lean root alone is read and its proof checked.\<close>

definition failure_reason :: "utext \<Rightarrow> utext" where
  "failure_reason reply =
     (case extract_tag ''reason'' reply of
        None \<Rightarrow> codes ''agent reported failure''
      | Some r \<Rightarrow> if r = [] then codes ''agent reported failure'' else r)"

definition is_failure :: "utext option \<Rightarrow> bool" where
  "is_failure p = (case p of None \<Rightarrow> True | Some t \<Rightarrow> t = [] \<or> strip_text t = codes ''FAILED'')"

definition judge_reply :: "prover \<Rightarrow> job \<Rightarrow> utext \<Rightarrow> attempts \<Rightarrow> attempt_end" where
  "judge_reply pv j reply st =
     (let found = extract_tag ''proof'' reply;
          helpers = (case extract_tag ''helpers'' reply of Some h \<Rightarrow> h | None \<Rightarrow> [])
      in if is_failure found then Again (st\<lparr>at_reason := failure_reason reply\<rparr>)
         else (case accept pv j (the found) helpers of
                 Inr checked \<Rightarrow> Stop (the found) helpers checked st
               | Inl why \<Rightarrow> Again (st\<lparr>at_reason := why, at_status := ''FAILED''\<rparr>)))"

definition paths_text :: "string list \<Rightarrow> utext" where
  "paths_text ps = codes (''['' @ join '', '' (map repr_str ps) @ '']'')"

definition read_outcome :: "prover \<Rightarrow> job \<Rightarrow> string \<Rightarrow> utext \<Rightarrow> restoration \<Rightarrow> attempts \<Rightarrow> attempt_end" where
  "read_outcome pv j status reply re st =
     (if status \<in> {''TIMEOUT'', ''ERROR''} then Again st
      else if re_restored re \<noteq> [] then
        Again (st\<lparr>at_reason := codes ''agent modified tracked files of the Lean root (restored): '' @ paths_text (re_restored re)\<rparr>)
      else judge_reply pv j reply st)"

definition one_attempt :: "prover \<Rightarrow> (utext \<Rightarrow> utext) \<Rightarrow> job \<Rightarrow> nat \<Rightarrow> attempts \<Rightarrow> attempt_end" where
  "one_attempt pv prompt j n st =
     (let (cap, b) = claim_cap (at_budget st) in
      if b \<noteq> None \<and> cap = 0 then
        Give_up (st\<lparr>at_budget := b, at_status := ''BUDGET'',
          at_reason := (if at_reason st = [] then [] else at_reason st @ [10]) @ codes (''budget exhausted before attempt '' @ dec n)\<rparr>)
      else (case pv_no_agent pv of
              Some why \<Rightarrow> Give_up (st\<lparr>at_budget := b, at_status := ''ERROR'', at_reason := why\<rparr>)
            | None \<Rightarrow>
                (case verdict_of (pv_agent pv n (full_prompt prompt j n (at_reason st)) cap) (at_reason st) of
                   (status, reason, reply, c) \<Rightarrow>
                     let re = restore (fst (pv_snapshots pv n)) (snd (pv_snapshots pv n)) True (pv_is_file pv n);
                         st' = after_agent pv j n cap status reason c re (st\<lparr>at_budget := b\<rparr>)
                     in read_outcome pv j status reply re st')))"

primrec attempt_loop :: "prover \<Rightarrow> (utext \<Rightarrow> utext) \<Rightarrow> job \<Rightarrow> nat list \<Rightarrow> attempts \<Rightarrow> attempt_end" where
  "attempt_loop pv prompt j [] st = Give_up st"
| "attempt_loop pv prompt j (n # ns) st =
     (case one_attempt pv prompt j n st of Again st' \<Rightarrow> attempt_loop pv prompt j ns st' | finished \<Rightarrow> finished)"

definition failed_result :: "job \<Rightarrow> attempts \<Rightarrow> result" where
  "failed_result j st =
     \<lparr>rs_name = job_name j, rs_status = at_status st, rs_proof = [], rs_helpers = [], rs_reason = at_reason st, rs_axioms = [],
      rs_cost = py_round 4 (at_cost st), rs_certificate = None, rs_certificate_sha = None, rs_cached = False,
      rs_restored = sorted_set (at_restored st), rs_untracked = sorted_set (at_untracked st), rs_transcripts = at_transcripts st\<rparr>"

definition cached_proof :: "prover \<Rightarrow> job \<Rightarrow> proofs option \<Rightarrow> (utext + result) option" where
  "cached_proof pv j cache =
     (case proof_get cache (job_key (pv_digest pv) j (pv_toolchain pv) (pv_manifest pv)) of
        None \<Rightarrow> None
      | Some (prv, helpers) \<Rightarrow>
          Some (case accept pv j prv helpers of
                  Inr checked \<Rightarrow> Inr ((proved pv j prv helpers checked 0)\<lparr>rs_cached := True\<rparr>)
                | Inl why \<Rightarrow> Inl (codes ''cached proof no longer checks: '' @ why)))"

definition start :: "utext \<Rightarrow> budget option \<Rightarrow> attempts" where
  "start reason budget =
     \<lparr>at_cost = 0, at_reason = reason, at_status = ''FAILED'', at_restored = [], at_untracked = [], at_transcripts = [],
      at_budget = budget\<rparr>"

definition concluded :: "prover \<Rightarrow> job \<Rightarrow> proofs option \<Rightarrow> attempt_end \<Rightarrow> result \<times> proofs option \<times> budget option" where
  "concluded pv j cache finished =
     (case finished of
        Stop prv helpers checked st \<Rightarrow>
          (final_result pv j prv helpers checked st,
           proof_put cache (job_key (pv_digest pv) j (pv_toolchain pv) (pv_manifest pv)) prv helpers, at_budget st)
      | Give_up st \<Rightarrow> (failed_result j st, cache, at_budget st)
      | Again st \<Rightarrow> (failed_result j st, cache, at_budget st))"

definition prove ::
    "prover \<Rightarrow> (utext \<Rightarrow> utext) \<Rightarrow> job \<Rightarrow> nat \<Rightarrow> proofs option \<Rightarrow> budget option \<Rightarrow> result \<times> proofs option \<times> budget option" where
  "prove pv prompt j tries cache budget =
     (case cached_proof pv j cache of
        Some (Inr r) \<Rightarrow> (r, cache, budget)
      | Some (Inl why) \<Rightarrow> concluded pv j cache (attempt_loop pv prompt j [1..<Suc tries] (start why budget))
      | None \<Rightarrow> concluded pv j cache (attempt_loop pv prompt j [1..<Suc tries] (start [] budget)))"

text \<open>\<open>PROMPT.format(...)\<close>, line by line.\<close>

definition PROMPT :: "job \<Rightarrow> utext \<Rightarrow> utext \<Rightarrow> utext \<Rightarrow> utext" where
  "PROMPT j toolchain blueprint file = join_text [10] [
     codes ''You are a Lean 4 proof engineer working autonomously. Prove ONE theorem.'',
     [],
     codes (''File (already contains the theorem, with `so'' @ ''rry` as its proof): ./'') @ file,
     codes ''Theorem: `'' @ job_name j @ codes ''`'',
     codes ''Check your work with:  ./check.sh '' @ file,
     codes ''(check.sh runs `lake env lean` with this project's library, Lean '' @ toolchain @ codes ''; ~10-60 s.'',
     codes ''It only accepts files in this directory. You have no other shell access.)'',
     [],
     codes ''Blueprint (what the statement means and why it should hold):'',
     blueprint,
     [],
     codes ''Rules:'',
     codes (''- Replace only the `so'' @ ''rry` of `'') @ job_name j @ codes ''`. Do not change its statement, its name, or any'',
     codes ''  other declaration's statement. You MAY add helper lemmas immediately before it.'',
     codes (''- Forbidden anywhere: so'' @ ''rry, admit, native_decide, axiom, implemented_by, extern, unsafe,''),
     codes ''  #eval, run_cmd, elab/macro/syntax definitions, debug options.'',
     codes ''- The kernel must accept it: finish only when `./check.sh '' @ file @ codes ''` reports no errors for'',
     codes ''  `'' @ job_name j @ codes ''` and `#print axioms '' @ job_name j @ codes ''` (append it temporarily if useful) lists at most'',
     codes ''  propext, Classical.choice, Quot.sound.'',
     codes (''- Useful tac'' @ ''tics here: `simp [...]`, `decide`, `omega`, `rfl`, `with_unfolding_all rfl`,''),
     codes ''  `split`, `cases`, `induction`; the file may define `af_eval`, which head-normalizes'',
     codes ''  interpreter applications (`runFunc ...`) by unfolding and iota-reduction.'',
     codes ''- Work for as long as needed; try several strategies if one fails.'',
     [],
     codes ''When done, print the final helper lemmas (if any) and the proof as:'',
     codes ''<helpers>'',
     codes ''...lean declarations or empty...'',
     codes ''</helpers>'',
     codes ''<proof>'',
     codes ''by'',
     codes ''  ...'',
     codes ''</proof>'',
     codes ''If you cannot prove it, print <proof>FAILED</proof> and a one-paragraph reason in <reason></reason>.'',
     []]"

definition prompt_of :: "prover \<Rightarrow> job \<Rightarrow> utext \<Rightarrow> utext" where
  "prompt_of pv j file =
     PROMPT j (case pv_toolchain pv of None \<Rightarrow> codes ''?'' | Some t \<Rightarrow> strip_text t)
       (if job_blueprint j = [] then codes ''(none supplied)'' else job_blueprint j) file"

section \<open>What a proved result rests on\<close>

definition checked_by :: "prover \<Rightarrow> job \<Rightarrow> utext \<Rightarrow> utext \<Rightarrow> utext list \<times> utext \<Rightarrow> bool" where
  "checked_by pv j prv helpers checked \<longleftrightarrow>
     forbidden (pv_wide pv) prv = None \<and> forbidden (pv_wide pv) helpers = None \<and>
     snd checked = file_text j prv helpers \<and> set (fst checked) \<subseteq> codes ` set ALLOWED_AXIOMS \<and>
     (\<exists>out. pv_lean pv (probe_text (file_text j prv helpers) (job_name j)) = Some (0, out) \<and> error_lines out = [] \<and>
        axioms_read (job_name j) out = Some (fst checked))"

lemma accept_checked: "accept pv j prv helpers = Inr checked \<Longrightarrow> checked_by pv j prv helpers checked"
  by (auto simp: accept_def checked_by_def lean_check_def Let_def split: option.splits prod.splits if_splits)

lemma attempt_stops: "one_attempt pv prompt j n st = Stop prv helpers checked st' \<Longrightarrow> checked_by pv j prv helpers checked"
  by (auto simp: one_attempt_def read_outcome_def judge_reply_def Let_def intro!: accept_checked
      split: if_splits option.splits prod.splits sum.splits)

lemma attempt_loop_stops: "attempt_loop pv prompt j ns st = Stop prv helpers checked st' \<Longrightarrow> checked_by pv j prv helpers checked"
  by (induction ns arbitrary: st) (auto dest: attempt_stops split: attempt_end.splits)

lemma read_outcome_status:
  "read_outcome pv j status reply re st = Again st' \<Longrightarrow> at_status st' = at_status st \<or> at_status st' = ''FAILED''"
  "read_outcome pv j status reply re st \<noteq> Give_up st'"
  by (auto simp: read_outcome_def judge_reply_def Let_def split: if_splits sum.splits)

lemma verdict_of_status: "fst (verdict_of run reason) \<in> {''FAILED'', ''TIMEOUT'', ''ERROR''}"
  by (simp add: verdict_of_def split: agent_run.split)

text \<open>The three ways an attempt goes.\<close>

lemma attempt_run_cases:
  obtains (broke) b where "claim_cap (at_budget st) = (0, Some b)" "\<exists>why. one_attempt pv prompt j n st =
      Give_up (st\<lparr>at_budget := Some b, at_status := ''BUDGET'', at_reason := why\<rparr>)"
  | (absent) cap b why where "claim_cap (at_budget st) = (cap, b)" "pv_no_agent pv = Some why" "\<not> (b \<noteq> None \<and> cap = 0)"
      "one_attempt pv prompt j n st = Give_up (st\<lparr>at_budget := b, at_status := ''ERROR'', at_reason := why\<rparr>)"
  | (ran) cap b status reason reply c re where "claim_cap (at_budget st) = (cap, b)" "\<not> (b \<noteq> None \<and> cap = 0)" "pv_no_agent pv = None"
      "verdict_of (pv_agent pv n (full_prompt prompt j n (at_reason st)) cap) (at_reason st) = (status, reason, reply, c)"
      "one_attempt pv prompt j n st = read_outcome pv j status reply re (after_agent pv j n cap status reason c re (st\<lparr>at_budget := b\<rparr>))"
proof (cases "claim_cap (at_budget st)")
  case (Pair cap b)
  obtain status reason reply c where v:
    "verdict_of (pv_agent pv n (full_prompt prompt j n (at_reason st)) cap) (at_reason st) = (status, reason, reply, c)"
    by (metis prod_cases4)
  show ?thesis
  proof (cases "b \<noteq> None \<and> cap = 0")
    case True
    then obtain x where x: "b = Some x" "cap = 0" by auto
    show ?thesis
    proof (rule broke)
      show "claim_cap (at_budget st) = (0, Some x)" using Pair x by simp
      show "\<exists>why. one_attempt pv prompt j n st = Give_up (st\<lparr>at_budget := Some x, at_status := ''BUDGET'', at_reason := why\<rparr>)"
        unfolding one_attempt_def Pair x Let_def prod.case by (simp only: option.distinct not_False_eq_True simp_thms if_True) blast
    qed
  next
    case False
    show ?thesis
    proof (cases "pv_no_agent pv")
      case None
      let ?re = "restore (fst (pv_snapshots pv n)) (snd (pv_snapshots pv n)) True (pv_is_file pv n)"
      have "one_attempt pv prompt j n st = read_outcome pv j status reply ?re (after_agent pv j n cap status reason c ?re (st\<lparr>at_budget := b\<rparr>))"
        by (simp only: one_attempt_def Pair Let_def prod.case False if_False None option.case v)
      then show ?thesis by (rule ran [OF Pair False None v])
    next
      case (Some why)
      have "one_attempt pv prompt j n st = Give_up (st\<lparr>at_budget := b, at_status := ''ERROR'', at_reason := why\<rparr>)"
        by (simp only: one_attempt_def Pair Let_def prod.case False if_False Some option.case)
      then show ?thesis by (rule absent [OF Pair Some False])
    qed
  qed
qed

lemma attempt_status:
  "one_attempt pv prompt j n st \<in> {Give_up st', Again st'} \<Longrightarrow> at_status st' \<noteq> ''PROVED''"
proof (cases rule: attempt_run_cases [of st pv prompt j n])
  case (ran cap b status reason reply c re)
  assume "one_attempt pv prompt j n st \<in> {Give_up st', Again st'}"
  with ran(5) have "read_outcome pv j status reply re (after_agent pv j n cap status reason c re (st\<lparr>at_budget := b\<rparr>)) = Again st'"
    using read_outcome_status(2) by (metis insertE singletonD)
  from read_outcome_status(1) [OF this] have "at_status st' = status \<or> at_status st' = ''FAILED''"
    by (simp add: after_agent_def)
  moreover have "status \<in> {''FAILED'', ''TIMEOUT'', ''ERROR''}"
    using verdict_of_status [of "pv_agent pv n (full_prompt prompt j n (at_reason st)) cap" "at_reason st"] ran(4) by simp
  ultimately show ?thesis by auto
qed auto

lemma attempt_loop_status:
  "at_status st \<noteq> ''PROVED'' \<Longrightarrow> attempt_loop pv prompt j ns st = Give_up st' \<Longrightarrow> at_status st' \<noteq> ''PROVED''"
  "attempt_loop pv prompt j ns st \<noteq> Again st'"
  by (induction ns arbitrary: st) (use attempt_status in \<open>force split: attempt_end.splits\<close>)+

section \<open>What restoring restores\<close>

type_synonym tree = "string \<Rightarrow> string option"

definition run_op :: "tree \<Rightarrow> fileop \<Rightarrow> tree \<Rightarrow> tree" where
  "run_op head oper w =
     (case oper of Save p \<Rightarrow> w | Put p t \<Rightarrow> w(p := Some t) | Unlink p \<Rightarrow> w(p := None) | Checkout p \<Rightarrow> w(p := head p))"

definition run_ops :: "tree \<Rightarrow> fileop list \<Rightarrow> tree \<Rightarrow> tree" where
  "run_ops head ops w = fold (run_op head) ops w"

definition exact_snap :: "tree \<Rightarrow> tree \<Rightarrow> snap \<Rightarrow> bool" where
  "exact_snap head w s \<longleftrightarrow>
     distinct (map fst (sn_dirty s)) \<and> (\<forall>p. map_of (sn_dirty s) p = (if w p = head p then None else Some (w p)))"

lemma run_ops_simps [simp]:
  "run_ops head [] w = w" "run_ops head (oper # ops) w = run_ops head ops (run_op head oper w)"
  "run_ops head (xs @ ys) w = run_ops head ys (run_ops head xs w)"
  by (simp_all add: run_ops_def)

lemma run_op_other: "op_path oper \<noteq> p \<Longrightarrow> run_op head oper w p = w p"
  by (cases oper) (auto simp: run_op_def op_path_def)

lemma run_ops_other: "\<forall>oper \<in> set ops. op_path oper \<noteq> p \<Longrightarrow> run_ops head ops w p = w p"
proof (induction ops arbitrary: w)
  case (Cons oper ops)
  then show ?case using run_op_other [of oper p head w] by simp
qed simp

lemma run_ops_local: "w p = v p \<Longrightarrow> run_ops head ops w p = run_ops head ops v p"
proof (induction ops arbitrary: w v)
  case (Cons oper ops)
  have "run_op head oper w p = run_op head oper v p" using Cons.prems by (cases oper) (auto simp: run_op_def)
  from Cons.IH [of "run_op head oper w" "run_op head oper v", OF this] show ?case by simp
qed simp

lemma run_ops_table:
  assumes "distinct (map fst xs)" and "\<And>q c oper. oper \<in> set (f (q, c)) \<Longrightarrow> op_path oper = q"
  shows "run_ops head (concat (map f xs)) w p = (case map_of xs p of None \<Rightarrow> w p | Some c \<Rightarrow> run_ops head (f (p, c)) w p)"
  using assms(1)
proof (induction xs arbitrary: w)
  case (Cons x xs)
  obtain q c where x: "x = (q, c)" by (cases x)
  have none: "map_of xs q = None" using Cons.prems x by (simp add: map_of_eq_None_iff)
  have IH: "run_ops head (concat (map f xs)) v p = (case map_of xs p of None \<Rightarrow> v p | Some c \<Rightarrow> run_ops head (f (p, c)) v p)" for v
    using Cons.IH Cons.prems by simp
  show ?case
  proof (cases "p = q")
    case True
    then show ?thesis using IH [of "run_ops head (f (q, c)) w"] none by (simp add: x)
  next
    case False
    then have keep: "run_ops head (f (q, c)) w p = w p" using assms(2) by (intro run_ops_other) blast
    from run_ops_local [of "run_ops head (f (q, c)) w" p w, OF this] have "run_ops head ops (run_ops head (f (q, c)) w) p = run_ops head ops w p" for ops .
    then show ?thesis using False keep by (simp add: x IH)
  qed
qed simp

lemma op_path_simps [simp]:
  "op_path (Save p) = p" "op_path (Put p t) = p" "op_path (Unlink p) = p" "op_path (Checkout p) = p"
  by (simp_all add: op_path_def)

lemma undo_change_path: "oper \<in> set (undo_change b (q, c)) \<Longrightarrow> op_path oper = q"
  by (cases "proof_relevant q"; cases "map_of (sn_dirty b) q"; cases c; cases "the (map_of (sn_dirty b) q)")
    (auto simp: undo_change_def split: if_splits)

lemma undo_cleaning_path: "oper \<in> set (undo_cleaning a (q, c)) \<Longrightarrow> op_path oper = q"
  by (cases "proof_relevant q \<and> q \<notin> fst ` set (sn_dirty a)"; cases c) (simp_all add: undo_cleaning_def)

lemma run_saves [simp]: "run_ops head (map Save ps) w = w"
  by (induction ps) (simp_all add: run_op_def)


text \<open>An agent edits one input, reverts another and adds a note.\<close>

definition demo_head :: tree where
  "demo_head = (\<lambda>p. if p = ''A.lean'' then Some ''a'' else if p = ''B.lean'' then Some ''b'' else None)"

definition demo_before :: snap where
  "demo_before = \<lparr>sn_dirty = [(''B.lean'', Some ''mine'')], sn_untracked = []\<rparr>"

definition demo_after :: snap where
  "demo_after = \<lparr>sn_dirty = [(''A.lean'', Some ''evil'')], sn_untracked = [''n.txt'']\<rparr>"


section \<open>Acceptance and spending\<close>

lemma prove_cases:
  assumes "prove pv prompt j tries cache budget = (r, cache', budget')"
  obtains (hit) prv helpers checked where "accept pv j prv helpers = Inr checked"
      "r = (proved pv j prv helpers checked 0)\<lparr>rs_cached := True\<rparr>" "cache' = cache" "budget' = budget"
  | (ran) why where "(r, cache', budget') = concluded pv j cache (attempt_loop pv prompt j [1..<Suc tries] (start why budget))"
proof (cases "cached_proof pv j cache")
  case None
  show ?thesis by (rule ran [of "[]"]) (use None assms in \<open>simp only: prove_def option.case\<close>)
next
  case (Some e)
  show ?thesis
  proof (cases e)
    case (Inl why)
    show ?thesis by (rule ran [of why]) (use Inl Some assms in \<open>simp only: prove_def option.case sum.case\<close>)
  next
    case (Inr r')
    then obtain prv helpers checked where "accept pv j prv helpers = Inr checked"
      "r' = (proved pv j prv helpers checked 0)\<lparr>rs_cached := True\<rparr>"
      using Some by (auto simp: cached_proof_def split: option.splits sum.splits prod.splits)
    then show ?thesis using assms hit Some Inr by (simp add: prove_def)
  qed
qed

lemma prove_checked:
  assumes "prove pv prompt j tries cache budget = (r, cache', budget')" and "rs_status r = ''PROVED''"
  shows "checked_by pv j (rs_proof r) (rs_helpers r) (rs_axioms r, file_text j (rs_proof r) (rs_helpers r)) \<and>
    rs_certificate r = Some (file_text j (rs_proof r) (rs_helpers r)) \<and> rs_name r = job_name j"
  using assms(1)
proof (cases rule: prove_cases)
  case (hit prv helpers checked)
  from accept_checked [OF hit(1)] have c: "checked_by pv j prv helpers checked" .
  then have "checked = (fst checked, file_text j prv helpers)" by (cases checked) (simp add: checked_by_def)
  with c hit(2) show ?thesis by (simp add: proved_def) (metis snd_conv)
next
  case (ran why)
  let ?e = "attempt_loop pv prompt j [1..<Suc tries] (start why budget)"
  show ?thesis
  proof (cases ?e)
    case (Stop prv helpers checked st)
    from attempt_loop_stops [OF Stop] have c: "checked_by pv j prv helpers checked" .
    then have "checked = (fst checked, file_text j prv helpers)" by (cases checked) (simp add: checked_by_def)
    with c ran Stop show ?thesis by (simp add: concluded_def final_result_def proved_def) (metis snd_conv)
  next
    case (Give_up st)
    have "at_status st \<noteq> ''PROVED''" by (rule attempt_loop_status(1) [OF _ Give_up]) (simp add: start_def)
    moreover have "rs_status r = at_status st" using ran Give_up by (simp add: concluded_def failed_result_def)
    ultimately show ?thesis using assms(2) by simp
  next
    case (Again st)
    then show ?thesis using attempt_loop_status(2) by blast
  qed
qed

text \<open>
  C19. A proof is only ever accepted after an independent check of the original statement. Whenever
  \<open>prove\<close> answers PROVED, from its cache or from an agent's reply, proof and helpers pass the screen,
  the certificate is the text built from the job's own prefix and statement with that proof, Lean
  elaborated exactly this text with exit code zero and no error line, and the axioms it was read to
  report are standard; the agent's word is not used anywhere.
\<close>

theorem proved_is_checked:
  assumes "prove pv prompt j tries cache budget = (r, cache', budget')" and "rs_status r = ''PROVED''"
  shows "checked_by pv j (rs_proof r) (rs_helpers r) (rs_axioms r, file_text j (rs_proof r) (rs_helpers r)) \<and>
    rs_certificate r = Some (file_text j (rs_proof r) (rs_helpers r)) \<and> rs_name r = job_name j"
  by (rule prove_checked [OF assms])

text \<open>A prover with a fixed answer of Lean and a cache hit.\<close>

definition quiet_prover :: "utext \<Rightarrow> agent_run \<Rightarrow> utext option \<Rightarrow> prover" where
  "quiet_prover out run absent =
     \<lparr>pv_wide = ascii_only, pv_lean = (\<lambda>source. Some (0, out)), pv_agent = (\<lambda>n prompt cap. run), pv_no_agent = absent,
      pv_snapshots = (\<lambda>n. (None, None)), pv_is_file = (\<lambda>n p. True), pv_digest = (\<lambda>t. ''k''), pv_toolchain = None, pv_manifest = None\<rparr>"

definition clean_out :: utext where
  "clean_out = [39] @ codes ''t'' @ [39] @ codes '' depends on axioms: [propext, Quot.sound]'' @ [10]"

lemma demo_accepted:
  "accept (quiet_prover clean_out Timed_out None) demo_job (codes ''by rfl'') [] =
     Inr ([codes ''propext'', codes ''Quot.sound''], file_text demo_job (codes ''by rfl'') [])"
  by code_simp

lemma proved_is_checked_witness:
  "\<exists>r. prove (quiet_prover clean_out Timed_out None) (\<lambda>f. f) demo_job 2 (Some [(''k'', codes ''by rfl'', [])]) None =
       (r, Some [(''k'', codes ''by rfl'', [])], None) \<and>
     checked_by (quiet_prover clean_out Timed_out None) demo_job (codes ''by rfl'') []
       ([codes ''propext'', codes ''Quot.sound''], file_text demo_job (codes ''by rfl'') [])"
proof -
  let ?pv = "quiet_prover clean_out Timed_out None" and ?cache = "Some [(''k'', codes ''by rfl'', [] :: utext)]"
  let ?r = "(proved ?pv demo_job (codes ''by rfl'') [] ([codes ''propext'', codes ''Quot.sound''],
      file_text demo_job (codes ''by rfl'') []) 0)\<lparr>rs_cached := True\<rparr>"
  have "cached_proof ?pv demo_job ?cache = Some (Inr ?r)"
    by (simp add: cached_proof_def proof_get_def job_key_def demo_accepted quiet_prover_def [of clean_out, THEN arg_cong [of _ _ pv_digest]])
  then have step: "prove ?pv (\<lambda>f. f) demo_job 2 ?cache None = (?r, ?cache, None)" by (simp add: prove_def)
  have "rs_status ?r = ''PROVED''" by (simp add: proved_def)
  from proved_is_checked [OF step this] step show ?thesis by (intro exI [of _ ?r]) (simp add: proved_def)
qed

section \<open>A proof with a hole can be accepted\<close>

lemma leftmost_found: "m s \<noteq> None \<Longrightarrow> leftmost m (a @ s) \<noteq> None"
proof (induction a)
  case Nil
  then show ?case by (cases s) auto
qed (auto split: option.split)

lemma quoted_end_found:
  assumes "39 \<notin> set x"
  shows "depends_on_none name (39 # x @ name @ 39 # codes '' does not depend on any axioms'' @ b) \<noteq> None"
proof -
  let ?w = "name @ 39 # codes '' does not depend on any axioms''" and ?t = "x @ name @ 39 # codes '' does not depend on any axioms'' @ b"
  have "length x \<le> length (takeWhile (\<lambda>c. c \<noteq> 39) ?t)"
  proof -
    have "takeWhile (\<lambda>c. c \<noteq> 39) (x @ r) = x @ takeWhile (\<lambda>c. c \<noteq> 39) r" for r
      using assms by (intro takeWhile_append2) auto
    then show ?thesis by simp
  qed
  moreover have "prefix ?w (drop (length x) ?t)" by (simp add: prefix_def)
  ultimately have "\<exists>k \<in> set (rev [0..<Suc (length (takeWhile (\<lambda>c. c \<noteq> 39) ?t))]). prefix ?w (drop k ?t) \<and> True"
    by (intro bexI [of _ "length x"]) (simp_all add: less_Suc_eq_le del: upt_Suc)
  then have "find (\<lambda>k. prefix ?w (drop k ?t) \<and> True) (rev [0..<Suc (length (takeWhile (\<lambda>c. c \<noteq> 39) ?t))]) \<noteq> None"
    unfolding find_None_iff by blast
  then show ?thesis unfolding depends_on_none_def quoted_end_def Let_def by (simp del: upt_Suc)
qed

definition holey_proof :: utext where
  "holey_proof = codes ''by exact (fun (_ : Char) (h : 1 = 2) (_ : Char) => h) '' @ [39, 34, 39] @ codes ('' so'' @ ''rry '') @ [39, 34, 39]"

definition printing_helper :: utext where
  "printing_helper = codes ''theorem xt : True := trivial'' @ [10] @ codes ''#print axioms xt''"

definition holey_out :: utext where
  "holey_out = [39] @ codes ''xt'' @ [39] @ codes '' does not depend on any axioms'' @ [10] @
     [39] @ codes ''t'' @ [39] @ codes ('' depends on axioms: [so'' @ ''rryAx]'') @ [10]"

text \<open>
  C22. The acceptance check can be deceived twice over. The axioms of a theorem are read from any
  message about a theorem whose name merely ends with its name, and a message that some such theorem
  uses no axioms overrides the real one; and the screen blanks everything between two character
  literals of a double quote. So a proof with an explicit hole is accepted although Lean reports for
  the very theorem that it depends on the axiom of the hole.
\<close>

theorem hole_accepted:
  "(\<forall>name x a b. 39 \<notin> set x \<longrightarrow>
      axioms_read name (a @ 39 # x @ name @ 39 # codes '' does not depend on any axioms'' @ b) = Some []) \<and>
   sublist (codes (''so'' @ ''rry'')) holey_proof \<and> forbidden ascii_only holey_proof = None \<and>
   sublist (39 # codes ''t'' @ 39 # codes ('' depends on axioms: [so'' @ ''rryAx]'')) holey_out \<and>
   accept (quiet_prover holey_out Timed_out None) demo_job holey_proof printing_helper =
     Inr ([], file_text demo_job holey_proof printing_helper)"
proof (intro conjI allI impI)
  fix name x a b :: utext
  assume "39 \<notin> set x"
  have "leftmost (depends_on_none name) (a @ 39 # x @ name @ 39 # codes '' does not depend on any axioms'' @ b) \<noteq> None"
    by (rule leftmost_found [where m = "depends_on_none name"], rule quoted_end_found) fact
  then obtain r where "leftmost (depends_on_none name) (a @ 39 # x @ name @ 39 # codes '' does not depend on any axioms'' @ b) = Some r"
    by blast
  then show "axioms_read name (a @ 39 # x @ name @ 39 # codes '' does not depend on any axioms'' @ b) = Some []"
    by (simp only: axioms_read_def option.case)
next
  show "sublist (codes (''so'' @ ''rry'')) holey_proof" by code_simp
  show "forbidden ascii_only holey_proof = None" by code_simp
  show "sublist (39 # codes ''t'' @ 39 # codes ('' depends on axioms: [so'' @ ''rryAx]'')) holey_out" by code_simp
  show "accept (quiet_prover holey_out Timed_out None) demo_job holey_proof printing_helper =
     Inr ([], file_text demo_job holey_proof printing_helper)" by code_simp
qed

lemma hole_accepted_witness:
  "axioms_read (codes ''t'') (39 # codes ''x'' @ codes ''t'' @ 39 # codes '' does not depend on any axioms'') = Some []"
proof -
  have "39 \<notin> set (codes ''x'')" by (simp add: codes_def)
  with hole_accepted have "axioms_read (codes ''t'') ([] @ 39 # codes ''x'' @ codes ''t'' @ 39 # codes '' does not depend on any axioms'' @ []) = Some []"
    by blast
  then show ?thesis by simp
qed

section \<open>Calls that share a budget\<close>

text \<open>
  Any interleaving of agent calls over one budget: a call starts with a successful reservation and ends
  with a cost of at most what it reserved. The list holds the reservations of the calls under way.
\<close>

inductive spending :: "budget \<Rightarrow> budget \<Rightarrow> real list \<Rightarrow> bool" for b0 where
  begin_spending: "spending b0 b0 []"
| begin_call: "spending b0 b calls \<Longrightarrow> reserve b = (cap, b') \<Longrightarrow> cap \<noteq> 0 \<Longrightarrow> spending b0 b' (cap # calls)"
| end_call: "spending b0 b (xs @ cap # ys) \<Longrightarrow> 0 \<le> c \<Longrightarrow> c \<le> cap \<Longrightarrow> spending b0 (charge c cap b) (xs @ ys)"

inductive_cases begin_callE: "spending b0 b (cap # calls)"

lemma reserve_some:
  assumes "reserve b = (cap, b')" and "cap \<noteq> 0"
  shows "b' = b\<lparr>bg_reserved := bg_reserved b + cap\<rparr>"
    and "bg_limit b = Some l \<Longrightarrow> cap \<le> l - bg_spent b - bg_reserved b"
    and "1 / 10 ^ 9 \<le> min (bg_estimate b) (bg_call_cap b) \<Longrightarrow> 0 < cap" and "cap \<le> bg_call_cap b"
proof -
  show "b' = b\<lparr>bg_reserved := bg_reserved b + cap\<rparr>"
    using assms by (auto simp: reserve_def claim_amount_def Let_def split: option.splits if_splits)
  show "cap \<le> l - bg_spent b - bg_reserved b" if "bg_limit b = Some l"
    using assms that by (auto simp: reserve_def claim_amount_def Let_def split: if_splits)
  show "cap \<le> bg_call_cap b"
    using assms by (auto simp: reserve_def claim_amount_def Let_def split: option.splits if_splits)
  assume e: "1 / 10 ^ 9 \<le> min (bg_estimate b) (bg_call_cap b)"
  have "0 \<le> cap"
  proof (cases "bg_limit b")
    case None
    then show ?thesis using assms e by (auto simp: reserve_def claim_amount_def)
  next
    case (Some l)
    let ?a = "min (bg_call_cap b) (l - bg_spent b - bg_reserved b)"
    have "\<not> ?a + 1 / 10 ^ 9 < min (bg_estimate b) (bg_call_cap b)" and "cap = ?a"
      using assms Some by (auto simp: reserve_def claim_amount_def Let_def split: if_splits)
    then show ?thesis using e by linarith
  qed
  then show "0 < cap" using assms(2) by simp
qed

definition spending_inv :: "budget \<Rightarrow> budget \<Rightarrow> real list \<Rightarrow> bool" where
  "spending_inv b0 b calls \<longleftrightarrow>
     bg_limit b = bg_limit b0 \<and> bg_estimate b = bg_estimate b0 \<and> bg_call_cap b = bg_call_cap b0 \<and>
     bg_reserved b = sum_list calls \<and> list_all (\<lambda>c. 0 < c \<and> c \<le> bg_call_cap b0) calls \<and> 0 \<le> bg_spent b \<and>
     (\<forall>l. bg_limit b0 = Some l \<longrightarrow> bg_spent b + bg_reserved b \<le> l)"

lemma sum_list_nonneg_calls: "list_all (\<lambda>c. 0 < c \<and> c \<le> k) calls \<Longrightarrow> 0 \<le> sum_list (calls :: real list)"
  by (rule sum_list_nonneg) (auto simp: list_all_iff)

lemma spending_keeps:
  assumes "spending b0 b calls" and "1 / 10 ^ 9 \<le> min (bg_estimate b0) (bg_call_cap b0)" and "spending_inv b0 b0 []"
  shows "spending_inv b0 b calls"
  using assms(1)
proof (induction rule: spending.induct)
  case begin_spending
  then show ?case by (rule assms(3))
next
  case (begin_call b calls cap b')
  note R = reserve_some [OF begin_call.hyps(2,3)]
  have inv: "spending_inv b0 b calls" by (rule begin_call.IH)
  then have "0 < cap" "cap \<le> bg_call_cap b0" using R(3,4) assms(2) by (auto simp: spending_inv_def)
  moreover have "\<forall>l. bg_limit b0 = Some l \<longrightarrow> bg_spent b + (bg_reserved b + cap) \<le> l"
    using R(2) inv by (fastforce simp: spending_inv_def)
  ultimately show ?case using inv by (simp add: R(1) spending_inv_def)
next
  case (end_call b xs cap ys c)
  have inv: "spending_inv b0 b (xs @ cap # ys)" by (rule end_call.IH)
  then have "0 \<le> sum_list xs + sum_list ys"
    using sum_list_nonneg_calls [of "bg_call_cap b0" xs] sum_list_nonneg_calls [of "bg_call_cap b0" ys]
    by (simp add: spending_inv_def)
  with inv have m: "max 0 (bg_reserved b - cap) = sum_list xs + sum_list ys" by (simp add: spending_inv_def)
  have "\<forall>l. bg_limit b0 = Some l \<longrightarrow> bg_spent b + c + (sum_list xs + sum_list ys) \<le> l"
  proof (intro allI impI)
    fix l assume "bg_limit b0 = Some l"
    with inv have "bg_spent b + (sum_list xs + (cap + sum_list ys)) \<le> l" by (simp add: spending_inv_def)
    then show "bg_spent b + c + (sum_list xs + sum_list ys) \<le> l" using end_call.hyps by linarith
  qed
  then show ?case using inv end_call.hyps m by (simp add: spending_inv_def charge_def)
qed

text \<open>
  C20. The budget is a hard limit on what is charged, for any interleaving of any number of calls: if
  every call reports a cost of at most its reservation, then what is spent and what is still reserved
  never exceed the limit together, the reserved amount is exactly the sum of the calls under way, and
  no call has more than the cap of one call.
\<close>

theorem budget_respected:
  assumes "spending (make_budget (Some l) e cap) b calls" and "0 \<le> l"
    and "1 / 10 ^ 9 \<le> min e (bg_call_cap (make_budget (Some l) e cap))"
  shows "bg_spent b + bg_reserved b \<le> l \<and> bg_reserved b = sum_list calls \<and> 0 \<le> bg_spent b \<and>
    list_all (\<lambda>c. 0 < c \<and> c \<le> bg_call_cap (make_budget (Some l) e cap)) calls"
proof -
  have "spending_inv (make_budget (Some l) e cap) (make_budget (Some l) e cap) []"
    using assms(2) by (simp add: spending_inv_def make_budget_def)
  moreover have "bg_estimate (make_budget (Some l) e cap) = e" by (simp add: make_budget_def)
  ultimately have "spending_inv (make_budget (Some l) e cap) b calls"
    using spending_keeps [OF assms(1)] assms(3) by simp
  then show ?thesis by (simp add: spending_inv_def make_budget_def)
qed

lemma budget_respected_witness:
  "\<exists>b. spending (make_budget (Some 2) (6 / 10) None) b [1] \<and> bg_spent b + bg_reserved b \<le> 2 \<and> bg_spent b = 1"
proof -
  let ?b0 = "make_budget (Some 2) (6 / 10) None" and ?b1 = "claim_amount (3 / 2) (make_budget (Some 2) (6 / 10) None)"
  have r1: "reserve ?b0 = ?b1" by (simp add: reserve_def make_budget_def CALL_CAP_USD_def claim_amount_def Let_def)
  have s1: "spending ?b0 (snd ?b1) [3 / 2]"
    using begin_call [OF begin_spending, of ?b0 "3 / 2" "snd ?b1"] r1 by (simp add: claim_amount_def)
  have s2: "spending ?b0 (charge 1 (3 / 2) (snd ?b1)) []" using end_call [of ?b0 "snd ?b1" "[]" "3 / 2" "[]" 1] s1 by simp
  let ?b2 = "charge 1 (3 / 2) (snd ?b1)"
  have r2: "reserve ?b2 = claim_amount 1 ?b2"
    by (simp add: reserve_def make_budget_def CALL_CAP_USD_def claim_amount_def charge_def Let_def)
  have s3: "spending ?b0 (snd (claim_amount 1 ?b2)) [1]"
    using begin_call [OF s2, of 1 "snd (claim_amount 1 ?b2)"] r2 by (simp add: claim_amount_def)
  let ?b3 = "snd (claim_amount 1 ?b2)"
  have "(1 :: real) / 10 ^ 9 \<le> min (6 / 10) (bg_call_cap ?b0)" by (simp add: make_budget_def CALL_CAP_USD_def)
  with budget_respected [OF s3] have "bg_spent ?b3 + bg_reserved ?b3 \<le> 2" by simp
  moreover have "bg_spent ?b3 = 1" by (simp add: claim_amount_def charge_def make_budget_def)
  ultimately show ?thesis using s3 by blast
qed

section \<open>What is not charged\<close>

lemma claim_cap_some: "claim_cap (Some b) = (fst (reserve b), Some (snd (reserve b)))"
  by (simp add: claim_cap_def apsnd_def map_prod_def split: prod.split)

lemma timed_out_attempt:
  assumes "reserve b = (cap, b')" and "0 < cap" and "0 \<le> bg_reserved b"
    and "pv_no_agent pv = None" and "\<And>n p c. pv_agent pv n p c = Timed_out" and "at_budget st = Some b"
  shows "\<exists>st'. one_attempt pv prompt j n st = Again st' \<and> at_budget st' = Some b \<and> at_cost st' = at_cost st \<and> at_status st' = ''TIMEOUT''"
proof -
  have cap: "claim_cap (at_budget st) = (cap, Some b')" using assms(1,6) by (simp add: claim_cap_some)
  have "b' = b\<lparr>bg_reserved := bg_reserved b + cap\<rparr>" using reserve_some(1) [OF assms(1)] assms(2) by simp
  then have undone: "charge 0 cap b' = b" using assms(3) by (simp add: charge_def)
  show ?thesis
  proof (cases rule: attempt_run_cases [of st pv prompt j n])
    case (ran cap' b0 status reason reply c re)
    then have "cap' = cap" "b0 = Some b'" "status = ''TIMEOUT''" "c = 0"
      using cap assms(5) by (auto simp: verdict_of_def)
    then show ?thesis using ran(5) undone by (simp add: read_outcome_def after_agent_def settle_cap_def)
  qed (use cap assms in auto)
qed

lemma timed_out_loop:
  assumes "reserve b = (cap, b')" and "0 < cap" and "0 \<le> bg_reserved b"
    and "pv_no_agent pv = None" and "\<And>n p c. pv_agent pv n p c = Timed_out" and "at_budget st = Some b"
  shows "\<exists>st'. attempt_loop pv prompt j ns st = Give_up st' \<and> at_budget st' = Some b \<and> at_cost st' = at_cost st"
  using assms(6)
proof (induction ns arbitrary: st)
  case (Cons n ns)
  from timed_out_attempt [OF assms(1-5) Cons.prems] obtain st' where
    st': "one_attempt pv prompt j n st = Again st'" "at_budget st' = Some b" "at_cost st' = at_cost st" by blast
  from Cons.IH [OF st'(2)] st' show ?case by simp
qed simp

text \<open>
  The budget counts less than what is spent. An agent call that times out, or crashes, is charged
  nothing whatever it spent within its cap: if all attempts time out, then \<open>prove\<close> returns with the
  budget it started with and cost zero, so any number of jobs can follow. And when no agent is
  available the amount reserved for the attempt is never given back.
\<close>

theorem spending_uncounted:
  assumes "reserve b = (cap, b')" and "0 < cap" and "0 \<le> bg_reserved b" and "0 < tries" and "cached_proof pv j cache = None"
  shows "(pv_no_agent pv = None \<and> (\<forall>n p c. pv_agent pv n p c = Timed_out) \<longrightarrow>
      (\<exists>r. prove pv prompt j tries cache (Some b) = (r, cache, Some b) \<and> rs_cost r = 0)) \<and>
    (pv_no_agent pv \<noteq> None \<longrightarrow>
      (\<exists>r. prove pv prompt j tries cache (Some b) = (r, cache, Some b') \<and> rs_status r = ''ERROR'' \<and>
         bg_reserved b' = bg_reserved b + cap))"
proof (intro conjI impI)
  have pr: "prove pv prompt j tries cache (Some b) = concluded pv j cache (attempt_loop pv prompt j [1..<Suc tries] (start [] (Some b)))"
    by (simp only: prove_def assms(5) option.case)
  have b: "at_budget (start [] (Some b)) = Some b" and c: "at_cost (start [] (Some b)) = 0" by (simp_all add: start_def)
  {
    assume "pv_no_agent pv = None \<and> (\<forall>n p c. pv_agent pv n p c = Timed_out)"
    then obtain st' where "attempt_loop pv prompt j [1..<Suc tries] (start [] (Some b)) = Give_up st'" "at_budget st' = Some b" "at_cost st' = 0"
      using timed_out_loop [OF assms(1-3) _ _ b] c by metis
    then show "\<exists>r. prove pv prompt j tries cache (Some b) = (r, cache, Some b) \<and> rs_cost r = 0"
      unfolding pr by (simp add: concluded_def failed_result_def py_round_def)
  }
  assume "pv_no_agent pv \<noteq> None"
  then obtain why where why: "pv_no_agent pv = Some why" by blast
  have b': "b' = b\<lparr>bg_reserved := bg_reserved b + cap\<rparr>" using reserve_some(1) [OF assms(1)] assms(2) by simp
  have cap: "claim_cap (at_budget (start [] (Some b))) = (cap, Some b')" using assms(1) b by (simp add: claim_cap_some)
  have "one_attempt pv prompt j 1 (start [] (Some b)) =
      Give_up ((start [] (Some b))\<lparr>at_budget := Some b', at_status := ''ERROR'', at_reason := why\<rparr>)"
  proof (cases rule: attempt_run_cases [of "start [] (Some b)" pv prompt j 1])
    case (absent cap' b0 why')
    then show ?thesis using cap why by simp
  qed (use cap assms(2) why in auto)
  moreover have "[1..<Suc tries] = 1 # [2..<Suc tries]" using assms(4) by (simp add: upt_conv_Cons numeral_2_eq_2 del: upt_Suc)
  ultimately have "attempt_loop pv prompt j [1..<Suc tries] (start [] (Some b)) =
      Give_up ((start [] (Some b))\<lparr>at_budget := Some b', at_status := ''ERROR'', at_reason := why\<rparr>)" by simp
  then show "\<exists>r. prove pv prompt j tries cache (Some b) = (r, cache, Some b') \<and> rs_status r = ''ERROR'' \<and> bg_reserved b' = bg_reserved b + cap"
    unfolding pr by (simp add: concluded_def failed_result_def b')
qed

lemma spending_uncounted_witness:
  "\<exists>r. prove (quiet_prover [] Timed_out None) (\<lambda>f. f) demo_job 2 None (Some (make_budget (Some 2) (6 / 10) None)) =
     (r, None, Some (make_budget (Some 2) (6 / 10) None)) \<and> rs_cost r = 0"
proof -
  let ?b = "make_budget (Some 2) (6 / 10) None"
  have "reserve ?b = (3 / 2, snd (claim_amount (3 / 2) ?b))"
    by (simp add: reserve_def make_budget_def CALL_CAP_USD_def claim_amount_def Let_def)
  moreover have "0 \<le> bg_reserved ?b" by (simp add: make_budget_def)
  moreover have "cached_proof (quiet_prover [] Timed_out None) demo_job None = None" by (simp add: cached_proof_def proof_get_def)
  moreover have "pv_no_agent (quiet_prover [] Timed_out None) = None"
    "\<forall>n p c. pv_agent (quiet_prover [] Timed_out None) n p c = Timed_out" by (simp_all add: quiet_prover_def)
  ultimately show ?thesis using spending_uncounted [of ?b "3 / 2" _ 2 "quiet_prover [] Timed_out None" demo_job None "\<lambda>f. f"] by simp
qed

end
