(* ===== verification/Evidence.thy ===== *)
theory Evidence
  imports Cegis
begin

text \<open>
  Evidence and candidate claims: \<open>src/src/autoform/harness/evidence.py\<close> (guards, the context of a
  function) and \<open>src/src/autoform/harness/generator.py\<close> (the template generator, the reading of a
  language model's candidates, the choice of generators). The search of source files for a
  function's text and for tests that mention it is a parameter.
\<close>

section \<open>Words\<close>

definition SECURITY_WORDS :: "string list" where
  "SECURITY_WORDS = [''auth'', ''allow'', ''permit'', ''grant'', ''admin'', ''owner'', ''role'', ''verify'', ''valid'',
     ''check'', ''sanitiz'', ''escape'', ''secret'', ''token'', ''sign'', ''priv'', ''access'', ''session'', ''login'', ''password'']"

definition PRIVILEGED :: "string list" where
  "PRIVILEGED = [''grant'', ''write'', ''save'', ''store'', ''commit'', ''exec'', ''delete'', ''update'', ''set'', ''insert'',
     ''send'', ''create'', ''issue'', ''open'']"

text \<open>\<open>re.search\<close> of an alternative of words, ignoring case, in a text of this alphabet.\<close>

definition mentions_any :: "string list \<Rightarrow> string \<Rightarrow> bool" where
  "mentions_any ws s = (let t = lower s in list_ex (\<lambda>w. substr w t) ws)"

definition security_word :: "string \<Rightarrow> bool" where
  "security_word s = mentions_any SECURITY_WORDS s"

section \<open>The context of a function\<close>

record evidence =
  ev_type :: string
  ev_location :: "string option"
  ev_text :: string

record guard_note =
  gd_location :: string
  gd_params :: "string list"
  gd_raises :: bool
  gd_condition :: json

definition guard_note :: "func \<Rightarrow> branch \<Rightarrow> guard_note list" where
  "guard_note fn br =
     (if br_params br = [] then []
      else [\<lparr>gd_location = br_block br, gd_params = br_params br, gd_raises = (f_raises fn \<noteq> []), gd_condition = br_condition br\<rparr>])"

definition guards_of :: "func \<Rightarrow> guard_note list" where
  "guards_of fn = concat (map (guard_note fn) (f_branches fn))"

record fn_context =
  cx_fn :: func
  cx_location :: "string option"
  cx_body :: string
  cx_doc :: string
  cx_callers :: "string list"
  cx_callees :: "string list"
  cx_externals :: "(string \<times> json) list"
  cx_security :: bool
  cx_evidence :: "evidence list"
  cx_coverage :: coverage

text \<open>What is found in the source files: body, location and documentation of a function, and tests.\<close>

record source_search =
  ss_snippet :: "func \<Rightarrow> string \<times> string option \<times> string"
  ss_tests :: "func \<Rightarrow> evidence list"

definition name_in :: "program \<Rightarrow> string \<Rightarrow> string res" where
  "name_in P fid = (case by_id P fid of None \<Rightarrow> Inl KeyError | Some f \<Rightarrow> Inr (f_name f))"

definition naming_evidence :: "func \<Rightarrow> string option \<Rightarrow> evidence list" where
  "naming_evidence fn loc =
     (if loc = None \<or> loc = Some [] then []
      else [\<lparr>ev_type = ''naming'', ev_location = loc,
             ev_text = ''name `'' @ f_source_name fn @ ''`'' @
               (if security_word (f_source_name fn) then '' suggests a security decision'' else [])\<rparr>])"

definition doc_evidence :: "string option \<Rightarrow> string \<Rightarrow> evidence list" where
  "doc_evidence loc doc =
     (if doc = [] then [] else [\<lparr>ev_type = ''documentation'', ev_location = loc, ev_text = List.take 400 doc\<rparr>])"

definition guard_evidence :: "guard_note \<Rightarrow> evidence" where
  "guard_evidence g = \<lparr>ev_type = ''guard'', ev_location = Some (gd_location g), ev_text = ''branch on '' @ join '', '' (gd_params g)\<rparr>"

definition caller_evidence :: "func \<Rightarrow> string \<Rightarrow> evidence" where
  "caller_evidence fn caller = \<lparr>ev_type = ''caller'', ev_location = Some caller, ev_text = ''calls '' @ f_name fn\<rparr>"

definition context_of :: "program \<Rightarrow> environment \<Rightarrow> source_search \<Rightarrow> func \<Rightarrow> fn_context res" where
  "context_of P env ss fn =
     (case ss_snippet ss fn of (snippet, loc, doc) \<Rightarrow>
        rbind (callees P (f_id fn)) (\<lambda>cees.
        rbind (externals P (f_id fn)) (\<lambda>ext.
        rbind (mapM (name_in P) (callers P (f_id fn))) (\<lambda>caller_names.
        rbind (mapM (name_in P) cees) (\<lambda>callee_names.
        rbind (mapM (\<lambda>n. rbind (ditem (summary env n) ''semantics'') (\<lambda>s. Inr (n, s))) ext) (\<lambda>exts.
        rbind (coverage_of P (f_id fn) (Some env)) (\<lambda>cov.
          Inr \<lparr>cx_fn = fn, cx_location = loc, cx_body = snippet, cx_doc = doc, cx_callers = caller_names,
               cx_callees = callee_names, cx_externals = exts,
               cx_security = (security_word (f_source_name fn) \<or> security_word doc),
               cx_evidence = naming_evidence fn loc @ doc_evidence loc doc @ map guard_evidence (guards_of fn) @ ss_tests ss fn @
                 map (caller_evidence fn) (List.take 5 caller_names),
               cx_coverage = cov\<rparr>)))))))"

section \<open>Templates\<close>

text \<open>The terms are those of refinement: \<open>param_term\<close>, \<open>lit_term\<close>, \<open>formula\<close>.\<close>

definition RESULT :: json where
  "RESULT = JObj [(''result'', JBool True)]"

definition RESULT_TRUE :: json where
  "RESULT_TRUE = formula ''EQ'' [RESULT, lit_term (JBool True)]"

definition literals_of :: "func \<Rightarrow> string \<Rightarrow> json list" where
  "literals_of fn k = (case map_of (f_literals fn) k of None \<Rightarrow> [] | Some vs \<Rightarrow> vs)"

definition domain_of :: "func \<Rightarrow> param \<Rightarrow> string" where
  "domain_of fn p =
     (if p_sort p \<in> set DOMAINS then p_sort p
      else if list_ex (\<lambda>br. p_name p \<in> set (br_params br)) (f_branches fn) \<and> list_ex is_str (literals_of fn ''str'') then
        (if length (f_params fn) = 1 \<and> literals_of fn ''int'' = [] then ''str'' else ''int'')
      else ''int'')"

definition evidence_json :: "evidence \<Rightarrow> json" where
  "evidence_json e = JObj [(''type'', JStr (ev_type e)),
     (''location'', case ev_location e of None \<Rightarrow> JNull | Some l \<Rightarrow> JStr l), (''text'', JStr (ev_text e))]"

definition binding :: "param \<times> string \<Rightarrow> json" where
  "binding = (\<lambda>(p, d). JObj [(''param'', JStr (p_id p)), (''domain'', JStr d)])"

definition template_entry :: "string \<Rightarrow> json" where
  "template_entry subtype = JObj [(''type'', JStr ''template''), (''location'', JStr subtype)]"

definition base_claim ::
    "func \<Rightarrow> (param \<times> string) list \<Rightarrow> string \<Rightarrow> string \<Rightarrow> json \<Rightarrow> string \<Rightarrow> json list \<Rightarrow> string \<Rightarrow> json" where
  "base_claim fn doms category subtype p on_exc evs desc =
     JObj [(''scope'', JObj [(''kind'', JStr ''function''), (''target'', JStr (f_id fn))]), (''category'', JStr category),
       (''subtype'', JStr subtype), (''forall'', JList (map binding doms)), (''preconditions'', JList []),
       (''property'', p), (''on_exception'', JStr on_exc),
       (''evidence'', JList (if evs = [] then [template_entry subtype] else evs)),
       (''provenance'', JObj [(''generator'', JStr ''template''), (''template'', JStr subtype)]),
       (''description'', JStr desc)]"

definition symbol_text :: "string \<Rightarrow> string" where
  "symbol_text rel = (case map_of SYMBOL rel of None \<Rightarrow> [] | Some t \<Rightarrow> utf8 t)"

text \<open>The groups of templates, each with its guard in the code.\<close>

definition outcome_templates :: "func \<Rightarrow> (param \<times> string) list \<Rightarrow> json list \<Rightarrow> json list" where
  "outcome_templates fn doms cited =
     [base_claim fn doms ''safety'' ''terminates'' (JObj [(''op'', JStr ''TERMINATES'')]) ''allowed''
        (cited @ [template_entry ''terminates'']) ''evaluation never reaches an unmodeled construct or exhausts fuel'',
      base_claim fn doms ''safety'' ''no_exception'' (JObj [(''op'', JStr ''RETURNS'')]) ''violates'' (List.take 2 cited)
        ''no input in the domain raises'']"

definition relation_template ::
    "func \<Rightarrow> (param \<times> string) list \<Rightarrow> string \<Rightarrow> json list \<Rightarrow> param \<Rightarrow> param \<Rightarrow> string \<Rightarrow> json" where
  "relation_template fn doms category evs a b rel =
     base_claim fn doms category (''result_iff_'' @ lower rel) (formula ''IFF'' [RESULT_TRUE, formula rel [param_term (p_id a), param_term (p_id b)]])
       ''violates'' evs (''result is true exactly when '' @ p_name a @ '' '' @ symbol_text rel @ '' '' @ p_name b)"

definition pair_templates ::
    "func \<Rightarrow> (param \<times> string) list \<Rightarrow> bool \<Rightarrow> json list \<Rightarrow> param \<Rightarrow> param \<Rightarrow> json list" where
  "pair_templates fn doms security evs a b =
     map (relation_template fn doms (if security then ''security'' else ''functional'') evs a b) [''EQ'', ''NEQ'', ''LT'', ''LTE''] @
     [base_claim fn doms ''security'' ''grant_only_if_eq'' (formula ''IMPLIES'' [RESULT_TRUE, formula ''EQ'' [param_term (p_id a), param_term (p_id b)]])
        ''violates'' evs (''a true result implies '' @ p_name a @ '' = '' @ p_name b),
      base_claim fn doms ''functional'' ''grant_if_eq'' (formula ''IMPLIES'' [formula ''EQ'' [param_term (p_id a), param_term (p_id b)], RESULT_TRUE])
        ''violates'' evs (p_name a @ '' = '' @ p_name b @ '' implies a true result'')]"

definition zero_template :: "func \<Rightarrow> (param \<times> string) list \<Rightarrow> json list \<Rightarrow> param \<Rightarrow> string \<Rightarrow> json" where
  "zero_template fn doms evs a rel =
     base_claim fn doms ''functional'' (''result_iff_'' @ lower rel @ ''_0'')
       (formula ''IFF'' [RESULT_TRUE, formula rel [param_term (p_id a), lit_term (JInt 0)]]) ''violates'' evs
       (''result is true exactly when '' @ p_name a @ '' '' @ symbol_text rel @ '' 0'')"

definition constant_templates :: "func \<Rightarrow> (param \<times> string) list \<Rightarrow> json list" where
  "constant_templates fn doms =
     [base_claim fn doms ''functional'' ''constant_true'' RESULT_TRUE ''violates'' [] ''result is always true'',
      base_claim fn doms ''functional'' ''constant_false'' (formula ''EQ'' [RESULT, lit_term (JBool False)]) ''violates'' [] ''result is always false'']"

definition arith_templates :: "func \<Rightarrow> (param \<times> string) list \<Rightarrow> json list \<Rightarrow> param \<Rightarrow> param \<Rightarrow> json list" where
  "arith_templates fn doms cited a b =
     map (\<lambda>(name, oper). base_claim fn doms ''functional'' (''result_is_'' @ name) (formula ''EQ'' [RESULT, formula oper [param_term (p_id a), param_term (p_id b)]])
        ''violates'' cited (''result is the '' @ name @ '' of '' @ p_name a @ '' and '' @ p_name b))
       [(''sum'', ''ADD''), (''difference'', ''SUB''), (''product'', ''MUL'')] @
     [base_claim fn doms ''functional'' ''result_ge_first'' (formula ''GTE'' [RESULT, param_term (p_id a)]) ''violates'' [] (''result is at least '' @ p_name a)]"

definition identity_template :: "func \<Rightarrow> (param \<times> string) list \<Rightarrow> param \<Rightarrow> json" where
  "identity_template fn doms a =
     base_claim fn doms ''functional'' (''identity_'' @ p_name a) (formula ''EQ'' [RESULT, param_term (p_id a)]) ''violates'' [] (''result equals '' @ p_name a)"

definition nonnegative_template :: "func \<Rightarrow> (param \<times> string) list \<Rightarrow> json" where
  "nonnegative_template fn doms =
     base_claim fn doms ''functional'' ''nonnegative'' (formula ''GTE'' [RESULT, lit_term (JInt 0)]) ''violates'' [] ''result is never negative''"

definition int_templates :: "func \<Rightarrow> (param \<times> string) list \<Rightarrow> json list \<Rightarrow> param list \<Rightarrow> json list" where
  "int_templates fn doms cited ints =
     (case ints of a # b # _ \<Rightarrow> arith_templates fn doms cited a b | _ \<Rightarrow> []) @
     map (identity_template fn doms) (List.take 2 ints) @ [nonnegative_template fn doms]"

text \<open>Ordering between calls, in the order in which the calls are first made.\<close>

definition ordered_names :: "func \<Rightarrow> string list" where
  "ordered_names fn = rev (remdups (rev (map cs_callee (sort_key cs_order (f_calls fn)))))"

definition before_claim :: "func \<Rightarrow> json list \<Rightarrow> string \<Rightarrow> string \<Rightarrow> json" where
  "before_claim fn naming_evs first_call later_call =
     base_claim fn [] ''security'' ''check_before_privileged''
       (JObj [(''op'', JStr ''BEFORE''), (''first'', JStr first_call), (''then'', JStr later_call)]) ''violates'' naming_evs
       (''every call to '' @ later_call @ '' is preceded by '' @ first_call)"

definition ordering_templates :: "func \<Rightarrow> json list \<Rightarrow> string list \<Rightarrow> string list \<Rightarrow> json list" where
  "ordering_templates fn naming_evs checks privileged =
     [before_claim fn naming_evs c q. c \<leftarrow> checks, q \<leftarrow> privileged, c \<noteq> q] @
     (case checks of
        c # _ \<Rightarrow> if f_writes fn = [] then [] else
          [base_claim fn [] ''structural'' ''calls_check'' (JObj [(''op'', JStr ''CALLS''), (''callee'', JStr c)]) ''violates'' []
             (f_source_name fn @ '' calls '' @ c @ '' before mutating state'')]
      | [] \<Rightarrow> [])"

definition behavior_templates :: "func \<Rightarrow> (param \<times> string) list \<Rightarrow> bool \<Rightarrow> json list \<Rightarrow> json list \<Rightarrow> json list" where
  "behavior_templates fn doms security naming_evs cited =
     (let ints = map fst (filter (\<lambda>(p, d). d = ''int'') doms); rsort = f_return_sort fn;
          bools = rsort \<in> {''bool'', ''any''}; numbers = rsort \<in> {''int'', ''any''}; evs = (if security then naming_evs @ cited else cited)
      in outcome_templates fn doms cited @
         (if bools then (case ints of a # b # _ \<Rightarrow> pair_templates fn doms security evs a b | _ \<Rightarrow> []) else []) @
         (if bools then (case ints of [a] \<Rightarrow> map (zero_template fn doms cited a) [''GT'', ''GTE'', ''EQ''] | _ \<Rightarrow> []) else []) @
         (if bools then constant_templates fn doms else []) @
         (if numbers \<and> ints \<noteq> [] \<and> length ints = length (f_params fn) then int_templates fn doms cited ints else []))"

definition template_claims :: "func \<Rightarrow> fn_context \<Rightarrow> json list" where
  "template_claims fn ctx =
     (if f_synthetic fn then []
      else
        let doms = map (\<lambda>p. (p, domain_of fn p)) (f_params fn);
            evs_of = (\<lambda>types. map evidence_json (filter (\<lambda>e. ev_type e \<in> set types) (cx_evidence ctx)));
            cited = evs_of [''guard'', ''test'', ''invariant_test'', ''documentation'']; naming_evs = evs_of [''naming''];
            names = ordered_names fn;
            checks = filter (\<lambda>n. security_word (lstrip_char (CHR ''.'') n)) names;
            privileged = filter (\<lambda>n. mentions_any PRIVILEGED (lstrip_char (CHR ''.'') n)) names
        in behavior_templates fn doms (cx_security ctx) naming_evs cited @ ordering_templates fn naming_evs checks privileged)"

section \<open>Candidates of a language model\<close>

text \<open>
  What the service answers: it cannot be reached, it stopped early, or it gave the parsed answer with
  the identifier of the request. \<open>loads\<close> parses JSON and \<open>floats\<close> the text of a number.
\<close>

datatype llm_reply = Unavailable string | Stopped string | Answer json json

definition in_unit :: "json \<Rightarrow> rat \<Rightarrow> json" where
  "in_unit v q = (if q < 1 then (if 0 < q then v else JFlt 0 ''0.0'') else JFlt 1 ''1.0'')"

definition unit_float :: "(string \<Rightarrow> (rat \<times> string) option) \<Rightarrow> json \<Rightarrow> json res" where
  "unit_float floats v =
     (case v of
        JFlt q r \<Rightarrow> Inr (in_unit v q)
      | JInt i \<Rightarrow> Inr (in_unit (JFlt (of_int i) (dec_int i @ ''.0'')) (of_int i))
      | JBool b \<Rightarrow> Inr (if b then JFlt 1 ''1.0'' else JFlt 0 ''0.0'')
      | JStr s \<Rightarrow> (case floats s of None \<Rightarrow> Inl (ValueError ''float'') | Some (q, r) \<Rightarrow> Inr (in_unit (JFlt q r) q))
      | _ \<Rightarrow> Inl TypeError)"

definition loaded_text :: "(string \<Rightarrow> json option) \<Rightarrow> json \<Rightarrow> json res" where
  "loaded_text loads v =
     (case v of
        JStr s \<Rightarrow> (case loads s of None \<Rightarrow> Inl (ValueError ''json'') | Some x \<Rightarrow> Inr x)
      | _ \<Rightarrow> Inl TypeError)"

definition item_of :: "json \<Rightarrow> string \<Rightarrow> json res" where
  "item_of raw k = (case raw of JObj d \<Rightarrow> ditem d k | _ \<Rightarrow> Inl TypeError)"

definition llm_claim ::
    "(string \<Rightarrow> json option) \<Rightarrow> (string \<Rightarrow> (rat \<times> string) option) \<Rightarrow> string \<Rightarrow> json \<Rightarrow> func \<Rightarrow> json \<Rightarrow> json res" where
  "llm_claim loads floats model request fn raw =
     rbind (item_of raw ''category'') (\<lambda>category.
     rbind (item_of raw ''subtype'') (\<lambda>subtype.
     rbind (item_of raw ''forall'') (\<lambda>bs.
     rbind (item_of raw ''preconditions_json'') (\<lambda>pt.
     rbind (loaded_text loads (py_or pt (JStr ''[]''))) (\<lambda>pres.
     rbind (rbind (item_of raw ''property_json'') (loaded_text loads)) (\<lambda>p.
     rbind (item_of raw ''on_exception'') (\<lambda>oe.
     rbind (item_of raw ''assumptions'') (\<lambda>asms.
     rbind (item_of raw ''evidence'') (\<lambda>evs.
     rbind (rbind (item_of raw ''confidence'') (unit_float floats)) (\<lambda>conf.
     rbind (item_of raw ''description'') (\<lambda>desc.
       Inr (JObj [(''scope'', JObj [(''kind'', JStr ''function''), (''target'', JStr (f_id fn))]), (''category'', category),
         (''subtype'', subtype), (''forall'', bs), (''preconditions'', pres), (''property'', p), (''on_exception'', oe),
         (''assumptions'', asms), (''evidence'', evs), (''confidence'', conf), (''description'', desc),
         (''provenance'', JObj [(''generator'', JStr ''llm''), (''model_version'', JStr model), (''request_id'', request)])]))))))))))))"

text \<open>A generator: the templates, or a model with the rejections it has recorded so far.\<close>

datatype generator = Templates | Model string "func \<Rightarrow> fn_context \<Rightarrow> llm_reply" "(string \<times> string) list"

definition llm_step ::
    "(string \<Rightarrow> json option) \<Rightarrow> (string \<Rightarrow> (rat \<times> string) option) \<Rightarrow> string \<Rightarrow> json \<Rightarrow> func \<Rightarrow>
     json list \<times> (string \<times> string) list \<Rightarrow> json \<Rightarrow> (json list \<times> (string \<times> string) list) res" where
  "llm_step loads floats model request fn = (\<lambda>(out, rejs) raw.
     case llm_claim loads floats model request fn raw of
       Inr c \<Rightarrow> Inr (out @ [c], rejs)
     | Inl e \<Rightarrow> (case e of
           KeyError \<Rightarrow> Inr (out, rejs @ [(f_id fn, ''malformed candidate'')])
         | TypeError \<Rightarrow> Inr (out, rejs @ [(f_id fn, ''malformed candidate'')])
         | ValueError w \<Rightarrow> Inr (out, rejs @ [(f_id fn, ''malformed candidate'')])
         | _ \<Rightarrow> Inl e))"

definition llm_generate ::
    "(string \<Rightarrow> json option) \<Rightarrow> (string \<Rightarrow> (rat \<times> string) option) \<Rightarrow> string \<Rightarrow> llm_reply \<Rightarrow> (string \<times> string) list \<Rightarrow> func \<Rightarrow>
     (json list \<times> (string \<times> string) list) res" where
  "llm_generate loads floats model reply rejs fn =
     (if f_synthetic fn then Inr ([], rejs)
      else (case reply of
          Unavailable e \<Rightarrow> Inr ([], rejs @ [(f_id fn, ''generator unavailable: '' @ e)])
        | Stopped why \<Rightarrow> Inr ([], rejs @ [(f_id fn, ''generator stopped: '' @ why)])
        | Answer v request \<Rightarrow>
            rbind (case v of JObj d \<Rightarrow> Inr (dget d ''claims'' (JList [])) | _ \<Rightarrow> Inl AttributeError) (\<lambda>cs.
            rbind (py_iter cs) (\<lambda>raws. foldM (llm_step loads floats model request fn) ([], rejs) raws))))"

definition generate ::
    "(string \<Rightarrow> json option) \<Rightarrow> (string \<Rightarrow> (rat \<times> string) option) \<Rightarrow> func \<Rightarrow> fn_context \<Rightarrow> generator \<Rightarrow> (json list \<times> generator) res" where
  "generate loads floats fn ctx g =
     (case g of
        Templates \<Rightarrow> Inr (template_claims fn ctx, g)
      | Model model answers rejs \<Rightarrow>
          rbind (llm_generate loads floats model (answers fn ctx) rejs fn) (\<lambda>(cs, rejs'). Inr (cs, Model model answers rejs')))"

definition rejections_of :: "generator \<Rightarrow> (string \<times> string) list" where
  "rejections_of g = (case g of Templates \<Rightarrow> [] | Model model answers rejs \<Rightarrow> rejs)"

text \<open>\<open>generators(spec)\<close>: \<open>llm\<close> is the model, or why it is not available.\<close>

definition add_generator :: "string + generator \<Rightarrow> generator list \<times> string list \<Rightarrow> string \<Rightarrow> (generator list \<times> string list) res" where
  "add_generator llm = (\<lambda>(out, notes) name.
     if name = ''template'' then Inr (out @ [Templates], notes)
     else if name = ''llm'' then
       Inr (case llm of Inr g \<Rightarrow> (out @ [g], notes) | Inl why \<Rightarrow> (out, notes @ [''LLM generator unavailable: '' @ why]))
     else Inl (ValueError ''unknown generator''))"

definition generators_of :: "string + generator \<Rightarrow> string \<Rightarrow> (generator list \<times> string list) res" where
  "generators_of llm spec =
     foldM (add_generator llm) ([], []) (filter (\<lambda>s. s \<noteq> []) (map strip (split_char (CHR '','') spec)))"

end
