(* ===== verification/Harness.thy ===== *)
theory Harness
  imports Evidence Critic
begin

text \<open>
  The state of the harness and the stages before verification, \<open>src/src/autoform/harness/pipeline.py\<close>:
  what is kept for each claim, the view a judge gets of a function, the priors and the utility, and
  proposing, routing and registering claims. An operation is a function of the state that returns a
  value and the new state, or an error. A claim's annotations, which the code writes into its
  dictionary, are fields of a record around the dictionary that \<open>validate\<close> returned.
\<close>

section \<open>Claims and their records\<close>

record intent_note =
  in_group :: string
  in_chosen :: bool
  in_contradicts :: bool
  in_probability :: real
  in_rivals :: "string list"
  in_decision :: string

record judgment_note =
  ju_probabilities :: "(string \<times> real) list"
  ju_label :: string
  ju_selection :: real

record aclaim =
  ac_claim :: dict
  ac_intent :: "intent_note option"
  ac_judgment :: "judgment_note option"
  ac_utility :: real
  ac_backend :: "string option"
  ac_depth :: nat
  ac_assumption_ids :: "json list"

definition fresh_claim :: "dict \<Rightarrow> aclaim" where
  "fresh_claim c = \<lparr>ac_claim = c, ac_intent = None, ac_judgment = None, ac_utility = 0, ac_backend = None, ac_depth = 0,
     ac_assumption_ids = []\<rparr>"

record counterexample_note =
  cn_inputs :: json
  cn_outcome :: json
  cn_kind :: json
  cn_native :: dict
  cn_match :: json
  cn_class :: string
  cn_probabilities :: "(string \<times> real) list"
  cn_allowed :: "string list"
  cn_decision :: string

record repair_note =
  rn_chosen :: string
  rn_kind :: string
  rn_text :: string
  rn_decision :: string
  rn_options :: "string list"
  rn_offered :: "string list"
  rn_core :: "json option"
  rn_precondition :: "(string \<times> string \<times> string list) option"
  rn_assumption :: "(string \<times> string) option"
  rn_critic :: "string option"

record defect_note =
  dn_class :: string
  dn_probabilities :: "(string \<times> real) list"
  dn_allowed :: "string list"
  dn_forced :: bool
  dn_label :: "string option"
  dn_decision :: string

record crec =
  cr_claim :: aclaim
  cr_function :: string
  cr_result :: dict
  cr_selected :: bool
  cr_assumptions :: "dict list"
  cr_depth :: nat
  cr_unsupported :: "string list"
  cr_cache_key :: "string option"
  cr_counterexample :: "counterexample_note option"
  cr_disposition :: "string option"
  cr_repair :: "repair_note option"
  cr_repaired_by :: "string option"
  cr_defect :: "defect_note option"
  cr_value :: "(string \<times> string) option"
  cr_confidence :: "confidence option"
  cr_certificate :: "dict option"

record review_entry =
  rv_kind :: string
  rv_subject :: string
  rv_detail :: string

record harness =
  h_claims :: "(string \<times> crec) list"
  h_rejected :: "(string \<times> string \<times> string) list"
  h_review :: "review_entry list"
  h_contexts :: "(string \<times> fn_context) list"
  h_generators :: "generator list"
  h_judge :: judge
  h_ledger :: ledger
  h_store :: "files \<times> cache"

text \<open>What one run of the harness is given, with the services it relies on as functions.\<close>

record config =
  su_program :: program
  su_env :: environment
  su_sha :: "string \<Rightarrow> string"
  su_search :: source_search
  su_source :: "string option"
  su_functions :: "string list"
  su_top_k :: int
  su_max_refinements :: nat
  su_fuel :: nat
  su_native :: bool
  su_model_sha :: string
  su_bodies :: "(string \<times> json) list"
  su_show_set :: "string list \<Rightarrow> string"
  su_lean :: "string \<Rightarrow> string \<Rightarrow> run_output"
  su_lean_backend :: lean_backend
  su_loads :: "string \<Rightarrow> json list option"
  su_loads_str :: "string \<Rightarrow> string option"
  su_loads_json :: "string \<Rightarrow> json option"
  su_floats :: "string \<Rightarrow> (rat \<times> string) option"
  su_exec :: "string \<Rightarrow> string \<Rightarrow> string \<Rightarrow> replay res"
  su_is_file :: "string \<Rightarrow> bool"
  su_replayed :: "string \<Rightarrow> string + json"

section \<open>Operations on the state\<close>

type_synonym 'a hm = "harness \<Rightarrow> ('a \<times> harness) res"

definition hret :: "'a \<Rightarrow> 'a hm" where
  "hret x = (\<lambda>h. Inr (x, h))"

definition hbind :: "'a hm \<Rightarrow> ('a \<Rightarrow> 'b hm) \<Rightarrow> 'b hm" where
  "hbind m f = (\<lambda>h. rbind (m h) (\<lambda>(x, h'). f x h'))"

definition hlift :: "'a res \<Rightarrow> 'a hm" where
  "hlift r = (\<lambda>h. rbind r (\<lambda>x. Inr (x, h)))"

definition hget :: "(harness \<Rightarrow> 'a) \<Rightarrow> 'a hm" where
  "hget f = (\<lambda>h. Inr (f h, h))"

definition hmod :: "(harness \<Rightarrow> harness) \<Rightarrow> unit hm" where
  "hmod f = (\<lambda>h. Inr ((), f h))"

primrec hmap :: "('a \<Rightarrow> 'b hm) \<Rightarrow> 'a list \<Rightarrow> 'b list hm" where
  "hmap f [] = hret []"
| "hmap f (x # xs) = hbind (f x) (\<lambda>y. hbind (hmap f xs) (\<lambda>ys. hret (y # ys)))"

text \<open>Ask the judge: its counter and log change.\<close>

definition asking :: "(judge \<Rightarrow> ('a \<times> judge) res) \<Rightarrow> 'a hm" where
  "asking q = (\<lambda>h. rbind (q (h_judge h)) (\<lambda>(x, j). Inr (x, h\<lparr>h_judge := j\<rparr>)))"

definition rec_of :: "string \<Rightarrow> crec hm" where
  "rec_of cid = (\<lambda>h. case map_of (h_claims h) cid of None \<Rightarrow> Inl KeyError | Some r \<Rightarrow> Inr (r, h))"

definition put_rec :: "string \<Rightarrow> crec \<Rightarrow> unit hm" where
  "put_rec cid r = hmod (\<lambda>h. h\<lparr>h_claims := AList.update cid r (h_claims h)\<rparr>)"

definition change_rec :: "string \<Rightarrow> (crec \<Rightarrow> crec) \<Rightarrow> unit hm" where
  "change_rec cid f = hbind (rec_of cid) (\<lambda>r. put_rec cid (f r))"

definition note_review :: "string \<Rightarrow> string \<Rightarrow> string \<Rightarrow> unit hm" where
  "note_review kind subject detail = hmod (\<lambda>h. h\<lparr>h_review := h_review h @ [\<lparr>rv_kind = kind, rv_subject = subject, rv_detail = detail\<rparr>]\<rparr>)"

definition fn_of :: "config \<Rightarrow> string \<Rightarrow> func hm" where
  "fn_of su fid = hlift (case by_id (su_program su) fid of None \<Rightarrow> Inl KeyError | Some f \<Rightarrow> Inr f)"

definition ctx_of :: "string \<Rightarrow> fn_context hm" where
  "ctx_of fid = (\<lambda>h. case map_of (h_contexts h) fid of None \<Rightarrow> Inl KeyError | Some c \<Rightarrow> Inr (c, h))"

section \<open>Options, views and priors\<close>

definition INTENT_THRESHOLD :: real where
  "INTENT_THRESHOLD = 8 / 10"

definition HELD :: "string list" where
  "HELD = [''PROVED'', ''BOUNDED_PROVED'', ''ASSUMPTION_DEPENDENT'']"

definition MODEL_STATUSES :: "string list" where
  "MODEL_STATUSES = [''MODEL_INCOMPLETE'', ''INCONSISTENT_MODEL'']"

definition signature_text :: "fn_context \<Rightarrow> string" where
  "signature_text ctx =
     (if f_source_name (cx_fn ctx) \<noteq> [] then f_source_name (cx_fn ctx) else f_name (cx_fn ctx)) @ ''('' @
     join '', '' (map p_name (f_params (cx_fn ctx))) @ '') -> '' @ f_return_sort (cx_fn ctx)"

definition evidence_text :: "evidence \<Rightarrow> string" where
  "evidence_text e = List.take 160 (ev_type e @ '' @ '' @ (case ev_location e of None \<Rightarrow> ''None'' | Some l \<Rightarrow> l) @ '': '' @ ev_text e)"

definition state_view :: "fn_context \<Rightarrow> bool \<Rightarrow> dict" where
  "state_view ctx implementation =
     [(''function'', JStr (signature_text ctx)), (''file'', JStr (f_file (cx_fn ctx))),
      (''documentation'', JStr (List.take 400 (cx_doc ctx))), (''callers'', JList (map JStr (List.take 8 (cx_callers ctx)))),
      (''callees'', JList (map JStr (List.take 8 (cx_callees ctx)))),
      (''externals'', JList (map (\<lambda>(n, s). JStr (n @ '' ('' @ py_str s @ '')'')) (cx_externals ctx))),
      (''evidence'', JList (map (\<lambda>e. JStr (evidence_text e))
         (filter (\<lambda>e. implementation \<or> ev_type e \<noteq> ''guard'') (List.take 10 (cx_evidence ctx)))))] @
     (if implementation then [(''implementation'', JStr (List.take 2000 (cx_body ctx)))] else [])"

definition core_of :: "dict \<Rightarrow> json" where
  "core_of claim = JObj (map (\<lambda>k. (k, dget claim k JNull)) [''scope'', ''forall'', ''preconditions'', ''property'', ''on_exception''])"

definition has_warning :: "dict \<Rightarrow> bool res" where
  "has_warning claim =
     rbind (py_iter (dget claim ''critic'' (JList []))) (anyM (\<lambda>f. rbind (item_of f ''severity'') (\<lambda>s. Inr (s = JStr ''warn''))))"

definition mentions_result_claim :: "dict \<Rightarrow> bool res" where
  "mentions_result_claim claim = rbind (ditem claim ''property'') (\<lambda>p. Inr (mentions_result p))"

definition judgment_prior :: "dict \<Rightarrow> fn_context \<Rightarrow> (string \<times> real) list res" where
  "judgment_prior claim ctx =
     rbind (evidence_score claim) (\<lambda>ev.
     rbind (mentions_result_claim claim) (\<lambda>mr.
     rbind (ditem claim ''category'') (\<lambda>cat.
     rbind (complexity claim) (\<lambda>size_of_claim.
     rbind (independent_sources claim) (\<lambda>sources.
     rbind (from_template claim) (\<lambda>tmpl.
     rbind (has_warning claim) (\<lambda>warned.
       Inr (apply_if warned (prior_add ''LIKELY_VACUOUS'' (2 / 10))
           (apply_if (sources = 0 \<and> tmpl) (prior_add ''UNSUPPORTED_BY_EVIDENCE'' (2 / 10))
           (apply_if (truthy (dget claim ''dominated_by'' JNull)) (prior_add ''TOO_WEAK'' (25 / 100))
           (apply_if (size_of_claim \<le> 1) (prior_add ''TRIVIAL'' (25 / 100))
           (apply_if (cat = JStr ''security'' \<and> cx_security ctx) (prior_add ''SECURITY_RELEVANT'' (45 / 100))
           (apply_if (ev > 3 / 10) (prior_add ''USEFUL_PROPERTY'' (2 / 10))
           (apply_if mr (prior_add ''USEFUL_PROPERTY'' (25 / 100)) (flat_prior CLAIM_JUDGMENTS)))))))))))))))"

definition judged :: "aclaim \<Rightarrow> (string \<times> real) list" where
  "judged c = (case ac_judgment c of None \<Rightarrow> [] | Some j \<Rightarrow> ju_probabilities j)"

definition label_of :: "aclaim \<Rightarrow> string" where
  "label_of c = (case ac_judgment c of None \<Rightarrow> [] | Some j \<Rightarrow> ju_label j)"

definition intended :: "aclaim \<Rightarrow> bool" where
  "intended c = (case ac_intent c of None \<Rightarrow> False | Some n \<Rightarrow> in_chosen n)"

definition property_op :: "dict \<Rightarrow> json res" where
  "property_op claim = rbind (ditem claim ''property'') (\<lambda>p. jget p ''op'')"

definition value_prior :: "aclaim \<Rightarrow> json \<Rightarrow> (string \<times> real) list res" where
  "value_prior c status =
     rbind (ditem (ac_claim c) ''category'') (\<lambda>cat.
     rbind (complexity (ac_claim c)) (\<lambda>size_of_claim.
     rbind (property_op (ac_claim c)) (\<lambda>oper.
       let probs = judged c; claim = ac_claim c;
           weight_of = 2 / 10 + 3 / 10 * (probability probs ''SECURITY_RELEVANT'' + probability probs ''USEFUL_PROPERTY'')
       in Inr (apply_if (status = JStr ''BOUNDED_PROVED'') (prior_add ''WEAKER_THAN_INTENDED'' (5 / 100))
              (apply_if (status = JStr ''ASSUMPTION_DEPENDENT'') (prior_add ''WEAKER_THAN_INTENDED'' (2 / 10))
              (apply_if (truthy (dget claim ''parent'' JNull) \<or> truthy (dget claim ''dominated_by'' JNull))
                 (prior_add ''WEAKER_THAN_INTENDED'' (3 / 10))
              (apply_if (size_of_claim \<le> 1 \<or> label_of c \<in> {''TRIVIAL'', ''LIKELY_VACUOUS''} \<or> oper \<in> JStr ` set OUTCOME)
                 (prior_add ''TRIVIAL_IN_HINDSIGHT'' (3 / 10))
              (apply_if (intended c) (prior_add ''HIGH_VALUE'' (3 / 10))
              (apply_if (cat = JStr ''security'') (prior_add ''HIGH_VALUE'' weight_of)
                 [(''HIGH_VALUE'', 1 / 10), (''ROUTINE'', 3 / 10), (''TRIVIAL_IN_HINDSIGHT'', 1 / 10), (''WEAKER_THAN_INTENDED'', 1 / 10)])))))))))"

definition utility :: "dict \<Rightarrow> (string \<times> real) list \<Rightarrow> real \<Rightarrow> coverage \<Rightarrow> real res" where
  "utility claim j select_p cov =
     rbind (evidence_score claim) (\<lambda>ev.
     rbind (rbind (ditem claim ''assumptions'') py_len) (\<lambda>n.
     rbind (complexity claim) (\<lambda>size_of_claim.
       let nontrivial = 1 - probability j ''TRIVIAL'' - probability j ''LIKELY_VACUOUS'';
           weak = (if truthy (dget claim ''dominated_by'' JNull) then 1 else 0)
       in Inr (py_round 4 (2 / 10 * ev + 25 / 100 * probability j ''SECURITY_RELEVANT'' + 3 / 10 * probability j ''USEFUL_PROPERTY''
            + 5 / 100 * cv_confidence cov + 1 / 10 * nontrivial + 25 / 100 * select_p
            - 1 / 10 * probability j ''UNSUPPORTED_BY_EVIDENCE'' - 8 / 100 * of_int n - 5 / 100 * weak - 1 / 100 * of_int size_of_claim)))))"

section \<open>Registering and routing a claim\<close>

definition new_rec :: "aclaim \<Rightarrow> func \<Rightarrow> dict \<Rightarrow> bool \<Rightarrow> dict list \<Rightarrow> crec" where
  "new_rec c fn result selected assumptions =
     \<lparr>cr_claim = c, cr_function = f_id fn, cr_result = result, cr_selected = selected, cr_assumptions = assumptions,
      cr_depth = ac_depth c, cr_unsupported = [], cr_cache_key = None, cr_counterexample = None, cr_disposition = None,
      cr_repair = None, cr_repaired_by = None, cr_defect = None, cr_value = None, cr_confidence = None, cr_certificate = None\<rparr>"

definition claim_ident :: "aclaim \<Rightarrow> string res" where
  "claim_ident c = id_of (ac_claim c)"

definition register :: "config \<Rightarrow> aclaim \<Rightarrow> func \<Rightarrow> dict \<Rightarrow> bool \<Rightarrow> unit hm" where
  "register su c fn result selected =
     hbind (hlift (assumptions_for (su_sha su) (su_env su) (su_program su) fn (ac_claim c))) (\<lambda>asms.
     hbind (hlift (mapM (\<lambda>a. ditem a ''id'') asms)) (\<lambda>ids.
     hbind (hlift (claim_ident c)) (\<lambda>cid.
     hbind (put_rec cid (new_rec (c\<lparr>ac_assumption_ids := ids\<rparr>) fn result selected asms)) (\<lambda>u.
       if selected then
         hbind (hget h_ledger) (\<lambda>L.
         hbind (hlift (record_claim L (cid, asms))) (\<lambda>L'. hmod (\<lambda>h. h\<lparr>h_ledger := L'\<rparr>)))
       else hret ()))))"

definition status_entry :: "string \<Rightarrow> dict" where
  "status_entry s = [(''status'', JStr s)]"

definition route :: "config \<Rightarrow> aclaim \<Rightarrow> func \<Rightarrow> json \<Rightarrow> unit hm" where
  "route su c fn state =
     hbind (hlift (feasible_backends (ac_claim c))) (\<lambda>feasible.
       if feasible = [] then
         hbind (hlift (claim_operators (ac_claim c))) (\<lambda>ops.
           register su c fn (status_entry ''UNSUPPORTED'' @
             [(''reason'', JStr (''no available backend expresses: '' @ join '', '' (sorted_set ops)))]) True)
       else
         hbind (hlift (claim_ident c)) (\<lambda>cid.
         hbind (asking (route_backend state feasible (map (\<lambda>o1. (fst o1, 1)) feasible) (JObj [(''claim'', JStr cid)]))) (\<lambda>d.
           register su (c\<lparr>ac_backend := Some (d_chosen d)\<rparr>) fn (status_entry ''PENDING'') True)))"

section \<open>Proposing claims for a function\<close>

definition wanted :: "config \<Rightarrow> func \<Rightarrow> bool" where
  "wanted su fn \<longleftrightarrow> su_functions su = [] \<or> f_name fn \<in> set (su_functions su) \<or> f_source_name fn \<in> set (su_functions su) \<or>
     f_id fn \<in> set (su_functions su)"

definition targets :: "config \<Rightarrow> func list" where
  "targets su = filter (wanted su) (filter (\<lambda>f. \<not> f_synthetic f) (pr_functions (su_program su)))"

text \<open>Every generator is asked; then every generator's record of rejections, as it is by now, is added.\<close>

definition generate_all :: "config \<Rightarrow> func \<Rightarrow> fn_context \<Rightarrow> json list hm" where
  "generate_all su fn ctx =
     hbind (hget h_generators) (\<lambda>gs.
     hbind (hlift (mapM (generate (su_loads_json su) (su_floats su) fn ctx) gs)) (\<lambda>outs.
     hbind (hmod (\<lambda>h. h\<lparr>h_generators := map snd outs,
        h_rejected := h_rejected h @ map (\<lambda>r. (''generator'', f_name fn, snd r)) (concat (map rejections_of (map snd outs)))\<rparr>)) (\<lambda>u.
       hret (concat (map fst outs)))))"

definition screened :: "config \<Rightarrow> func \<Rightarrow> json list \<Rightarrow> dict list hm" where
  "screened su fn raw =
     hbind (hlift (screen (su_sha su) raw (su_program su))) (\<lambda>(accepted, rejected).
     hbind (hmod (\<lambda>h. h\<lparr>h_rejected := h_rejected h @ map (\<lambda>(c, stage, reason). (stage, f_name fn, reason)) rejected\<rparr>)) (\<lambda>u.
       hret accepted))"

definition claim_text :: "config \<Rightarrow> dict \<Rightarrow> string res" where
  "claim_text su c =
     rbind (render_claim c (su_program su)) (\<lambda>t.
       Inr (t @ (if truthy (dget c ''description'' JNull) then newline @ ''('' @ py_str (dget c ''description'' JNull) @ '')'' else [])))"

definition claim_context :: "func \<Rightarrow> dict \<Rightarrow> json res" where
  "claim_context fn c = rbind (ditem c ''id'') (\<lambda>i. Inr (JObj [(''claim'', i), (''function'', JStr (f_name fn))]))"

definition select_prior :: "string \<times> (string \<times> real) list \<Rightarrow> string \<times> real" where
  "select_prior = (\<lambda>(cid, j). (cid, 2 / 10 + 5 / 10 * probability j ''USEFUL_PROPERTY'' + 5 / 10 * probability j ''SECURITY_RELEVANT''))"

definition intent_of ::
    "func \<Rightarrow> nat \<Rightarrow> string list \<Rightarrow> decision \<Rightarrow> json list \<Rightarrow> dict \<Rightarrow> dict \<Rightarrow> (string \<times> intent_note) res" where
  "intent_of fn gi ids d lits winner c =
     rbind (id_of c) (\<lambda>cid.
     rbind (id_of winner) (\<lambda>wid.
     rbind (if cid = wid then Inr False else rivals c winner lits) (\<lambda>contra.
       Inr (cid, \<lparr>in_group = f_id fn @ ''/R'' @ dec gi, in_chosen = (cid = d_chosen d), in_contradicts = contra,
         in_probability = py_round 4 (lookup (d_probabilities d) cid 0), in_rivals = filter (\<lambda>i. i \<noteq> cid) ids,
         in_decision = d_id d\<rparr>))))"

definition ask_intent ::
    "func \<Rightarrow> json \<Rightarrow> (string \<times> string) list \<Rightarrow> (string \<times> real) list \<Rightarrow> nat \<times> dict list \<Rightarrow> (string \<times> intent_note) list hm" where
  "ask_intent fn state texts select = (\<lambda>(gi, members).
     hbind (hlift (mapM id_of members)) (\<lambda>ids.
     hbind (asking (intent state (filter (\<lambda>(i, t). i \<in> set ids) texts) (map (\<lambda>i. (i, lookup select i (1 / 10) + 1 / 10)) ids)
        (JObj [(''function'', JStr (f_name fn)), (''group'', JList (map JStr ids))]))) (\<lambda>d.
     hbind (hlift (case find (\<lambda>(i, c). i = d_chosen d) (zip ids members) of None \<Rightarrow> Inl StopIteration | Some ic \<Rightarrow> Inr (snd ic))) (\<lambda>winner.
       hlift (mapM (intent_of fn gi ids d (func_literals fn) winner) members)))))"

definition top_label :: "(string \<times> real) list \<Rightarrow> string res" where
  "top_label ps = rbind (argmax (length ps) (map snd ps)) (\<lambda>i. Inr (fst (ps ! i)))"

definition annotate ::
    "fn_context \<Rightarrow> (string \<times> real) list \<Rightarrow> (string \<times> intent_note) list \<Rightarrow> dict \<times> decision \<Rightarrow> aclaim res" where
  "annotate ctx select intents = (\<lambda>(c, d).
     rbind (id_of c) (\<lambda>cid.
     rbind (top_label (d_probabilities d)) (\<lambda>label.
     rbind (utility c (d_probabilities d) (lookup select cid 0) (cx_coverage ctx)) (\<lambda>u.
       Inr ((fresh_claim c)\<lparr>ac_intent := map_of intents cid, ac_utility := u,
         ac_judgment := Some \<lparr>ju_probabilities = d_probabilities d, ju_label = label, ju_selection = py_round 4 (lookup select cid 0)\<rparr>\<rparr>)))))"

definition is_weak :: "aclaim \<Rightarrow> bool" where
  "is_weak c \<longleftrightarrow> label_of c \<in> {''TRIVIAL'', ''LIKELY_VACUOUS''}"

definition choose_claims :: "int \<Rightarrow> aclaim list \<Rightarrow> aclaim list" where
  "choose_claims top_k ranked =
     (let wanted_ones = filter intended ranked; others = filter (\<lambda>c. \<not> intended c) ranked
      in List.take (nat (max top_k (int (length wanted_ones))))
           (wanted_ones @ filter (\<lambda>c. \<not> is_weak c) others @ filter is_weak others))"

definition not_selected :: "config \<Rightarrow> func \<Rightarrow> (real \<Rightarrow> string) \<Rightarrow> aclaim \<Rightarrow> unit hm" where
  "not_selected su fn show_real c =
     register su c fn (status_entry ''NOT_SELECTED'' @
       [(''reason'', JStr (''utility '' @ show_real (ac_utility c) @ '' below the top-'' @ dec_int (su_top_k su) @
          '' (judged '' @ label_of c @ '')''))]) False"

text \<open>What follows the screening of a function's candidates, when any were accepted.\<close>

definition judge_and_route :: "config \<Rightarrow> (real \<Rightarrow> string) \<Rightarrow> func \<Rightarrow> fn_context \<Rightarrow> dict list \<Rightarrow> string list hm" where
  "judge_and_route su show_real fn ctx accepted =
     (let state = JObj (state_view ctx False) in
      hbind (hlift (mapM (claim_text su) accepted)) (\<lambda>rendered.
      hbind (hlift (mapM (\<lambda>c. judgment_prior c ctx) accepted)) (\<lambda>priors.
      hbind (hlift (mapM (claim_context fn) accepted)) (\<lambda>contexts.
      hbind (asking (judge_claims state rendered priors contexts)) (\<lambda>ds.
      hbind (hlift (mapM id_of accepted)) (\<lambda>ids.
      hbind (asking (select_candidates state (zip ids rendered) (map select_prior (zip ids (map d_probabilities ds)))
         (JObj [(''function'', JStr (f_name fn))]))) (\<lambda>select.
      hbind (hlift (rival_groups accepted (su_program su))) (\<lambda>groups.
      hbind (hmap (ask_intent fn state (zip ids rendered) select) (enumerate 0 groups)) (\<lambda>intents.
      hbind (hlift (mapM (annotate ctx select (concat intents)) (zip accepted ds))) (\<lambda>cs.
        let ranked = sort_key (\<lambda>c. - ac_utility c) cs; chosen = choose_claims (su_top_k su) ranked in
      hbind (hmap (not_selected su fn show_real) (filter (\<lambda>c. c \<notin> set chosen) ranked)) (\<lambda>u.
      hbind (hmap (\<lambda>c. route su c fn state) chosen) (\<lambda>u. hlift (mapM claim_ident chosen)))))))))))))"

definition propose :: "config \<Rightarrow> (real \<Rightarrow> string) \<Rightarrow> func \<Rightarrow> string list hm" where
  "propose su show_real fn =
     hbind (hlift (context_of (su_program su) (su_env su) (su_search su) fn)) (\<lambda>ctx.
     hbind (hmod (\<lambda>h. h\<lparr>h_contexts := AList.update (f_id fn) ctx (h_contexts h)\<rparr>)) (\<lambda>u.
     hbind (generate_all su fn ctx) (\<lambda>raw.
     hbind (screened su fn raw) (\<lambda>accepted.
       if accepted = [] then hret [] else judge_and_route su show_real fn ctx accepted))))"

end
