(* ===== verification/HarnessRun.thy ===== *)
theory HarnessRun
  imports Harness
begin

text \<open>
  Verification and refinement, \<open>src/src/autoform/harness/pipeline.py\<close>: \<open>verify\<close>, \<open>adjudicate\<close> and
  \<open>refine\<close>, the diagnosis of model defects, the proof values, and the closing pass over all claims.
  The report and the annotated log are files and are left out.
\<close>

section \<open>Verification\<close>

definition the_backend :: "aclaim \<Rightarrow> string res" where
  "the_backend c = (case ac_backend c of None \<Rightarrow> Inl KeyError | Some b \<Rightarrow> Inr b)"

definition is_status :: "string \<Rightarrow> dict \<Rightarrow> bool" where
  "is_status s r \<longleftrightarrow> dget r ''status'' JNull = JStr s"

definition set_result :: "dict \<Rightarrow> crec \<Rightarrow> crec" where
  "set_result r rec = rec\<lparr>cr_result := r\<rparr>"

text \<open>Look a claim up in the proof cache: its result, or the key to store one under.\<close>

definition consult_cache :: "config \<Rightarrow> func \<Rightarrow> aclaim \<Rightarrow> (dict option \<times> string) hm" where
  "consult_cache su fn c =
     hbind (hlift (cache_key (su_sha su) (ac_claim c) (su_program su) fn (su_model_sha su) (e_hash (su_env su)) ''lean-kernel'' (su_fuel su))) (\<lambda>key.
     hbind (hget h_store) (\<lambda>st.
     hbind (hlift (cache_get (fst st) key (snd st))) (\<lambda>(hit, c').
     hbind (hmod (\<lambda>h. h\<lparr>h_store := (fst st, c')\<rparr>)) (\<lambda>u. hret (hit, key)))))"

text \<open>The first pass: structural claims and cache hits get their result, the others make the batch.\<close>

definition dispatch :: "config \<Rightarrow> string \<Rightarrow> (dict \<times> func) list hm" where
  "dispatch su cid =
     hbind (rec_of cid) (\<lambda>rec.
     hbind (hlift (ditem (cr_result rec) ''status'')) (\<lambda>status.
       if status \<noteq> JStr ''PENDING'' then hret []
       else
         hbind (fn_of su (cr_function rec)) (\<lambda>fn.
         hbind (hlift (unsupported_reach (su_env su) (su_program su) fn)) (\<lambda>unsupported.
         hbind (hlift (the_backend (cr_claim rec))) (\<lambda>backend.
         hbind (if backend = ''cpir-structural'' then
                  hbind (hlift (verify_structural (su_show_set su) (su_bodies su) (ac_claim (cr_claim rec)) fn)) (\<lambda>r.
                  hbind (change_rec cid (set_result r)) (\<lambda>u. hret []))
                else
                  hbind (consult_cache su fn (cr_claim rec)) (\<lambda>(hit, key).
                    case hit of
                      Some r \<Rightarrow> hbind (change_rec cid (set_result r)) (\<lambda>u. hret [])
                    | None \<Rightarrow> hbind (change_rec cid (\<lambda>rc. rc\<lparr>cr_cache_key := Some key\<rparr>)) (\<lambda>u. hret [(ac_claim (cr_claim rec), fn)]))) (\<lambda>batch.
         hbind (if unsupported = [] then hret () else change_rec cid (\<lambda>rc. rc\<lparr>cr_unsupported := unsupported\<rparr>)) (\<lambda>u.
           hret batch)))))))"

text \<open>The results of a batch are stored in the records and in the cache.\<close>

definition store_result :: "config \<Rightarrow> (string \<times> dict) list \<Rightarrow> dict \<times> func \<Rightarrow> unit hm" where
  "store_result su outs = (\<lambda>(claim, fn).
     hbind (hlift (id_of claim)) (\<lambda>cid.
     hbind (hlift (case map_of outs cid of None \<Rightarrow> Inl KeyError | Some r \<Rightarrow> Inr r)) (\<lambda>r.
     hbind (rec_of cid) (\<lambda>rec.
     hbind (hlift (case cr_cache_key rec of None \<Rightarrow> Inl KeyError | Some k \<Rightarrow> Inr k)) (\<lambda>key.
     hbind (change_rec cid (\<lambda>rc. (set_result r rc)\<lparr>cr_cache_key := None\<rparr>)) (\<lambda>u.
     hbind (hget h_store) (\<lambda>st.
     hbind (hlift (cache_put (su_sha su) key r st)) (\<lambda>st'. hmod (\<lambda>h. h\<lparr>h_store := st'\<rparr>)))))))))"

definition verify_batch :: "config \<Rightarrow> (dict \<times> func) list \<Rightarrow> unit hm" where
  "verify_batch su batch =
     (if batch = [] then hret ()
      else
        hbind (hlift (verify_lean (su_lean su) (su_sha su) (su_loads su) (su_loads_str su) (su_lean_backend su) batch)) (\<lambda>outs.
        hbind (hmap (store_result su outs) batch) (\<lambda>us. hret ())))"

text \<open>A refutation that leaves the model is no refutation; one by undefined behavior is marked.\<close>

definition witness_kind :: "dict \<Rightarrow> json res" where
  "witness_kind r = jget (dget r ''witness'' (JObj [])) ''outcome_kind''"

definition correct_result :: "dict \<Rightarrow> dict res" where
  "correct_result r =
     rbind (witness_kind r) (\<lambda>kind.
       if \<not> is_status ''REFUTED'' r then Inr r
       else if kind = JStr ''undefined_behavior'' then
         rbind (rbind (ditem r ''witness'') (\<lambda>w. item_of w ''model_outcome'')) (\<lambda>v. Inr (dset ''undefined_behavior'' v r))
       else if kind \<in> {JStr ''hole'', JStr ''out_of_fuel''} then
         Inr (dset ''reason'' (JStr ''the witness drives evaluation into an unmodeled construct or fuel exhaustion'')
               (dset ''status'' (JStr ''MODEL_INCOMPLETE'') r))
       else Inr r)"

definition correct_rec :: "string \<Rightarrow> unit hm" where
  "correct_rec cid =
     hbind (rec_of cid) (\<lambda>rec. hbind (hlift (correct_result (cr_result rec))) (\<lambda>r. change_rec cid (set_result r)))"

definition verify_claims :: "config \<Rightarrow> string list \<Rightarrow> unit hm" where
  "verify_claims su ids =
     hbind (hmap (dispatch su) ids) (\<lambda>batches.
     hbind (verify_batch su (concat batches)) (\<lambda>u.
     hbind (hmap correct_rec ids) (\<lambda>us. hret ())))"

section \<open>Reading a counterexample\<close>

definition witness_dict :: "dict \<Rightarrow> dict res" where
  "witness_dict r = as_dict (dget r ''witness'' (JObj []))"

definition input_values :: "dict \<Rightarrow> json list res" where
  "input_values w = rbind (as_dict (dget w ''inputs'' (JObj []))) (\<lambda>d. Inr (map snd d))"

definition native_run :: "config \<Rightarrow> func \<Rightarrow> dict \<Rightarrow> dict res" where
  "native_run su fn w =
     (if su_native su then
        rbind (input_values w) (\<lambda>vs. native_replay (su_exec su) (su_is_file su) (su_replayed su) (su_source su) fn vs)
      else Inr (not_run ''disabled''))"

definition outcome_text :: "dict \<Rightarrow> string" where
  "outcome_text w = (case dget w ''model_outcome'' (JStr []) of JStr t \<Rightarrow> t | _ \<Rightarrow> [])"

text \<open>A reading that contradicts the intended one cannot be a finding.\<close>

definition permitted :: "aclaim \<Rightarrow> string list \<Rightarrow> string list" where
  "permitted c allowed =
     (let contra = (case ac_intent c of None \<Rightarrow> False | Some n \<Rightarrow> in_contradicts n);
          rest = filter (\<lambda>a. a \<noteq> ''REAL_BUG'') allowed
      in if contra \<and> 1 < length allowed \<and> rest \<noteq> [] then rest else allowed)"

definition evidence_dicts :: "fn_context \<Rightarrow> dict list" where
  "evidence_dicts ctx = map (\<lambda>e. [(''type'', JStr (ev_type e))]) (cx_evidence ctx)"

definition claim_view :: "config \<Rightarrow> fn_context \<Rightarrow> dict \<Rightarrow> dict \<Rightarrow> dict \<Rightarrow> json \<Rightarrow> json res" where
  "claim_view su ctx claim w native agrees =
     rbind (render_claim claim (su_program su)) (\<lambda>shown.
     rbind (explain claim w (su_program su)) (\<lambda>violation.
       Inr (JObj (state_view ctx True @
         [(''claim'', JStr shown), (''claim_meaning'', dget claim ''description'' (JStr [])), (''violation'', JStr violation),
          (''counterexample'', JObj [(''inputs'', dget w ''inputs'' JNull), (''model_outcome'', dget w ''model_outcome'' JNull),
             (''native_outcome'', dget native ''result'' JNull), (''native_agrees'', agrees)])]))))"

definition counterexample_of :: "dict \<Rightarrow> dict \<Rightarrow> json \<Rightarrow> string list \<Rightarrow> decision \<Rightarrow> counterexample_note" where
  "counterexample_of w native agrees allowed d =
     \<lparr>cn_inputs = dget w ''inputs'' JNull, cn_outcome = dget w ''model_outcome'' JNull, cn_kind = dget w ''outcome_kind'' JNull,
      cn_native = native, cn_match = agrees, cn_class = d_chosen d, cn_probabilities = d_probabilities d,
      cn_allowed = allowed, cn_decision = d_id d\<rparr>"

section \<open>A counterexample judged a bug of the code\<close>

definition confident_claims :: "string \<Rightarrow> harness \<Rightarrow> string list" where
  "confident_claims fid h =
     map fst (filter (\<lambda>(cid, rec). cr_function rec = fid \<and>
       (case ac_intent (cr_claim rec) of None \<Rightarrow> False | Some n \<Rightarrow> in_chosen n \<and> INTENT_THRESHOLD \<le> in_probability n)) (h_claims h))"

definition judged_bug :: "config \<Rightarrow> string \<Rightarrow> crec \<Rightarrow> unit hm" where
  "judged_bug su cid rec =
     hbind (hget (confident_claims (cr_function rec))) (\<lambda>confident.
     hbind (hlift (independent_sources (ac_claim (cr_claim rec)))) (\<lambda>sources.
     hbind (hlift (py_iter (dget (ac_claim (cr_claim rec)) ''dominated_by'' (JList [])))) (\<lambda>dominators.
       let supported = (1 \<le> sources \<or> cid \<in> set confident \<or> (\<exists>i \<in> set confident. JStr i \<in> set dominators)) in
       hbind (change_rec cid (\<lambda>rc. rc\<lparr>cr_disposition := Some (if supported then ''finding'' else ''suspected_bug'')\<rparr>)) (\<lambda>u.
         if supported then hret ()
         else
           hbind (hlift (render_claim (ac_claim (cr_claim rec)) (su_program su))) (\<lambda>shown.
             note_review ''conflicting evidence'' cid
               (''counterexample judged a real bug, but the claimed intent has no independent support: '' @ shown))))))"

definition disposed :: "string \<Rightarrow> string \<Rightarrow> unit hm" where
  "disposed cid d = change_rec cid (\<lambda>rc. rc\<lparr>cr_disposition := Some d\<rparr>)"

definition judged_model :: "string \<Rightarrow> unit hm" where
  "judged_model cid =
     change_rec cid (\<lambda>rc. rc\<lparr>cr_disposition := Some ''model_gap'',
       cr_result := dset ''reason'' (JStr ''the counterexample is attributed to the model, not the code'')
         (dset ''status'' (JStr ''MODEL_INCOMPLETE'') (cr_result rc))\<rparr>)"

section \<open>Repairing a claim\<close>

definition repair_opt :: "repair \<Rightarrow> opt" where
  "repair_opt o1 = (rp_id o1, rp_text o1)"

definition is_precondition :: "repair \<Rightarrow> bool" where
  "is_precondition o1 \<longleftrightarrow> rp_kind o1 = ''precondition''"

definition decision_context :: "string \<Rightarrow> string \<Rightarrow> json" where
  "decision_context cid ce_class = JObj [(''claim'', JStr cid), (''classification'', JStr ce_class)]"

definition repair_priors :: "dict \<Rightarrow> string \<Rightarrow> repair list \<Rightarrow> (string \<times> real) list res" where
  "repair_priors claim ce_class os =
     rbind (mapM (\<lambda>o1. repair_prior o1 claim ce_class) os) (\<lambda>vs. Inr (dict_zip (map rp_id os) vs))"

definition priors_for :: "repair list \<Rightarrow> (string \<times> real) list \<Rightarrow> (string \<times> real) list" where
  "priors_for os priors = filter (\<lambda>(i, v). i \<in> rp_id ` set os) priors"

text \<open>Several preconditions are first weighed against each other.\<close>

definition narrow_options ::
    "json \<Rightarrow> string \<Rightarrow> string \<Rightarrow> (string \<times> real) list \<Rightarrow> repair list \<Rightarrow> (repair list \<times> (string \<times> string \<times> string list) option) hm" where
  "narrow_options state cid ce_class priors os =
     (let pres = filter is_precondition os in
      if ce_class = ''MISSING_PRECONDITION'' \<and> 2 \<le> length pres then
        hbind (asking (select_precondition state (map repair_opt pres) (priors_for pres priors) (decision_context cid ce_class))) (\<lambda>d.
          hret (filter (\<lambda>o1. \<not> is_precondition o1 \<or> rp_id o1 = d_chosen d) os, Some (d_chosen d, d_id d, map rp_id pres)))
      else hret (os, None))"

definition note_of :: "repair \<Rightarrow> decision \<Rightarrow> repair list \<Rightarrow> repair list \<Rightarrow> (string \<times> string \<times> string list) option \<Rightarrow> repair_note" where
  "note_of o1 d os offered pre =
     \<lparr>rn_chosen = rp_id o1, rn_kind = rp_kind o1, rn_text = rp_text o1, rn_decision = d_id d, rn_options = map rp_id os,
      rn_offered = map rp_id offered, rn_core = map_option core_of (rp_claim o1), rn_precondition = pre,
      rn_assumption = None, rn_critic = None\<rparr>"

definition change_note :: "string \<Rightarrow> (repair_note \<Rightarrow> repair_note) \<Rightarrow> unit hm" where
  "change_note cid f = change_rec cid (\<lambda>rc. rc\<lparr>cr_repair := map_option f (cr_repair rc)\<rparr>)"

definition VERDICT_PRIOR :: "(string \<times> real) list" where
  "VERDICT_PRIOR = [(''ACCEPTABLE'', 2 / 10), (''UNACCEPTABLE'', 3 / 10), (''NEEDS_HUMAN_REVIEW'', 5 / 10)]"

definition last_assumption :: "dict \<Rightarrow> string res" where
  "last_assumption claim =
     rbind (rbind (ditem claim ''assumptions'') py_iter) (\<lambda>xs. if xs = [] then Inl IndexError else text_of (last xs))"

text \<open>A repair that adds an assumption is put to the judge; true means that it is refused.\<close>

definition refuse_assumption :: "json \<Rightarrow> string \<Rightarrow> repair \<Rightarrow> dict \<Rightarrow> bool hm" where
  "refuse_assumption state cid o1 new =
     (if rp_new_assumptions o1 = 0 then hret False
      else
        hbind (hlift (last_assumption new)) (\<lambda>txt.
        hbind (asking (judge_assumption state txt VERDICT_PRIOR (JObj [(''claim'', JStr cid)]))) (\<lambda>d.
        hbind (change_note cid (\<lambda>n. n\<lparr>rn_assumption := Some (d_chosen d, d_id d)\<rparr>)) (\<lambda>u.
        hbind (if d_chosen d \<noteq> ''ACCEPTABLE'' then note_review ''high-impact assumption'' cid txt else hret ()) (\<lambda>u.
          if d_chosen d = ''UNACCEPTABLE'' then hbind (disposed cid ''repair_refused'') (\<lambda>u. hret True) else hret False)))))"

definition refined_claim :: "crec \<Rightarrow> dict \<Rightarrow> aclaim" where
  "refined_claim rec new =
     (fresh_claim new)\<lparr>ac_depth := Suc (cr_depth rec), ac_utility := ac_utility (cr_claim rec),
       ac_judgment := Some \<lparr>ju_probabilities = [], ju_label = ''REPAIR'', ju_selection = 0\<rparr>\<rparr>"

text \<open>The repaired claim passes the critic, is new, is registered and routed; its id if it is to be verified.\<close>

definition adopt :: "config \<Rightarrow> fn_context \<Rightarrow> func \<Rightarrow> string \<Rightarrow> crec \<Rightarrow> dict \<Rightarrow> string list hm" where
  "adopt su ctx fn cid rec new0 =
     hbind (hlift (screen (su_sha su) [JObj new0] (su_program su))) (\<lambda>(accepted, rejected).
       case accepted of
         [] \<Rightarrow>
           hbind (disposed cid ''repair_rejected_by_critic'') (\<lambda>u.
           hbind (change_note cid (\<lambda>n. n\<lparr>rn_critic := Some (case rejected of [] \<Rightarrow> ''duplicate'' | r # rs \<Rightarrow> snd (snd r))\<rparr>)) (\<lambda>u. hret []))
       | new # rest \<Rightarrow>
           hbind (hlift (id_of new)) (\<lambda>nid.
           hbind (hget h_claims) (\<lambda>cs.
             if nid \<in> fst ` set cs then hbind (disposed cid ''repair_duplicates_existing'') (\<lambda>u. hret [])
             else
               hbind (change_rec cid (\<lambda>rc. rc\<lparr>cr_disposition := Some ''repaired'', cr_repaired_by := Some nid\<rparr>)) (\<lambda>u.
               hbind (route su (refined_claim rec new) fn (JObj (state_view ctx True))) (\<lambda>u.
               hbind (rec_of nid) (\<lambda>nrec. hret (if is_status ''PENDING'' (cr_result nrec) then [nid] else [])))))))"

definition try_repair :: "config \<Rightarrow> fn_context \<Rightarrow> func \<Rightarrow> json \<Rightarrow> string \<Rightarrow> crec \<Rightarrow> string \<Rightarrow> string list hm" where
  "try_repair su ctx fn state cid rec ce_class =
     hbind (hlift (repairs (ac_claim (cr_claim rec)) (cr_result rec) fn (cx_externals ctx))) (\<lambda>offered.
     hbind (hlift (repair_priors (ac_claim (cr_claim rec)) ce_class offered)) (\<lambda>priors.
     hbind (narrow_options state cid ce_class priors offered) (\<lambda>(os, pre).
     hbind (asking (rank_repairs state (map repair_opt os) (priors_for os priors) (decision_context cid ce_class))) (\<lambda>d.
     hbind (hlift (case find (\<lambda>o1. rp_id o1 = d_chosen d) os of None \<Rightarrow> Inl StopIteration | Some o1 \<Rightarrow> Inr o1)) (\<lambda>o1.
     hbind (change_rec cid (\<lambda>rc. rc\<lparr>cr_repair := Some (note_of o1 d os offered pre)\<rparr>)) (\<lambda>u.
       case rp_claim o1 of
         None \<Rightarrow> hbind (disposed cid ''rejected_by_repair'') (\<lambda>u. hret [])
       | Some new \<Rightarrow>
           hbind (refuse_assumption state cid o1 new) (\<lambda>refused.
             if refused then hret [] else adopt su ctx fn cid rec new)))))))"

section \<open>Adjudication and the rounds\<close>

definition adjudicate :: "config \<Rightarrow> string \<Rightarrow> nat \<Rightarrow> string list hm" where
  "adjudicate su cid round_no =
     hbind (rec_of cid) (\<lambda>rec0.
     hbind (fn_of su (cr_function rec0)) (\<lambda>fn.
     hbind (ctx_of (f_id fn)) (\<lambda>ctx.
     hbind (hlift (witness_dict (cr_result rec0))) (\<lambda>w.
     hbind (hlift (native_run su fn w)) (\<lambda>native.
     hbind (hlift (native_agrees (su_loads_str su) native (outcome_text w))) (\<lambda>agrees.
       let c = cr_claim rec0; claim = ac_claim c; allowed = permitted c (allowed_classes (cr_result rec0) fn agrees claim) in
     hbind (hlift (claim_view su ctx claim w native agrees)) (\<lambda>state.
     hbind (hlift (classification_prior claim (judged c) (cr_result rec0) (cx_security ctx) (evidence_dicts ctx) agrees)) (\<lambda>prior.
     hbind (asking (classify_counterexample state allowed prior (JObj [(''claim'', JStr cid), (''round'', JInt (int round_no))]))) (\<lambda>d.
     hbind (change_rec cid (\<lambda>rc. rc\<lparr>cr_counterexample := Some (counterexample_of w native agrees allowed d)\<rparr>)) (\<lambda>u.
     hbind (rec_of cid) (\<lambda>rec.
       if d_chosen d = ''REAL_BUG'' then hbind (judged_bug su cid rec) (\<lambda>u. hret [])
       else if d_chosen d = ''INCOMPLETE_MODEL'' then hbind (judged_model cid) (\<lambda>u. hret [])
       else if su_max_refinements su \<le> cr_depth rec then hbind (disposed cid ''refinement_limit'') (\<lambda>u. hret [])
       else try_repair su ctx fn state cid rec (d_chosen d))))))))))))"

definition still_refuted :: "string list \<Rightarrow> harness \<Rightarrow> string list" where
  "still_refuted ids h =
     filter (\<lambda>cid. case map_of (h_claims h) cid of None \<Rightarrow> False | Some r \<Rightarrow> is_status ''REFUTED'' (cr_result r)) ids"

text \<open>\<open>n\<close> rounds are left; the frontier holds the refuted claims of the last round.\<close>

primrec refine_rounds :: "config \<Rightarrow> nat \<Rightarrow> nat \<Rightarrow> string list \<Rightarrow> unit hm" where
  "refine_rounds su 0 round_no frontier = hret ()"
| "refine_rounds su (Suc n) round_no frontier =
     hbind (hmap (\<lambda>cid. adjudicate su cid round_no) frontier) (\<lambda>fresh.
       if concat fresh = [] then hret ()
       else
         hbind (verify_claims su (concat fresh)) (\<lambda>u.
         hbind (hget (still_refuted (concat fresh))) (\<lambda>frontier'. refine_rounds su n (Suc round_no) frontier')))"

definition refine :: "config \<Rightarrow> string list \<Rightarrow> unit hm" where
  "refine su refuted = refine_rounds su (su_max_refinements su) 1 refuted"

section \<open>Diagnosis and proof values\<close>

definition undecided_model :: "crec \<Rightarrow> bool" where
  "undecided_model rec \<longleftrightarrow>
     cr_selected rec \<and> dget (cr_result rec) ''status'' JNull \<in> JStr ` set MODEL_STATUSES \<and> cr_defect rec = None"

definition match_of :: "crec \<Rightarrow> json" where
  "match_of rec = (case cr_counterexample rec of None \<Rightarrow> JNull | Some n \<Rightarrow> cn_match n)"

definition opt_json :: "string option \<Rightarrow> json" where
  "opt_json v = (case v of None \<Rightarrow> JNull | Some s \<Rightarrow> JStr s)"

definition defect_view :: "config \<Rightarrow> fn_context \<Rightarrow> func \<Rightarrow> crec \<Rightarrow> string list \<Rightarrow> json res" where
  "defect_view su ctx fn rec unsupported =
     (let r = cr_result rec; w = witness_of r in
      rbind (render_claim (ac_claim (cr_claim rec)) (su_program su)) (\<lambda>shown.
        Inr (JObj (state_view ctx True @
          [(''claim'', JStr shown), (''status'', dget r ''status'' JNull), (''reason'', dget r ''reason'' JNull),
           (''witness'', JObj [(''inputs'', py_or (dget w ''inputs'' JNull) (dget r ''witness_candidate'' JNull)),
              (''model_outcome'', dget w ''model_outcome'' JNull), (''outcome_kind'', dget w ''outcome_kind'' JNull),
              (''hole_label'', opt_json (hole_label (dget w ''model_outcome'' JNull))),
              (''native_outcome'', case cr_counterexample rec of None \<Rightarrow> JNull | Some n \<Rightarrow> dget (cn_native n) ''result'' JNull),
              (''native_agrees'', match_of rec)]),
           (''untranslated_blocks'', JInt (int (length (f_holes fn)))), (''unsupported_externals'', JList (map JStr unsupported))]))))"

definition defect_detail :: "json \<Rightarrow> decision \<Rightarrow> string option \<Rightarrow> string list \<Rightarrow> string" where
  "defect_detail status d label allowed =
     py_str status @ '': '' @ d_chosen d @ (case label of None \<Rightarrow> [] | Some l \<Rightarrow> if l = [] then [] else '' (hole `'' @ l @ ''`)'') @
     (if d_forced d then '' [forced by the verifier facts]'' else '' (judge, among '' @ join '', '' allowed @ '')'')"

definition diagnose_one :: "config \<Rightarrow> string \<Rightarrow> unit hm" where
  "diagnose_one su cid =
     hbind (rec_of cid) (\<lambda>rec.
       if \<not> undecided_model rec then hret ()
       else
         hbind (fn_of su (cr_function rec)) (\<lambda>fn.
         hbind (ctx_of (f_id fn)) (\<lambda>ctx.
         hbind (hlift (unsupported_reach (su_env su) (su_program su) fn)) (\<lambda>unsupported.
         hbind (hlift (ditem (cr_result rec) ''status'')) (\<lambda>status.
           let agrees = match_of rec; allowed = allowed_defects status (cr_result rec) fn agrees unsupported;
               label = hole_label (outcome_field (cr_result rec) ''model_outcome'') in
         hbind (hlift (defect_view su ctx fn rec unsupported)) (\<lambda>state.
         hbind (asking (classify_model_defect state allowed (defect_prior allowed (cr_result rec) agrees unsupported)
            (JObj [(''claim'', JStr cid)]))) (\<lambda>d.
         hbind (change_rec cid (\<lambda>rc. rc\<lparr>cr_defect := Some \<lparr>dn_class = d_chosen d, dn_probabilities = d_probabilities d,
            dn_allowed = allowed, dn_forced = d_forced d, dn_label = label, dn_decision = d_id d\<rparr>\<rparr>)) (\<lambda>u.
           note_review ''model defect'' cid (defect_detail status d label allowed)))))))))"

definition diagnose :: "config \<Rightarrow> unit hm" where
  "diagnose su = hbind (hget (\<lambda>h. map fst (h_claims h))) (\<lambda>ids. hbind (hmap (diagnose_one su) ids) (\<lambda>us. hret ()))"

section \<open>Proof values\<close>

definition held :: "crec \<Rightarrow> bool" where
  "held rec \<longleftrightarrow> cr_selected rec \<and> dget (cr_result rec) ''status'' JNull \<in> JStr ` set HELD"

definition assumption_texts :: "dict \<Rightarrow> string list res" where
  "assumption_texts claim = rbind (rbind (ditem claim ''assumptions'') py_iter) (mapM text_of)"

definition value_text :: "config \<Rightarrow> crec \<Rightarrow> string res" where
  "value_text su rec =
     (let claim = ac_claim (cr_claim rec); r = cr_result rec in
      rbind (claim_text su claim) (\<lambda>t.
      rbind (ditem r ''status'') (\<lambda>status.
      rbind (assumption_texts claim) (\<lambda>asms.
        Inr (t @ newline @ ''Verifier status: '' @ py_str status @
          (if status = JStr ''BOUNDED_PROVED''
           then '' over a finite domain of '' @ py_str (dget r ''domain_size'' JNull) @ '' points'' else []) @
          (if asms = [] then [] else ''; assumes: '' @ join ''; '' asms))))))"

definition set_value :: "string \<times> crec \<Rightarrow> decision \<Rightarrow> unit hm" where
  "set_value = (\<lambda>(cid, rec) d. change_rec cid (\<lambda>rc. rc\<lparr>cr_value := Some (d_chosen d, d_id d)\<rparr>))"

definition value_function :: "config \<Rightarrow> string \<times> (string \<times> crec) list \<Rightarrow> unit hm" where
  "value_function su = (\<lambda>(fid, items).
     hbind (ctx_of fid) (\<lambda>ctx.
     hbind (hlift (mapM (\<lambda>(cid, rec). value_text su rec) items)) (\<lambda>rendered.
     hbind (hlift (mapM (\<lambda>(cid, rec). value_prior (cr_claim rec) (dget (cr_result rec) ''status'' JNull)) items)) (\<lambda>priors.
     hbind (asking (proof_value (JObj (state_view ctx False)) rendered priors (map (\<lambda>(cid, rec). JObj [(''claim'', JStr cid)]) items))) (\<lambda>ds.
     hbind (hmap (\<lambda>(item, d). set_value item d) (zip items ds)) (\<lambda>us. hret ()))))))"

definition by_function :: "(string \<times> crec) list \<Rightarrow> (string \<times> (string \<times> crec) list) list" where
  "by_function items =
     map (\<lambda>f. (f, filter (\<lambda>(cid, rec). cr_function rec = f) items)) (rev (remdups (rev (map (\<lambda>(cid, rec). cr_function rec) items))))"

definition judge_proof_values :: "config \<Rightarrow> unit hm" where
  "judge_proof_values su =
     hbind (hget (\<lambda>h. by_function (filter (\<lambda>(cid, rec). held rec) (h_claims h)))) (\<lambda>groups.
     hbind (hmap (value_function su) groups) (\<lambda>us. hret ()))"

section \<open>The closing pass\<close>

text \<open>A proof under prose assumptions is no proof.\<close>

definition depend_on_assumptions :: "crec \<Rightarrow> crec res" where
  "depend_on_assumptions rec =
     (let r = cr_result rec; status = dget r ''status'' JNull in
      if status \<in> {JStr ''PROVED'', JStr ''BOUNDED_PROVED''} then
        rbind (ditem (ac_claim (cr_claim rec)) ''assumptions'') (\<lambda>v.
          Inr (if truthy v then set_result (dset ''status'' (JStr ''ASSUMPTION_DEPENDENT'') (dset ''status_before_assumptions'' status r)) rec
               else rec))
      else Inr rec)"

definition close_assumptions :: "unit hm" where
  "close_assumptions =
     hbind (hget h_claims) (\<lambda>cs.
     hbind (hlift (mapM (\<lambda>(cid, rec). rbind (depend_on_assumptions rec) (\<lambda>r. Inr (cid, r))) cs)) (\<lambda>cs'.
       hmod (\<lambda>h. h\<lparr>h_claims := cs'\<rparr>)))"

definition note_unsupported :: "crec \<Rightarrow> crec" where
  "note_unsupported rec =
     (if dget (cr_result rec) ''status'' JNull \<in> {JStr ''PROVED'', JStr ''BOUNDED_PROVED''} \<and> cr_unsupported rec \<noteq> []
      then set_result (dset ''note'' (JStr (''reaches unsupported externals: '' @ join '', '' (cr_unsupported rec))) (cr_result rec)) rec
      else rec)"

definition confidence_and_certificate :: "config \<Rightarrow> json \<Rightarrow> func \<Rightarrow> coverage \<Rightarrow> crec \<Rightarrow> crec res" where
  "confidence_and_certificate su soundness fn cov rec =
     rbind (confidence_of (ac_claim (cr_claim rec)) (cr_result rec) (judged (cr_claim rec)) cov (match_of rec)) (\<lambda>conf.
     rbind (certificate soundness (ac_claim (cr_claim rec)) (cr_result rec) fn (su_program su) (JStr (su_model_sha su))
        (JStr (e_hash (su_env su))) (cr_assumptions rec)) (\<lambda>cert.
       Inr (rec\<lparr>cr_confidence := Some conf, cr_certificate := cert\<rparr>)))"

definition open_and_important :: "crec \<Rightarrow> bool" where
  "open_and_important rec \<longleftrightarrow>
     cr_selected rec \<and> dget (ac_claim (cr_claim rec)) ''category'' JNull = JStr ''security'' \<and>
     dget (cr_result rec) ''status'' JNull \<in> {JStr ''UNKNOWN'', JStr ''TIMEOUT'', JStr ''UNSUPPORTED''}"

definition ambiguous :: "string \<Rightarrow> crec \<Rightarrow> bool" where
  "ambiguous backend rec \<longleftrightarrow>
     (let ps = rev (sort (map snd (judged (cr_claim rec))))
      in cr_selected rec \<and> 1 < length ps \<and> backend = ''semif'' \<and> ps ! 0 - ps ! 1 < 5 / 100)"

definition close_one :: "config \<Rightarrow> json \<Rightarrow> string \<Rightarrow> unit hm" where
  "close_one su soundness cid =
     hbind (rec_of cid) (\<lambda>rec0.
     hbind (fn_of su (cr_function rec0)) (\<lambda>fn.
     hbind (ctx_of (f_id fn)) (\<lambda>ctx.
     hbind (hlift (confidence_and_certificate su soundness fn (cx_coverage ctx) (note_unsupported rec0))) (\<lambda>rec.
     hbind (put_rec cid rec) (\<lambda>u.
     hbind (hlift (render_claim (ac_claim (cr_claim rec)) (su_program su))) (\<lambda>shown.
     hbind (if open_and_important rec then note_review ''unprovable but important property'' cid shown else hret ()) (\<lambda>u.
     hbind (hget (\<lambda>h. jg_name (h_judge h))) (\<lambda>backend.
       if ambiguous backend rec
       then note_review ''ambiguous intent'' cid (''the judge cannot separate its top two readings of '' @ shown) else hret ()))))))))"

definition report_gaps :: "config \<Rightarrow> func \<Rightarrow> unit hm" where
  "report_gaps su fn =
     hbind (hlift (unsupported_reach (su_env su) (su_program su) fn)) (\<lambda>gaps.
       if gaps = [] then hret ()
       else note_review ''missing environment model'' (f_name fn) (''unsupported externals: '' @ join '', '' gaps))"

definition finish :: "config \<Rightarrow> json \<Rightarrow> unit hm" where
  "finish su soundness =
     hbind (hmod (\<lambda>h. h\<lparr>h_store := (cache_save (h_store h), snd (h_store h))\<rparr>)) (\<lambda>u.
     hbind close_assumptions (\<lambda>u.
     hbind (judge_proof_values su) (\<lambda>u.
     hbind (hget (\<lambda>h. map fst (h_claims h))) (\<lambda>ids.
     hbind (hmap (close_one su soundness) ids) (\<lambda>us.
     hbind (hmap (report_gaps su) (targets su)) (\<lambda>us. hret ()))))))"

text \<open>An established claim without assumptions that states what an assumption repair states.\<close>

definition is_sibling :: "string \<Rightarrow> crec \<Rightarrow> string \<times> crec \<Rightarrow> bool" where
  "is_sibling cid rec = (\<lambda>(oid, other).
     let c = ac_claim (cr_claim other); core = (case cr_repair rec of None \<Rightarrow> None | Some n \<Rightarrow> rn_core n) in
     \<not> (Some oid = cr_repaired_by rec \<or> truthy (dget c ''assumptions'' JNull) \<or> dget (cr_result other) ''status'' JNull \<notin> JStr ` set HELD) \<and>
     (dget c ''parent'' JNull = JStr cid \<or> core \<noteq> None \<and> cr_function other = cr_function rec \<and> py_eq (core_of c) (the core)))"

definition assumption_free_sibling :: "string \<Rightarrow> crec \<Rightarrow> harness \<Rightarrow> string option" where
  "assumption_free_sibling cid rec h = map_option fst (find (is_sibling cid rec) (h_claims h))"

section \<open>A run up to the diagnosis\<close>

definition run_harness :: "config \<Rightarrow> (real \<Rightarrow> string) \<Rightarrow> string list hm" where
  "run_harness su show_real =
     hbind (hmap (propose su show_real) (targets su)) (\<lambda>idss.
     hbind (verify_claims su (concat idss)) (\<lambda>u.
     hbind (hget (still_refuted (concat idss))) (\<lambda>refuted.
     hbind (refine su refuted) (\<lambda>u.
     hbind (diagnose su) (\<lambda>u. hret (concat idss))))))"

section \<open>Invariants of the records\<close>

text \<open>
  Where a result comes from: a verifier, an entry of the proof cache the run started with, or an entry
  that was stored from a verifier during the run, perhaps marked as undefined behavior.
\<close>

definition cache_entry :: "cache \<Rightarrow> string \<Rightarrow> json res" where
  "cache_entry c key = jget (c_index c) key"

inductive from_verifier :: "config \<Rightarrow> cache \<Rightarrow> dict \<Rightarrow> bool" for su c0 where
  structural: "verify_structural (su_show_set su) (su_bodies su) claim fn = Inr r \<Longrightarrow> from_verifier su c0 r"
| lean: "verify_lean (su_lean su) (su_sha su) (su_loads su) (su_loads_str su) (su_lean_backend su) batch = Inr outs \<Longrightarrow>
    map_of outs cid = Some r \<Longrightarrow> from_verifier su c0 r"
| cached: "cache_get fs key c = Inr (Some r, c') \<Longrightarrow> cache_entry c key = cache_entry c0 key \<Longrightarrow> from_verifier su c0 r"
| stored: "from_verifier su c0 r \<Longrightarrow> cache_put (su_sha su) key r st = Inr st' \<Longrightarrow> cache_entry c key = cache_entry (snd st') key \<Longrightarrow>
    cache_get fs key c = Inr (Some r', c') \<Longrightarrow> from_verifier su c0 r'"
| marked: "from_verifier su c0 r \<Longrightarrow> from_verifier su c0 (dset ''undefined_behavior'' v r)"

text \<open>Every entry of the cache is one of the beginning or one stored from a verifier.\<close>

definition traceable :: "config \<Rightarrow> cache \<Rightarrow> cache \<Rightarrow> bool" where
  "traceable su c0 c \<longleftrightarrow> (\<forall>key. cache_entry c key = cache_entry c0 key \<or>
     (\<exists>r st st'. from_verifier su c0 r \<and> cache_put (su_sha su) key r st = Inr st' \<and> cache_entry c key = cache_entry (snd st') key))"

lemma traceable_hit: "traceable su c0 c \<Longrightarrow> cache_get fs key c = Inr (Some r, c') \<Longrightarrow> from_verifier su c0 r"
  unfolding traceable_def by (blast intro: cached stored)

lemma cache_get_index: "cache_get fs key c = Inr (v, c') \<Longrightarrow> c_index c' = c_index c"
  by (auto simp: cache_get_def res_simps split: if_splits json.splits)

lemma traceable_get: "traceable su c0 c \<Longrightarrow> cache_get fs key c = Inr (v, c') \<Longrightarrow> traceable su c0 c'"
  by (simp add: traceable_def cache_entry_def cache_get_index)

lemma cache_put_index:
  assumes "cache_put sha key r (fs, c) = Inr (fs', c')" and "k \<noteq> key"
  shows "cache_entry c' k = cache_entry c k"
  using assms by (auto simp: cache_put_def res_simps cache_entry_def as_dict_Inr dget_update split: option.splits if_splits)

lemma traceable_put:
  assumes "traceable su c0 c" and "from_verifier su c0 r" and put: "cache_put (su_sha su) key r (fs, c) = Inr (fs', c')"
  shows "traceable su c0 c'"
  unfolding traceable_def
proof
  fix k
  show "cache_entry c' k = cache_entry c0 k \<or>
    (\<exists>r st st'. from_verifier su c0 r \<and> cache_put (su_sha su) k r st = Inr st' \<and> cache_entry c' k = cache_entry (snd st') k)"
  proof (cases "k = key")
    case True
    with assms(2) put show ?thesis by (metis snd_conv)
  next
    case False
    with assms(1) show ?thesis unfolding cache_put_index [OF put False] traceable_def by blast
  qed
qed

definition is_initial :: "dict \<Rightarrow> bool" where
  "is_initial r \<longleftrightarrow> dget r ''status'' JNull \<in> {JStr ''PENDING'', JStr ''UNSUPPORTED'', JStr ''NOT_SELECTED''}"

definition all_records :: "(crec \<Rightarrow> bool) \<Rightarrow> (cache \<Rightarrow> bool) \<Rightarrow> harness \<Rightarrow> bool" where
  "all_records G Q h \<longleftrightarrow> (\<forall>(cid, r) \<in> set (h_claims h). G r) \<and> Q (snd (h_store h))"

definition keeps :: "(crec \<Rightarrow> bool) \<Rightarrow> (cache \<Rightarrow> bool) \<Rightarrow> 'a hm \<Rightarrow> bool" where
  "keeps G Q m \<longleftrightarrow> (\<forall>h x h'. m h = Inr (x, h') \<longrightarrow> all_records G Q h \<longrightarrow> all_records G Q h')"

lemma keepsI: "(\<And>h x h'. m h = Inr (x, h') \<Longrightarrow> all_records G Q h \<Longrightarrow> all_records G Q h') \<Longrightarrow> keeps G Q m"
  by (auto simp: keeps_def)

lemma keeps_hbind: "keeps G Q m \<Longrightarrow> (\<And>x. keeps G Q (f x)) \<Longrightarrow> keeps G Q (hbind m f)"
  unfolding keeps_def hbind_def by (force simp: res_simps)

lemma keeps_after: "keeps G Q m \<Longrightarrow> (\<And>h x h'. m h = Inr (x, h') \<Longrightarrow> all_records G Q h \<Longrightarrow> keeps G Q (f x)) \<Longrightarrow> keeps G Q (hbind m f)"
  unfolding keeps_def hbind_def by (force simp: res_simps)

lemma keeps_hlift: "keeps G Q (hlift r)"
  by (auto simp: keeps_def hlift_def res_simps)

lemma keeps_bind_lift: "(\<And>x. r = Inr x \<Longrightarrow> keeps G Q (f x)) \<Longrightarrow> keeps G Q (hbind (hlift r) f)"
  by (auto simp: keeps_def hlift_def hbind_def res_simps)

lemma keeps_hret: "keeps G Q (hret x)"
  by (auto simp: keeps_def hret_def)

lemma keeps_hget: "keeps G Q (hget f)"
  by (auto simp: keeps_def hget_def)

lemma keeps_hmod: "(\<And>h. h_claims (f h) = h_claims h \<and> h_store (f h) = h_store h) \<Longrightarrow> keeps G Q (hmod f)"
  by (auto simp: keeps_def hmod_def all_records_def)

lemma keeps_asking: "keeps G Q (asking q)"
  by (auto simp: keeps_def asking_def all_records_def res_simps)

lemma keeps_rec_of: "keeps G Q (rec_of cid)"
  by (auto simp: keeps_def rec_of_def split: option.splits)

lemma keeps_ctx_of: "keeps G Q (ctx_of fid)"
  by (auto simp: keeps_def ctx_of_def split: option.splits)

lemma keeps_fn_of: "keeps G Q (fn_of su fid)"
  unfolding fn_of_def by (rule keeps_hlift)

lemma keeps_note_review: "keeps G Q (note_review k s d)"
  unfolding note_review_def by (rule keeps_hmod) simp

lemma keeps_hmap: "(\<And>x. keeps G Q (f x)) \<Longrightarrow> keeps G Q (hmap f xs)"
proof (induction xs)
  case Nil
  show ?case unfolding hmap.simps by (rule keeps_hret)
next
  case (Cons x xs)
  show ?case unfolding hmap.simps by (intro keeps_hbind keeps_hret Cons)
qed

lemma keeps_if: "(b \<Longrightarrow> keeps G Q m) \<Longrightarrow> (\<not> b \<Longrightarrow> keeps G Q n) \<Longrightarrow> keeps G Q (if b then m else n)"
  by simp

lemma keeps_prod: "(\<And>a b. p = (a, b) \<Longrightarrow> keeps G Q (f a b)) \<Longrightarrow> keeps G Q (case p of (a, b) \<Rightarrow> f a b)"
  by (cases p) simp

lemma keeps_option: "(v = None \<Longrightarrow> keeps G Q m) \<Longrightarrow> (\<And>x. v = Some x \<Longrightarrow> keeps G Q (f x)) \<Longrightarrow> keeps G Q (case v of None \<Rightarrow> m | Some x \<Rightarrow> f x)"
  by (cases v) simp_all

lemma keeps_list: "(xs = [] \<Longrightarrow> keeps G Q m) \<Longrightarrow> (\<And>y ys. xs = y # ys \<Longrightarrow> keeps G Q (f y ys)) \<Longrightarrow> keeps G Q (case xs of [] \<Rightarrow> m | y # ys \<Rightarrow> f y ys)"
  by (cases xs) simp_all

lemma keeps_Let: "keeps G Q (f x) \<Longrightarrow> keeps G Q (let y = x in f y)"
  by (simp add: Let_def)

lemmas keeps_control = keeps_bind_lift keeps_hbind keeps_if keeps_prod keeps_option keeps_list keeps_Let
lemmas keeps_basic = keeps_hret keeps_hget keeps_hlift keeps_asking keeps_rec_of keeps_ctx_of keeps_fn_of keeps_note_review
  keeps_hmap

lemma updated_records: "all_records G Q h \<Longrightarrow> G r \<Longrightarrow> all_records G Q (h\<lparr>h_claims := AList.update cid r (h_claims h)\<rparr>)"
proof -
  have "set (AList.update cid r m) \<subseteq> insert (cid, r) (set m)" for m by (induction m) auto
  then show "all_records G Q h \<Longrightarrow> G r \<Longrightarrow> ?thesis" by (force simp: all_records_def)
qed

lemma stored_record: "all_records G Q h \<Longrightarrow> map_of (h_claims h) cid = Some r \<Longrightarrow> G r"
  by (auto simp: all_records_def dest: map_of_SomeD)

lemma keeps_change:
  assumes "\<And>r. G r \<Longrightarrow> G (f r)"
  shows "keeps G Q (change_rec cid f)"
proof (rule keepsI)
  fix h x h'
  assume "change_rec cid f h = Inr (x, h')" and G: "all_records G Q h"
  then obtain r where r: "map_of (h_claims h) cid = Some r" and h': "h' = h\<lparr>h_claims := AList.update cid (f r) (h_claims h)\<rparr>"
    by (auto simp: change_rec_def hbind_def rec_of_def put_rec_def hmod_def res_simps split: option.splits)
  show "all_records G Q h'" unfolding h' by (rule updated_records [OF G assms]) (rule stored_record [OF G r])
qed

text \<open>
  What an invariant of the records has to allow: annotations, a result of a verifier, the mark of
  undefined behavior, the loss of a verdict to the model, and a new record without a verdict.
\<close>

locale record_invariant =
  fixes su :: config and c0 :: cache and G :: "crec \<Rightarrow> bool" and Q :: "cache \<Rightarrow> bool"
  assumes annotation: "G r \<Longrightarrow> cr_depth r' = cr_depth r \<Longrightarrow> cr_result r' = cr_result r \<Longrightarrow> G r'"
    and verdict: "G r \<Longrightarrow> cr_depth r' = cr_depth r \<Longrightarrow> from_verifier su c0 (cr_result r') \<Longrightarrow> G r'"
    and mark: "G r \<Longrightarrow> cr_depth r' = cr_depth r \<Longrightarrow> cr_result r' = dset ''undefined_behavior'' v (cr_result r) \<Longrightarrow> G r'"
    and model_gap: "G r \<Longrightarrow> cr_depth r' = cr_depth r \<Longrightarrow> is_status ''MODEL_INCOMPLETE'' (cr_result r') \<Longrightarrow> G r'"
    and new_record: "is_initial (cr_result r) \<Longrightarrow> cr_depth r \<le> su_max_refinements su \<Longrightarrow> G r"
    and hit: "Q c \<Longrightarrow> cache_get fs key c = Inr (Some r0, c') \<Longrightarrow> from_verifier su c0 r0"
    and look: "Q c \<Longrightarrow> cache_get fs key c = Inr (found, c') \<Longrightarrow> Q c'"
    and keep: "Q c \<Longrightarrow> from_verifier su c0 r0 \<Longrightarrow> cache_put (su_sha su) key r0 (fs, c) = Inr (fs', c') \<Longrightarrow> Q c'"
begin

lemma keeps_annotation: "(\<And>r. cr_depth (f r) = cr_depth r \<and> cr_result (f r) = cr_result r) \<Longrightarrow> keeps G Q (change_rec cid f)"
  by (rule keeps_change) (auto intro: annotation)

lemma keeps_disposed: "keeps G Q (disposed cid d)"
  unfolding disposed_def by (rule keeps_annotation) simp

lemma keeps_change_note: "keeps G Q (change_note cid f)"
  unfolding change_note_def by (rule keeps_annotation) simp

lemma keeps_register:
  assumes "is_initial result" and "ac_depth c \<le> su_max_refinements su"
  shows "keeps G Q (register su c fn result selected)"
proof -
  have "keeps G Q (put_rec cid (new_rec (c\<lparr>ac_assumption_ids := ids\<rparr>) fn result selected asms))" for cid ids asms
    unfolding put_rec_def using assms
    by (intro keepsI) (auto simp: hmod_def new_rec_def intro!: updated_records new_record)
  then show ?thesis
    unfolding register_def by (intro keeps_control keeps_basic keeps_hmod) simp_all
qed

lemma keeps_route: "ac_depth c \<le> su_max_refinements su \<Longrightarrow> keeps G Q (route su c fn state)"
  unfolding route_def by (intro keeps_control keeps_basic keeps_register) (simp_all add: is_initial_def status_entry_def dget_def)

end

lemma initial_entries [simp]:
  "is_initial (status_entry ''NOT_SELECTED'' @ d)" "is_initial (status_entry ''UNSUPPORTED'' @ d)" "is_initial (status_entry ''PENDING'')"
  by (simp_all add: is_initial_def status_entry_def dget_def)

lemma annotate_depth: "annotate ctx select intents cd = Inr c \<Longrightarrow> ac_depth c = 0"
  by (cases cd) (auto simp: annotate_def res_simps fresh_claim_def)

lemma annotated_depths: "mapM (annotate ctx select intents) cds = Inr cs \<Longrightarrow> c \<in> set cs \<Longrightarrow> ac_depth c = 0"
  by (auto simp: mapM_eq_Inr list_all2_conv_all_nth in_set_conv_nth dest!: annotate_depth)

lemma choose_claims_subset: "set (choose_claims k cs) \<subseteq> set cs"
  by (auto simp: choose_claims_def Let_def dest!: in_set_takeD)

lemma keeps_hmap_on: "(\<And>x. x \<in> set xs \<Longrightarrow> keeps G Q (f x)) \<Longrightarrow> keeps G Q (hmap f xs)"
proof (induction xs)
  case Nil
  show ?case unfolding hmap.simps by (rule keeps_hret)
next
  case (Cons x xs)
  have "keeps G Q (hmap f xs)" by (rule Cons.IH) (rule Cons.prems, simp)
  moreover have "keeps G Q (f x)" by (rule Cons.prems) simp
  ultimately show ?case unfolding hmap.simps by (intro keeps_hbind keeps_hret)
qed

lemma consult_cache_looks:
  "consult_cache su fn c h = Inr ((found, key), h') \<Longrightarrow>
   \<exists>c'. cache_get (fst (h_store h)) key (snd (h_store h)) = Inr (found, c') \<and> h' = h\<lparr>h_store := (fst (h_store h), c')\<rparr>"
  by (auto simp: consult_cache_def hbind_def hlift_def hget_def hmod_def hret_def res_simps)

lemma correct_result_cases:
  assumes "correct_result r = Inr r'"
  shows "r' = r \<or> (\<exists>v. r' = dset ''undefined_behavior'' v r) \<or> is_status ''MODEL_INCOMPLETE'' r'"
  using assms by (auto simp: correct_result_def res_simps is_status_def dget_def map_of_update split: if_splits)

context record_invariant
begin

lemma keeps_ask_intent: "keeps G Q (ask_intent fn state rendered select gm)"
  unfolding ask_intent_def by (intro keeps_control keeps_basic)

lemma keeps_judge_and_route: "keeps G Q (judge_and_route su show_real fn ctx accepted)"
proof -
  have weak: "keeps G Q (not_selected su fn show_real c)" if "ac_depth c = 0" for c
    unfolding not_selected_def by (rule keeps_register) (simp_all add: that)
  have strong: "keeps G Q (route su c fn state)" if "ac_depth c = 0" for c state
    by (rule keeps_route) (simp add: that)
  have depth: "ac_depth c = 0"
    if "mapM (annotate ctx select intents) cds = Inr cs" "c \<in> set (sort_key f cs)" for c cs select intents cds f
    using annotated_depths [OF that(1)] that(2) by simp
  show ?thesis
    unfolding judge_and_route_def Let_def
    by (intro keeps_bind_lift keeps_hbind keeps_asking keeps_hlift keeps_hmap keeps_ask_intent keeps_hmap_on)
      (auto intro!: weak strong dest: depth subsetD [OF choose_claims_subset])
qed

lemma keeps_propose: "keeps G Q (propose su show_real fn)"
  unfolding propose_def generate_all_def screened_def
  by (intro keeps_control keeps_basic keeps_hmod keeps_judge_and_route) simp_all

lemma keeps_set_result: "from_verifier su c0 r \<Longrightarrow> keeps G Q (change_rec cid (set_result r))"
  by (rule keeps_change) (auto simp: set_result_def intro: verdict)

lemma keeps_consult_cache: "keeps G Q (consult_cache su fn c)"
proof (rule keepsI)
  fix h x h'
  assume "consult_cache su fn c h = Inr (x, h')" and I: "all_records G Q h"
  then obtain found c' where "cache_get (fst (h_store h)) (snd x) (snd (h_store h)) = Inr (found, c')"
    and h': "h' = h\<lparr>h_store := (fst (h_store h), c')\<rparr>"
    by (cases x) (auto dest: consult_cache_looks)
  then show "all_records G Q h'" using I look by (simp add: all_records_def) blast
qed

lemma consult_cache_hit: "consult_cache su fn c h = Inr ((Some r, key), h') \<Longrightarrow> all_records G Q h \<Longrightarrow> from_verifier su c0 r"
  by (auto simp: all_records_def dest!: consult_cache_looks intro: hit)

lemma keeps_cache_put:
  assumes "from_verifier su c0 r"
  shows "keeps G Q (hbind (hget h_store) (\<lambda>st. hbind (hlift (cache_put (su_sha su) key r st)) (\<lambda>st'. hmod (\<lambda>h. h\<lparr>h_store := st'\<rparr>))))"
proof (rule keepsI)
  fix h h' :: harness and x
  assume "hbind (hget h_store) (\<lambda>st. hbind (hlift (cache_put (su_sha su) key r st)) (\<lambda>st'. hmod (\<lambda>h. h\<lparr>h_store := st'\<rparr>))) h = Inr (x, h')"
    and I: "all_records G Q h"
  then obtain st' where "cache_put (su_sha su) key r (h_store h) = Inr st'" and h': "h' = h\<lparr>h_store := st'\<rparr>"
    by (auto simp: hbind_def hget_def hlift_def hmod_def res_simps)
  then have put: "cache_put (su_sha su) key r (fst (h_store h), snd (h_store h)) = Inr (fst st', snd st')" by simp
  have "Q (snd st')" by (rule keep [OF _ assms put]) (use I in \<open>simp add: all_records_def\<close>)
  then show "all_records G Q h'" using I unfolding h' by (simp add: all_records_def)
qed

lemma keeps_dispatch: "keeps G Q (dispatch su cid)"
proof -
  have cache: "keeps G Q (change_rec cid (\<lambda>rc. rc\<lparr>cr_cache_key := Some key\<rparr>))" for key by (rule keeps_annotation) simp
  have uns: "keeps G Q (change_rec cid (\<lambda>rc. rc\<lparr>cr_unsupported := us\<rparr>))" for us by (rule keeps_annotation) simp
  have consult: "keeps G Q (hbind (consult_cache su fn c) (\<lambda>(hit, key).
      case hit of Some r \<Rightarrow> hbind (change_rec cid (set_result r)) (\<lambda>u. hret [])
      | None \<Rightarrow> hbind (change_rec cid (\<lambda>rc. rc\<lparr>cr_cache_key := Some key\<rparr>)) (\<lambda>u. hret [(ac_claim c, fn)])))" for fn c
  proof (rule keeps_after [OF keeps_consult_cache], rule keeps_prod, rule keeps_option)
    fix h x h' found key r
    assume "consult_cache su fn c h = Inr (x, h')" "all_records G Q h" "x = (found, key)" "found = Some r"
    then have "from_verifier su c0 r" by (auto dest: consult_cache_hit)
    then show "keeps G Q (hbind (change_rec cid (set_result r)) (\<lambda>u. hret []))" by (intro keeps_hbind keeps_set_result keeps_hret)
  qed (intro keeps_hbind cache keeps_hret)
  show ?thesis
    unfolding dispatch_def
    by (intro keeps_control keeps_basic uns consult keeps_set_result from_verifier.structural)
qed

lemma keeps_store_result:
  assumes "verify_lean (su_lean su) (su_sha su) (su_loads su) (su_loads_str su) (su_lean_backend su) batch = Inr outs"
  shows "keeps G Q (store_result su outs cf)"
proof -
  have change: "keeps G Q (change_rec cid (\<lambda>rc. (set_result r rc)\<lparr>cr_cache_key := None\<rparr>))" if "from_verifier su c0 r" for cid r
    using that by (intro keeps_change) (auto simp: set_result_def intro: verdict)
  show ?thesis
    unfolding store_result_def case_prod_beta
  proof (rule keeps_bind_lift, rule keeps_bind_lift, rule keeps_hbind [OF keeps_rec_of], rule keeps_bind_lift)
    fix cid r
    assume "(case map_of outs cid of None \<Rightarrow> Inl KeyError | Some r \<Rightarrow> Inr r) = Inr r"
    then have v: "from_verifier su c0 r" using assms by (auto intro: lean split: option.splits)
    fix key
    show "keeps G Q (hbind (change_rec cid (\<lambda>rc. (set_result r rc)\<lparr>cr_cache_key := None\<rparr>)) (\<lambda>u.
      hbind (hget h_store) (\<lambda>st. hbind (hlift (cache_put (su_sha su) key r st)) (\<lambda>st'. hmod (\<lambda>h. h\<lparr>h_store := st'\<rparr>)))))"
      by (rule keeps_hbind [OF change [OF v] keeps_cache_put [OF v]])
  qed
qed

lemma keeps_verify_batch: "keeps G Q (verify_batch su batch)"
  unfolding verify_batch_def by (intro keeps_control keeps_basic keeps_store_result)

lemma keeps_correct_rec: "keeps G Q (correct_rec cid)"
proof (rule keepsI)
  fix h x h'
  assume step: "correct_rec cid h = Inr (x, h')" and G: "all_records G Q h"
  then obtain rec r where rec: "map_of (h_claims h) cid = Some rec" and r: "correct_result (cr_result rec) = Inr r"
    and h': "h' = h\<lparr>h_claims := AList.update cid (set_result r rec) (h_claims h)\<rparr>"
    by (auto simp: correct_rec_def change_rec_def hbind_def hlift_def rec_of_def put_rec_def hmod_def res_simps split: option.splits)
  have "G rec" by (rule stored_record [OF G rec])
  then have "G (set_result r rec)"
    using correct_result_cases [OF r] by (auto simp: set_result_def intro: annotation mark model_gap)
  then show "all_records G Q h'" unfolding h' by (rule updated_records [OF G])
qed

lemma keeps_verify_claims: "keeps G Q (verify_claims su ids)"
  unfolding verify_claims_def by (intro keeps_hbind keeps_basic keeps_dispatch keeps_verify_batch keeps_correct_rec)

end

context record_invariant
begin

lemma keeps_judged_bug: "keeps G Q (judged_bug su cid rec)"
  unfolding judged_bug_def by (intro keeps_control keeps_basic keeps_annotation) simp_all

lemma keeps_judged_model: "keeps G Q (judged_model cid)"
  unfolding judged_model_def
proof (rule keeps_change, erule model_gap)
  fix r :: crec
  show "is_status ''MODEL_INCOMPLETE'' (cr_result (r\<lparr>cr_disposition := Some ''model_gap'',
       cr_result := dset ''reason'' (JStr ''the counterexample is attributed to the model, not the code'')
         (dset ''status'' (JStr ''MODEL_INCOMPLETE'') (cr_result r))\<rparr>))"
    by (simp add: is_status_def dget_def map_of_update)
qed simp

lemma keeps_refuse_assumption: "keeps G Q (refuse_assumption state cid o1 new)"
  unfolding refuse_assumption_def by (intro keeps_control keeps_basic keeps_change_note keeps_disposed)

lemma keeps_narrow_options: "keeps G Q (narrow_options state cid ce_class priors os)"
  unfolding narrow_options_def by (intro keeps_control keeps_basic)

lemma keeps_adopt:
  assumes "cr_depth rec < su_max_refinements su"
  shows "keeps G Q (adopt su ctx fn cid rec new0)"
proof -
  have "keeps G Q (route su (refined_claim rec new) fn state)" for new state
    by (rule keeps_route) (use assms in \<open>simp add: refined_claim_def\<close>)
  then show ?thesis
    unfolding adopt_def by (intro keeps_control keeps_basic keeps_disposed keeps_change_note keeps_annotation) simp_all
qed

lemma keeps_try_repair: "cr_depth rec < su_max_refinements su \<Longrightarrow> keeps G Q (try_repair su ctx fn state cid rec ce_class)"
  unfolding try_repair_def
  by (intro keeps_control keeps_basic keeps_narrow_options keeps_disposed keeps_refuse_assumption keeps_adopt keeps_annotation) simp_all

lemma keeps_adjudicate: "keeps G Q (adjudicate su cid n)"
  unfolding adjudicate_def
  by (intro keeps_control keeps_basic keeps_judged_bug keeps_judged_model keeps_disposed keeps_try_repair keeps_annotation) simp_all

lemma keeps_refine: "keeps G Q (refine su ids)"
proof -
  have "keeps G Q (refine_rounds su n k frontier)" for n k frontier
    by (induction n arbitrary: k frontier)
      (auto intro!: keeps_hbind keeps_hret keeps_hmap keeps_adjudicate keeps_verify_claims keeps_hget keeps_if)
  then show ?thesis unfolding refine_def .
qed

lemma keeps_diagnose: "keeps G Q (diagnose su)"
proof -
  have "keeps G Q (diagnose_one su cid)" for cid
    unfolding diagnose_one_def by (intro keeps_control keeps_basic keeps_annotation) simp_all
  then show ?thesis unfolding diagnose_def by (intro keeps_hbind keeps_basic)
qed

lemma run_keeps: "run_harness su show_real h = Inr (ids, h') \<Longrightarrow> all_records G Q h \<Longrightarrow> (cid, r) \<in> set (h_claims h') \<Longrightarrow> G r"
proof -
  have "keeps G Q (run_harness su show_real)"
    unfolding run_harness_def
    by (intro keeps_hbind keeps_basic keeps_propose keeps_verify_claims keeps_refine keeps_diagnose)
  moreover assume "run_harness su show_real h = Inr (ids, h')" "all_records G Q h" "(cid, r) \<in> set (h_claims h')"
  ultimately show "G r" by (fastforce simp: keeps_def all_records_def)
qed

end

definition depth_bounded :: "config \<Rightarrow> crec \<Rightarrow> bool" where
  "depth_bounded su r \<longleftrightarrow> cr_depth r \<le> su_max_refinements su"

definition VERDICTS :: "string list" where
  "VERDICTS = [''PROVED'', ''BOUNDED_PROVED'', ''REFUTED'', ''UNKNOWN'', ''TIMEOUT'', ''INCONSISTENT_MODEL'']"

definition justified :: "config \<Rightarrow> cache \<Rightarrow> crec \<Rightarrow> bool" where
  "justified su c0 r \<longleftrightarrow> (dget (cr_result r) ''status'' JNull \<in> JStr ` set VERDICTS \<longrightarrow> from_verifier su c0 (cr_result r))"

interpretation depth: record_invariant su c0 "depth_bounded su" "traceable su c0" for su c0
  by unfold_locales (auto simp: depth_bounded_def intro: traceable_hit traceable_get traceable_put)

interpretation origin: record_invariant su c0 "justified su c0" "traceable su c0" for su c0
proof
  fix r r' :: crec and v
  assume "justified su c0 r" "cr_depth r' = cr_depth r"
  then show "cr_result r' = cr_result r \<Longrightarrow> justified su c0 r'"
    and "from_verifier su c0 (cr_result r') \<Longrightarrow> justified su c0 r'"
    and "is_status ''MODEL_INCOMPLETE'' (cr_result r') \<Longrightarrow> justified su c0 r'"
    by (simp_all add: justified_def is_status_def VERDICTS_def)
  assume "justified su c0 r" and m: "cr_result r' = dset ''undefined_behavior'' v (cr_result r)"
  moreover have "dget (cr_result r') ''status'' JNull = dget (cr_result r) ''status'' JNull"
    by (simp add: m dget_def map_of_update)
  ultimately show "justified su c0 r'" by (auto simp: justified_def intro: marked)
next
  fix r :: crec
  assume "is_initial (cr_result r)"
  then show "justified su c0 r" by (auto simp: justified_def is_initial_def VERDICTS_def)
qed (auto intro: traceable_hit traceable_get traceable_put)

lemma mapM_result: "mapM f xs = Inr ys \<Longrightarrow> x \<in> set xs \<Longrightarrow> \<exists>y \<in> set ys. f x = Inr y"
  by (induction xs arbitrary: ys) (auto simp: res_simps)

lemma mapM_source: "mapM f xs = Inr ys \<Longrightarrow> y \<in> set ys \<Longrightarrow> \<exists>x \<in> set xs. f x = Inr y"
  by (induction xs arbitrary: ys) (auto simp: res_simps)

lemma llm_keeps_rejections: "llm_generate loads floats model reply rejs fn = Inr (cs, rejs') \<Longrightarrow> set rejs \<subseteq> set rejs'"
proof -
  have step: "set (snd st) \<subseteq> set (snd st')" if "llm_step loads floats model request fn st raw = Inr st'" for request st raw st'
    using that by (cases st) (auto simp: llm_step_def split: sum.splits exc.splits)
  have fold: "set (snd st) \<subseteq> set (snd st')" if "foldM (llm_step loads floats model request fn) st raws = Inr st'" for request st raws st'
    using that by (induction raws arbitrary: st) (auto simp: res_simps dest!: step)
  assume "llm_generate loads floats model reply rejs fn = Inr (cs, rejs')"
  then show ?thesis by (auto simp: llm_generate_def res_simps dest!: fold split: if_splits llm_reply.splits json.splits)
qed

section \<open>Properties\<close>


definition lock_claim :: dict where
  "lock_claim = [(''id'', JStr ''C1''), (''property'', JObj [(''op'', JStr ''NOT_CALLS''), (''callee'', JStr ''exec'')])]"

definition demo_config :: config where
  "demo_config =
     \<lparr>su_program = \<lparr>pr_module = ''m'', pr_functions = [], pr_ast_hash = []\<rparr>,
      su_env = bare_env, su_sha = (\<lambda>s. s), su_search = \<lparr>ss_snippet = (\<lambda>f. ([], None, [])), ss_tests = (\<lambda>f. [])\<rparr>,
      su_source = None, su_functions = [], su_top_k = 8, su_max_refinements = MAX_REFINEMENTS, su_fuel = 1000, su_native = False,
      su_model_sha = [], su_bodies = [(''m.g'', JObj [])], su_show_set = concat,
      su_lean = (\<lambda>a b. \<lparr>run_code = 0, run_out = [], run_secs = JInt 0\<rparr>), su_lean_backend = demo_backend,
      su_loads = (\<lambda>s. None), su_loads_str = (\<lambda>s. None), su_loads_json = (\<lambda>s. None), su_floats = (\<lambda>s. None),
      su_exec = (\<lambda>a b c. Inl TypeError), su_is_file = (\<lambda>p. False), su_replayed = (\<lambda>s. Inl [])\<rparr>"

definition lock_result :: dict where
  "lock_result = projr (verify_structural concat [(''m.g'', JObj [])] lock_claim demo_fn)"

lemma lock_result: "verify_structural concat [(''m.g'', JObj [])] lock_claim demo_fn = Inr lock_result"
  "dget lock_result ''status'' JNull = JStr ''PROVED''"
proof -
  have "\<not> isl (verify_structural concat [(''m.g'', JObj [])] lock_claim demo_fn)" by code_simp
  then show "verify_structural concat [(''m.g'', JObj [])] lock_claim demo_fn = Inr lock_result"
    by (simp add: lock_result_def sum.collapse)
  show "dget lock_result ''status'' JNull = JStr ''PROVED''" by code_simp
qed

definition demo_state :: "(string \<times> crec) list \<Rightarrow> generator list \<Rightarrow> harness" where
  "demo_state cs gs =
     \<lparr>h_claims = cs, h_rejected = [], h_review = [], h_contexts = [], h_generators = gs, h_judge = demo_judge,
      h_ledger = empty_ledger, h_store = ([], fresh_cache)\<rparr>"

definition lock_rec :: crec where
  "lock_rec = new_rec (fresh_claim lock_claim) demo_fn lock_result True []"


text \<open>
  Rejections of a language model are reported again and again. The model's list of rejections is
  never emptied, and proposing claims for a function adds all of it under that function's name: every
  rejection recorded for an earlier function is also reported as one of this function.
\<close>

theorem rejections_repeated:
  assumes "generate_all su fn ctx h = Inr (raw, h')" and "Model model answers rejs \<in> set (h_generators h)" and "(i, reason) \<in> set rejs"
  shows "\<exists>added. h_rejected h' = h_rejected h @ added \<and> (''generator'', f_name fn, reason) \<in> set added \<and>
    (\<exists>rejs'. Model model answers rejs' \<in> set (h_generators h') \<and> (i, reason) \<in> set rejs')"
proof -
  from assms(1) obtain outs where outs: "mapM (generate (su_loads_json su) (su_floats su) fn ctx) (h_generators h) = Inr outs"
    and h': "h' = h\<lparr>h_generators := map snd outs, h_rejected := h_rejected h @
      map (\<lambda>r. (''generator'', f_name fn, snd r)) (concat (map rejections_of (map snd outs)))\<rparr>"
    by (auto simp: generate_all_def hbind_def hget_def hlift_def hmod_def hret_def res_simps)
  obtain out where mem: "out \<in> set outs" and gen: "generate (su_loads_json su) (su_floats su) fn ctx (Model model answers rejs) = Inr out"
    using mapM_result [OF outs assms(2)] by blast
  from gen obtain cs rejs' where out: "out = (cs, Model model answers rejs')"
    and llm: "llm_generate (su_loads_json su) (su_floats su) model (answers fn ctx) rejs fn = Inr (cs, rejs')"
    by (auto simp: generate_def res_simps)
  have kept: "(i, reason) \<in> set rejs'" using llm_keeps_rejections [OF llm] assms(3) by blast
  have gs: "Model model answers rejs' \<in> set (map snd outs)" using mem by (simp add: out image_iff) (metis snd_conv)
  have "(i, reason) \<in> set (concat (map rejections_of (map snd outs)))"
    by (simp only: set_concat set_map Union_iff) (rule bexI [OF _ imageI [OF imageI [OF gs [unfolded set_map]]]], simp add: rejections_of_def kept)
  then have "(''generator'', f_name fn, snd (i, reason)) \<in> (\<lambda>r. (''generator'', f_name fn, snd r)) ` set (concat (map rejections_of (map snd outs)))"
    by (rule imageI)
  then have rep: "(''generator'', f_name fn, reason) \<in> set (map (\<lambda>r. (''generator'', f_name fn, snd r)) (concat (map rejections_of (map snd outs))))"
    unfolding set_map [of "\<lambda>r. (''generator'', f_name fn, snd r)"] by simp
  have rejected: "h_rejected h' = h_rejected h @ map (\<lambda>r. (''generator'', f_name fn, snd r)) (concat (map rejections_of (map snd outs)))"
    and generators: "h_generators h' = map snd outs"
    unfolding h' by simp_all
  have "\<exists>rejs'. Model model answers rejs' \<in> set (h_generators h') \<and> (i, reason) \<in> set rejs'"
    unfolding generators using gs kept by blast
  with rejected rep show ?thesis by blast
qed

definition demo_model :: generator where
  "demo_model = Model [] (\<lambda>fn ctx. Unavailable ''no reply'') [(''F_0002'', ''reply contained no JSON array'')]"

definition demo_ctx :: fn_context where
  "demo_ctx = \<lparr>cx_fn = demo_fn, cx_location = None, cx_body = [], cx_doc = [], cx_callers = [], cx_callees = [],
     cx_externals = [], cx_security = False, cx_evidence = [], cx_coverage =
       \<lparr>cv_function = [], cv_blocks_total = 0, cv_blocks_modeled = 0, cv_externals = 0, cv_fully = 0, cv_abstracted = 0, cv_unknown = 0,
        cv_confidence = 1\<rparr>\<rparr>"

lemma rejections_repeated_witness:
  "\<exists>raw h'. generate_all demo_config demo_fn demo_ctx (demo_state [] [demo_model]) = Inr (raw, h') \<and>
    (''generator'', f_name demo_fn, ''reply contained no JSON array'') \<in> set (h_rejected h')"
proof -
  let ?h = "demo_state [] [demo_model]"
  have gs: "h_generators ?h = [demo_model]" by (simp add: demo_state_def)
  have "\<not> isl (generate (su_loads_json demo_config) (su_floats demo_config) demo_fn demo_ctx demo_model)"
    by (simp add: generate_def demo_model_def llm_generate_def)
  then obtain out where "generate (su_loads_json demo_config) (su_floats demo_config) demo_fn demo_ctx demo_model = Inr out"
    by (cases "generate (su_loads_json demo_config) (su_floats demo_config) demo_fn demo_ctx demo_model") auto
  then obtain raw h' where run: "generate_all demo_config demo_fn demo_ctx ?h = Inr (raw, h')"
    by (simp add: generate_all_def hbind_def hget_def hlift_def hmod_def hret_def gs)
  have "demo_model \<in> set (h_generators ?h)" by (simp add: gs)
  then have "Model [] (\<lambda>fn ctx. Unavailable ''no reply'') [(''F_0002'', ''reply contained no JSON array'')] \<in> set (h_generators ?h)"
    by (simp only: demo_model_def)
  from rejections_repeated [OF run this] run show ?thesis by auto
qed

section \<open>Properties of the closing pass\<close>

text \<open>No proof under prose assumptions, and a certificate that states the final status.\<close>

definition closed_well :: "crec \<Rightarrow> bool" where
  "closed_well r \<longleftrightarrow>
     (dget (cr_result r) ''status'' JNull \<in> {JStr ''PROVED'', JStr ''BOUNDED_PROVED''} \<longrightarrow>
        \<not> truthy (dget (ac_claim (cr_claim r)) ''assumptions'' JNull)) \<and>
     (\<forall>cert. cr_certificate r = Some cert \<longrightarrow> dget cert ''status'' JNull = dget (cr_result r) ''status'' JNull)"

lemma keeps_rec: "(\<And>r. G r \<Longrightarrow> keeps G Q (f r)) \<Longrightarrow> keeps G Q (hbind (rec_of cid) f)"
  unfolding keeps_def hbind_def rec_of_def by (fastforce simp: res_simps split: option.splits dest: stored_record)

lemma hbind_bound: "hbind m f h = Inr (y, h') \<longleftrightarrow> (\<exists>x h1. m h = Inr (x, h1) \<and> f x h1 = Inr (y, h'))"
  by (auto simp: hbind_def res_simps)

lemma keeps_put: "G r \<Longrightarrow> keeps G Q (put_rec cid r)"
  unfolding put_rec_def by (rule keepsI) (auto simp: hmod_def intro: updated_records)

lemma certificate_status: "certificate s claim r fn P ms eh asms = Inr (Some cert) \<Longrightarrow> dget cert ''status'' JNull = dget r ''status'' JNull"
proof (cases "dget r ''status'' JNull")
  case (JStr st)
  assume "certificate s claim r fn P ms eh asms = Inr (Some cert)"
  with JStr have "map_of cert ''status'' = Some (JStr st)"
    by (auto simp: certificate_def res_simps Let_def split: if_split_asm)
  with JStr show ?thesis by (simp add: dget_def)
qed (auto simp: certificate_def in_strs_def res_simps)

lemma note_unsupported_fields [simp]:
  "cr_claim (note_unsupported rec) = cr_claim rec" "cr_certificate (note_unsupported rec) = cr_certificate rec"
  "dget (cr_result (note_unsupported rec)) ''status'' d = dget (cr_result rec) ''status'' d"
  by (simp_all add: note_unsupported_def set_result_def dget_update)

lemma closed_well_certified:
  assumes "closed_well rec0" and "confidence_and_certificate su soundness fn cov (note_unsupported rec0) = Inr rec"
  shows "closed_well rec"
proof -
  obtain conf cert where cert: "certificate soundness (ac_claim (cr_claim rec0)) (cr_result (note_unsupported rec0)) fn (su_program su)
      (JStr (su_model_sha su)) (JStr (e_hash (su_env su))) (cr_assumptions (note_unsupported rec0)) = Inr cert"
    and rec: "rec = (note_unsupported rec0)\<lparr>cr_confidence := Some conf, cr_certificate := cert\<rparr>"
    using assms(2) by (auto simp: confidence_and_certificate_def res_simps)
  have "dget c ''status'' JNull = dget (cr_result rec0) ''status'' JNull" if "cert = Some c" for c
    using certificate_status [of _ _ _ _ _ _ _ _ c] cert that by (metis note_unsupported_fields(3))
  with assms(1) show ?thesis by (simp add: closed_well_def rec)
qed

lemma keeps_close_one: "keeps closed_well Q (close_one su soundness cid)"
  unfolding close_one_def
  by (rule keeps_rec, rule keeps_hbind [OF keeps_fn_of], rule keeps_hbind [OF keeps_ctx_of], rule keeps_bind_lift,
      rule keeps_hbind [OF keeps_put], erule (1) closed_well_certified) (intro keeps_control keeps_basic)

lemma keeps_proof_values: "keeps closed_well Q (judge_proof_values su)"
proof -
  have "keeps closed_well Q (set_value item d)" for item d
    by (cases item) (auto simp: set_value_def closed_well_def intro: keeps_change)
  then show ?thesis
    unfolding judge_proof_values_def value_function_def by (intro keeps_control keeps_basic)
qed

lemma depend_cases:
  assumes "depend_on_assumptions r = Inr r'"
  shows "(\<exists>s. r' = set_result (dset ''status'' (JStr ''ASSUMPTION_DEPENDENT'') s) r) \<or>
    r' = r \<and> (dget (cr_result r) ''status'' JNull \<in> {JStr ''PROVED'', JStr ''BOUNDED_PROVED''} \<longrightarrow>
      \<not> truthy (dget (ac_claim (cr_claim r)) ''assumptions'' JNull))"
proof (cases "dget (cr_result r) ''status'' JNull \<in> {JStr ''PROVED'', JStr ''BOUNDED_PROVED''}")
  case True
  let ?s = "dset ''status_before_assumptions'' (dget (cr_result r) ''status'' JNull) (cr_result r)"
  from assms True obtain v where v: "ditem (ac_claim (cr_claim r)) ''assumptions'' = Inr v"
    and r': "(if truthy v then set_result (dset ''status'' (JStr ''ASSUMPTION_DEPENDENT'') ?s) r else r) = r'"
    unfolding depend_on_assumptions_def Let_def rbind_eq_Inr if_P [OF True] by blast
  from v have "dget (ac_claim (cr_claim r)) ''assumptions'' JNull = v" by (simp add: ditem_Inr dget_def)
  with r' show ?thesis by (metis (full_types))
qed (use assms in \<open>simp add: depend_on_assumptions_def Let_def\<close>)

lemma close_assumptions_closed:
  assumes "close_assumptions h = Inr (x, h')" and "\<forall>(cid, r) \<in> set (h_claims h). cr_certificate r = None"
  shows "all_records closed_well (\<lambda>c. True) h'"
proof -
  obtain cs where cs: "mapM (\<lambda>(cid, rec). rbind (depend_on_assumptions rec) (\<lambda>r. Inr (cid, r))) (h_claims h) = Inr cs"
    and h': "h_claims h' = cs"
    using assms(1) by (auto simp: close_assumptions_def hbind_def hget_def hlift_def hmod_def res_simps)
  have one: "closed_well r'" if "depend_on_assumptions r = Inr r'" "cr_certificate r = None" for r r'
    using depend_cases [OF that(1)] that(2) by (elim disjE) (auto simp: set_result_def closed_well_def dget_update)
  have "closed_well r'" if "(cid, r') \<in> set cs" for cid r'
  proof -
    from mapM_source [OF cs that] obtain r where "(cid, r) \<in> set (h_claims h)" "depend_on_assumptions r = Inr r'"
      by (auto simp: res_simps)
    with one assms(2) show ?thesis by blast
  qed
  then show ?thesis by (auto simp: all_records_def h')
qed

text \<open>
  C24. A proof that rests on prose is never reported as a proof. After the closing pass of a run, a
  claim that states assumptions in prose is neither proved nor proved on its domain, whatever its
  status was before and whatever the judge said of its value; and every certificate that was issued
  states the status which the claim has in the end.
\<close>

theorem no_assumed_proofs:
  assumes "finish su soundness h = Inr (x, h')" and "\<forall>(cid, r) \<in> set (h_claims h). cr_certificate r = None"
    and "(cid, r) \<in> set (h_claims h')"
  shows "(truthy (dget (ac_claim (cr_claim r)) ''assumptions'' JNull) \<longrightarrow>
      dget (cr_result r) ''status'' JNull \<notin> {JStr ''PROVED'', JStr ''BOUNDED_PROVED''}) \<and>
    (\<forall>cert. cr_certificate r = Some cert \<longrightarrow> dget cert ''status'' JNull = dget (cr_result r) ''status'' JNull)"
proof -
  obtain u h1 where close: "close_assumptions (h\<lparr>h_store := (cache_save (h_store h), snd (h_store h))\<rparr>) = Inr (u, h1)"
    and rest: "hbind (judge_proof_values su) (\<lambda>u. hbind (hget (\<lambda>h. map fst (h_claims h))) (\<lambda>ids.
      hbind (hmap (close_one su soundness) ids) (\<lambda>us. hbind (hmap (report_gaps su) (targets su)) (\<lambda>us. hret ())))) h1 = Inr (x, h')"
    using assms(1) unfolding finish_def hbind_bound by (auto simp: hmod_def)
  have "keeps closed_well (\<lambda>c. True) (report_gaps su fn)" for fn
    unfolding report_gaps_def by (intro keeps_control keeps_basic)
  then have "keeps closed_well (\<lambda>c. True) (hbind (judge_proof_values su) (\<lambda>u. hbind (hget (\<lambda>h. map fst (h_claims h))) (\<lambda>ids.
      hbind (hmap (close_one su soundness) ids) (\<lambda>us. hbind (hmap (report_gaps su) (targets su)) (\<lambda>us. hret ())))))"
    by (intro keeps_hbind keeps_proof_values keeps_basic keeps_close_one)
  with rest close_assumptions_closed [OF close] assms(2) have "all_records closed_well (\<lambda>c. True) h'"
    unfolding keeps_def by simp
  with assms(3) show ?thesis by (auto simp: all_records_def closed_well_def)
qed

definition assumed_claim :: dict where
  "assumed_claim = [(''id'', JStr ''C1''), (''scope'', JObj [(''kind'', JStr ''function''), (''target'', JStr ''F_0002'')]),
     (''forall'', JList []), (''preconditions'', JList []), (''assumptions'', JList [JStr ''the caller holds the lock'']),
     (''property'', JObj [(''op'', JStr ''NOT_CALLS''), (''callee'', JStr ''exec'')])]"

definition assumed_rec :: crec where
  "assumed_rec = new_rec (fresh_claim assumed_claim) demo_fn lock_result False []"

definition closing_config :: config where
  "closing_config = demo_config\<lparr>su_program := \<lparr>pr_module = ''m'', pr_functions = [demo_fn], pr_ast_hash = []\<rparr>, su_functions := [''none'']\<rparr>"

definition closing_state :: harness where
  "closing_state = (demo_state [(''C1'', assumed_rec)] [])\<lparr>h_contexts := [(''F_0002'', demo_ctx)]\<rparr>"

lemma no_assumed_proofs_witness:
  "\<exists>h' r. finish closing_config JNull closing_state = Inr ((), h') \<and> h_claims h' = [(''C1'', r)] \<and>
   dget (cr_result r) ''status'' JNull \<noteq> JStr ''PROVED'' \<and> dget (cr_result assumed_rec) ''status'' JNull = JStr ''PROVED''"
proof -
  let ?P = "su_program closing_config"
  define rec where "rec = set_result (dset ''status'' (JStr ''ASSUMPTION_DEPENDENT'')
    (dset ''status_before_assumptions'' (JStr ''PROVED'') lock_result)) assumed_rec"
  have P: "?P = \<lparr>pr_module = ''m'', pr_functions = [demo_fn], pr_ast_hash = []\<rparr>" by (simp add: closing_config_def)
  have "\<not> isl (render_claim assumed_claim \<lparr>pr_module = ''m'', pr_functions = [demo_fn], pr_ast_hash = []\<rparr>)" by code_simp
  then obtain shown where shown: "render_claim assumed_claim ?P = Inr shown"
    unfolding P by (cases "render_claim assumed_claim \<lparr>pr_module = ''m'', pr_functions = [demo_fn], pr_ast_hash = []\<rparr>") auto
  have "\<not> isl (certificate JNull assumed_claim (dset ''status'' (JStr ''ASSUMPTION_DEPENDENT'') (dset ''status_before_assumptions''
      (JStr ''PROVED'') lock_result)) demo_fn \<lparr>pr_module = ''m'', pr_functions = [demo_fn], pr_ast_hash = []\<rparr> (JStr []) (JStr (e_hash bare_env)) [])"
    by code_simp
  then obtain cert where "certificate JNull assumed_claim (dset ''status'' (JStr ''ASSUMPTION_DEPENDENT'') (dset ''status_before_assumptions''
      (JStr ''PROVED'') lock_result)) demo_fn ?P (JStr []) (JStr (e_hash bare_env)) [] = Inr cert"
    unfolding P by (cases "certificate JNull assumed_claim (dset ''status'' (JStr ''ASSUMPTION_DEPENDENT'') (dset ''status_before_assumptions''
      (JStr ''PROVED'') lock_result)) demo_fn \<lparr>pr_module = ''m'', pr_functions = [demo_fn], pr_ast_hash = []\<rparr> (JStr []) (JStr (e_hash bare_env)) []") auto
  moreover obtain conf where "confidence_of assumed_claim (dset ''status'' (JStr ''ASSUMPTION_DEPENDENT'') (dset ''status_before_assumptions''
      (JStr ''PROVED'') lock_result)) [] (cx_coverage demo_ctx) JNull = Inr conf"
    by (simp add: confidence_of_def evidence_score_def assumed_claim_def dget_def Let_def)
  ultimately have cert: "confidence_and_certificate closing_config JNull demo_fn (cx_coverage demo_ctx) rec =
      Inr (rec\<lparr>cr_confidence := Some conf, cr_certificate := cert\<rparr>)"
    by (simp add: confidence_and_certificate_def rec_def set_result_def assumed_rec_def new_rec_def fresh_claim_def judged_def match_of_def
        closing_config_def demo_config_def)
  have dep: "depend_on_assumptions assumed_rec = Inr rec"
    by (simp add: depend_on_assumptions_def Let_def rec_def assumed_rec_def new_rec_def fresh_claim_def lock_result(2) set_result_def
        assumed_claim_def ditem_def)
  let ?h1 = "closing_state\<lparr>h_store := (cache_save (h_store closing_state), snd (h_store closing_state)), h_claims := [(''C1'', rec)]\<rparr>"
  have close: "close_assumptions (closing_state\<lparr>h_store := (cache_save (h_store closing_state), snd (h_store closing_state))\<rparr>) = Inr ((), ?h1)"
    by (simp add: close_assumptions_def hbind_def hget_def hlift_def hmod_def closing_state_def demo_state_def dep)
  have vals: "judge_proof_values closing_config ?h1 = Inr ((), ?h1)"
    by (simp add: judge_proof_values_def hbind_def hget_def hret_def by_function_def held_def rec_def set_result_def assumed_rec_def new_rec_def)
  have fn: "by_id ?P ''F_0002'' = Some demo_fn" "f_id demo_fn = ''F_0002''" "targets closing_config = []"
    by (simp_all add: P by_id_def demo_fn_def empty_func_def targets_def wanted_def) (simp add: closing_config_def)
  have nu: "note_unsupported rec = rec"
    by (simp add: note_unsupported_def rec_def set_result_def dget_update)
  let ?h2 = "?h1\<lparr>h_claims := [(''C1'', rec\<lparr>cr_confidence := Some conf, cr_certificate := cert\<rparr>)]\<rparr>"
  have rec_fields: "cr_function rec = ''F_0002''" "\<not> cr_selected rec" "ac_claim (cr_claim rec) = assumed_claim"
    "map_of (h_contexts closing_state) ''F_0002'' = Some demo_ctx"
    by (simp_all add: rec_def set_result_def assumed_rec_def new_rec_def fresh_claim_def closing_state_def fn(2))
  have one: "close_one closing_config JNull ''C1'' ?h1 = Inr ((), ?h2)"
    using shown rec_fields
    by (simp add: open_and_important_def ambiguous_def fn close_one_def hbind_def hlift_def hget_def hret_def rec_of_def fn_of_def ctx_of_def put_rec_def hmod_def nu cert)
  have run: "finish closing_config JNull closing_state = Inr ((), ?h2)"
    by (simp add: finish_def hbind_def hmod_def close vals hget_def hret_def one fn)
  have "\<forall>(cid, r) \<in> set (h_claims closing_state). cr_certificate r = None"
    by (simp add: closing_state_def demo_state_def assumed_rec_def new_rec_def)
  from no_assumed_proofs [OF run this, of "''C1''" "rec\<lparr>cr_confidence := Some conf, cr_certificate := cert\<rparr>"]
  have "dget (cr_result rec) ''status'' JNull \<noteq> JStr ''PROVED''"
    by (simp add: rec_def set_result_def assumed_rec_def new_rec_def fresh_claim_def assumed_claim_def dget_def)
  then show ?thesis using run
    by (intro exI [of _ ?h2] exI [of _ "rec\<lparr>cr_confidence := Some conf, cr_certificate := cert\<rparr>"] conjI)
      (simp_all add: assumed_rec_def new_rec_def lock_result(2))
qed

end
