(* ===== verification/Reports.thy ===== *)
theory Reports
  imports HarnessRun
begin

text \<open>
  What is made of a finished run: the outcome that is attached to each decision
  (\<open>annotate_decisions\<close> of \<open>src/src/autoform/harness/pipeline.py\<close>), the labels derived from it and the
  temperatures fitted to them (\<open>bench.py\<close>), and the comparison of two reports (\<open>report.py\<close>).
  Entries, rows and reports are read back from files, so they are JSON values. Temperatures and
  likelihoods are real numbers.
\<close>

section \<open>The outcome of a decision\<close>

definition repair_status :: "harness \<Rightarrow> crec \<Rightarrow> json" where
  "repair_status h rec =
     (case map_of (h_claims h) (case cr_repaired_by rec of None \<Rightarrow> [] | Some i \<Rightarrow> i) of
        None \<Rightarrow> JNull
      | Some r \<Rightarrow> dget (cr_result r) ''status'' JNull)"

definition outcome_of :: "harness \<Rightarrow> crec \<Rightarrow> dict" where
  "outcome_of h rec =
     [(''status'', dget (cr_result rec) ''status'' JNull), (''disposition'', opt_json (cr_disposition rec)),
      (''repair_status'', repair_status h rec),
      (''repair_chosen'', opt_json (map_option rn_chosen (cr_repair rec))), (''repair_kind'', opt_json (map_option rn_kind (cr_repair rec))),
      (''classification'', opt_json (map_option cn_class (cr_counterexample rec))), (''native_agrees'', match_of rec),
      (''model_defect'', opt_json (map_option dn_class (cr_defect rec)))]"

text \<open>The claim a decision is about, when its context names a registered one.\<close>

definition decided_claim :: "harness \<Rightarrow> decision \<Rightarrow> (string \<times> crec) option res" where
  "decided_claim h d =
     (case d_context d of
        JObj c \<Rightarrow>
          (case dget c ''claim'' JNull of
             JStr cid \<Rightarrow> Inr (map_option (Pair cid) (map_of (h_claims h) cid))
           | v \<Rightarrow> if hashable v then Inr None else Inl TypeError)
      | _ \<Rightarrow> Inr None)"

definition decision_outcome :: "harness \<Rightarrow> decision \<Rightarrow> dict option res" where
  "decision_outcome h d =
     rbind (decided_claim h d) (\<lambda>found.
       Inr (case found of
          None \<Rightarrow> None
        | Some (cid, rec) \<Rightarrow>
            Some (outcome_of h rec @
              (if d_task d = ''ASSUMPTION_ACCEPTABILITY''
               then [(''assumption_free_sibling'', opt_json (assumption_free_sibling cid rec h))] else []))))"

definition annotate_decisions :: "harness \<Rightarrow> (decision \<times> dict option) list res" where
  "annotate_decisions h = mapM (\<lambda>d. rbind (decision_outcome h d) (\<lambda>out. Inr (d, out))) (jg_entries (h_judge h))"

section \<open>Labels\<close>

definition unlabeled :: "string \<Rightarrow> dict" where
  "unlabeled reason = [(''kind'', JStr ''unlabeled''), (''reason'', JStr reason)]"

definition acceptable :: "string list \<Rightarrow> dict" where
  "acceptable labels = [(''kind'', JStr ''acceptable''), (''labels'', JList (map JStr labels))]"

definition kind_label :: "string \<Rightarrow> json \<Rightarrow> dict" where
  "kind_label kind v = [(''kind'', JStr kind), (''label'', v)]"

definition with_reason :: "dict \<Rightarrow> json \<Rightarrow> dict" where
  "with_reason d reason = d @ [(''reason'', reason)]"

definition label_judgment :: "dict \<Rightarrow> dict res" where
  "label_judgment out =
     (let status = dget out ''status'' JNull; cls = dget out ''classification'' JNull in
      rbind (in_strs status HELD) (\<lambda>h.
        Inr (if h then acceptable [''USEFUL_PROPERTY'', ''SECURITY_RELEVANT'']
             else if status = JStr ''REFUTED'' then
               (if cls \<in> {JStr ''BAD_SPEC'', JStr ''MISSING_PRECONDITION''} then acceptable [''TOO_STRONG'']
                else if cls = JStr ''REAL_BUG'' then acceptable [''SECURITY_RELEVANT'', ''USEFUL_PROPERTY'']
                else acceptable [''TOO_STRONG'', ''UNSUPPORTED_BY_EVIDENCE''])
             else unlabeled (''outcome '' @ py_str status))))"

definition label_counterexample :: "dict \<Rightarrow> json \<Rightarrow> dict res" where
  "label_counterexample out chosen =
     (let repaired = dget out ''repair_status'' JNull in
      rbind (in_strs repaired HELD) (\<lambda>h.
        Inr (if h then with_reason (kind_label ''single'' chosen) (JStr ''the repair implied by this class was then established'')
             else if repaired = JStr ''REFUTED'' then with_reason (kind_label ''negative'' chosen) (JStr ''the implied repair was refuted again'')
             else unlabeled ''intent-dependent; needs a human label'')))"

definition label_precondition :: "dict \<Rightarrow> json \<Rightarrow> dict res" where
  "label_precondition out chosen =
     (let repaired = dget out ''repair_status'' JNull; pick = dget out ''repair_chosen'' JNull in
      if \<not> py_eq pick chosen then
        Inr (unlabeled (''REPAIR_SELECTION chose '' @ py_str pick @ ''; this precondition was never verified''))
      else
        rbind (in_strs repaired HELD) (\<lambda>h.
          Inr (if h then with_reason (kind_label ''single'' chosen) (JStr ''the claim under this precondition was established'')
               else if repaired = JStr ''REFUTED'' then with_reason (kind_label ''negative'' chosen) (JStr ''refuted again under this precondition'')
               else [(''kind'', JStr ''unlabeled''),
                     (''reason'', py_or (dget out ''disposition'' JNull) (JStr ''the repaired claim was not verified''))])))"

definition label_repair :: "dict \<Rightarrow> json \<Rightarrow> dict res" where
  "label_repair out chosen =
     (let repaired = dget out ''repair_status'' JNull in
      rbind (in_strs repaired HELD) (\<lambda>h.
        Inr (if h then kind_label ''single'' chosen
             else if truthy repaired then kind_label ''negative'' chosen
             else [(''kind'', JStr ''unlabeled''), (''reason'', py_or (dget out ''disposition'' JNull) (JStr ''no repair verified''))])))"

definition label_backend :: "dict \<Rightarrow> json \<Rightarrow> dict res" where
  "label_backend out chosen =
     (let status = dget out ''status'' JNull in
      rbind (in_strs status (''REFUTED'' # HELD)) (\<lambda>h.
        Inr (if h then kind_label ''single'' chosen else unlabeled (''outcome '' @ py_str status))))"

definition label_assumption :: "dict \<Rightarrow> dict res" where
  "label_assumption out =
     (let repaired = dget out ''repair_status'' JNull; sibling = dget out ''assumption_free_sibling'' JNull in
      if repaired = JStr ''REFUTED'' then
        Inr (with_reason (kind_label ''negative'' (JStr ''ACCEPTABLE''))
          (JStr ''the claim repaired by this assumption was refuted again''))
      else
        rbind (in_strs repaired HELD) (\<lambda>h.
          Inr (if h \<and> truthy sibling
               then with_reason (kind_label ''single'' (JStr ''UNACCEPTABLE''))
                 (JStr (''unnecessary: '' @ py_str sibling @ '' establishes the claim without it''))
               else unlabeled (''acceptability of an assumption the verifier did not refute or make redundant is a '' @
                 ''judgment about callers; needs a human label''))))"

definition label_by_task :: "json \<Rightarrow> dict \<Rightarrow> json \<Rightarrow> dict res" where
  "label_by_task task out chosen =
     (if task = JStr ''PROPERTY_JUDGMENT'' then label_judgment out
      else if task = JStr ''COUNTEREXAMPLE_CLASSIFICATION'' then label_counterexample out chosen
      else if task = JStr ''PRECONDITION_SELECTION'' then label_precondition out chosen
      else if task = JStr ''REPAIR_SELECTION'' then label_repair out chosen
      else if task = JStr ''BACKEND_SELECTION'' then label_backend out chosen
      else if task = JStr ''ASSUMPTION_ACCEPTABILITY'' then label_assumption out
      else if task = JStr ''MODEL_DEFECT_CLASSIFICATION'' then
        Inr (unlabeled (''only a fix to the interpreter or the front end (or a person) separates the admissible '' @
          ''defect classes; this run cannot''))
      else if task = JStr ''PROOF_VALUE_JUDGMENT'' then
        Inr (unlabeled ''the kernel settles truth, not value; value is intent-dependent'')
      else if task \<in> {JStr ''PROPERTY_SELECTION'', JStr ''INTENT_SELECTION''} then
        Inr (unlabeled ''which claim is intended is not settled by verification'')
      else Inr (unlabeled ''no verifier-derived label for this task''))"

definition label_entry :: "dict \<Rightarrow> dict res" where
  "label_entry e =
     rbind (ditem e ''task'') (\<lambda>task.
     rbind (case py_or (dget e ''outcome'' JNull) (JObj []) of JObj d \<Rightarrow> Inr d | _ \<Rightarrow> Inl AttributeError) (\<lambda>out.
       if truthy (dget e ''forced'' JNull) then Inr [(''kind'', JStr ''forced'')]
       else label_by_task task out (dget e ''chosen'' JNull)))"

section \<open>Rows of the benchmark\<close>

definition row_option :: "json \<times> json \<Rightarrow> json" where
  "row_option = (\<lambda>(i, d). JObj [(''id'', i), (''description'', d)])"

definition row_of :: "dict \<Rightarrow> dict \<Rightarrow> dict res" where
  "row_of e lab =
     rbind (ditem e ''decision_id'') (\<lambda>i.
     rbind (ditem e ''task'') (\<lambda>task.
     rbind (py_iter (dget e ''options'' (JList []))) (\<lambda>os.
     rbind (py_iter (dget e ''option_descriptions'' (JList []))) (\<lambda>ds.
       Inr [(''id'', i), (''task'', task), (''state'', dget e ''state'' JNull), (''question'', dget e ''question'' JNull),
            (''options'', JList (map row_option (zip os ds))), (''model_choice'', dget e ''chosen'' JNull),
            (''option_logits'', dget e ''option_logits'' JNull), (''backend'', dget e ''backend'' JNull),
            (''label'', JObj lab), (''outcome'', dget e ''outcome'' JNull)]))))"

text \<open>\<open>export\<close>: the rows of the decisions that were not forced, one JSON document per line.\<close>

definition export_entry :: "json \<Rightarrow> dict list res" where
  "export_entry v =
     rbind (as_dict v) (\<lambda>e.
     rbind (label_entry e) (\<lambda>lab.
       if dget lab ''kind'' JNull = JStr ''forced'' then Inr [] else rbind (row_of e lab) (\<lambda>r. Inr [r])))"

definition export_rows :: "json list \<Rightarrow> dict list res" where
  "export_rows entries = rbind (mapM export_entry entries) (\<lambda>rss. Inr (concat rss))"

definition export_text :: "dict list \<Rightarrow> string" where
  "export_text rows = concat (map (\<lambda>r. json_dumps False (JObj r) @ newline) rows)"

section \<open>Fitting a temperature\<close>

definition number_of :: "json \<Rightarrow> real res" where
  "number_of v = (case num_of v of None \<Rightarrow> Inl TypeError | Some q \<Rightarrow> Inr (of_rat q))"

definition logits_of :: "dict \<Rightarrow> real list res" where
  "logits_of row = rbind (rbind (ditem row ''option_logits'') py_iter) (mapM number_of)"

definition option_ids :: "dict \<Rightarrow> json list res" where
  "option_ids row = rbind (rbind (ditem row ''options'') py_iter) (mapM (\<lambda>v. item_of v ''id''))"

text \<open>The options the label accepts.\<close>

definition wanted_labels :: "dict \<Rightarrow> json list res" where
  "wanted_labels row =
     rbind (rbind (ditem row ''label'') as_dict) (\<lambda>lab.
       if truthy (dget lab ''labels'' JNull) then py_iter (dget lab ''labels'' JNull)
       else rbind (ditem lab ''label'') (\<lambda>v. Inr [v]))"

definition index_in :: "json list \<Rightarrow> json \<Rightarrow> nat" where
  "index_in ids w = length (takeWhile (\<lambda>i. \<not> py_eq i w) ids)"

definition likelihood :: "real list \<Rightarrow> nat list \<Rightarrow> real" where
  "likelihood xs idx =
     (let m = Max (set xs); z = ln (sum_list (map (\<lambda>x. exp (x - m)) xs)) + m
      in sum_list (map (\<lambda>i. exp (xs ! i - z)) idx))"

definition row_loss :: "real \<Rightarrow> dict \<Rightarrow> real res" where
  "row_loss t row =
     rbind (logits_of row) (\<lambda>xs.
       if xs = [] then Inl (ValueError ''max'')
       else
         rbind (option_ids row) (\<lambda>ids.
         rbind (wanted_labels row) (\<lambda>ws.
           let idx = map (index_in ids) (filter (\<lambda>w. py_mem w ids) ws) in
           if idx = [] then Inr 0
           else if \<exists>i \<in> set idx. length xs \<le> i then Inl IndexError
           else Inr (- ln (max (likelihood (map (\<lambda>x. x / t) xs) idx) (1 / 10 ^ 12))))))"

definition nll :: "dict list \<Rightarrow> real \<Rightarrow> real res" where
  "nll rows t = rbind (mapM (row_loss t) rows) (\<lambda>ls. Inr (sum_list ls))"

text \<open>A row serves calibration when it is labeled with right options and was scored by the model.\<close>

definition calibrates :: "dict \<Rightarrow> bool res" where
  "calibrates row =
     rbind (rbind (ditem row ''label'') as_dict) (\<lambda>lab.
     rbind (ditem lab ''kind'') (\<lambda>kind.
       if kind \<in> {JStr ''single'', JStr ''acceptable''} \<and> truthy (dget row ''option_logits'' JNull)
       then rbind (ditem row ''backend'') (\<lambda>b. Inr (b = JStr ''semif'')) else Inr False))"

definition add_row :: "(string \<times> dict list) list \<Rightarrow> json \<Rightarrow> (string \<times> dict list) list res" where
  "add_row m v =
     rbind (as_dict v) (\<lambda>row.
     rbind (calibrates row) (\<lambda>ok.
       if ok then rbind (rbind (ditem row ''task'') text_of) (\<lambda>task. Inr (AList.update task (lookup m task [] @ [row]) m))
       else Inr m))"

definition grid :: "real list" where
  "grid = map (\<lambda>i. 1 / 4 * real i) [1..<41]"

definition fit_task :: "string \<times> dict list \<Rightarrow> (string \<times> real \<times> nat) list res" where
  "fit_task = (\<lambda>(task, rows).
     if length rows < 5 then Inr []
     else
       rbind (mapM (nll rows) grid) (\<lambda>losses.
       rbind (argmax (length grid) (map uminus losses)) (\<lambda>i. Inr [(task, grid ! i, length rows)])))"

definition fit_temperatures :: "json list \<Rightarrow> (string \<times> real \<times> nat) list res" where
  "fit_temperatures rows = rbind (foldM add_row [] rows) (\<lambda>m. rbind (mapM fit_task m) (\<lambda>fs. Inr (concat fs)))"

section \<open>Comparing two reports\<close>

record changes =
  df_new :: "dict list"
  df_removed :: "dict list"
  df_preserved :: "(dict \<times> dict) list"
  df_lost :: "(dict \<times> dict) list"
  df_gained :: "(dict \<times> dict) list"
  df_changed :: "(dict \<times> dict) list"
  df_assumptions :: "string list"

definition add_selected :: "(string \<times> dict) list \<Rightarrow> json \<Rightarrow> (string \<times> dict) list res" where
  "add_selected m v =
     rbind (as_dict v) (\<lambda>r.
     rbind (ditem r ''selected'') (\<lambda>sel.
       if truthy sel then rbind (rbind (ditem r ''id'') text_of) (\<lambda>i. Inr (AList.update i r m)) else Inr m))"

definition claim_table :: "dict \<Rightarrow> (string \<times> dict) list res" where
  "claim_table rep = rbind (rbind (ditem rep ''claims'') py_iter) (foldM add_selected [])"

definition add_assumption :: "(string \<times> json) list \<Rightarrow> json \<Rightarrow> (string \<times> json) list res" where
  "add_assumption m v =
     rbind (rbind (item_of v ''id'') text_of) (\<lambda>i. rbind (item_of v ''text_sha256'') (\<lambda>s. Inr (AList.update i s m)))"

definition assumption_table :: "dict \<Rightarrow> (string \<times> json) list res" where
  "assumption_table rep = rbind (py_iter (dget rep ''critical_assumptions'' (JList []))) (foldM add_assumption [])"

definition changed_assumptions :: "(string \<times> json) list \<Rightarrow> (string \<times> json) list \<Rightarrow> string list" where
  "changed_assumptions oa na =
     sorted_set (filter (\<lambda>k. \<not> py_eq (lookup oa k JNull) (lookup na k JNull)) (map fst oa @ map fst na))"

definition compare_claims :: "changes \<Rightarrow> dict \<Rightarrow> dict \<Rightarrow> changes res" where
  "compare_claims c a b =
     rbind (ditem a ''status'') (\<lambda>sa.
     rbind (ditem b ''status'') (\<lambda>sb.
     rbind (in_strs sa HELD) (\<lambda>ha.
     rbind (in_strs sb HELD) (\<lambda>hb.
       Inr (if py_eq sa sb then (if ha then c\<lparr>df_preserved := df_preserved c @ [(a, b)]\<rparr> else c)
            else if ha \<and> \<not> hb then c\<lparr>df_lost := df_lost c @ [(a, b)]\<rparr>
            else if hb \<and> \<not> ha then c\<lparr>df_gained := df_gained c @ [(a, b)]\<rparr>
            else c\<lparr>df_changed := df_changed c @ [(a, b)]\<rparr>)))))"

definition diff_step :: "(string \<times> dict) list \<Rightarrow> (string \<times> dict) list \<Rightarrow> changes \<Rightarrow> string \<Rightarrow> changes res" where
  "diff_step o1 n1 c cid =
     (case map_of o1 cid of
        None \<Rightarrow> (case map_of n1 cid of None \<Rightarrow> Inr c | Some b \<Rightarrow> Inr (c\<lparr>df_new := df_new c @ [b]\<rparr>))
      | Some a \<Rightarrow>
          (case map_of n1 cid of
             None \<Rightarrow> Inr (c\<lparr>df_removed := df_removed c @ [a]\<rparr>)
           | Some b \<Rightarrow> compare_claims c a b))"

definition diff_reports :: "dict \<Rightarrow> dict \<Rightarrow> changes res" where
  "diff_reports old new =
     rbind (claim_table old) (\<lambda>o1.
     rbind (claim_table new) (\<lambda>n1.
     rbind (assumption_table old) (\<lambda>oa.
     rbind (assumption_table new) (\<lambda>na.
       foldM (diff_step o1 n1)
         \<lparr>df_new = [], df_removed = [], df_preserved = [], df_lost = [], df_gained = [], df_changed = [],
          df_assumptions = changed_assumptions oa na\<rparr>
         (sorted_set (map fst o1 @ map fst n1))))))"

text \<open>What \<open>autoform formalize diff\<close> returns to the shell.\<close>

definition diff_exit :: "changes \<Rightarrow> nat" where
  "diff_exit c = (if df_lost c = [] then 0 else 1)"

section \<open>The summary of a run\<close>

record claim_row =
  rw_id :: string
  rw_fn :: func
  rw_text :: string
  rw_rec :: crec

definition record_of :: "config \<Rightarrow> string \<Rightarrow> crec \<Rightarrow> func \<Rightarrow> claim_row res" where
  "record_of su cid rec fn =
     rbind (render_claim (ac_claim (cr_claim rec)) (su_program su)) (\<lambda>shown.
       Inr \<lparr>rw_id = cid, rw_fn = fn, rw_text = shown, rw_rec = rec\<rparr>)"

definition row_status :: "claim_row \<Rightarrow> json" where
  "row_status r = dget (cr_result (rw_rec r)) ''status'' JNull"

definition row_selected :: "claim_row \<Rightarrow> bool" where
  "row_selected r = cr_selected (rw_rec r)"

text \<open>The statuses of the selected claims, counted in the order of \<open>STATUSES\<close>.\<close>

definition result_counts :: "claim_row list \<Rightarrow> (string \<times> nat) list" where
  "result_counts rows =
     filter (\<lambda>(s, n). n \<noteq> 0)
       (map (\<lambda>s. (s, length (filter (\<lambda>r. row_selected r \<and> row_status r = JStr s) rows))) STATUSES)"

definition semantic_coverage :: "func list \<Rightarrow> real" where
  "semantic_coverage fns =
     (let blocks = sum_list (map (\<lambda>f. length (f_blocks f)) fns);
          modeled = sum_list (map (\<lambda>f. int (length (f_blocks f)) - int (length (f_holes f))) fns)
      in if blocks = 0 then 1 else py_round 4 (of_int modeled / real blocks))"

definition add_security :: "(string \<times> nat \<times> nat) list \<Rightarrow> claim_row \<Rightarrow> (string \<times> nat \<times> nat) list res" where
  "add_security m r =
     (let claim = ac_claim (cr_claim (rw_rec r)) in
      rbind (ditem claim ''category'') (\<lambda>cat.
        if \<not> row_selected r \<or> cat \<noteq> JStr ''security'' then Inr m
        else
          rbind (rbind (ditem claim ''subtype'') text_of) (\<lambda>sub.
          rbind (in_strs (row_status r) HELD) (\<lambda>h.
            Inr (case lookup m sub (0, 0) of (held_n, all_n) \<Rightarrow>
                   AList.update sub (held_n + (if h then 1 else 0), Suc all_n) m)))))"

definition security_table :: "claim_row list \<Rightarrow> (string \<times> nat \<times> nat) list res" where
  "security_table rows = foldM add_security [] rows"

definition disposed_rows :: "string \<Rightarrow> claim_row list \<Rightarrow> claim_row list" where
  "disposed_rows d rows = filter (\<lambda>r. cr_disposition (rw_rec r) = Some d) rows"

definition claims_generated :: "harness \<Rightarrow> claim_row list \<Rightarrow> nat" where
  "claims_generated h rows = length rows + length (filter (\<lambda>(stage, f, reason). stage \<noteq> ''generator'') (h_rejected h))"

definition STATUS_ORDER :: "string list" where
  "STATUS_ORDER = [''REFUTED'', ''PROVED'', ''BOUNDED_PROVED'', ''ASSUMPTION_DEPENDENT'', ''MODEL_INCOMPLETE'',
     ''INCONSISTENT_MODEL'', ''UNKNOWN'', ''TIMEOUT'', ''UNSUPPORTED'', ''NOT_SELECTED'']"

definition status_rank :: "json \<Rightarrow> nat" where
  "status_rank v = (if v \<in> JStr ` set STATUS_ORDER then length (takeWhile (\<lambda>s. JStr s \<noteq> v) STATUS_ORDER) else 99)"

text \<open>Sorted by selection, status and function name: stable sorts, the last key first.\<close>

definition ordered_rows :: "claim_row list \<Rightarrow> claim_row list" where
  "ordered_rows rows =
     sort_key (\<lambda>r. \<not> row_selected r) (sort_key (\<lambda>r. status_rank (row_status r)) (sort_key (\<lambda>r. f_name (rw_fn r)) rows))"

definition unmodeled_externals :: "config \<Rightarrow> func list \<Rightarrow> string list res" where
  "unmodeled_externals su fns =
     rbind (mapM (unsupported_reach (su_env su) (su_program su)) fns) (\<lambda>xss. Inr (sorted_set (concat xss)))"

definition certificates_of :: "claim_row list \<Rightarrow> dict list" where
  "certificates_of rows = concat (map (\<lambda>r. case cr_certificate (rw_rec r) of None \<Rightarrow> [] | Some c \<Rightarrow> [c]) rows)"

section \<open>Properties\<close>

lemma label_kinds [simp]:
  "dget (unlabeled s) ''kind'' d = JStr ''unlabeled''" "dget (acceptable ls) ''kind'' d = JStr ''acceptable''"
  "dget (kind_label k v) ''kind'' d = JStr k" "dget (with_reason (kind_label k v) w) ''kind'' d = JStr k"
  "dget ((''kind'', JStr k) # rest) ''kind'' d = JStr k"
  by (simp_all add: unlabeled_def acceptable_def kind_label_def with_reason_def dget_def)

text \<open>Which verifier result a label rests on.\<close>

definition supports :: "json \<Rightarrow> dict \<Rightarrow> bool" where
  "supports kind out \<longleftrightarrow>
     kind \<in> {JStr ''unlabeled'', JStr ''forced''} \<or>
     kind = JStr ''acceptable'' \<and> dget out ''status'' JNull \<in> JStr ` set (''REFUTED'' # HELD) \<or>
     kind = JStr ''single'' \<and>
       (dget out ''status'' JNull \<in> JStr ` set (''REFUTED'' # HELD) \<or> dget out ''repair_status'' JNull \<in> JStr ` set HELD) \<or>
     kind = JStr ''negative'' \<and> truthy (dget out ''repair_status'' JNull) \<and> dget out ''repair_status'' JNull \<notin> JStr ` set HELD"

lemma in_strs_member: "in_strs v ks = Inr b \<Longrightarrow> b \<longleftrightarrow> v \<in> JStr ` set ks"
  by (cases v) (auto simp: in_strs_def split: if_splits)

lemma supportsI:
  "supports (JStr ''unlabeled'') out"
  "dget out ''status'' JNull \<in> JStr ` set HELD \<Longrightarrow> supports (JStr ''acceptable'') out"
  "dget out ''status'' JNull = JStr ''REFUTED'' \<Longrightarrow> supports (JStr ''acceptable'') out"
  "dget out ''status'' JNull \<in> JStr ` set (''REFUTED'' # HELD) \<Longrightarrow> supports (JStr ''single'') out"
  "dget out ''repair_status'' JNull \<in> JStr ` set HELD \<Longrightarrow> supports (JStr ''single'') out"
  "dget out ''repair_status'' JNull = JStr ''REFUTED'' \<Longrightarrow> supports (JStr ''negative'') out"
  "truthy (dget out ''repair_status'' JNull) \<Longrightarrow> dget out ''repair_status'' JNull \<notin> JStr ` set HELD \<Longrightarrow> supports (JStr ''negative'') out"
  by (simp_all add: supports_def HELD_def)

lemma if_kind: "dget (if b then x else y) k d = (if b then dget x k d else dget y k d)"
  by simp

lemma label_judgment_supports: "label_judgment out = Inr lab \<Longrightarrow> supports (dget lab ''kind'' JNull) out"
  unfolding label_judgment_def Let_def rbind_eq_Inr sum.inject
  by (elim exE conjE, drule in_strs_member, hypsubst) (simp only: if_kind label_kinds, simp only: split: if_split, simp add: supportsI)

lemma label_counterexample_supports: "label_counterexample out ch = Inr lab \<Longrightarrow> supports (dget lab ''kind'' JNull) out"
  unfolding label_counterexample_def Let_def rbind_eq_Inr sum.inject
  by (elim exE conjE, drule in_strs_member, hypsubst) (simp only: if_kind label_kinds, simp only: split: if_split, simp add: supportsI)

lemma label_precondition_supports: "label_precondition out ch = Inr lab \<Longrightarrow> supports (dget lab ''kind'' JNull) out"
proof (cases "py_eq (dget out ''repair_chosen'' JNull) ch")
  case True
  then show "label_precondition out ch = Inr lab \<Longrightarrow> ?thesis"
    unfolding label_precondition_def Let_def rbind_eq_Inr sum.inject
    by (simp only: not_True_eq_False if_False rbind_eq_Inr sum.inject)
      (elim exE conjE, drule in_strs_member, hypsubst, simp only: if_kind label_kinds, simp only: split: if_split, simp add: supportsI)
qed (simp add: label_precondition_def Let_def, hypsubst, simp add: supportsI)

lemma label_repair_supports: "label_repair out ch = Inr lab \<Longrightarrow> supports (dget lab ''kind'' JNull) out"
  unfolding label_repair_def Let_def rbind_eq_Inr sum.inject
  by (elim exE conjE, drule in_strs_member, hypsubst) (simp only: if_kind label_kinds, simp only: split: if_split, simp add: supportsI)

lemma label_backend_supports: "label_backend out ch = Inr lab \<Longrightarrow> supports (dget lab ''kind'' JNull) out"
  unfolding label_backend_def Let_def rbind_eq_Inr sum.inject
  by (elim exE conjE, drule in_strs_member, hypsubst) (simp only: if_kind label_kinds, simp only: split: if_split, simp add: supportsI)

lemma label_assumption_supports:
  assumes "label_assumption out = Inr lab"
  shows "supports (dget lab ''kind'' JNull) out"
proof (cases "dget out ''repair_status'' JNull = JStr ''REFUTED''")
  case False
  from assms obtain h where h: "in_strs (dget out ''repair_status'' JNull) HELD = Inr h"
    and lab: "(if h \<and> truthy (dget out ''assumption_free_sibling'' JNull)
       then with_reason (kind_label ''single'' (JStr ''UNACCEPTABLE''))
         (JStr (''unnecessary: '' @ py_str (dget out ''assumption_free_sibling'' JNull) @ '' establishes the claim without it''))
       else unlabeled (''acceptability of an assumption the verifier did not refute or make redundant is a '' @
         ''judgment about callers; needs a human label'')) = lab"
    unfolding label_assumption_def Let_def if_not_P [OF False] rbind_eq_Inr sum.inject by blast
  show ?thesis unfolding lab [symmetric] if_kind label_kinds using in_strs_member [OF h] by (simp add: supportsI)
qed (use assms in \<open>simp add: label_assumption_def Let_def, hypsubst, simp add: supportsI\<close>)

definition label_sound :: "dict \<Rightarrow> dict res \<Rightarrow> bool" where
  "label_sound out r \<longleftrightarrow> (\<forall>lab. r = Inr lab \<longrightarrow> supports (dget lab ''kind'' JNull) out)"

lemma label_sound_if: "label_sound out x \<Longrightarrow> label_sound out y \<Longrightarrow> label_sound out (if b then x else y)"
  by simp

lemma label_sound_parts:
  "label_sound out (label_judgment out)" "label_sound out (label_counterexample out ch)" "label_sound out (label_precondition out ch)"
  "label_sound out (label_repair out ch)" "label_sound out (label_backend out ch)" "label_sound out (label_assumption out)"
  "label_sound out (Inr (unlabeled w))"
  by (simp_all add: label_sound_def label_judgment_supports label_counterexample_supports label_precondition_supports
      label_repair_supports label_backend_supports label_assumption_supports supportsI)

lemma label_by_task_supports: "label_sound out (label_by_task task out ch)"
  unfolding label_by_task_def by (intro label_sound_if label_sound_parts)

section \<open>Differences\<close>

definition established :: "dict \<Rightarrow> bool" where
  "established r \<longleftrightarrow> dget r ''status'' JNull \<in> JStr ` set HELD"

definition same_status :: "dict \<Rightarrow> dict \<Rightarrow> bool" where
  "same_status a b \<longleftrightarrow> py_eq (dget a ''status'' JNull) (dget b ''status'' JNull)"

text \<open>The pairs of claims of both reports, by identifier, that satisfy a condition.\<close>

definition pairs_of :: "(dict \<Rightarrow> dict \<Rightarrow> bool) \<Rightarrow> (string \<times> dict) list \<Rightarrow> (string \<times> dict) list \<Rightarrow> string \<Rightarrow> (dict \<times> dict) list" where
  "pairs_of p o1 n1 i = (case (map_of o1 i, map_of n1 i) of (Some a, Some b) \<Rightarrow> if p a b then [(a, b)] else [] | _ \<Rightarrow> [])"

definition only_in :: "(string \<times> dict) list \<Rightarrow> (string \<times> dict) list \<Rightarrow> string \<Rightarrow> dict list" where
  "only_in m1 m2 i = (case (map_of m1 i, map_of m2 i) of (Some a, None) \<Rightarrow> [a] | _ \<Rightarrow> [])"

lemma established_same: "established a \<noteq> established b \<Longrightarrow> \<not> same_status a b"
  by (cases "dget a ''status'' JNull"; cases "dget b ''status'' JNull") (auto simp: established_def same_status_def)

lemma compare_claims_fields:
  assumes "compare_claims c a b = Inr c'"
  shows "df_new c' = df_new c" "df_removed c' = df_removed c" "df_assumptions c' = df_assumptions c"
    and "df_lost c' = df_lost c @ (if established a \<and> \<not> established b then [(a, b)] else [])"
    and "df_gained c' = df_gained c @ (if established b \<and> \<not> established a then [(a, b)] else [])"
    and "df_preserved c' = df_preserved c @ (if same_status a b \<and> established a then [(a, b)] else [])"
proof -
  from assms obtain sa sb where s: "dget a ''status'' JNull = sa" "dget b ''status'' JNull = sb"
    and in1: "in_strs sa HELD = Inr (established a)" and in2: "in_strs sb HELD = Inr (established b)"
    and c': "c' = (if py_eq sa sb then (if established a then c\<lparr>df_preserved := df_preserved c @ [(a, b)]\<rparr> else c)
            else if established a \<and> \<not> established b then c\<lparr>df_lost := df_lost c @ [(a, b)]\<rparr>
            else if established b \<and> \<not> established a then c\<lparr>df_gained := df_gained c @ [(a, b)]\<rparr>
            else c\<lparr>df_changed := df_changed c @ [(a, b)]\<rparr>)"
  proof -
    from assms obtain sa sb ha hb where sa: "ditem a ''status'' = Inr sa" and sb: "ditem b ''status'' = Inr sb"
      and ha: "in_strs sa HELD = Inr ha" and hb: "in_strs sb HELD = Inr hb"
      and c': "(if py_eq sa sb then (if ha then c\<lparr>df_preserved := df_preserved c @ [(a, b)]\<rparr> else c)
            else if ha \<and> \<not> hb then c\<lparr>df_lost := df_lost c @ [(a, b)]\<rparr>
            else if hb \<and> \<not> ha then c\<lparr>df_gained := df_gained c @ [(a, b)]\<rparr>
            else c\<lparr>df_changed := df_changed c @ [(a, b)]\<rparr>) = c'"
      unfolding compare_claims_def rbind_eq_Inr sum.inject by blast
    have s: "dget a ''status'' JNull = sa" "dget b ''status'' JNull = sb" using sa sb by (simp_all add: ditem_Inr dget_def)
    have "ha = established a" "hb = established b"
      using in_strs_member [OF ha] in_strs_member [OF hb] by (simp_all add: established_def s)
    with that [OF s] ha hb c' show ?thesis by blast
  qed
  have same: "same_status a b = py_eq sa sb" by (simp add: same_status_def s)
  show "df_new c' = df_new c" "df_removed c' = df_removed c" "df_assumptions c' = df_assumptions c"
    unfolding c' by simp_all
  show "df_lost c' = df_lost c @ (if established a \<and> \<not> established b then [(a, b)] else [])"
    "df_gained c' = df_gained c @ (if established b \<and> \<not> established a then [(a, b)] else [])"
    "df_preserved c' = df_preserved c @ (if same_status a b \<and> established a then [(a, b)] else [])"
    unfolding c' same [symmetric] using established_same [of a b] by auto
qed

lemma diff_step_fields:
  assumes "diff_step o1 n1 c i = Inr c'"
  shows "df_new c' = df_new c @ only_in n1 o1 i" "df_removed c' = df_removed c @ only_in o1 n1 i"
    and "df_lost c' = df_lost c @ pairs_of (\<lambda>a b. established a \<and> \<not> established b) o1 n1 i"
    and "df_gained c' = df_gained c @ pairs_of (\<lambda>a b. established b \<and> \<not> established a) o1 n1 i"
    and "df_preserved c' = df_preserved c @ pairs_of (\<lambda>a b. same_status a b \<and> established a) o1 n1 i"
proof -
  consider (new) "map_of o1 i = None" | (removed) a where "map_of o1 i = Some a" "map_of n1 i = None"
    | (both) a b where "map_of o1 i = Some a" "map_of n1 i = Some b" "compare_claims c a b = Inr c'"
    using assms by (cases "map_of o1 i"; cases "map_of n1 i") (simp_all add: diff_step_def)
  then have "df_new c' = df_new c @ only_in n1 o1 i \<and> df_removed c' = df_removed c @ only_in o1 n1 i \<and>
    df_lost c' = df_lost c @ pairs_of (\<lambda>a b. established a \<and> \<not> established b) o1 n1 i \<and>
    df_gained c' = df_gained c @ pairs_of (\<lambda>a b. established b \<and> \<not> established a) o1 n1 i \<and>
    df_preserved c' = df_preserved c @ pairs_of (\<lambda>a b. same_status a b \<and> established a) o1 n1 i"
  proof cases
    case new
    with assms show ?thesis by (auto simp: diff_step_def only_in_def pairs_of_def split: option.splits)
  next
    case removed
    with assms show ?thesis by (auto simp: diff_step_def only_in_def pairs_of_def)
  next
    case both
    from compare_claims_fields [OF both(3)] both(1,2) show ?thesis by (simp add: only_in_def pairs_of_def)
  qed
  then show "df_new c' = df_new c @ only_in n1 o1 i" "df_removed c' = df_removed c @ only_in o1 n1 i"
    and "df_lost c' = df_lost c @ pairs_of (\<lambda>a b. established a \<and> \<not> established b) o1 n1 i"
    and "df_gained c' = df_gained c @ pairs_of (\<lambda>a b. established b \<and> \<not> established a) o1 n1 i"
    and "df_preserved c' = df_preserved c @ pairs_of (\<lambda>a b. same_status a b \<and> established a) o1 n1 i"
    by blast+
qed

lemma diff_loop:
  "foldM (diff_step o1 n1) c is = Inr c' \<Longrightarrow>
   df_new c' = df_new c @ concat (map (only_in n1 o1) is) \<and> df_removed c' = df_removed c @ concat (map (only_in o1 n1) is) \<and>
   df_lost c' = df_lost c @ concat (map (pairs_of (\<lambda>a b. established a \<and> \<not> established b) o1 n1) is) \<and>
   df_gained c' = df_gained c @ concat (map (pairs_of (\<lambda>a b. established b \<and> \<not> established a) o1 n1) is) \<and>
   df_preserved c' = df_preserved c @ concat (map (pairs_of (\<lambda>a b. same_status a b \<and> established a) o1 n1) is)"
proof (induction "is" arbitrary: c)
  case (Cons i "is")
  from Cons.prems obtain c1 where step: "diff_step o1 n1 c i = Inr c1" and rest: "foldM (diff_step o1 n1) c1 is = Inr c'"
    by (auto simp: res_simps)
  show ?case using Cons.IH [OF rest] diff_step_fields [OF step] by (simp only: list.map concat.simps append_assoc)
qed simp

lemma diff_loop_fields:
  assumes "foldM (diff_step o1 n1) c is = Inr c'"
  shows "df_new c' = df_new c @ concat (map (only_in n1 o1) is)" "df_removed c' = df_removed c @ concat (map (only_in o1 n1) is)"
    and "df_lost c' = df_lost c @ concat (map (pairs_of (\<lambda>a b. established a \<and> \<not> established b) o1 n1) is)"
    and "df_gained c' = df_gained c @ concat (map (pairs_of (\<lambda>a b. established b \<and> \<not> established a) o1 n1) is)"
    and "df_preserved c' = df_preserved c @ concat (map (pairs_of (\<lambda>a b. same_status a b \<and> established a) o1 n1) is)"
  using diff_loop [OF assms] by blast+

lemma in_pairs_of: "(a, b) \<in> set (pairs_of p o1 n1 i) \<longleftrightarrow> map_of o1 i = Some a \<and> map_of n1 i = Some b \<and> p a b"
  by (auto simp: pairs_of_def split: option.splits)

lemma in_only_in: "a \<in> set (only_in m1 m2 i) \<longleftrightarrow> map_of m1 i = Some a \<and> map_of m2 i = None"
  by (auto simp: only_in_def split: option.splits)

lemma set_pairs_of:
  assumes "\<And>i a. map_of o1 i = Some a \<Longrightarrow> i \<in> set is"
  shows "set (concat (map (pairs_of p o1 n1) is)) = {(a, b). \<exists>i. map_of o1 i = Some a \<and> map_of n1 i = Some b \<and> p a b}"
proof (intro set_eqI, clarify)
  fix a b
  show "(a, b) \<in> set (concat (map (pairs_of p o1 n1) is)) \<longleftrightarrow>
    (a, b) \<in> {(a, b). \<exists>i. map_of o1 i = Some a \<and> map_of n1 i = Some b \<and> p a b}"
    using assms [of _ a] by (simp add: in_pairs_of) blast
qed

lemma set_only_in:
  assumes "\<And>i a. map_of m1 i = Some a \<Longrightarrow> i \<in> set is"
  shows "set (concat (map (only_in m1 m2) is)) = {a. \<exists>i. map_of m1 i = Some a \<and> map_of m2 i = None}"
proof (rule set_eqI)
  fix a
  show "a \<in> set (concat (map (only_in m1 m2) is)) \<longleftrightarrow> a \<in> {a. \<exists>i. map_of m1 i = Some a \<and> map_of m2 i = None}"
    using assms [of _ a] by (simp add: in_only_in) blast
qed

text \<open>
  The comparison of two reports is exact about what both of them select. A selected claim of one
  report only is new or removed; a claim of both is lost exactly when it was established and is not any
  more, gained in the opposite case, preserved when it is established with the same status. The command
  fails exactly when a claim was lost, so an established claim that the newer report does not select,
  or does not have at all, does not make it fail.
\<close>

theorem diff_exact:
  assumes "diff_reports old new = Inr c" and "claim_table old = Inr o1" and "claim_table new = Inr n1"
  shows "set (df_new c) = {b. \<exists>i. map_of n1 i = Some b \<and> map_of o1 i = None} \<and>
    set (df_removed c) = {a. \<exists>i. map_of o1 i = Some a \<and> map_of n1 i = None} \<and>
    set (df_lost c) = {(a, b). \<exists>i. map_of o1 i = Some a \<and> map_of n1 i = Some b \<and> established a \<and> \<not> established b} \<and>
    set (df_gained c) = {(a, b). \<exists>i. map_of o1 i = Some a \<and> map_of n1 i = Some b \<and> established b \<and> \<not> established a} \<and>
    set (df_preserved c) = {(a, b). \<exists>i. map_of o1 i = Some a \<and> map_of n1 i = Some b \<and> same_status a b \<and> established a} \<and>
    (diff_exit c = 1 \<longleftrightarrow> (\<exists>i a b. map_of o1 i = Some a \<and> map_of n1 i = Some b \<and> established a \<and> \<not> established b)) \<and>
    (diff_exit c = 0 \<or> diff_exit c = 1)"
proof -
  let ?is = "sorted_set (map fst o1 @ map fst n1)"
  from assms obtain oa na where loop: "foldM (diff_step o1 n1)
      \<lparr>df_new = [], df_removed = [], df_preserved = [], df_lost = [], df_gained = [], df_changed = [],
       df_assumptions = changed_assumptions oa na\<rparr> ?is = Inr c"
    by (auto simp: diff_reports_def res_simps)
  have o1: "i \<in> set ?is" if "map_of o1 i = Some a" for i a using map_of_SomeD [OF that] by (force simp: image_iff)
  have n1: "i \<in> set ?is" if "map_of n1 i = Some a" for i a using map_of_SomeD [OF that] by (force simp: image_iff)
  note F = diff_loop_fields [OF loop] and P = set_pairs_of [of o1 ?is, OF o1] and O = set_only_in [of _ ?is, OF o1] set_only_in [of _ ?is, OF n1]
  have lost: "set (df_lost c) = {(a, b). \<exists>i. map_of o1 i = Some a \<and> map_of n1 i = Some b \<and> established a \<and> \<not> established b}"
    unfolding F(3) changes.simps append_Nil by (rule P)
  moreover have "set (df_gained c) = {(a, b). \<exists>i. map_of o1 i = Some a \<and> map_of n1 i = Some b \<and> established b \<and> \<not> established a}"
    unfolding F(4) changes.simps append_Nil by (rule P)
  moreover have "set (df_preserved c) = {(a, b). \<exists>i. map_of o1 i = Some a \<and> map_of n1 i = Some b \<and> same_status a b \<and> established a}"
    unfolding F(5) changes.simps append_Nil by (rule P)
  moreover have "set (df_new c) = {b. \<exists>i. map_of n1 i = Some b \<and> map_of o1 i = None}"
    unfolding F(1) changes.simps append_Nil by (rule O(2))
  moreover have "set (df_removed c) = {a. \<exists>i. map_of o1 i = Some a \<and> map_of n1 i = None}"
    unfolding F(2) changes.simps append_Nil by (rule O(1))
  moreover have "diff_exit c = 1 \<longleftrightarrow> set (df_lost c) \<noteq> {}" by (simp add: diff_exit_def)
  moreover have "diff_exit c = 0 \<or> diff_exit c = 1" by (simp add: diff_exit_def)
  ultimately show ?thesis unfolding lost by blast
qed

definition report_row :: "string \<Rightarrow> string \<Rightarrow> bool \<Rightarrow> json" where
  "report_row i s sel = JObj [(''id'', JStr i), (''status'', JStr s), (''selected'', JBool sel)]"

definition old_report :: dict where
  "old_report = [(''claims'', JList [report_row ''C1'' ''PROVED'' True, report_row ''C2'' ''PROVED'' True])]"

definition new_report :: dict where
  "new_report = [(''claims'', JList [report_row ''C1'' ''REFUTED'' True, report_row ''C2'' ''NOT_SELECTED'' False])]"

lemma diff_exact_witness:
  "\<exists>c. diff_reports old_report new_report = Inr c \<and> diff_exit c = 1 \<and>
     (\<exists>a. a \<in> set (df_removed c) \<and> established a)"
proof -
  have o1: "claim_table old_report = Inr [(''C1'', [(''id'', JStr ''C1''), (''status'', JStr ''PROVED''), (''selected'', JBool True)]),
      (''C2'', [(''id'', JStr ''C2''), (''status'', JStr ''PROVED''), (''selected'', JBool True)])]" by code_simp
  have n1: "claim_table new_report = Inr [(''C1'', [(''id'', JStr ''C1''), (''status'', JStr ''REFUTED''), (''selected'', JBool True)])]"
    by code_simp
  have "\<not> isl (diff_reports old_report new_report)" by code_simp
  then obtain c where c: "diff_reports old_report new_report = Inr c" by (cases "diff_reports old_report new_report") auto
  note D = diff_exact [OF c o1 n1]
  let ?b = "[(''id'', JStr ''C2''), (''status'', JStr ''PROVED''), (''selected'', JBool True)]"
  have "?b \<in> set (df_removed c)" using D by auto
  moreover have "established ?b" by (simp add: established_def HELD_def dget_def)
  moreover have "diff_exit c = 1" using D by (auto simp: established_def HELD_def dget_def)
  ultimately show ?thesis using c by blast
qed

lemma label_entry_supports:
  assumes "label_entry e = Inr lab"
  shows "(truthy (dget e ''forced'' JNull) \<longrightarrow> lab = [(''kind'', JStr ''forced'')]) \<and>
    (\<exists>out. py_or (dget e ''outcome'' JNull) (JObj []) = JObj out \<and> supports (dget lab ''kind'' JNull) out)"
proof -
  from assms obtain task out where out: "py_or (dget e ''outcome'' JNull) (JObj []) = JObj out"
    and lab: "(if truthy (dget e ''forced'' JNull) then Inr [(''kind'', JStr ''forced'')]
      else label_by_task task out (dget e ''chosen'' JNull)) = Inr lab"
    by (auto simp: label_entry_def res_simps split: json.splits)
  show ?thesis
  proof (cases "truthy (dget e ''forced'' JNull)")
    case True
    with lab have "lab = [(''kind'', JStr ''forced'')]" by simp
    then show ?thesis using out by (auto simp: supports_def)
  next
    case False
    with lab have "label_by_task task out (dget e ''chosen'' JNull) = Inr lab" by simp
    then have "supports (dget lab ''kind'' JNull) out" using label_by_task_supports unfolding label_sound_def by blast
    with False out show ?thesis by blast
  qed
qed



text \<open>
  A repair whose verification only ran out of time is labeled wrong: for a \<open>REPAIR_SELECTION\<close> any
  status of the repaired claim that is not an established one counts against the chosen repair, a
  timeout or an unsupported claim as much as a refutation.
\<close>

theorem timeout_labeled_wrong:
  "label_entry [(''task'', JStr ''REPAIR_SELECTION''), (''chosen'', JStr repair_id), (''outcome'', JObj [(''repair_status'', JStr ''TIMEOUT'')])] =
     Inr (kind_label ''negative'' (JStr repair_id)) \<and>
   label_entry [(''task'', JStr ''COUNTEREXAMPLE_CLASSIFICATION''), (''chosen'', JStr c), (''outcome'', JObj [(''repair_status'', JStr ''TIMEOUT'')])] =
     Inr (unlabeled ''intent-dependent; needs a human label'')"
  by (simp add: label_entry_def label_by_task_def label_repair_def label_counterexample_def Let_def dget_def ditem_def py_or_def HELD_def)

section \<open>Temperatures\<close>

lemma mapM_total: "(\<And>x. x \<in> set xs \<Longrightarrow> \<exists>y. f x = Inr y) \<Longrightarrow> \<exists>ys. mapM f xs = Inr ys"
proof (induction xs)
  case (Cons x xs)
  have "\<exists>ys. mapM f xs = Inr ys" by (rule Cons.IH) (rule Cons.prems, simp)
  moreover have "\<exists>y. f x = Inr y" by (rule Cons.prems) simp
  ultimately show ?case by auto
qed simp

lemma first_greatest_unique:
  assumes "argmax n ps = Inr i" and "argmax n qs = Inr k" and "\<And>a b. a < n \<Longrightarrow> b < n \<Longrightarrow> ps ! a \<le> ps ! b \<longleftrightarrow> qs ! a \<le> qs ! b"
  shows "i = k"
proof (rule ccontr)
  note P = argmax_spec [OF assms(1)] and Q = argmax_spec [OF assms(2)]
  assume "i \<noteq> k"
  then consider "i < k" | "k < i" by linarith
  then show False
  proof cases
    case 1
    then have "qs ! i < qs ! k" by (rule Q(4))
    moreover have "qs ! k \<le> qs ! i" using assms(3) [of k i] P(1,3) Q(1) by blast
    ultimately show False by simp
  next
    case 2
    then have "ps ! k < ps ! i" by (rule P(4))
    moreover have "ps ! i \<le> ps ! k" using assms(3) [of i k] P(1) Q(1,3) by blast
    ultimately show False by simp
  qed
qed

lemma fitted_positive:
  assumes "fit_temperatures rows = Inr fs" and "(task, t, n) \<in> set fs"
  shows "t \<in> set grid \<and> 0 < t \<and> 5 \<le> n"
proof -
  from assms obtain m xs where xs: "mapM fit_task m = Inr xs" and mem: "(task, t, n) \<in> set (concat xs)"
    by (auto simp: fit_temperatures_def res_simps)
  then obtain ys where ys: "ys \<in> set xs" "(task, t, n) \<in> set ys" by auto
  from mapM_source [OF xs ys(1)] obtain tr where "fit_task tr = Inr ys" by blast
  then obtain losses i where i: "argmax (length grid) (map uminus losses) = Inr i" and t: "t = grid ! i" and n: "5 \<le> n"
    using ys(2) by (cases tr) (auto simp: fit_task_def res_simps split: if_split_asm)
  have "t \<in> set grid" unfolding t by (rule nth_mem) (rule argmax_spec(1) [OF i])
  moreover have "0 < x" if "x \<in> set grid" for x using that by (auto simp: grid_def)
  ultimately show ?thesis using n by blast
qed

text \<open>The judge with fitted temperatures.\<close>

definition calibrated :: "(string \<times> real \<times> nat) list \<Rightarrow> judge \<Rightarrow> judge" where
  "calibrated fs j = j\<lparr>jg_temperature := map (\<lambda>(task, t, n). (task, t)) fs\<rparr>"

lemma calibrated_temperature:
  assumes "fit_temperatures rows = Inr fs"
  shows "0 < lookup (jg_temperature (calibrated fs j)) task 1"
proof (cases "map_of (map (\<lambda>(task, t, n). (task, t)) fs) task")
  case (Some t)
  then obtain n where "(task, t, n) \<in> set fs" by (auto dest!: map_of_SomeD)
  from fitted_positive [OF assms this] Some show ?thesis by (simp add: lookup_def calibrated_def)
qed (simp add: lookup_def calibrated_def)

text \<open>
  Calibration never changes a decision: with the temperatures fitted from any rows the judge
  chooses, for every question and all scores, the option it chooses without temperatures; only the
  probabilities differ. Each fitted temperature is one of the forty of the grid.
\<close>

theorem calibration_keeps_choices:
  assumes "fit_temperatures rows = Inr fs" and "jg_temperature j = []" and "scored_decision task j row s = Inr d"
    and "length (sc_ids s) = length (sc_logits s)"
  shows "\<exists>d'. scored_decision task (calibrated fs j) row s = Inr d' \<and> d_chosen d' = d_chosen d \<and> d_options d' = d_options d \<and>
    (\<forall>(task, t, n) \<in> set fs. t \<in> set grid)"
proof -
  let ?t = "lookup (jg_temperature (calibrated fs j)) task 1" and ?vs = "sc_logits s"
  have t: "0 < ?t" by (rule calibrated_temperature [OF assms(1)])
  have "lookup (jg_temperature j) task 1 = 1" by (simp add: assms(2) lookup_def)
  then obtain ps i where ps: "softmax ?vs 1 = Inr ps" and i: "argmax (length (sc_ids s)) ps = Inr i" and d: "d_chosen d = sc_ids s ! i"
    and opts: "d_options d = sc_ids s"
    using assms(3) by (auto simp: scored_decision_def Let_def res_simps)
  have vs: "?vs \<noteq> []" using ps by (auto simp: softmax_def)
  then obtain qs where qs: "softmax ?vs ?t = Inr qs" using t by (auto simp: softmax_def Let_def)
  have len: "length qs = length (sc_ids s)" using softmax_distribution(1) [OF qs] assms(4) by simp
  then obtain k where k: "argmax (length (sc_ids s)) qs = Inr k"
    using vs assms(4) by (auto simp: argmax_def)
  have "ps ! a \<le> ps ! b \<longleftrightarrow> qs ! a \<le> qs ! b" if "a < length (sc_ids s)" "b < length (sc_ids s)" for a b
    using softmax_distribution(5) [OF ps, of a b] softmax_distribution(5) [OF qs, of a b] that t assms(4) by (simp add: divide_le_cancel)
  from first_greatest_unique [OF i k this] have "i = k" .
  then obtain d' where "scored_decision task (calibrated fs j) row s = Inr d'" "d_chosen d' = d_chosen d" "d_options d' = d_options d"
    by (simp add: scored_decision_def Let_def qs k d opts)
  moreover have "\<forall>(task, t, n) \<in> set fs. t \<in> set grid" using fitted_positive [OF assms(1)] by blast
  ultimately show ?thesis by blast
qed

definition bench_row :: dict where
  "bench_row = [(''task'', JStr ''T''), (''option_logits'', JList [JInt 1]), (''options'', JList [JObj [(''id'', JStr ''a'')]]),
     (''backend'', JStr ''semif''), (''label'', JObj [(''kind'', JStr ''single''), (''label'', JStr ''a'')])]"

lemma fitted_bench_rows: "\<exists>t. fit_temperatures (replicate 5 (JObj bench_row)) = Inr [(''T'', t, 5)]"
proof -
  have table: "foldM add_row [] (replicate 5 (JObj bench_row)) = Inr [(''T'', replicate 5 bench_row)]" by code_simp
  have "logits_of bench_row = Inr [1]" by (simp add: logits_of_def bench_row_def ditem_def number_of_def)
  moreover have "option_ids bench_row = Inr [JStr ''a'']" "wanted_labels bench_row = Inr [JStr ''a'']" by code_simp+
  ultimately have loss: "\<exists>x. row_loss t bench_row = Inr x" for t
    by (simp add: row_loss_def index_in_def py_mem_def Let_def)
  have "\<exists>x. nll (replicate 5 bench_row) t = Inr x" for t
  proof -
    have "\<exists>ys. mapM (row_loss t) (replicate 5 bench_row) = Inr ys"
      by (rule mapM_total) (simp only: in_set_replicate loss)
    then show ?thesis unfolding nll_def by (elim exE) simp
  qed
  then obtain ls where ls: "mapM (nll (replicate 5 bench_row)) grid = Inr ls"
    using mapM_total [of grid "nll (replicate 5 bench_row)"] by blast
  then have "length ls = length grid" by (simp add: mapM_eq_Inr list_all2_lengthD)
  then obtain k where k: "argmax (length grid) (map uminus ls) = Inr k"
    by (simp add: argmax_def grid_def)
  from table ls k show ?thesis by (simp add: fit_temperatures_def fit_task_def)
qed

lemma calibration_keeps_choices_witness:
  "\<exists>fs d. fit_temperatures (replicate 5 (JObj bench_row)) = Inr fs \<and> fs \<noteq> [] \<and>
     scored_decision ''T'' (calibrated fs demo_judge) (jrow ''r'' JNull [] [(''a'', ''b'')] [] JNull)
       \<lparr>sc_ids = [''a''], sc_logits = [0], sc_probabilities = [1], sc_prompt = JNull, sc_miss = False\<rparr> = Inr d \<and> d_chosen d = ''a''"
proof -
  let ?row = "jrow ''r'' JNull [] [(''a'', ''b'')] [] JNull"
  let ?s = "\<lparr>sc_ids = [''a''], sc_logits = [0], sc_probabilities = [1], sc_prompt = JNull, sc_miss = False\<rparr>"
  obtain u where fs: "fit_temperatures (replicate 5 (JObj bench_row)) = Inr [(''T'', u, 5)]" using fitted_bench_rows ..
  have t: "jg_temperature demo_judge = []" by (simp add: demo_judge_def make_judge_def)
  obtain d where d: "scored_decision ''T'' demo_judge ?row ?s = Inr d" and "d_chosen d = ''a''"
    by (simp add: scored_decision_def Let_def t lookup_def softmax_def argmax_def)
  with calibration_keeps_choices [OF fs t d] fs show ?thesis by auto
qed

end
