(* ===== verification/WriteBack.thy ===== *)
theory WriteBack
  imports ProverLoop
begin

text \<open>
  \<open>autoform formalize prove\<close>, \<open>prove_main\<close> of \<open>src/src/autoform/harness/cli.py\<close>: what becomes of a
  Lean file when proofs for its jobs were accepted. The arguments, the messages and the file of results
  are left out.
\<close>

section \<open>Replacing a proof\<close>

text \<open>\<open>re.search(r'\\n(?=\\S)', rest)\<close> and what follows the line break; nothing when there is none.\<close>

fun next_decl :: "utext \<Rightarrow> utext" where
  "next_decl [] = []"
| "next_decl [c] = []"
| "next_decl (c # d # s) = (if c = 10 \<and> \<not> space_code d then d # s else next_decl (d # s))"

text \<open>The declaration with the new proof, as it is written.\<close>

definition proved_decl :: "job \<Rightarrow> utext \<Rightarrow> utext \<Rightarrow> utext" where
  "proved_decl j helpers proof_of =
     helper_text helpers @ rstrip_text (job_statement j) @ codes '' :='' @ [10] @ strip_text proof_of"

definition write_proof :: "utext \<Rightarrow> job \<times> result \<Rightarrow> utext res" where
  "write_proof source = (\<lambda>(j, r).
     if job_statement j = [] then Inl (ValueError ''empty separator'')
     else (case split_first (job_statement j) source of
         None \<Rightarrow> Inl (ValueError ''unpack'')
       | Some (before, tail) \<Rightarrow>
           (case split_first (codes '':='') tail of
              None \<Rightarrow> Inl IndexError
            | Some (skipped, rest) \<Rightarrow>
                Inr (before @ proved_decl j (rs_helpers r) (rs_proof r) @ two_lines @ next_decl rest))))"

definition is_proved :: "result \<Rightarrow> bool" where
  "is_proved r \<longleftrightarrow> rs_status r = ''PROVED''"

definition write_proofs :: "bool \<Rightarrow> (job \<times> result) list \<Rightarrow> utext \<Rightarrow> utext res" where
  "write_proofs dry_run jrs source =
     foldM (\<lambda>src jr. if is_proved (snd jr) \<and> \<not> dry_run then write_proof src jr else Inr src) source jrs"

definition prove_exit :: "result list \<Rightarrow> nat" where
  "prove_exit rs = (if list_all is_proved rs then 0 else 1)"

section \<open>Lemmas\<close>

text \<open>No line but the first starts in the first column.\<close>

fun indented :: "utext \<Rightarrow> bool" where
  "indented [] \<longleftrightarrow> True"
| "indented [c] \<longleftrightarrow> True"
| "indented (c # d # s) \<longleftrightarrow> (c = 10 \<longrightarrow> space_code d) \<and> indented (d # s)"

lemma next_decl_indented:
  "indented old \<Longrightarrow> old \<noteq> [] \<Longrightarrow> last old = 10 \<Longrightarrow> (case rest of [] \<Rightarrow> True | c # s \<Rightarrow> \<not> space_code c) \<Longrightarrow> next_decl (old @ rest) = rest"
  by (induction old rule: indented.induct) (auto split: list.splits if_splits)

lemma split_first_here: "split_first p (p @ s) = Some ([], s)"
  by (subst split_first.simps) simp

section \<open>Properties\<close>

text \<open>
  C26. Writing a proof back. When the statement of a job does not occur in the file before its own
  declaration, and the old proof ends before the next line that starts in the first column, then the
  written file is the old one with exactly this declaration replaced, and the text of the new
  declaration is the one which the prover gave to Lean. A dry run writes nothing.
\<close>

theorem write_back_exact:
  assumes "j \<in> set (jobs_from_file wide names source)" and "job_statement j \<noteq> []"
    and "split_first (job_statement j) source = Some (job_prefix j, tail)"
    and "tail = codes '':='' @ old @ rest" and "indented old" and "old \<noteq> []" and "last old = 10"
    and "case rest of [] \<Rightarrow> True | c # s \<Rightarrow> \<not> space_code c" and "is_proved r"
  shows "source = job_prefix j @ job_statement j @ codes '':='' @ old @ rest \<and>
    write_proofs False [(j, r)] source = Inr (job_prefix j @ proved_decl j (rs_helpers r) (rs_proof r) @ two_lines @ rest) \<and>
    file_text j (rs_proof r) (rs_helpers r) =
      rstrip_text (job_prefix j) @ two_lines @ proved_decl j (rs_helpers r) (rs_proof r) @ [10] \<and>
    write_proofs True [(j, r)] source = Inr source"
proof -
  have "job_suffix j = []" using job_pieces [OF assms(1)] by blast
  then have "file_text j (rs_proof r) (rs_helpers r) =
      rstrip_text (job_prefix j) @ two_lines @ proved_decl j (rs_helpers r) (rs_proof r) @ [10]"
    by (simp add: file_text_def proved_decl_def)
  moreover have "source = job_prefix j @ job_statement j @ codes '':='' @ old @ rest"
    using split_first_parts [OF assms(3)] assms(4) by simp
  moreover have "next_decl (old @ rest) = rest" by (rule next_decl_indented) fact+
  then have "write_proof source (j, r) = Inr (job_prefix j @ proved_decl j (rs_helpers r) (rs_proof r) @ two_lines @ rest)"
    using assms(2) by (simp add: write_proof_def assms(3,4) split_first_here)
  ultimately show ?thesis using assms(9) by (simp add: write_proofs_def)
qed

definition open_hole :: utext where
  "open_hole = codes (''so'' @ ''rry'')"

definition small_file :: utext where
  "small_file = codes ''theorem t : p :='' @ [10] @ codes ''  '' @ open_hole @ two_lines @ codes ''def d := 1'' @ [10]"

definition small_job :: job where
  "small_job = \<lparr>job_name = codes ''t'', job_prefix = [], job_statement = codes ''theorem t : p '', job_blueprint = [], job_suffix = []\<rparr>"

definition small_result :: result where
  "small_result = \<lparr>rs_name = codes ''t'', rs_status = ''PROVED'', rs_proof = codes ''  by simp'', rs_helpers = [], rs_reason = [], rs_axioms = [],
     rs_cost = 0, rs_certificate = None, rs_certificate_sha = None, rs_cached = False, rs_restored = [], rs_untracked = [],
     rs_transcripts = []\<rparr>"

lemma write_back_exact_witness:
  "small_job \<in> set (jobs_from_file (\<lambda>c. False) [] small_file) \<and>
   write_proofs False [(small_job, small_result)] small_file =
     Inr (codes ''theorem t : p :='' @ [10] @ codes ''by simp'' @ two_lines @ codes ''def d := 1'' @ [10])"
proof -
  let ?old = "[10] @ codes ''  '' @ open_hole @ two_lines" and ?rest = "codes ''def d := 1'' @ [10]"
  have job: "small_job \<in> set (jobs_from_file (\<lambda>c. False) [] small_file)" by code_simp
  have split: "split_first (job_statement small_job) small_file = Some (job_prefix small_job, codes '':='' @ ?old @ ?rest)" by code_simp
  have old: "indented ?old" "?old \<noteq> []" "last ?old = 10" by code_simp+
  have rest: "case ?rest of [] \<Rightarrow> True | c # s \<Rightarrow> \<not> space_code c" by code_simp
  have st: "job_statement small_job \<noteq> []" "is_proved small_result" by code_simp+
  have decl: "proved_decl small_job (rs_helpers small_result) (rs_proof small_result) = codes ''theorem t : p :='' @ [10] @ codes ''by simp''"
    by code_simp
  have "job_prefix small_job = []" by code_simp
  with write_back_exact [OF job st(1) split refl old rest st(2)] job show ?thesis by (simp add: decl)
qed


end
