(* ===== verification/ProveOpen.thy ===== *)
theory ProveOpen
  imports HarnessRun ProverLoop
begin

text \<open>
  \<open>prove_open\<close> of \<open>src/src/autoform/harness/pipeline.py\<close>: claims that were established only on their
  finite domain, or not decided, become jobs of the proving agent, and an accepted proof makes the
  claim proved. The run of the prover over all jobs is a parameter, as is the path of
  a certificate; the full results are returned instead of copied into the records.
\<close>

section \<open>Texts\<close>

text \<open>The code points of a text with glyphs, and of a text in UTF-8.\<close>

fun glyph_code :: "glyph \<Rightarrow> int" where
  "glyph_code (Ch c) = of_char c"
| "glyph_code Neq = 8800"
| "glyph_code Le = 8804"
| "glyph_code Ge = 8805"
| "glyph_code Wedge = 8743"
| "glyph_code Vee = 8744"
| "glyph_code Neg = 172"
| "glyph_code To = 8594"
| "glyph_code Iff = 8596"
| "glyph_code All = 8704"
| "glyph_code Gets = 8592"
| "glyph_code Dots = 8230"

definition following :: "int \<Rightarrow> nat" where
  "following b = (if b < 192 then 0 else if b < 224 then 1 else if b < 240 then 2 else 3)"

definition lead_bits :: "int \<Rightarrow> int" where
  "lead_bits b = (if b < 192 then b else if b < 224 then b - 192 else if b < 240 then b - 224 else b - 240)"

function utf8_codes :: "string \<Rightarrow> utext" where
  "utf8_codes [] = []"
| "utf8_codes (c # s) =
     (let n = following (of_char c)
      in foldl (\<lambda>v d. v * 64 + of_char d mod 64) (lead_bits (of_char c)) (List.take n s) # utf8_codes (drop n s))"
  by pat_completeness auto
termination
  by (relation "measure length") auto

section \<open>Jobs of the open claims\<close>

record prove_setup =
  po_run :: "job list \<Rightarrow> result list"
  po_path :: "result \<Rightarrow> string"

definition is_open_claim :: "crec \<Rightarrow> bool res" where
  "is_open_claim rec =
     (if \<not> cr_selected rec then Inr False
      else
        rbind (ditem (ac_claim (cr_claim rec)) ''structural'') (\<lambda>st.
          let r = cr_result rec in
          Inr (\<not> truthy st \<and> dget r ''backend'' JNull = JStr ''lean-kernel'' \<and>
            dget r ''status'' JNull \<in> {JStr ''BOUNDED_PROVED'', JStr ''UNKNOWN''} \<and> \<not> truthy (dget r ''witness'' JNull))))"

definition universal_name :: "obligation \<Rightarrow> string" where
  "universal_name ob = ''universal_'' @ o_tag ob"

definition universal_statement :: "obligation \<Rightarrow> lean \<Rightarrow> utext" where
  "universal_statement ob p = codes ''theorem '' @ codes (universal_name ob) @ codes '' : '' @ map glyph_code p"

definition size_text :: "json \<Rightarrow> string res" where
  "size_text v = (case v of JInt n \<Rightarrow> Inr (dec_int n) | _ \<Rightarrow> if v = JNull then Inl TypeError else Inl Unmodelled)"

definition blueprint_text :: "string \<Rightarrow> dict \<Rightarrow> dict \<Rightarrow> string \<Rightarrow> utext res" where
  "blueprint_text shown claim r body =
     rbind (text_of (py_or (dget claim ''description'' JNull) (JStr []))) (\<lambda>descr.
     rbind (if dget r ''status'' JNull = JStr ''BOUNDED_PROVED'' then
              rbind (size_text (dget r ''domain_size'' (JInt 0))) (\<lambda>n.
                Inr (newline @ ''The kernel already checked it on '' @ n @ '' domain points.''))
            else Inr []) (\<lambda>checked.
       Inr (utf8_codes (shown @ newline @ descr @ newline @ ''Source:'' @ newline) @ List.take 1500 (utf8_codes body) @ codes checked)))"

text \<open>A job with its name and the claim it belongs to.\<close>

definition job_for :: "config \<Rightarrow> prove_setup \<Rightarrow> harness \<Rightarrow> string \<Rightarrow> crec \<Rightarrow> (job \<times> string \<times> string) res" where
  "job_for su po h cid rec =
     (let claim = ac_claim (cr_claim rec) in
      rbind (case by_id (su_program su) (cr_function rec) of None \<Rightarrow> Inl KeyError | Some f \<Rightarrow> Inr f) (\<lambda>fn.
      rbind (make_obligation claim fn (pr_module (su_program su)) (su_fuel su) []) (\<lambda>ob.
      rbind (render_claim claim (su_program su)) (\<lambda>shown.
      rbind (case map_of (h_contexts h) (f_id fn) of None \<Rightarrow> Inl KeyError | Some c \<Rightarrow> Inr c) (\<lambda>ctx.
      rbind (blueprint_text shown claim (cr_result rec) (cx_body ctx)) (\<lambda>blueprint.
      rbind (prop_text ob) (\<lambda>p.
        Inr (\<lparr>job_name = codes (universal_name ob), job_prefix = map glyph_code (header_text (pr_module (su_program su))), job_statement = universal_statement ob p,
              job_blueprint = blueprint, job_suffix = []\<rparr>,
             universal_name ob, cid))))))))"

definition open_job :: "config \<Rightarrow> prove_setup \<Rightarrow> harness \<Rightarrow> string \<times> crec \<Rightarrow> (job \<times> string \<times> string) list res" where
  "open_job su po h = (\<lambda>(cid, rec).
     rbind (is_open_claim rec) (\<lambda>b. if b then rbind (job_for su po h cid rec) (\<lambda>j. Inr [j]) else Inr []))"

definition open_jobs :: "config \<Rightarrow> prove_setup \<Rightarrow> (job \<times> string \<times> string) list hm" where
  "open_jobs su po = (\<lambda>h. rbind (mapM (open_job su po h) (h_claims h)) (\<lambda>jss. Inr (concat jss, h)))"

section \<open>Storing the proofs\<close>

definition universal_result :: "prove_setup \<Rightarrow> result \<Rightarrow> string \<Rightarrow> dict \<Rightarrow> dict res" where
  "universal_result po res name r =
     rbind (case dget r ''theorems'' (JList []) of JList ts \<Rightarrow> Inr ts | _ \<Rightarrow> Inl TypeError) (\<lambda>ts.
       Inr (dupdate r [(''status'', JStr ''PROVED''), (''universal_proof'', JBool True), (''proved_by'', JStr ''prover-agent''),
         (''lean_file'', JStr (po_path po res)),
         (''lean_file_sha256'', JStr (''sha256:'' @ (case rs_certificate_sha res of None \<Rightarrow> [] | Some s \<Rightarrow> s))),
         (''theorems'', JList (ts @ [JStr name]))]))"

definition store_proof :: "prove_setup \<Rightarrow> (utext \<times> string \<times> string) list \<Rightarrow> result \<Rightarrow> unit hm" where
  "store_proof po owners res =
     hbind (hlift (case map_of owners (rs_name res) of None \<Rightarrow> Inl KeyError | Some o1 \<Rightarrow> Inr o1)) (\<lambda>(name, cid).
     hbind (rec_of cid) (\<lambda>rec.
       if rs_status res = ''PROVED'' then
         hbind (hlift (universal_result po res name (cr_result rec))) (\<lambda>r. put_rec cid (set_result r rec))
       else hret ()))"

definition owners_of :: "(job \<times> string \<times> string) list \<Rightarrow> (utext \<times> string \<times> string) list" where
  "owners_of jobs = foldl (\<lambda>m (j, o1). AList.update (job_name j) o1 m) [] jobs"

definition prove_open :: "config \<Rightarrow> prove_setup \<Rightarrow> result list hm" where
  "prove_open su po =
     hbind (open_jobs su po) (\<lambda>jobs.
       if jobs = [] then hret []
       else
         let rs = po_run po (map fst jobs) in
         hbind (hmap (store_proof po (owners_of jobs)) rs) (\<lambda>us. hret rs))"

section \<open>What a stored proof rests on\<close>

lemma open_job_cases:
  assumes "open_job su po h (cid, rec) = Inr js" and "(j, name, c) \<in> set js"
  shows "c = cid \<and> is_open_claim rec = Inr True \<and> (\<exists>fn ob p.
    by_id (su_program su) (cr_function rec) = Some fn \<and>
    make_obligation (ac_claim (cr_claim rec)) fn (pr_module (su_program su)) (su_fuel su) [] = Inr ob \<and> prop_text ob = Inr p \<and>
    name = universal_name ob \<and> job_name j = codes name \<and> job_statement j = universal_statement ob p \<and> job_prefix j = map glyph_code (header_text (pr_module (su_program su))))"
  using assms by (auto simp: open_job_def job_for_def Let_def res_simps split: option.splits if_splits)

lemma open_jobs_cases:
  assumes "open_jobs su po h = Inr (jobs, h')"
  shows "h' = h \<and> (\<forall>(j, name, cid) \<in> set jobs. \<exists>rec js. (cid, rec) \<in> set (h_claims h) \<and> open_job su po h (cid, rec) = Inr js \<and>
    (j, name, cid) \<in> set js)"
proof -
  obtain jss where jss: "mapM (open_job su po h) (h_claims h) = Inr jss" and jobs: "jobs = concat jss" and h': "h' = h"
    using assms by (auto simp: open_jobs_def res_simps)
  have "\<exists>rec js. (cid, rec) \<in> set (h_claims h) \<and> open_job su po h (cid, rec) = Inr js \<and> (j, name, cid) \<in> set js"
    if mem: "(j, name, cid) \<in> set jobs" for j name cid
  proof -
    from mem jobs obtain js where js: "js \<in> set jss" "(j, name, cid) \<in> set js" by auto
    from mapM_source [OF jss js(1)] obtain cid0 rec where r: "(cid0, rec) \<in> set (h_claims h)" "open_job su po h (cid0, rec) = Inr js"
      by auto
    with open_job_cases [OF r(2) js(2)] js(2) show ?thesis by blast
  qed
  with h' show ?thesis by blast
qed

lemma owners_of_member: "map_of (owners_of jobs) n = Some o1 \<Longrightarrow> \<exists>j. (j, o1) \<in> set jobs \<and> job_name j = n"
proof -
  have "map_of (foldl (\<lambda>m (j, o1). AList.update (job_name j) o1 m) m0 jobs) n = Some o1 \<Longrightarrow>
    map_of m0 n = Some o1 \<or> (\<exists>j. (j, o1) \<in> set jobs \<and> job_name j = n)" for m0
    by (induction jobs arbitrary: m0) (fastforce simp: update_conv' split: if_splits)+
  from this [of "[]"] show "map_of (owners_of jobs) n = Some o1 \<Longrightarrow> ?thesis" by (simp add: owners_of_def)
qed

lemma dget_dupdate_status: "dget (dupdate r ((''status'', v) # upd)) ''status'' d = v" if "''status'' \<notin> fst ` set upd"
proof -
  have "dget (foldl (\<lambda>m (k, v). dset k v m) m upd) ''status'' d = dget m ''status'' d" for m
    using that by (induction upd arbitrary: m) (auto simp: dget_update)
  then show ?thesis by (simp add: dupdate_def dget_update)
qed

text \<open>One result changes the record of its owner at most, and only when it is a proof.\<close>

definition stored_by :: "(utext \<times> string \<times> string) list \<Rightarrow> result list \<Rightarrow> string \<Rightarrow> crec \<Rightarrow> crec \<Rightarrow> bool" where
  "stored_by owners rs cid r0 r \<longleftrightarrow>
     cr_claim r = cr_claim r0 \<and> cr_function r = cr_function r0 \<and>
     (cr_result r = cr_result r0 \<or>
       (\<exists>res \<in> set rs. \<exists>name. rs_status res = ''PROVED'' \<and> map_of owners (rs_name res) = Some (name, cid)))"

lemma store_proof_step:
  assumes "store_proof po owners res h = Inr (u, h')" and "map_of (h_claims h') cid = Some r"
  shows "\<exists>r0. map_of (h_claims h) cid = Some r0 \<and> stored_by owners [res] cid r0 r"
proof -
  from assms(1) obtain name c rec where own: "map_of owners (rs_name res) = Some (name, c)"
    and rec: "map_of (h_claims h) c = Some rec"
    and eff: "(if rs_status res = ''PROVED'' then
        hbind (hlift (universal_result po res name (cr_result rec))) (\<lambda>r. put_rec c (set_result r rec)) else hret ()) h = Inr (u, h')"
    unfolding store_proof_def by (auto simp: hbind_bound hlift_def rec_of_def res_simps split: option.splits)
  show ?thesis
  proof (cases "rs_status res = ''PROVED''")
    case True
    with eff obtain d where h': "h' = h\<lparr>h_claims := AList.update c (set_result d rec) (h_claims h)\<rparr>"
      by (auto simp: hbind_bound hlift_def put_rec_def hmod_def res_simps)
    show ?thesis
    proof (cases "cid = c")
      case True
      with assms(2) h' have "r = set_result d rec" by (simp add: update_conv')
      then have "stored_by owners [res] cid rec r"
        using own \<open>rs_status res = ''PROVED''\<close> True by (simp add: stored_by_def set_result_def)
      with rec True show ?thesis by blast
    next
      case False
      with assms(2) h' show ?thesis by (simp add: update_conv' stored_by_def)
    qed
  next
    case False
    with eff assms(2) show ?thesis by (simp add: hret_def stored_by_def)
  qed
qed

lemma store_proofs_step:
  "hmap (store_proof po owners) rs h = Inr (us, h') \<Longrightarrow> map_of (h_claims h') cid = Some r \<Longrightarrow>
   \<exists>r0. map_of (h_claims h) cid = Some r0 \<and> stored_by owners rs cid r0 r"
proof (induction rs arbitrary: h us)
  case Nil
  then show ?case by (simp add: hret_def stored_by_def)
next
  case (Cons res rs)
  from Cons.prems(1) obtain u h1 us' where one: "store_proof po owners res h = Inr (u, h1)"
    and rest: "hmap (store_proof po owners) rs h1 = Inr (us', h')"
    by (auto simp: hbind_bound hret_def)
  from Cons.IH [OF rest Cons.prems(2)] obtain r1 where r1: "map_of (h_claims h1) cid = Some r1" "stored_by owners rs cid r1 r" by blast
  from store_proof_step [OF one r1(1)] obtain r0 where "map_of (h_claims h) cid = Some r0" "stored_by owners [res] cid r0 r1" by blast
  moreover from this(2) r1(2) have "stored_by owners (res # rs) cid r0 r" by (auto simp: stored_by_def)
  ultimately show ?case by blast
qed

lemma universal_name_id:
  assumes "make_obligation claim fn md fuel xs = Inr ob" and "id_of claim = Inr cid"
  shows "universal_name ob = ''universal_'' @ lower cid"
proof -
  obtain v where "ditem claim ''id'' = Inr v" "text_of v = Inr cid" using assms(2) by (auto simp: id_of_def res_simps)
  then have "claim_name claim = Inr cid" by (cases v) (simp_all add: text_of_def claim_name_def)
  then have "o_tag ob = lower cid" using assms(1) by (auto simp: make_obligation_def Let_def res_simps)
  then show ?thesis by (simp add: universal_name_def)
qed

lemma codes_inject: "codes a = codes b \<longleftrightarrow> a = b"
  by (simp add: codes_def inj_map_eq_map inj_on_def)

section \<open>Properties\<close>

text \<open>A result that \<open>prove\<close> gives for a job, from some cache, budget and number of attempts.\<close>

definition proves :: "prover \<Rightarrow> job \<Rightarrow> result \<Rightarrow> bool" where
  "proves pv j r \<longleftrightarrow> (\<exists>prompt tries cache budget cache' budget'. prove pv prompt j tries cache budget = (r, cache', budget'))"

text \<open>
  C28. A proof by the agent makes a claim proved only after the check of its own statement. When
  \<open>prove_open\<close> returns, a registered claim either has its old result, or the claim was open (selected,
  for Lean, established on its domain or unknown, without a witness), a job with the universal
  statement of exactly this claim was made, and one of the returned results is a proof of that job
  which Lean accepted on the original statement with standard axioms. The claims themselves stay.
\<close>

theorem universal_proofs_checked:
  assumes "prove_open su po h = Inr (rs, h')" and "map_of (h_claims h') cid = Some r"
    and "distinct (map fst (h_claims h))" and "inj_on lower (fst ` set (h_claims h))"
    and "\<forall>(i, rec) \<in> set (h_claims h). id_of (ac_claim (cr_claim rec)) = Inr i"
    and "\<And>jobs. list_all2 (proves pv) jobs (po_run po jobs)"
  shows "\<exists>r0. map_of (h_claims h) cid = Some r0 \<and> cr_claim r = cr_claim r0 \<and> cr_function r = cr_function r0 \<and>
    (cr_result r = cr_result r0 \<or>
      is_open_claim r0 = Inr True \<and>
      (\<exists>fn ob p j res. by_id (su_program su) (cr_function r0) = Some fn \<and>
        make_obligation (ac_claim (cr_claim r0)) fn (pr_module (su_program su)) (su_fuel su) [] = Inr ob \<and> prop_text ob = Inr p \<and>
        job_statement j = universal_statement ob p \<and> job_prefix j = map glyph_code (header_text (pr_module (su_program su))) \<and> job_name j = codes (universal_name ob) \<and>
        res \<in> set rs \<and> rs_status res = ''PROVED'' \<and>
        checked_by pv j (rs_proof res) (rs_helpers res) (rs_axioms res, file_text j (rs_proof res) (rs_helpers res))))"
proof -
  obtain jobs where jobs: "open_jobs su po h = Inr (jobs, h)"
    and store: "(jobs = [] \<and> rs = [] \<and> h' = h) \<or>
      (rs = po_run po (map fst jobs) \<and> (\<exists>us. hmap (store_proof po (owners_of jobs)) rs h = Inr (us, h')))"
    using assms(1) open_jobs_cases by (fastforce simp: prove_open_def hbind_bound hret_def Let_def split: if_split_asm)
  note J = open_jobs_cases [OF jobs, THEN conjunct2]
  from store obtain r0 where r0: "map_of (h_claims h) cid = Some r0" and st: "stored_by (owners_of jobs) rs cid r0 r"
    using assms(2) by (auto simp: stored_by_def dest: store_proofs_step)
  show ?thesis
  proof (cases "cr_result r = cr_result r0")
    case True
    with r0 st show ?thesis by (auto simp: stored_by_def)
  next
    case False
    with st obtain res name where res: "res \<in> set rs" "rs_status res = ''PROVED''"
      and own: "map_of (owners_of jobs) (rs_name res) = Some (name, cid)" by (auto simp: stored_by_def)
    with store have "list_all2 (proves pv) (map fst jobs) rs" using assms(6) by auto
    with res(1) obtain j1 where j1: "j1 \<in> fst ` set jobs" "proves pv j1 res"
      by (auto simp: list_all2_conv_all_nth in_set_conv_nth image_iff) (metis nth_mem)
    then obtain prompt tries cache budget cache' budget' where "prove pv prompt j1 tries cache budget = (res, cache', budget')"
      unfolding proves_def by blast
    from prove_checked [OF this res(2)] have checked: "checked_by pv j1 (rs_proof res) (rs_helpers res)
        (rs_axioms res, file_text j1 (rs_proof res) (rs_helpers res))" and n1: "rs_name res = job_name j1" by blast+
    from j1(1) obtain name1 cid1 where m1: "(j1, name1, cid1) \<in> set jobs" by auto
    from owners_of_member [OF own] obtain j2 where m2: "(j2, name, cid) \<in> set jobs" "job_name j2 = rs_name res" by blast
    from J m1 obtain rec1 js1 where rec1: "(cid1, rec1) \<in> set (h_claims h)" "open_job su po h (cid1, rec1) = Inr js1" "(j1, name1, cid1) \<in> set js1" by blast
    from J m2(1) obtain rec2 js2 where rec2: "(cid, rec2) \<in> set (h_claims h)" "open_job su po h (cid, rec2) = Inr js2" "(j2, name, cid) \<in> set js2" by blast
    obtain fn ob p where job: "is_open_claim rec1 = Inr True" "by_id (su_program su) (cr_function rec1) = Some fn"
      "make_obligation (ac_claim (cr_claim rec1)) fn (pr_module (su_program su)) (su_fuel su) [] = Inr ob" "prop_text ob = Inr p"
      "job_name j1 = codes (universal_name ob)" "job_statement j1 = universal_statement ob p" "job_prefix j1 = map glyph_code (header_text (pr_module (su_program su)))"
      using open_job_cases [OF rec1(2,3)] by blast
    obtain fn2 ob2 where job2: "make_obligation (ac_claim (cr_claim rec2)) fn2 (pr_module (su_program su)) (su_fuel su) [] = Inr ob2"
      "job_name j2 = codes (universal_name ob2)"
      using open_job_cases [OF rec2(2,3)] by blast
    have ids: "id_of (ac_claim (cr_claim rec1)) = Inr cid1" "id_of (ac_claim (cr_claim rec2)) = Inr cid"
      using assms(5) rec1(1) rec2(1) by blast+
    have "universal_name ob = universal_name ob2" using n1 m2(2) job(5) job2(2) by (simp add: codes_inject)
    then have "lower cid1 = lower cid" using universal_name_id [OF job(3) ids(1)] universal_name_id [OF job2(1) ids(2)] by simp
    moreover have "cid1 \<in> fst ` set (h_claims h)" "cid \<in> fst ` set (h_claims h)" using rec1(1) rec2(1) by force+
    ultimately have "cid1 = cid" using assms(4) by (simp add: inj_on_eq_iff)
    moreover have "map_of (h_claims h) cid1 = Some rec1" using assms(3) rec1(1) by (rule map_of_is_SomeI)
    ultimately have "rec1 = r0" using r0 by simp
    with r0 st job checked res show ?thesis unfolding stored_by_def by blast
  qed
qed

text \<open>A run in which an open claim of the program is proved: the prover finds a kept proof, and Lean reports no error.\<close>

definition open_claim :: dict where
  "open_claim = [(''id'', JStr ''C1''), (''scope'', JObj [(''kind'', JStr ''function''), (''target'', JStr ''F_0002'')]),
     (''structural'', JBool False), (''forall'', JList []), (''preconditions'', JList []),
     (''property'', JObj [(''op'', JStr ''RETURNS'')])]"

definition open_result :: dict where
  "open_result = [(''status'', JStr ''BOUNDED_PROVED''), (''backend'', JStr ''lean-kernel''), (''domain_size'', JInt 1)]"

definition open_rec :: crec where
  "open_rec = new_rec (fresh_claim open_claim) demo_fn open_result True []"

definition open_state :: harness where
  "open_state = (demo_state [(''C1'', open_rec)] [])\<lparr>h_contexts := [(''F_0002'', demo_ctx)]\<rparr>"

definition kept_prover :: prover where
  "kept_prover = quiet_prover ([39] @ codes ''universal_c1'' @ [39] @ codes '' depends on axioms: [propext]'' @ [10]) Timed_out None"

definition kept_run :: "job \<Rightarrow> result" where
  "kept_run j = fst (prove kept_prover (\<lambda>f. f) j 2 (Some [(''k'', codes ''by rfl'', [])]) None)"

definition open_setup :: prove_setup where
  "open_setup = \<lparr>po_run = map kept_run, po_path = (\<lambda>r. ''proofs/universal_c1.lean'')\<rparr>"

lemma kept_run:
  assumes "job_name j = codes ''universal_c1''"
  shows "rs_status (kept_run j) = ''PROVED''" and "rs_name (kept_run j) = codes ''universal_c1''"
proof -
  let ?lean = "pv_lean kept_prover"
  have "forbidden ascii_only (codes ''by rfl'') = None \<and> forbidden ascii_only [] = None" by code_simp
  then have "forbidden (pv_wide kept_prover) (codes ''by rfl'') = None" "forbidden (pv_wide kept_prover) [] = None"
    by (simp_all add: kept_prover_def quiet_prover_def)
  moreover have lean: "\<exists>axs detail. lean_check ?lean source (codes ''universal_c1'') = (True, axs, detail)" for source
  proof -
    have "fst (lean_check ?lean [] (codes ''universal_c1''))" by code_simp
    moreover have "lean_check ?lean source (codes ''universal_c1'') = lean_check ?lean [] (codes ''universal_c1'')"
      by (simp add: lean_check_def kept_prover_def quiet_prover_def)
    ultimately show ?thesis by (metis prod.collapse)
  qed
  moreover obtain axs detail where
    "lean_check ?lean (file_text j (codes ''by rfl'') []) (codes ''universal_c1'') = (True, axs, detail)"
    using lean by blast
  ultimately obtain checked where "accept kept_prover j (codes ''by rfl'') [] = Inr checked"
    using assms by (simp add: accept_def Let_def)
  then have "cached_proof kept_prover j (Some [(''k'', codes ''by rfl'', [])]) =
      Some (Inr ((proved kept_prover j (codes ''by rfl'') [] checked 0)\<lparr>rs_cached := True\<rparr>))"
    by (simp add: cached_proof_def proof_get_def job_key_def kept_prover_def quiet_prover_def [THEN arg_cong [of _ _ pv_digest]])
  then have "kept_run j = (proved kept_prover j (codes ''by rfl'') [] checked 0)\<lparr>rs_cached := True\<rparr>"
    by (simp add: kept_run_def prove_def)
  then show "rs_status (kept_run j) = ''PROVED''" and "rs_name (kept_run j) = codes ''universal_c1''"
    using assms by (simp_all add: proved_def)
qed

lemma universal_proofs_checked_witness:
  "\<exists>rs h' r p j res. prove_open closing_config open_setup open_state = Inr (rs, h') \<and> map_of (h_claims h') ''C1'' = Some r \<and>
     dget (cr_result r) ''status'' JNull = JStr ''PROVED'' \<and> res \<in> set rs \<and>
     job_statement j = codes ''theorem universal_c1 : '' @ map glyph_code p \<and>
     checked_by kept_prover j (rs_proof res) (rs_helpers res) (rs_axioms res, file_text j (rs_proof res) (rs_helpers res))"
proof -
  let ?P = "\<lparr>pr_module = ''m'', pr_functions = [demo_fn], pr_ast_hash = []\<rparr>"
  have cfg: "su_program closing_config = ?P" "su_fuel closing_config = 1000" by (simp_all add: closing_config_def demo_config_def)
  have fn: "by_id ?P ''F_0002'' = Some demo_fn" "f_id demo_fn = ''F_0002''" by (simp_all add: by_id_def demo_fn_def empty_func_def)
  obtain shown where shown: "render_claim open_claim ?P = Inr shown"
  proof -
    have "\<not> isl (render_claim open_claim ?P)" by code_simp
    then show thesis using that by (cases "render_claim open_claim ?P") auto
  qed
  obtain ob p where ob: "make_obligation open_claim demo_fn ''m'' 1000 [] = Inr ob" "prop_text ob = Inr p"
  proof -
    have "\<not> isl (rbind (make_obligation open_claim demo_fn ''m'' 1000 []) prop_text)" by code_simp
    then show thesis using that
      by (cases "make_obligation open_claim demo_fn ''m'' 1000 []"; cases "prop_text (projr (make_obligation open_claim demo_fn ''m'' 1000 []))") auto
  qed
  have id: "id_of open_claim = Inr ''C1''" by code_simp
  have low: "lower ''C1'' = ''c1''" by code_simp
  have name: "universal_name ob = ''universal_c1''" using universal_name_id [OF ob(1) id] low by simp
  obtain blueprint where blueprint: "blueprint_text shown open_claim open_result (cx_body demo_ctx) = Inr blueprint"
    by (simp add: blueprint_text_def open_claim_def open_result_def dget_def size_text_def text_of_def py_or_def)
  have fields: "cr_selected open_rec" "ac_claim (cr_claim open_rec) = open_claim" "cr_result open_rec = open_result"
    "cr_function open_rec = ''F_0002''"
    by (simp_all add: open_rec_def new_rec_def fresh_claim_def fn)
  have is_open: "is_open_claim open_rec = Inr True"
    unfolding is_open_claim_def fields by (simp add: fields open_claim_def open_result_def ditem_def dget_def)
  have state: "h_claims open_state = [(''C1'', open_rec)]" "h_contexts open_state = [(''F_0002'', demo_ctx)]"
    by (simp_all add: open_state_def demo_state_def)
  obtain job0 where j: "open_jobs closing_config open_setup open_state = Inr ([(job0, ''universal_c1'', ''C1'')], open_state)"
    "job_name job0 = codes ''universal_c1''"
    by (simp add: open_jobs_def state open_job_def is_open job_for_def Let_def cfg fn fields shown blueprint ob name)
  have po: "po_run open_setup = map kept_run" by (simp add: open_setup_def)
  have stored: "\<exists>h' r. store_proof open_setup (owners_of [(job0, ''universal_c1'', ''C1'')]) (kept_run job0) open_state = Inr ((), h') \<and>
      map_of (h_claims h') ''C1'' = Some r \<and> dget (cr_result r) ''status'' JNull = JStr ''PROVED''"
    by (simp add: store_proof_def owners_of_def j(2) kept_run [OF j(2)] hbind_def hlift_def rec_of_def state universal_result_def fields
        open_result_def dget_def put_rec_def hmod_def set_result_def dupdate_def)
  then obtain h' r where run: "prove_open closing_config open_setup open_state = Inr ([kept_run job0], h')"
    and r: "map_of (h_claims h') ''C1'' = Some r" "dget (cr_result r) ''status'' JNull = JStr ''PROVED''"
    by (auto simp: prove_open_def hbind_def hret_def j(1) po)
  have proves: "list_all2 (proves kept_prover) jobs (po_run open_setup jobs)" for jobs
    by (auto simp: po list_all2_conv_all_nth proves_def kept_run_def) (metis prod.collapse)
  have "cr_result r \<noteq> open_result" using r(2) by (auto simp: open_result_def dget_def)
  with universal_proofs_checked [OF run r(1) _ _ _ proves] obtain p j res where
    "job_statement j = universal_statement ob p" "res = kept_run job0"
    "checked_by kept_prover j (rs_proof res) (rs_helpers res) (rs_axioms res, file_text j (rs_proof res) (rs_helpers res))"
    by (auto simp: state fields id cfg fn ob)
  moreover have "universal_statement ob p = codes ''theorem universal_c1 : '' @ map glyph_code p"
    by (simp add: universal_statement_def name codes_def)
  ultimately show ?thesis using run r by auto
qed

end
