(* ===== verification/Patterns.thy ===== *)
theory Patterns
  imports EnvModel
begin

text \<open>
  The regular expressions of the natural-language pipeline (module \<open>re\<close> of Python): classes, repetition that
  prefers more or fewer turns, named groups, word boundaries and the end of the text. A match is found
  by backtracking; all ways to match are listed in the order in which Python tries them, so the first is
  the match it reports. Characters are below 256.
\<close>

section \<open>Matching\<close>

datatype rx =
    Void
  | Cls "char \<Rightarrow> bool"
  | Cat rx rx
  | Alt rx rx
  | Many bool rx
  | Grp string rx
  | Bound
  | End
  | Not_after "char \<Rightarrow> bool"
  | Not_before "char \<Rightarrow> bool"

text \<open>A position: the character before it, what follows, and the groups so far.\<close>

type_synonym pos = "char option \<times> string \<times> (string \<times> string) list"

definition holds_of :: "(char \<Rightarrow> bool) \<Rightarrow> char option \<Rightarrow> bool" where
  "holds_of f x = (case x of None \<Rightarrow> False | Some c \<Rightarrow> f c)"

definition next_char :: "string \<Rightarrow> char option" where
  "next_char s = (case s of [] \<Rightarrow> None | c # _ \<Rightarrow> Some c)"

definition shorter :: "pos \<Rightarrow> pos \<Rightarrow> bool" where
  "shorter q p = (length (fst (snd q)) < length (fst (snd p)))"

text \<open>Repetition: a turn that consumes nothing is not repeated.\<close>

primrec turns :: "nat \<Rightarrow> bool \<Rightarrow> (pos \<Rightarrow> pos list) \<Rightarrow> pos \<Rightarrow> pos list" where
  "turns 0 greedy f p = [p]"
| "turns (Suc n) greedy f p =
     (let more = concat (map (turns n greedy f) (filter (\<lambda>q. shorter q p) (f p)))
      in if greedy then more @ [p] else p # more)"

primrec run :: "rx \<Rightarrow> pos \<Rightarrow> pos list" where
  "run Void p = [p]"
| "run (Cls f) p = (case fst (snd p) of [] \<Rightarrow> [] | c # s \<Rightarrow> if f c then [(Some c, s, snd (snd p))] else [])"
| "run (Cat r1 r2) p = concat (map (run r2) (run r1 p))"
| "run (Alt r1 r2) p = run r1 p @ run r2 p"
| "run (Many greedy r) p = turns (length (fst (snd p))) greedy (run r) p"
| "run (Grp n r) p =
     map (\<lambda>(w, s, g). (w, s, (n, List.take (length (fst (snd p)) - length s) (fst (snd p))) # g)) (run r p)"
| "run Bound p = (if holds_of is_word (fst p) \<noteq> holds_of is_word (next_char (fst (snd p))) then [p] else [])"
| "run End p = (if fst (snd p) = [] \<or> fst (snd p) = [CHR 0x0A] then [p] else [])"
| "run (Not_after f) p = (if holds_of f (fst p) then [] else [p])"
| "run (Not_before f) p = (if holds_of f (next_char (fst (snd p))) then [] else [p])"

text \<open>\<open>pattern.match(s)\<close>: the groups of the first match at the start; \<open>pattern.search(s)\<close>.\<close>

definition match_at :: "rx \<Rightarrow> char option \<Rightarrow> string \<Rightarrow> pos option" where
  "match_at r w s = (case run r (w, s, []) of [] \<Rightarrow> None | q # _ \<Rightarrow> Some q)"

definition rx_match :: "rx \<Rightarrow> string \<Rightarrow> (string \<times> string) list option" where
  "rx_match r s = map_option (\<lambda>q. snd (snd q)) (match_at r None s)"

fun search_from :: "rx \<Rightarrow> char option \<Rightarrow> string \<Rightarrow> pos option" where
  "search_from r w s =
     (case match_at r w s of
        Some q \<Rightarrow> Some q
      | None \<Rightarrow> (case s of [] \<Rightarrow> None | c # s' \<Rightarrow> search_from r (Some c) s'))"

declare search_from.simps [simp del]

definition rx_search :: "rx \<Rightarrow> string \<Rightarrow> bool" where
  "rx_search r s = (search_from r None s \<noteq> None)"

definition rx_find :: "rx \<Rightarrow> string \<Rightarrow> (string \<times> string) list option" where
  "rx_find r s = map_option (\<lambda>q. snd (snd q)) (search_from r None s)"

text \<open>\<open>m.group(n) or ''\<close>.\<close>

definition group_of :: "string \<Rightarrow> (string \<times> string) list \<Rightarrow> string" where
  "group_of n g = (case map_of g n of None \<Rightarrow> [] | Some s \<Rightarrow> s)"

text \<open>\<open>pattern.sub(r, s)\<close> for a fixed text and a pattern that matches no empty text, and \<open>finditer\<close>.\<close>

function rx_sub :: "rx \<Rightarrow> string \<Rightarrow> char option \<Rightarrow> string \<Rightarrow> string" where
  "rx_sub r new w s =
     (case match_at r w s of
        Some (w', s', _) \<Rightarrow>
          if length s' < length s then new @ rx_sub r new w' s'
          else (case s of [] \<Rightarrow> [] | c # t \<Rightarrow> c # rx_sub r new (Some c) t)
      | None \<Rightarrow> (case s of [] \<Rightarrow> [] | c # t \<Rightarrow> c # rx_sub r new (Some c) t))"
  by pat_completeness auto
termination
  by (relation "measure (\<lambda>(_, _, _, s). length s)") auto

declare rx_sub.simps [simp del]

function rx_all :: "rx \<Rightarrow> char option \<Rightarrow> string \<Rightarrow> (string \<times> string) list list" where
  "rx_all r w s =
     (case match_at r w s of
        Some (w', s', g) \<Rightarrow>
          if length s' < length s then g # rx_all r w' s'
          else (case s of [] \<Rightarrow> [] | c # t \<Rightarrow> rx_all r (Some c) t)
      | None \<Rightarrow> (case s of [] \<Rightarrow> [] | c # t \<Rightarrow> rx_all r (Some c) t))"
  by pat_completeness auto
termination
  by (relation "measure (\<lambda>(_, _, s). length s)") auto

declare rx_all.simps [simp del]

section \<open>Writing patterns\<close>

definition alts :: "rx list \<Rightarrow> rx" where
  "alts rs = foldr Alt (butlast rs) (last rs)"

definition cats :: "rx list \<Rightarrow> rx" where
  "cats rs = foldr Cat rs Void"

definition chr :: "string \<Rightarrow> rx" where
  "chr s = cats (map (\<lambda>c. Cls (\<lambda>x. x = c)) s)"

text \<open>A text without regard to case (\<open>re.I\<close>); it is written in small letters.\<close>

definition lit :: "string \<Rightarrow> rx" where
  "lit s = cats (map (\<lambda>c. Cls (\<lambda>x. lower_char x = c)) s)"

definition opt_rx :: "rx \<Rightarrow> rx" where
  "opt_rx r = Alt r Void"

definition many1 :: "rx \<Rightarrow> rx" where
  "many1 r = Cat r (Many True r)"

definition word_rest :: rx where
  "word_rest = Many True (Cls is_word)"

definition spaces :: rx where
  "spaces = Many True (Cls is_space)"

definition spaces1 :: rx where
  "spaces1 = many1 (Cls is_space)"

definition any_char :: "char \<Rightarrow> bool" where
  "any_char c = (c \<noteq> CHR 0x0A)"

text \<open>\<open>.+?\<close>\<close>

definition some_chars :: rx where
  "some_chars = Cat (Cls any_char) (Many False (Cls any_char))"

section \<open>White space\<close>

definition rstrip_of :: "(char \<Rightarrow> bool) \<Rightarrow> string \<Rightarrow> string" where
  "rstrip_of f s = rev (dropWhile f (rev s))"

definition strip_ends :: "string \<Rightarrow> string" where
  "strip_ends s = rstrip_of is_space (dropWhile is_space s)"

text \<open>\<open>s.split()\<close>\<close>

function words_of :: "string \<Rightarrow> string list" where
  "words_of s =
     (case dropWhile is_space s of
        [] \<Rightarrow> []
      | c # t \<Rightarrow> (c # takeWhile (\<lambda>x. \<not> is_space x) t) # words_of (dropWhile (\<lambda>x. \<not> is_space x) t))"
  by pat_completeness auto
termination
proof (relation "measure length", simp, clarsimp)
  fix s c t
  assume "dropWhile is_space s = c # t"
  then have "length (c # t) \<le> length s" by (metis length_dropWhile_le)
  moreover have "length (dropWhile (\<lambda>x. \<not> is_space x) t) \<le> length t" by (rule length_dropWhile_le)
  ultimately show "length (dropWhile (\<lambda>x. \<not> is_space x) t) < length s" by simp
qed

declare words_of.simps [simp del]

text \<open>\<open>' '.join(s.split())\<close>\<close>

definition squeeze :: "string \<Rightarrow> string" where
  "squeeze s = join '' '' (words_of s)"

section \<open>What a match is\<close>

lemma turns_suffix:
  "q \<in> set (turns n greedy f p) \<Longrightarrow> (\<And>p q. q \<in> set (f p) \<Longrightarrow> suffix (fst (snd q)) (fst (snd p))) \<Longrightarrow>
   suffix (fst (snd q)) (fst (snd p))"
proof (induction n arbitrary: p)
  case (Suc n)
  from Suc.prems(1) consider "q = p" | p' where "p' \<in> set (f p)" "q \<in> set (turns n greedy f p')"
    by (auto simp: Let_def split: if_splits)
  then show ?case
  proof cases
    case 2
    from Suc.prems(2) [OF 2(1)] Suc.IH [OF 2(2) Suc.prems(2)] show ?thesis by (meson suffix_order.trans)
  qed simp
qed simp

text \<open>A match consumes a first part of the text and changes nothing after it.\<close>

lemma run_suffix: "q \<in> set (run r p) \<Longrightarrow> suffix (fst (snd q)) (fst (snd p))"
proof (induction r arbitrary: p q)
  case (Cls f)
  then show ?case by (cases "fst (snd p)") (auto simp: suffix_ConsI split: if_splits)
next
  case (Cat r1 r2)
  then obtain m where "m \<in> set (run r1 p)" "q \<in> set (run r2 m)" by auto
  with Cat.IH show ?case by (meson suffix_order.trans)
next
  case (Many greedy r)
  then show ?case using turns_suffix by (metis run.simps(5))
qed (auto split: if_splits)

end
