(* ===== verification/NlJudge.thy ===== *)
theory NlJudge
  imports Patterns Reports "HOL-Library.Product_Lexorder" "HOL-Library.Multiset"
begin

text \<open>
  \<open>src/src/autoform/nl/judge.py\<close>: English properties of functions are judged, ranked and given a budget,
  and the formalization stage spends in that order. Records for the dataclasses of \<open>nl/schema.py\<close>, the facts
  read from a property, the incompatible readings and their groups, the utility, the allocation of the
  budget, the select stage, and the waves of the formalization. The judge and its log are those of
  \<open>JudgeModel\<close>; amounts of money and utilities are real numbers.
\<close>

section \<open>Functions and properties\<close>

record nl_param =
  np_name :: string
  np_sort :: string
  np_integer_type :: string

record fn_info =
  fi_name :: string
  fi_source_name :: string
  fi_file :: string
  fi_params :: "nl_param list"
  fi_returns :: string
  fi_source :: string
  fi_doc :: string
  fi_tests :: "(string \<times> string) list"
  fi_callers :: "string list"

record eprop =
  ep_id :: string
  ep_text :: string
  ep_kind :: string
  ep_evidence :: "string list"

record espec =
  es_function :: string
  es_summary :: string
  es_properties :: "eprop list"

text \<open>\<open>sanitize\<close> and \<open>statement_id\<close> of \<open>formalize.py\<close>.\<close>

definition ascii_word :: "char \<Rightarrow> bool" where
  "ascii_word c = (let n = (of_char c :: nat) in (48 \<le> n \<and> n \<le> 57) \<or> (65 \<le> n \<and> n \<le> 90) \<or> n = 95 \<or> (97 \<le> n \<and> n \<le> 122))"

definition ascii_letter :: "char \<Rightarrow> bool" where
  "ascii_letter c = (let n = (of_char c :: nat) in (65 \<le> n \<and> n \<le> 90) \<or> (97 \<le> n \<and> n \<le> 122))"

definition strip_underscores :: "string \<Rightarrow> string" where
  "strip_underscores s = rstrip_of (\<lambda>c. c = CHR ''_'') (lstrip_char (CHR ''_'') s)"

definition nl_sanitize :: "string \<Rightarrow> string" where
  "nl_sanitize name =
     (let s = strip_underscores (rx_sub (many1 (Cls (\<lambda>c. \<not> ascii_word c))) ''_'' None name);
          t = rx_sub (many1 (Cls (\<lambda>c. c = CHR ''_''))) ''_'' None s
      in if t = [] \<or> \<not> ascii_letter (hd t) then ''f_'' @ t else t)"

definition statement_id :: "string \<Rightarrow> string \<Rightarrow> string" where
  "statement_id fname pid = nl_sanitize fname @ ''__'' @ nl_sanitize pid"

section \<open>The interface view\<close>

definition shown_fn :: "fn_info \<Rightarrow> string" where
  "shown_fn fn = (if fi_source_name fn \<noteq> [] then fi_source_name fn else fi_name fn)"

definition param_text :: "nl_param \<Rightarrow> string" where
  "param_text p =
     np_name p @
     (if np_sort p \<noteq> ''any'' \<or> np_integer_type p \<noteq> []
      then '': '' @ (if np_integer_type p \<noteq> [] then np_integer_type p else np_sort p) else [])"

definition nl_signature :: "fn_info \<Rightarrow> string" where
  "nl_signature fn = shown_fn fn @ ''('' @ join '', '' (map param_text (fi_params fn)) @ '') -> '' @ fi_returns fn"

definition interface_state :: "fn_info \<Rightarrow> dict" where
  "interface_state fn =
     [(''function'', JStr (nl_signature fn)), (''file'', JStr (fi_file fn)), (''documentation'', JStr (List.take 400 (fi_doc fn))),
      (''tests'', JList (map (\<lambda>(l, t). JStr (l @ '': '' @ List.take 160 t)) (List.take 8 (fi_tests fn)))),
      (''callers'', JList (map JStr (List.take 8 (fi_callers fn))))]"

definition full_state :: "fn_info \<Rightarrow> dict" where
  "full_state fn = interface_state fn @ [(''implementation'', JStr (List.take 2000 (fi_source fn)))]"

section \<open>Facts about a property\<close>

definition EVIDENCE_WEIGHTS :: "(string \<times> real) list" where
  "EVIDENCE_WEIGHTS = [(''tests'', 5 / 10), (''docstring'', 4 / 10), (''caller'', 3 / 10), (''comments'', 2 / 10), (''name'', 15 / 100)]"

definition word_from :: "string \<Rightarrow> rx" where
  "word_from s = Cat (lit s) word_rest"

definition SECURITY :: rx where
  "SECURITY = cats [Bound, alts
     [word_from ''auth'', word_from ''permission'', word_from ''privilege'', lit ''admin'', lit ''root'', word_from ''password'',
      word_from ''token'', word_from ''secret'', cats [lit ''saniti'', Alt (lit ''s'') (lit ''z''), word_rest], word_from ''escap'',
      word_from ''inject'', word_from ''owner'', lit ''access'', word_from ''allow'', Cat (lit ''den'') (alts [lit ''y'', lit ''ies'', lit ''ied'']),
      word_from ''role'', lit ''signature'', word_from ''verif'', word_from ''encrypt'', word_from ''decrypt'', word_from ''hash'',
      lit ''csrf'', lit ''xss'', lit ''sql'', lit ''traversal'', word_from ''overflow'',
      cats [lit ''out'', Cls (\<lambda>c. c = CHR ''-'' \<or> c = CHR '' ''), lit ''of'', Cls (\<lambda>c. c = CHR ''-'' \<or> c = CHR '' ''), lit ''bounds''],
      lit ''untrusted'', Cat (lit ''valid'') (opt_rx (alts [lit ''ate'', lit ''ates'', lit ''ation'', lit ''ated'']))], Bound]"

definition TRIVIAL :: rx where
  "TRIVIAL = alts
     [lit ''returns a value of type'', lit ''twice with the same arguments'', lit ''same arguments gives the same'',
      cats [lit ''returns a'', opt_rx (lit ''n''), lit '' '',
        alts [lit ''integer'', lit ''int'', lit ''string'', lit ''str'', lit ''bool'', lit ''boolean'', lit ''float'', lit ''value'', lit ''number'', lit ''result''],
        spaces, opt_rx (lit ''.''), End],
      Cat (lit ''does not '') (Alt (lit ''crash'') (lit ''raise an unexpected''))]"

definition of_kind :: "string \<Rightarrow> string \<Rightarrow> bool" where
  "of_kind k e = (let s = lower (strip_ends e) in startswith s k \<or> (k = ''tests'' \<and> startswith s ''test''))"

definition evidence_kinds :: "string list \<Rightarrow> string list" where
  "evidence_kinds evidence = filter (\<lambda>k. \<exists>e \<in> set evidence. of_kind k e) (map fst EVIDENCE_WEIGHTS)"

definition nl_evidence_score :: "string list \<Rightarrow> real" where
  "nl_evidence_score evidence = py_round 4 (min 1 (sum_list (map (\<lambda>k. lookup EVIDENCE_WEIGHTS k 0) (evidence_kinds evidence))))"

definition external_evidence :: "string list \<Rightarrow> string list" where
  "external_evidence evidence =
     filter (\<lambda>e. strip_ends e \<noteq> [] \<and> \<not> startswith (lower e) ''implementation'' \<and> \<not> startswith (lower e) ''repair'') evidence"

definition security_relevant :: "eprop \<Rightarrow> fn_info \<Rightarrow> bool" where
  "security_relevant p fn = (rx_search SECURITY (ep_text p) \<or> rx_search SECURITY (shown_fn fn) \<or> rx_search SECURITY (fi_doc fn))"

definition nl_judgment_prior :: "eprop \<Rightarrow> fn_info \<Rightarrow> (string \<times> real) list" where
  "nl_judgment_prior p fn =
     (let ev = nl_evidence_score (ep_evidence p); t = ep_text p; trivial = rx_search TRIVIAL t in
      apply_if (ep_kind p = ''example'') (prior_add ''TOO_WEAK'' (15 / 100))
      (apply_if trivial (prior_add ''TRIVIAL'' (5 / 10))
      (apply_if (security_relevant p fn \<and> rx_search SECURITY (t @ '' '' @ fi_source_name fn)) (prior_add ''SECURITY_RELEVANT'' (45 / 100))
      (apply_if (ep_kind p \<in> {''postcondition'', ''exception'', ''invariant''} \<and> \<not> trivial) (prior_add ''USEFUL_PROPERTY'' (15 / 100))
      ((if ev \<noteq> 0 then prior_add ''USEFUL_PROPERTY'' (2 / 10 + 3 / 10 * ev) else prior_add ''UNSUPPORTED_BY_EVIDENCE'' (25 / 100))
      (flat_prior CLAIM_JUDGMENTS))))))"

section \<open>Rival readings\<close>

definition CALL :: rx where
  "CALL = Grp ''call'' (cats
     [Cls (\<lambda>c. ascii_letter c \<or> c = CHR ''_''), Many True (Cls (\<lambda>c. is_word c \<or> c = CHR ''.'')), spaces, chr ''('',
      Many True (Cls (\<lambda>c. c \<noteq> CHR ''('' \<and> c \<noteq> CHR '')'')), chr '')''])"

definition VERB :: rx where
  "VERB = Grp ''verb'' (alts [lit ''returns'', lit ''raises'', lit ''is''])"

definition OUT :: rx where
  "OUT = Grp ''out'' some_chars"

definition COND :: rx where
  "COND = Grp ''cond'' some_chars"

definition full_stop :: rx where
  "full_stop = Cat (opt_rx (chr ''.'')) End"

definition PATTERNS :: "rx list" where
  "PATTERNS =
     [cats [alts [lit ''if'', lit ''when'', lit ''whenever''], spaces1, COND, chr '','', spaces, CALL, spaces1, VERB, spaces1, OUT, full_stop],
      cats [Grp ''cond'' (cats [lit ''for '', alts [lit ''all'', lit ''any'', lit ''every''], Bound, Many True (Cls (\<lambda>c. c \<noteq> CHR '',''))]),
        chr '','', spaces, CALL, spaces1, VERB, spaces1, OUT, full_stop],
      cats [CALL, spaces1, VERB, spaces1, OUT, opt_rx (cats [spaces1, Alt (lit ''if'') (lit ''when''), spaces1, COND]), full_stop]]"

definition VAGUE_OUT :: rx where
  "VAGUE_OUT = cats
     [opt_rx (alts [cats [lit ''a'', opt_rx (lit ''n''), lit '' ''], lit ''the '']),
      alts [lit ''integer'', lit ''int'', lit ''string'', lit ''str'', lit ''bool'', lit ''boolean'', lit ''float'', lit ''value'', lit ''number'',
        lit ''result'', cats [lit ''non'', opt_rx (lit ''-''), lit ''negative''], lit ''positive'', lit ''negative''], Bound]"

definition norm_text :: "string \<Rightarrow> string" where
  "norm_text s = rx_sub spaces1 '' '' None (rstrip_of (\<lambda>c. c = CHR ''.'') (lower (strip_ends s)))"

type_synonym reading = "(string \<times> string) \<times> string \<times> string"

definition reading_of :: "(string \<times> string) list \<Rightarrow> reading" where
  "reading_of g =
     ((norm_text (group_of ''cond'' g), lower (filter (\<lambda>c. \<not> is_space c) (group_of ''call'' g))),
      lower (group_of ''verb'' g), norm_text (group_of ''out'' g))"

primrec first_pattern :: "rx list \<Rightarrow> string \<Rightarrow> (string \<times> string) list option" where
  "first_pattern [] s = None"
| "first_pattern (r # rs) s = (case rx_match r s of None \<Rightarrow> first_pattern rs s | Some g \<Rightarrow> Some g)"

definition parse_outcome :: "string \<Rightarrow> reading option" where
  "parse_outcome s = map_option reading_of (first_pattern PATTERNS (squeeze s))"

definition clash :: "reading \<Rightarrow> reading \<Rightarrow> bool" where
  "clash a b = (case (a, b) of ((ka, va, oa), (kb, vb, ob)) \<Rightarrow>
     ka = kb \<and> \<not> (oa = ob \<and> va = vb) \<and>
     (va \<noteq> vb \<and> (va = ''raises'' \<or> vb = ''raises'') \<or> (rx_match VAGUE_OUT oa = None \<and> rx_match VAGUE_OUT ob = None)))"

definition incompatible :: "eprop \<Rightarrow> eprop \<Rightarrow> bool" where
  "incompatible a b = (case (parse_outcome (ep_text a), parse_outcome (ep_text b)) of (Some x, Some y) \<Rightarrow> clash x y | _ \<Rightarrow> False)"

text \<open>
  Groups of rivals: from each property not yet in a group, the properties that can be reached over
  incompatible pairs. Properties are taken by their position; the top of the stack is the head of the list.
\<close>

function grow :: "(nat \<Rightarrow> nat \<Rightarrow> bool) \<Rightarrow> nat \<Rightarrow> nat list \<Rightarrow> nat list \<Rightarrow> nat list" where
  "grow r n grp [] = grp"
| "grow r n grp (k # todo) =
     (let new = filter (\<lambda>j. j \<notin> set grp \<and> r k j) [0..<n] in grow r n (grp @ new) (rev new @ todo))"
  by pat_completeness auto
termination
proof (relation "measures [\<lambda>(r, n, grp, todo). card ({0..<n} - set grp), \<lambda>(r, n, grp, todo). length todo]", simp)
  fix r :: "nat \<Rightarrow> nat \<Rightarrow> bool" and n grp k todo new
  assume new: "new = filter (\<lambda>j. j \<notin> set grp \<and> r k j) [0..<n]"
  have "card ({0..<n} - set (grp @ new)) < card ({0..<n} - set grp)" if "new \<noteq> []"
  proof (rule psubset_card_mono)
    from that obtain x where x: "x \<in> set new" by (meson hd_in_set)
    then have "x \<in> {0..<n}" "x \<notin> set grp" unfolding new by simp_all
    with x show "{0..<n} - set (grp @ new) \<subset> {0..<n} - set grp" unfolding set_append by blast
  qed simp
  then show "((r, n, grp @ new, rev new @ todo), (r, n, grp, k # todo))
      \<in> measures [\<lambda>(r, n, grp, todo). card ({0..<n} - set grp), \<lambda>(r, n, grp, todo). length todo]"
    by (cases "new = []") (auto intro: measures_less)
qed

primrec groups_from :: "(nat \<Rightarrow> nat \<Rightarrow> bool) \<Rightarrow> nat \<Rightarrow> nat list \<Rightarrow> nat list \<Rightarrow> nat list list" where
  "groups_from r n seen [] = []"
| "groups_from r n seen (i # is) =
     (if i \<in> set seen then groups_from r n seen is
      else let grp = grow r n [i] [i] in
        if length grp > 1 then sort grp # groups_from r n (seen @ grp) is else groups_from r n seen is)"

definition nl_rival_groups :: "eprop list \<Rightarrow> nat list list" where
  "nl_rival_groups props =
     groups_from (\<lambda>k j. incompatible (props ! k) (props ! j)) (length props) [] [0..<length props]"

section \<open>Utility\<close>

record nl_intent =
  in_group :: nat
  in_chosen :: bool
  in_probability :: real
  in_rivals :: "string list"
  in_decision :: string

definition intent_bonus :: "nl_intent option \<Rightarrow> real" where
  "intent_bonus i = (case i of None \<Rightarrow> 0 | Some x \<Rightarrow> if in_chosen x then 10 / 100 else - 15 / 100)"

definition nl_utility :: "eprop \<Rightarrow> (string \<times> real) list \<Rightarrow> real \<Rightarrow> nat \<Rightarrow> nl_intent option \<Rightarrow> bool \<Rightarrow> real" where
  "nl_utility p j select_p n intent0 security =
     (let nontrivial = 1 - lookup j ''TRIVIAL'' 0 - lookup j ''LIKELY_VACUOUS'' 0;
          sec = max (lookup j ''SECURITY_RELEVANT'' 0) (if security then 5 / 10 else 0);
          u = 30 / 100 * lookup j ''USEFUL_PROPERTY'' 0 + 25 / 100 * sec + 20 / 100 * min 1 (select_p * of_nat (max n 1)) +
              20 / 100 * nl_evidence_score (ep_evidence p) + 10 / 100 * nontrivial -
              10 / 100 * lookup j ''UNSUPPORTED_BY_EVIDENCE'' 0 - 5 / 100 * lookup j ''TOO_STRONG'' 0 -
              (if external_evidence (ep_evidence p) = [] then 10 / 100 else 0)
      in py_round 4 (u + intent_bonus intent0))"

section \<open>The budget\<close>

text \<open>A row of the selection, and what the allocation adds to it.\<close>

record sel_row =
  sr_function :: string
  sr_property :: string
  sr_statement :: string
  sr_text :: string
  sr_kind :: string
  sr_evidence :: "string list"
  sr_external :: bool
  sr_label :: string
  sr_probabilities :: "(string \<times> real) list"
  sr_decision :: string
  sr_select :: real
  sr_intent :: "nl_intent option"
  sr_security :: bool
  sr_utility :: real

datatype skip =
    Over_cap "int option" nat
  | Over_budget real "real option" real

record plan_row = sel_row +
  sr_rank :: nat
  sr_priority :: real
  sr_order :: nat
  sr_cost :: real
  sr_skip :: "skip option"

definition sr_selected :: "plan_row \<Rightarrow> bool" where
  "sr_selected r = (sr_skip r = None)"

definition RANK_DAMPING :: real where
  "RANK_DAMPING = 85 / 100"

definition add_to_group :: "'k \<Rightarrow> 'v \<Rightarrow> ('k \<times> 'v list) list \<Rightarrow> ('k \<times> 'v list) list" where
  "add_to_group k v m = AList.update k ((case map_of m k of None \<Rightarrow> [] | Some vs \<Rightarrow> vs) @ [v]) m"

definition grouped :: "('v \<Rightarrow> 'k) \<Rightarrow> 'v list \<Rightarrow> ('k \<times> 'v list) list" where
  "grouped f vs = foldl (\<lambda>m v. add_to_group (f v) v m) [] vs"

text \<open>Rows are known by their position. The rank of a row is its place in its function by utility.\<close>

definition ranks :: "sel_row list \<Rightarrow> (nat \<times> nat) list" where
  "ranks rows =
     concat (map (\<lambda>(f, items). map (\<lambda>(rank, i, r). (i, rank)) (enumerate 0 items))
       (grouped (\<lambda>(i, r). sr_function r) (sort_key (\<lambda>(i, r). - sr_utility r) (enumerate 0 rows))))"

definition planned_row :: "real \<Rightarrow> sel_row \<Rightarrow> nat \<Rightarrow> plan_row" where
  "planned_row cost r rank =
     sel_row.extend r \<lparr>sr_rank = rank, sr_priority = py_round 4 (sr_utility r * RANK_DAMPING ^ rank), sr_order = 0,
       sr_cost = cost, sr_skip = None\<rparr>"

definition prioritized :: "real \<Rightarrow> sel_row list \<Rightarrow> plan_row list" where
  "prioritized cost rows =
     sort_key (\<lambda>r. (- sr_priority r, sr_function r, sr_property r))
       (map (\<lambda>(i, r). planned_row cost r (case map_of (ranks rows) i of None \<Rightarrow> 0 | Some k \<Rightarrow> k)) (enumerate 0 rows))"

text \<open>The state of the pass: what is planned, and whether a row did not fit.\<close>

definition capped :: "int option \<Rightarrow> plan_row \<Rightarrow> bool" where
  "capped cap r = (case cap of None \<Rightarrow> False | Some m \<Rightarrow> m \<le> int (sr_rank r) \<and> \<not> sr_external r)"

definition too_much :: "real option \<Rightarrow> real \<Rightarrow> bool" where
  "too_much budget x = (case budget of None \<Rightarrow> False | Some b \<Rightarrow> b + 1 / 10 ^ 9 < x)"

fun admit :: "real option \<Rightarrow> int option \<Rightarrow> nat \<Rightarrow> real \<Rightarrow> bool \<Rightarrow> plan_row list \<Rightarrow> plan_row list \<times> real" where
  "admit budget cap i planned stopped [] = ([], planned)"
| "admit budget cap i planned stopped (r0 # rs) =
     (let r = r0\<lparr>sr_order := i\<rparr> in
      if capped cap r then
        apfst (Cons (r\<lparr>sr_skip := Some (Over_cap cap (Suc (sr_rank r)))\<rparr>)) (admit budget cap (Suc i) planned stopped rs)
      else if stopped \<or> too_much budget (planned + sr_cost r) then
        apfst (Cons (r\<lparr>sr_skip := Some (Over_budget (planned + sr_cost r) budget (sr_utility r))\<rparr>))
          (admit budget cap (Suc i) planned True rs)
      else apfst (Cons r) (admit budget cap (Suc i) (planned + sr_cost r) stopped rs))"

definition allocate :: "sel_row list \<Rightarrow> real option \<Rightarrow> int option \<Rightarrow> real \<Rightarrow> plan_row list \<times> real" where
  "allocate rows budget cap cost = apsnd (py_round 4) (admit budget cap 0 0 False (prioritized cost rows))"

section \<open>The select stage\<close>

text \<open>\<open>dict(pairs)\<close>: a later entry of a key replaces the value.\<close>

definition dict_of :: "('k \<times> 'v) list \<Rightarrow> ('k \<times> 'v) list" where
  "dict_of kvs = foldl (\<lambda>m (k, v). AList.update k v m) [] kvs"

definition item_at :: "(string \<times> 'v) list \<Rightarrow> string \<Rightarrow> 'v res" where
  "item_at m k = (case map_of m k of None \<Rightarrow> Inl KeyError | Some v \<Rightarrow> Inr v)"

record intent_row =
  ir_group :: "string list"
  ir_chosen :: string
  ir_probabilities :: "(string \<times> real) list"
  ir_decision :: string

record prices =
  pc_formalize :: real
  pc_prove_share :: real

text \<open>The values without the environment variables.\<close>

definition PRICES :: prices where
  "PRICES = \<lparr>pc_formalize = 8 / 100, pc_prove_share = 4 / 10\<rparr>"

definition claim_shown :: "eprop \<Rightarrow> string" where
  "claim_shown p =
     ep_text p @ newline @ ''(kind: '' @ ep_kind p @ ''; evidence: '' @
     (let e = join '', '' (ep_evidence p) in if e = [] then ''none'' else e) @ '')''"

definition claim_ctx :: "fn_info \<Rightarrow> eprop \<Rightarrow> json" where
  "claim_ctx fn p = JObj [(''function'', JStr (fi_name fn)), (''property'', JStr (ep_id p)),
     (''statement'', JStr (statement_id (fi_name fn) (ep_id p)))]"

definition worth :: "(string \<times> real) list \<Rightarrow> real" where
  "worth probs = 2 / 10 + 5 / 10 * lookup probs ''USEFUL_PROPERTY'' 0 + 5 / 10 * lookup probs ''SECURITY_RELEVANT'' 0"

definition best_label :: "(string \<times> real) list \<Rightarrow> string res" where
  "best_label probs = rbind (argmax (length probs) (map snd probs)) (\<lambda>i. Inr (fst (probs ! i)))"

definition rivals_in :: "eprop list \<Rightarrow> nat list \<Rightarrow> nat \<Rightarrow> string list" where
  "rivals_in props grp i = map (\<lambda>k. ep_id (props ! k)) (filter (\<lambda>k. k \<noteq> i) grp)"

definition group_ctx :: "fn_info \<Rightarrow> eprop list \<Rightarrow> nat list \<Rightarrow> json" where
  "group_ctx fn props grp =
     JObj [(''function'', JStr (fi_name fn)), (''group'', JList (map (\<lambda>i. JStr (ep_id (props ! i))) grp))]"

definition group_intents :: "eprop list \<Rightarrow> nat \<Rightarrow> nat list \<Rightarrow> decision \<Rightarrow> (string \<times> nl_intent) list" where
  "group_intents props gi grp d =
     map (\<lambda>i. let pid = ep_id (props ! i) in
       (pid, \<lparr>in_group = gi, in_chosen = (pid = d_chosen d), in_probability = py_round 4 (lookup (d_probabilities d) pid 0),
              in_rivals = rivals_in props grp i, in_decision = d_id d\<rparr>)) grp"

primrec ask_intents ::
    "fn_info \<Rightarrow> eprop list \<Rightarrow> string list \<Rightarrow> (string \<times> real) list \<Rightarrow> nat \<Rightarrow> nat list list \<Rightarrow> judge \<Rightarrow>
     ((string \<times> nl_intent) list \<times> intent_row list \<times> judge) res" where
  "ask_intents fn props texts sel gi [] j = Inr ([], [], j)"
| "ask_intents fn props texts sel gi (grp # groups) j =
     rbind (intent (JObj (interface_state fn)) (map (\<lambda>i. (ep_id (props ! i), texts ! i)) grp)
         (dict_of (map (\<lambda>i. let pid = ep_id (props ! i) in (pid, lookup sel pid (1 / 10) + 1 / 10)) grp)) (group_ctx fn props grp) j)
       (\<lambda>(d, j1).
     rbind (ask_intents fn props texts sel (Suc gi) groups j1) (\<lambda>(is, rows, j2).
       Inr (group_intents props gi grp d @ is,
            \<lparr>ir_group = map (\<lambda>i. ep_id (props ! i)) grp, ir_chosen = d_chosen d, ir_probabilities = d_probabilities d,
             ir_decision = d_id d\<rparr> # rows, j2)))"

definition selection_of ::
    "fn_info \<Rightarrow> eprop list \<Rightarrow> string list \<Rightarrow> (string \<times> decision) list \<Rightarrow> judge \<Rightarrow> ((string \<times> real) list \<times> judge) res" where
  "selection_of fn props texts jd j =
     (case props of
        [p] \<Rightarrow> Inr ([(ep_id p, 1)], j)
      | _ \<Rightarrow>
          rbind (mapM (\<lambda>p. rbind (item_at jd (ep_id p)) (\<lambda>d. Inr (ep_id p, worth (d_probabilities d)))) props) (\<lambda>priors.
            select_candidates (JObj (interface_state fn)) (zip (map ep_id props) texts) (dict_of priors)
              (JObj [(''function'', JStr (fi_name fn))]) j))"

definition sel_row_of ::
    "fn_info \<Rightarrow> nat \<Rightarrow> (string \<times> decision) list \<Rightarrow> (string \<times> real) list \<Rightarrow> (string \<times> nl_intent) list \<Rightarrow> eprop \<Rightarrow> sel_row res" where
  "sel_row_of fn n jd sel intents p =
     rbind (item_at jd (ep_id p)) (\<lambda>d.
     rbind (best_label (d_probabilities d)) (\<lambda>label.
       let probs = d_probabilities d; sec = security_relevant p fn; s = lookup sel (ep_id p) 0; i = map_of intents (ep_id p) in
       Inr \<lparr>sr_function = fi_name fn, sr_property = ep_id p, sr_statement = statement_id (fi_name fn) (ep_id p), sr_text = ep_text p,
            sr_kind = ep_kind p, sr_evidence = ep_evidence p, sr_external = (external_evidence (ep_evidence p) \<noteq> []),
            sr_label = label, sr_probabilities = probs, sr_decision = d_id d, sr_select = py_round 4 s, sr_intent = i,
            sr_security = sec, sr_utility = nl_utility p probs s n i sec\<rparr>))"

type_synonym fn_rows = "string \<times> intent_row list"

definition judge_spec :: "fn_info \<Rightarrow> eprop list \<Rightarrow> judge \<Rightarrow> (sel_row list \<times> fn_rows \<times> judge) res" where
  "judge_spec fn props j =
     (let texts = map claim_shown props in
      rbind (judge_claims (JObj (interface_state fn)) texts (map (\<lambda>p. nl_judgment_prior p fn) props) (map (claim_ctx fn) props) j) (\<lambda>(ds, j1).
      let jd = dict_of (zip (map ep_id props) ds) in
      rbind (selection_of fn props texts jd j1) (\<lambda>(sel, j2).
      rbind (ask_intents fn props texts sel 0 (nl_rival_groups props) j2) (\<lambda>(is, irows, j3).
      rbind (mapM (sel_row_of fn (length props) jd sel (dict_of is)) props) (\<lambda>rows.
        Inr (rows, (fi_name fn, irows), j3))))))"

primrec judge_specs :: "(string \<times> fn_info) list \<Rightarrow> espec list \<Rightarrow> judge \<Rightarrow> (sel_row list \<times> fn_rows list \<times> judge) res" where
  "judge_specs fns [] j = Inr ([], [], j)"
| "judge_specs fns (s # specs) j =
     (case map_of fns (es_function s) of
        None \<Rightarrow> judge_specs fns specs j
      | Some fn \<Rightarrow>
          if es_properties s = [] then judge_specs fns specs j
          else rbind (judge_spec fn (es_properties s) j) (\<lambda>(rows, f, j1).
               rbind (judge_specs fns specs j1) (\<lambda>(rows', fs, j2). Inr (rows @ rows', f # fs, j2))))"

text \<open>What \<open>selection.json\<close> holds.\<close>

record selection =
  sn_budget :: "real option"
  sn_cap :: "int option"
  sn_planned :: real
  sn_reserve :: real
  sn_functions :: "fn_rows list"
  sn_rows :: "plan_row list"

definition functions_by_name :: "fn_info list \<Rightarrow> (string \<times> fn_info) list" where
  "functions_by_name fs = dict_of (map (\<lambda>f. (fi_name f, f)) fs)"

definition nl_select ::
    "prices \<Rightarrow> fn_info list \<Rightarrow> espec list \<Rightarrow> real option \<Rightarrow> int option \<Rightarrow> bool \<Rightarrow> judge \<Rightarrow> (selection \<times> judge) res" where
  "nl_select pc fs specs budget cap prove j =
     rbind (judge_specs (functions_by_name fs) specs j) (\<lambda>(rows, fns, j1).
       let reserve = (case budget of Some b \<Rightarrow> if prove then py_round 4 (b * pc_prove_share pc) else 0 | None \<Rightarrow> 0);
           (plan, planned) = allocate rows (map_option (\<lambda>b. b - reserve) budget) cap (pc_formalize pc)
       in Inr (\<lparr>sn_budget = budget, sn_cap = cap, sn_planned = planned, sn_reserve = reserve, sn_functions = fns, sn_rows = plan\<rparr>, j1))"

section \<open>Spending in order\<close>

definition order_of :: "plan_row list \<Rightarrow> (string \<times> string) \<Rightarrow> nat option" where
  "order_of rows = map_of (dict_of (map (\<lambda>r. ((sr_function r, sr_property r), sr_order r)) rows))"

text \<open>The properties of a specification that are in the order, by their order.\<close>

definition chosen_props :: "((string \<times> string) \<Rightarrow> nat option) \<Rightarrow> espec \<Rightarrow> eprop list" where
  "chosen_props ord s =
     sort_key (\<lambda>p. the (ord (es_function s, ep_id p))) (filter (\<lambda>p. ord (es_function s, ep_id p) \<noteq> None) (es_properties s))"

definition selected_english :: "espec list \<Rightarrow> plan_row list \<Rightarrow> espec list" where
  "selected_english specs rows =
     (let ord = order_of (filter sr_selected rows) in
      sort_key (\<lambda>s. the (ord (es_function s, ep_id (hd (es_properties s)))))
        (filter (\<lambda>s. es_properties s \<noteq> []) (map (\<lambda>s. s\<lparr>es_properties := chosen_props ord s\<rparr>) specs)))"

type_synonym work_item = "espec \<times> eprop"

definition item_key :: "work_item \<Rightarrow> string \<times> string" where
  "item_key = (\<lambda>(s, p). (es_function s, ep_id p))"

definition work_queue :: "espec list \<Rightarrow> plan_row list \<Rightarrow> work_item list" where
  "work_queue specs rows =
     sort_key (\<lambda>x. the (order_of rows (item_key x)))
       (concat (map (\<lambda>s. map (Pair s) (es_properties s)) (selected_english specs rows)))"

text \<open>One wave: the properties of a function become one specification.\<close>

definition wave_specs :: "work_item list \<Rightarrow> espec list" where
  "wave_specs items =
     map (\<lambda>(f, xs). (fst (hd xs))\<lparr>es_properties := map snd xs\<rparr>) (grouped (\<lambda>(s, p). es_function s) items)"

record 'st wave_run =
  wr_statements :: "'st list"
  wr_skipped :: "work_item list"
  wr_batches :: "work_item list list"
  wr_spent :: real

text \<open>
  The formalization is a parameter: from the number of the wave and its specifications to statements
  and the cost of its calls, which the meter adds up.
\<close>

function waves ::
    "nat \<Rightarrow> real option \<Rightarrow> (nat \<Rightarrow> espec list \<Rightarrow> 'st list \<times> real) \<Rightarrow> nat \<Rightarrow> real \<Rightarrow> work_item list \<Rightarrow> 'st wave_run" where
  "waves wave budget formalize i spent queue =
     (if queue = [] then \<lparr>wr_statements = [], wr_skipped = [], wr_batches = [], wr_spent = spent\<rparr>
      else if (case budget of None \<Rightarrow> False | Some b \<Rightarrow> b \<le> spent)
      then \<lparr>wr_statements = [], wr_skipped = queue, wr_batches = [], wr_spent = spent\<rparr>
      else let items = List.take wave queue; (sts, cost) = formalize i (wave_specs items);
               r = waves wave budget formalize (Suc i) (spent + cost) (drop (max 1 wave) queue)
           in r\<lparr>wr_statements := sts @ wr_statements r, wr_batches := items # wr_batches r\<rparr>)"
  by pat_completeness auto
termination
  by (relation "measure (\<lambda>(_, _, _, _, _, queue). length queue)") (auto simp: Suc_diff_Suc)

declare waves.simps [simp del]

definition formalize_within_budget ::
    "nat \<Rightarrow> real option \<Rightarrow> (nat \<Rightarrow> espec list \<Rightarrow> 'st list \<times> real) \<Rightarrow> espec list \<Rightarrow> plan_row list \<Rightarrow> 'st wave_run" where
  "formalize_within_budget wave budget formalize specs rows = waves wave budget formalize 0 0 (work_queue specs rows)"

section \<open>Groups are components\<close>

definition edges :: "(nat \<Rightarrow> nat \<Rightarrow> bool) \<Rightarrow> nat \<Rightarrow> (nat \<times> nat) set" where
  "edges r n = {(k, j). k < n \<and> j < n \<and> r k j}"

lemma grow_component:
  "set todo \<subseteq> set grp \<Longrightarrow> set grp \<subseteq> {0..<n} \<Longrightarrow> distinct grp \<Longrightarrow> edges r n `` (set grp - set todo) \<subseteq> set grp \<Longrightarrow>
   set (grow r n grp todo) = (edges r n)\<^sup>* `` set grp \<and> distinct (grow r n grp todo)"
proof (induction r n grp todo rule: grow.induct)
  case (1 r n grp)
  then have "(edges r n)\<^sup>* `` set grp = set grp" by (intro Image_closed_trancl) simp
  with 1 show ?case by simp
next
  case (2 r n grp k todo)
  define new where new: "new = filter (\<lambda>j. j \<notin> set grp \<and> r k j) [0..<n]"
  have k: "k \<in> set grp" "k < n" using 2(2,3) by auto
  have set_new: "set new = {j. j < n \<and> j \<notin> set grp \<and> r k j}" by (auto simp: new)
  have "set (grow r n (grp @ new) (rev new @ todo)) = (edges r n)\<^sup>* `` set (grp @ new) \<and> distinct (grow r n (grp @ new) (rev new @ todo))"
  proof (rule 2(1) [OF new])
    show "set (rev new @ todo) \<subseteq> set (grp @ new)" using 2(2) by auto
    show "set (grp @ new) \<subseteq> {0..<n}" using 2(3) by (auto simp: set_new)
    show "distinct (grp @ new)" using 2(4) by (auto simp: new)
    show "edges r n `` (set (grp @ new) - set (rev new @ todo)) \<subseteq> set (grp @ new)"
    proof
      fix j
      assume "j \<in> edges r n `` (set (grp @ new) - set (rev new @ todo))"
      then obtain i where i: "(i, j) \<in> edges r n" "i \<in> set grp" "i \<notin> set todo" by auto
      show "j \<in> set (grp @ new)"
      proof (cases "i = k")
        case True
        with i(1) show ?thesis by (auto simp: edges_def set_new)
      next
        case False
        with i 2(5) show ?thesis by auto
      qed
    qed
  qed
  moreover have "(edges r n)\<^sup>* `` set (grp @ new) = (edges r n)\<^sup>* `` set grp"
  proof -
    have "set new \<subseteq> edges r n `` set grp" using k by (auto simp: set_new edges_def)
    then have "(edges r n)\<^sup>* `` set new \<subseteq> (edges r n)\<^sup>* `` set grp" by (auto intro: converse_rtrancl_into_rtrancl)
    then show ?thesis by auto
  qed
  moreover have "grow r n grp (k # todo) = grow r n (grp @ new) (rev new @ todo)" by (simp add: new Let_def)
  ultimately show ?case by simp
qed

lemma grow_one: "i < n \<Longrightarrow> set (grow r n [i] [i]) = (edges r n)\<^sup>* `` {i} \<and> distinct (grow r n [i] [i])"
  using grow_component [of "[i]" "[i]" n r] by simp

lemma one_component:
  assumes "i < n"
  shows "1 < length (grow r n [i] [i]) \<longleftrightarrow> (edges r n)\<^sup>* `` {i} \<noteq> {i}"
proof -
  note g = grow_one [OF assms, of r]
  then have len: "length (grow r n [i] [i]) = card ((edges r n)\<^sup>* `` {i})" by (metis distinct_card)
  have fin: "finite ((edges r n)\<^sup>* `` {i})" using g by (metis finite_set)
  have "i \<in> (edges r n)\<^sup>* `` {i}" by simp
  with fin show ?thesis unfolding len by (metis card_1_singletonE card_Suc_eq is_singletonI is_singleton_altdef less_irrefl_nat nat_neq_iff
      One_nat_def card_gt_0_iff empty_iff less_one singletonD)
qed

text \<open>Over a symmetric relation, components are equal or disjoint.\<close>

lemma component_eq:
  assumes "sym e" and "j \<in> e\<^sup>* `` {i}"
  shows "e\<^sup>* `` {j} = e\<^sup>* `` {i}"
proof -
  have "(i, j) \<in> e\<^sup>*" using assms(2) by simp
  moreover from this have "(j, i) \<in> e\<^sup>*" using assms(1) by (metis sym_rtrancl symD)
  ultimately show ?thesis by (auto intro: rtrancl_trans)
qed

lemma groups_from_components:
  assumes "sym (edges r n)"
  shows "set is \<subseteq> {0..<n} \<Longrightarrow> (edges r n)\<^sup>* `` set seen \<subseteq> set seen \<Longrightarrow>
    set ` set (groups_from r n seen is) = (\<lambda>i. (edges r n)\<^sup>* `` {i}) ` {i \<in> set is. i \<notin> set seen \<and> (edges r n)\<^sup>* `` {i} \<noteq> {i}} \<and>
    (\<forall>g \<in> set (groups_from r n seen is). sorted g \<and> distinct g \<and> set g \<inter> set seen = {}) \<and> distinct (groups_from r n seen is)"
proof (induction "is" arbitrary: seen)
  case Nil
  then show ?case by simp
next
  case (Cons i js)
  let ?e = "edges r n" and ?c = "grow r n [i] [i]"
  have i: "i < n" using Cons.prems(1) by simp
  note g = grow_one [OF i, of r]
  show ?case
  proof (cases "i \<in> set seen \<or> ?e\<^sup>* `` {i} = {i}")
    case True
    then have "groups_from r n seen (i # js) = groups_from r n seen js" using one_component [OF i, of r] by (auto simp: Let_def)
    moreover have "{x \<in> set (i # js). x \<notin> set seen \<and> ?e\<^sup>* `` {x} \<noteq> {x}} = {x \<in> set js. x \<notin> set seen \<and> ?e\<^sup>* `` {x} \<noteq> {x}}"
      using True by auto
    ultimately show ?thesis using Cons.IH [OF _ Cons.prems(2)] Cons.prems(1) by simp
  next
    case False
    then have eq: "groups_from r n seen (i # js) = sort ?c # groups_from r n (seen @ ?c) js"
      using one_component [OF i, of r] by (simp add: Let_def)
    have closed: "?e\<^sup>* `` set (seen @ ?c) \<subseteq> set (seen @ ?c)"
    proof -
      have "?e\<^sup>* `` (?e\<^sup>* `` {i}) \<subseteq> ?e\<^sup>* `` {i}" by (auto intro: rtrancl_trans)
      with Cons.prems(2) g show ?thesis by auto
    qed
    have away: "?e\<^sup>* `` {i} \<inter> set seen = {}"
    proof (rule ccontr)
      assume "?e\<^sup>* `` {i} \<inter> set seen \<noteq> {}"
      then obtain x where x: "x \<in> ?e\<^sup>* `` {i}" "x \<in> set seen" by auto
      have "i \<in> ?e\<^sup>* `` {x}" using component_eq [OF assms x(1)] by simp
      with x(2) Cons.prems(2) False show False by auto
    qed
    have js: "set js \<subseteq> {0..<n}" using Cons.prems(1) by simp
    note IH = Cons.IH [OF js closed]
    have "(\<lambda>i. ?e\<^sup>* `` {i}) ` {x \<in> set (i # js). x \<notin> set seen \<and> ?e\<^sup>* `` {x} \<noteq> {x}} =
        insert (?e\<^sup>* `` {i}) ((\<lambda>i. ?e\<^sup>* `` {i}) ` {x \<in> set js. x \<notin> set (seen @ ?c) \<and> ?e\<^sup>* `` {x} \<noteq> {x}})"
      (is "?L = ?R")
    proof
      show "?L \<subseteq> ?R"
      proof
        fix C
        assume "C \<in> ?L"
        then obtain x where x: "x \<in> set (i # js)" "x \<notin> set seen" "?e\<^sup>* `` {x} \<noteq> {x}" "C = ?e\<^sup>* `` {x}" by auto
        show "C \<in> ?R"
        proof (cases "x \<in> ?e\<^sup>* `` {i}")
          case True
          then show ?thesis using component_eq [OF assms True] x(4) by simp
        next
          case False
          then have "x \<in> set js" "x \<notin> set (seen @ ?c)" using x g by auto
          with x show ?thesis by blast
        qed
      qed
      show "?R \<subseteq> ?L" using False by auto
    qed
    moreover have "set (sort ?c) = ?e\<^sup>* `` {i}" using g by simp
    moreover have "sort ?c \<notin> set (groups_from r n (seen @ ?c) js)"
    proof
      assume "sort ?c \<in> set (groups_from r n (seen @ ?c) js)"
      then have "set (sort ?c) \<inter> set (seen @ ?c) = {}" using IH by blast
      moreover have "i \<in> set ?c" using g by simp
      ultimately show False by auto
    qed
    ultimately show ?thesis using IH g away unfolding eq by auto
  qed
qed

lemma incompatible_sym: "incompatible a b = incompatible b a"
  by (auto simp: incompatible_def clash_def split: option.splits)

lemma rival_groups_facts:
  defines "rival props \<equiv> edges (\<lambda>i j. incompatible (props ! i) (props ! j)) (length props)"
  shows "set ` set (nl_rival_groups props) = {(rival props)\<^sup>* `` {i} | i. i < length props \<and> (rival props)\<^sup>* `` {i} \<noteq> {i}} \<and>
    distinct (nl_rival_groups props) \<and> list_all (\<lambda>g. sorted g \<and> distinct g) (nl_rival_groups props)"
proof -
  have "sym (edges (\<lambda>i j. incompatible (props ! i) (props ! j)) (length props))"
    by (auto simp: sym_def edges_def incompatible_sym)
  from groups_from_components [OF this, of "[0..<length props]" "[]"] show ?thesis
    unfolding rival_def nl_rival_groups_def list_all_iff by (auto simp: image_def)
qed

text \<open>
  C29. The groups of rivals are the connected components of incompatibility. Each group lists, in order
  and once, the positions of the properties that are linked by incompatible pairs; every component
  with at least two properties is listed exactly once, and properties without a rival are in no group.
\<close>

theorem nl_rival_groups_components:
  defines "rival props \<equiv> edges (\<lambda>i j. incompatible (props ! i) (props ! j)) (length props)"
  shows "set ` set (nl_rival_groups props) = {(rival props)\<^sup>* `` {i} | i. i < length props \<and> (rival props)\<^sup>* `` {i} \<noteq> {i}} \<and>
    distinct (nl_rival_groups props) \<and> list_all (\<lambda>g. sorted g \<and> distinct g) (nl_rival_groups props)"
  unfolding rival_def by (rule rival_groups_facts)

section \<open>The allocation of the budget\<close>

lemma apfst_eq: "apfst f p = (a, b) \<longleftrightarrow> (\<exists>a'. p = (a', b) \<and> a = f a')"
  by (cases p) auto

lemma capped_update [simp]:
  "capped cap (r\<lparr>sr_order := i\<rparr>) = capped cap r" "capped cap (r\<lparr>sr_skip := s\<rparr>) = capped cap r"
  by (simp_all add: capped_def split: option.split)

lemma admit_step:
  assumes "admit budget cap i planned stopped (r # rs) = (ps, x)"
  obtains (excluded) ps' where "capped cap r" "admit budget cap (Suc i) planned stopped rs = (ps', x)"
      "ps = r\<lparr>sr_order := i, sr_skip := Some (Over_cap cap (Suc (sr_rank r)))\<rparr> # ps'"
    | (over) ps' where "\<not> capped cap r" "stopped \<or> too_much budget (planned + sr_cost r)" "admit budget cap (Suc i) planned True rs = (ps', x)"
      "ps = r\<lparr>sr_order := i, sr_skip := Some (Over_budget (planned + sr_cost r) budget (sr_utility r))\<rparr> # ps'"
    | (fits) ps' where "\<not> capped cap r" "\<not> stopped" "\<not> too_much budget (planned + sr_cost r)"
      "admit budget cap (Suc i) (planned + sr_cost r) False rs = (ps', x)" "ps = r\<lparr>sr_order := i\<rparr> # ps'"
proof (cases "capped cap r")
  case True
  with assms that(1) show thesis by (auto simp: Let_def apfst_eq)
next
  case False
  with assms that(2,3) show thesis by (cases "stopped \<or> too_much budget (planned + sr_cost r)") (auto simp: Let_def apfst_eq)
qed

declare admit.simps(2) [simp del]

lemma admit_stopped:
  "admit budget cap i planned True rs = (ps, x) \<Longrightarrow> x = planned \<and> length ps = length rs \<and> (\<forall>p \<in> set ps. \<not> sr_selected p)"
proof (induction rs arbitrary: i ps x)
  case (Cons r rs)
  from Cons.prems show ?case
    by (cases rule: admit_step) (use Cons.IH in \<open>fastforce simp: sr_selected_def\<close>)+
qed simp

definition kept_row :: "plan_row \<Rightarrow> plan_row \<Rightarrow> bool" where
  "kept_row p r \<longleftrightarrow> p = r\<lparr>sr_order := sr_order p, sr_skip := sr_skip p\<rparr>"

lemma admit_kept:
  "admit budget cap i planned stopped rs = (ps, x) \<Longrightarrow> map sr_order ps = [i..<i + length rs] \<and> list_all2 kept_row ps rs"
proof (induction rs arbitrary: i planned stopped ps x)
  case (Cons r rs)
  from Cons.prems obtain p ps' planned' stopped' where "admit budget cap (Suc i) planned' stopped' rs = (ps', x)"
    "ps = p # ps'" "kept_row p r" "sr_order p = i"
    by (cases rule: admit_step) (force simp: kept_row_def)+
  with Cons.IH have "map sr_order ps' = [Suc i..<Suc i + length rs]" "list_all2 kept_row ps' rs" by blast+
  moreover have "[i..<i + length (r # rs)] = i # [Suc i..<Suc i + length rs]" by (subst upt_conv_Cons) simp_all
  ultimately show ?case using \<open>ps = p # ps'\<close> \<open>kept_row p r\<close> \<open>sr_order p = i\<close> by simp
qed simp

text \<open>Up to a cut every row is taken unless the cap excludes it; the row at the cut does not fit.\<close>

definition cut_at :: "real option \<Rightarrow> int option \<Rightarrow> real \<Rightarrow> real \<Rightarrow> plan_row list \<Rightarrow> nat \<Rightarrow> bool" where
  "cut_at budget cap cost spent ps c \<longleftrightarrow>
     c \<le> length ps \<and> (\<forall>k < length ps. sr_selected (ps ! k) \<longleftrightarrow> k < c \<and> \<not> capped cap (ps ! k)) \<and>
     (c < length ps \<longrightarrow> \<not> capped cap (ps ! c) \<and> too_much budget (spent + cost))"

lemma cut_at_Cons:
  assumes "cut_at budget cap cost spent ps c" and "sr_selected p \<longleftrightarrow> \<not> capped cap p"
  shows "cut_at budget cap cost spent (p # ps) (Suc c)"
  using assms by (auto simp: cut_at_def nth_Cons split: nat.split)

lemma capped_kept: "kept_row p r \<Longrightarrow> capped cap p = capped cap r"
  unfolding kept_row_def by (metis capped_update)

lemma admit_greedy:
  "admit budget cap i planned False rs = (ps, x) \<Longrightarrow> \<forall>r \<in> set rs. sr_cost r = cost \<and> sr_skip r = None \<Longrightarrow>
   x = planned + cost * of_nat (length (filter sr_selected ps)) \<and> (filter sr_selected ps \<noteq> [] \<longrightarrow> \<not> too_much budget x) \<and>
   (\<exists>c. cut_at budget cap cost x ps c)"
proof (induction rs arbitrary: i planned ps x)
  case Nil
  then show ?case by (simp add: cut_at_def)
next
  case (Cons r rs)
  have r: "sr_cost r = cost" "sr_skip r = None" and rs: "\<forall>r \<in> set rs. sr_cost r = cost \<and> sr_skip r = None"
    using Cons.prems(2) by simp_all
  from Cons.prems(1) show ?case
  proof (cases rule: admit_step)
    case (excluded ps')
    let ?p = "r\<lparr>sr_order := i, sr_skip := Some (Over_cap cap (Suc (sr_rank r)))\<rparr>"
    have p: "\<not> sr_selected ?p" "capped cap ?p" using excluded(1) by (simp_all add: sr_selected_def)
    note IH = Cons.IH [OF excluded(2) rs]
    then obtain c where "cut_at budget cap cost x ps' c" by blast
    then have "cut_at budget cap cost x ps (Suc c)" unfolding excluded(3) by (rule cut_at_Cons) (use p in simp)
    with IH p excluded(3) show ?thesis by auto
  next
    case (over ps')
    let ?p = "r\<lparr>sr_order := i, sr_skip := Some (Over_budget (planned + sr_cost r) budget (sr_utility r))\<rparr>"
    from admit_stopped [OF over(3)] have stop: "x = planned" "\<forall>p \<in> set ps'. \<not> sr_selected p" by auto
    have p: "\<not> sr_selected ?p" "\<not> capped cap ?p" using over(1) by (simp_all add: sr_selected_def)
    with stop over(4) have none: "filter sr_selected ps = []" "\<forall>k < length ps. \<not> sr_selected (ps ! k)"
      by (auto simp: filter_empty_conv nth_Cons split: nat.splits)
    moreover have "cut_at budget cap cost x ps 0" using over(2,4) p(2) none(2) r(1) stop(1) by (simp add: cut_at_def)
    ultimately show ?thesis using stop(1) by auto
  next
    case (fits ps')
    have p: "sr_selected (r\<lparr>sr_order := i\<rparr>)" "\<not> capped cap (r\<lparr>sr_order := i\<rparr>)"
      using r(2) fits(1) by (simp_all add: sr_selected_def)
    note IH = Cons.IH [OF fits(4) rs]
    then obtain c where "cut_at budget cap cost x ps' c" by blast
    then have "cut_at budget cap cost x ps (Suc c)" unfolding fits(5) by (rule cut_at_Cons) (use p in simp)
    moreover have "\<not> too_much budget x"
    proof (cases "filter sr_selected ps' = []")
      case True
      then show ?thesis using IH fits(3) r(1) by simp
    qed (use IH in blast)
    moreover have "x = planned + cost * of_nat (length (filter sr_selected ps))" using IH p fits(5) r(1) by (simp add: algebra_simps)
    ultimately show ?thesis by blast
  qed
qed

lemma grouped_distinct: "distinct (map fst (grouped f vs))"
  by (induction vs rule: rev_induct) (simp_all add: grouped_def add_to_group_def distinct_update)

lemma grouped_lookup: "map_of (grouped f vs) k = (if filter (\<lambda>v. f v = k) vs = [] then None else Some (filter (\<lambda>v. f v = k) vs))"
proof (induction vs arbitrary: k rule: rev_induct)
  case (snoc v vs)
  have "grouped f (vs @ [v]) = add_to_group (f v) v (grouped f vs)" by (simp add: grouped_def)
  then have "map_of (grouped f (vs @ [v])) k =
      (if f v = k then Some ((case map_of (grouped f vs) (f v) of None \<Rightarrow> [] | Some vs \<Rightarrow> vs) @ [v]) else map_of (grouped f vs) k)"
    by (simp add: add_to_group_def update_conv')
  with snoc show ?case by (simp split: option.split)
qed (simp add: grouped_def)

lemma grouped_member: "(k, xs) \<in> set (grouped f vs) \<longleftrightarrow> xs \<noteq> [] \<and> xs = filter (\<lambda>v. f v = k) vs"
proof -
  have "(k, xs) \<in> set (grouped f vs) \<longleftrightarrow> map_of (grouped f vs) k = Some xs" using grouped_distinct by (metis map_of_eq_Some_iff)
  then show ?thesis by (auto simp: grouped_lookup split: if_split_asm)
qed

lemma numbered_member: "(j, k) \<in> set (map (\<lambda>(rank, i, r). (i, rank)) (enumerate 0 items)) \<longleftrightarrow> k < length items \<and> fst (items ! k) = j"
proof -
  have "map (\<lambda>(rank, i, r). (i, rank)) (enumerate 0 items) = map (\<lambda>k. (fst (items ! k), k)) [0..<length items]"
    by (intro nth_equalityI) (simp_all add: nth_enumerate_eq case_prod_unfold)
  then show ?thesis by auto
qed

lemma ranks_position:
  assumes "i < length rows"
  obtains items k where "map_of (ranks rows) i = Some k" "k < length items" "items ! k = (i, rows ! i)"
    and "items = filter (\<lambda>v. (case v of (i, r) \<Rightarrow> sr_function r) = sr_function (rows ! i)) (sort_key (\<lambda>(i, r). - sr_utility r) (enumerate 0 rows))"
proof -
  let ?s = "sort_key (\<lambda>(i, r). - sr_utility r) (enumerate 0 rows)"
  let ?f = "\<lambda>(i, r). sr_function r"
  let ?in = "\<lambda>g. filter (\<lambda>v. ?f v = g) ?s"
  have mem: "(j, r) \<in> set ?s \<longleftrightarrow> j < length rows \<and> r = rows ! j" for j r
    by (auto simp: in_set_enumerate_eq)
  have in_ranks: "(j, k) \<in> set (ranks rows) \<longleftrightarrow> (\<exists>g. k < length (?in g) \<and> fst (?in g ! k) = j)" for j k
  proof -
    have "(j, k) \<in> set (ranks rows) \<longleftrightarrow> (\<exists>g items. (g, items) \<in> set (grouped ?f ?s) \<and> k < length items \<and> fst (items ! k) = j)"
      unfolding ranks_def set_concat set_map numbered_member [symmetric] by (simp add: Bex_def split_paired_Ex)
    then show ?thesis unfolding grouped_member by (metis less_nat_zero_code list.size(3))
  qed
  have "(i, rows ! i) \<in> set (?in (sr_function (rows ! i)))" using assms mem by simp
  then obtain k0 where "k0 < length (?in (sr_function (rows ! i)))" "?in (sr_function (rows ! i)) ! k0 = (i, rows ! i)"
    by (metis in_set_conv_nth)
  then have "(i, k0) \<in> set (ranks rows)" unfolding in_ranks by (intro exI [of _ "sr_function (rows ! i)"]) simp
  then obtain k where k: "map_of (ranks rows) i = Some k" by (metis weak_map_of_SomeI)
  from map_of_SomeD [OF this] obtain g where g: "k < length (?in g)" "fst (?in g ! k) = i" unfolding in_ranks by blast
  then obtain r where at: "?in g ! k = (i, r)" by (metis prod.collapse)
  with g(1) have "(i, r) \<in> set (?in g)" by (metis nth_mem)
  then have "r = rows ! i" "g = sr_function (rows ! i)" using mem by auto
  with that [OF k g(1)] at show thesis by simp
qed

lemma ranks_apart:
  assumes "i < length rows" "j < length rows" "i \<noteq> j" "sr_function (rows ! i) = sr_function (rows ! j)"
  shows "map_of (ranks rows) i \<noteq> map_of (ranks rows) j"
proof -
  from ranks_position [OF assms(1)] obtain k where k: "map_of (ranks rows) i = Some k"
    "filter (\<lambda>v. (case v of (i, r) \<Rightarrow> sr_function r) = sr_function (rows ! i)) (sort_key (\<lambda>(i, r). - sr_utility r) (enumerate 0 rows)) ! k = (i, rows ! i)"
    by metis
  from ranks_position [OF assms(2)] obtain k' where "map_of (ranks rows) j = Some k'"
    "filter (\<lambda>v. (case v of (i, r) \<Rightarrow> sr_function r) = sr_function (rows ! i)) (sort_key (\<lambda>(i, r). - sr_utility r) (enumerate 0 rows)) ! k' = (j, rows ! j)"
    unfolding assms(4) by metis
  with k assms(3) show ?thesis by auto
qed

lemma prioritized_rows:
  "mset (prioritized cost rows) = mset (map (\<lambda>(i, r). planned_row cost r (case map_of (ranks rows) i of None \<Rightarrow> 0 | Some k \<Rightarrow> k)) (enumerate 0 rows))"
  by (simp add: prioritized_def)

lemma planned_row_fields [simp]:
  "sr_cost (planned_row cost r k) = cost" "sr_skip (planned_row cost r k) = None" "sr_rank (planned_row cost r k) = k"
  "sel_row.truncate (planned_row cost r k) = r" "sr_function (planned_row cost r k) = sr_function r"
  "sr_priority (planned_row cost r k) = py_round 4 (sr_utility r * RANK_DAMPING ^ k)"
  by (cases r; simp add: planned_row_def sel_row.defs)+

lemma prioritized_same: "mset (map sel_row.truncate (prioritized cost rows)) = mset rows"
proof -
  have "map sel_row.truncate (map (\<lambda>(i, r). planned_row cost r (case map_of (ranks rows) i of None \<Rightarrow> 0 | Some k \<Rightarrow> k)) (enumerate 0 rows)) =
      map snd (enumerate 0 rows)" by (simp only: map_map) (rule map_cong, auto)
  then have "image_mset sel_row.truncate (mset (map (\<lambda>(i, r). planned_row cost r (case map_of (ranks rows) i of None \<Rightarrow> 0 | Some k \<Rightarrow> k)) (enumerate 0 rows))) =
      mset rows" by (metis map_snd_enumerate mset_map)
  then show ?thesis by (simp add: prioritized_rows)
qed

text \<open>No two rows of a function have the same rank.\<close>

lemma ranks_distinct: "distinct (map (\<lambda>r. (sr_function r, sr_rank r)) (prioritized cost rows))"
proof -
  let ?p = "\<lambda>(i, r). planned_row cost r (case map_of (ranks rows) i of None \<Rightarrow> 0 | Some k \<Rightarrow> k)"
  have "map (\<lambda>r. (sr_function r, sr_rank r)) (map ?p (enumerate 0 rows)) =
      map (\<lambda>i. (sr_function (rows ! i), case map_of (ranks rows) i of None \<Rightarrow> 0 | Some k \<Rightarrow> k)) [0..<length rows]"
    by (intro nth_equalityI) (simp_all add: nth_enumerate_eq)
  moreover have "distinct (map (\<lambda>i. (sr_function (rows ! i), case map_of (ranks rows) i of None \<Rightarrow> 0 | Some k \<Rightarrow> k)) [0..<length rows])"
  proof (unfold distinct_map, intro conjI inj_onI)
    fix i j
    assume ij: "i \<in> set [0..<length rows]" "j \<in> set [0..<length rows]"
      "(sr_function (rows ! i), case map_of (ranks rows) i of None \<Rightarrow> 0 | Some k \<Rightarrow> k) =
       (sr_function (rows ! j), case map_of (ranks rows) j of None \<Rightarrow> 0 | Some k \<Rightarrow> k)"
    then obtain k k' where "map_of (ranks rows) i = Some k" "map_of (ranks rows) j = Some k'"
      using ranks_position by (metis atLeastLessThan_iff set_upt)
    with ij ranks_apart [of i rows j] show "i = j" by auto
  qed simp
  ultimately have "distinct (map (\<lambda>r. (sr_function r, sr_rank r)) (map ?p (enumerate 0 rows)))" by simp
  moreover have "mset (map (\<lambda>r. (sr_function r, sr_rank r)) (prioritized cost rows)) =
      mset (map (\<lambda>r. (sr_function r, sr_rank r)) (map ?p (enumerate 0 rows)))" by (simp only: mset_map prioritized_rows)
  ultimately show ?thesis using mset_eq_imp_distinct_iff by blast
qed

lemma kept_fields:
  assumes "list_all2 kept_row ps rs"
  shows "map sel_row.truncate ps = map sel_row.truncate rs"
    "map (\<lambda>r. (sr_function r, sr_rank r)) ps = map (\<lambda>r. (sr_function r, sr_rank r)) rs"
    "map (\<lambda>r. (- sr_priority r, sr_function r, sr_property r)) ps = map (\<lambda>r. (- sr_priority r, sr_function r, sr_property r)) rs"
proof -
  have "sel_row.truncate p = sel_row.truncate r \<and> sr_rank p = sr_rank r \<and> sr_function p = sr_function r \<and>
      sr_priority p = sr_priority r \<and> sr_property p = sr_property r" if "kept_row p r" for p r
    using that by (cases p; cases r) (simp add: kept_row_def sel_row.defs)
  with assms show "map sel_row.truncate ps = map sel_row.truncate rs"
    "map (\<lambda>r. (sr_function r, sr_rank r)) ps = map (\<lambda>r. (sr_function r, sr_rank r)) rs"
    "map (\<lambda>r. (- sr_priority r, sr_function r, sr_property r)) ps = map (\<lambda>r. (- sr_priority r, sr_function r, sr_property r)) rs"
    by (induction ps rs rule: list_all2_induct) auto
qed

lemma cap_count:
  assumes "distinct (map (\<lambda>r. (sr_function r, sr_rank r)) ps)" and "\<forall>p \<in> set ps. sr_selected p \<longrightarrow> \<not> capped (Some m) p"
  shows "length (filter (\<lambda>p. sr_selected p \<and> \<not> sr_external p \<and> sr_function p = f) ps) \<le> nat m"
proof -
  let ?s = "filter (\<lambda>p. sr_selected p \<and> \<not> sr_external p \<and> sr_function p = f) ps"
  have "inj_on sr_rank (set ?s)" using assms(1) by (auto simp: distinct_map inj_on_def)
  moreover have "distinct ?s" using assms(1) by (simp add: distinct_map)
  moreover have "sr_rank ` set ?s \<subseteq> {0..<nat m}" using assms(2) by (fastforce simp: capped_def)
  ultimately have "card (sr_rank ` set ?s) = length ?s" by (simp only: card_image distinct_card)
  moreover have "card (sr_rank ` set ?s) \<le> card {0..<nat m}" using \<open>sr_rank ` set ?s \<subseteq> {0..<nat m}\<close> by (intro card_mono) simp_all
  ultimately show ?thesis by simp
qed

lemma allocation_facts:
  assumes "allocate rows budget cap cost = (plan, planned)"
  defines "spent \<equiv> cost * of_nat (length (filter sr_selected plan))"
  shows "mset (map sel_row.truncate plan) = mset rows \<and> map sr_order plan = [0..<length rows] \<and>
    sorted (map (\<lambda>r. (- sr_priority r, sr_function r, sr_property r)) plan) \<and> planned = py_round 4 spent \<and>
    (\<exists>c. cut_at budget cap cost spent plan c) \<and> (filter sr_selected plan \<noteq> [] \<longrightarrow> \<not> too_much budget spent) \<and>
    (\<forall>m f. cap = Some m \<longrightarrow> length (filter (\<lambda>p. sr_selected p \<and> \<not> sr_external p \<and> sr_function p = f) plan) \<le> nat m)"
proof -
  let ?rows = "prioritized cost rows"
  from assms(1) obtain x where run: "admit budget cap 0 0 False ?rows = (plan, x)" and planned: "planned = py_round 4 x"
    by (cases "admit budget cap 0 0 False ?rows") (auto simp: allocate_def)
  have "set ?rows = (\<lambda>(i, r). planned_row cost r (case map_of (ranks rows) i of None \<Rightarrow> 0 | Some k \<Rightarrow> k)) ` set (enumerate 0 rows)"
    by (simp add: prioritized_def)
  then have fresh: "\<forall>r \<in> set ?rows. sr_cost r = cost \<and> sr_skip r = None" by auto
  from admit_greedy [OF run fresh] have x: "x = spent" and fit: "filter sr_selected plan \<noteq> [] \<longrightarrow> \<not> too_much budget spent"
    and cut: "\<exists>c. cut_at budget cap cost spent plan c" by (auto simp: spent_def)
  from admit_kept [OF run] have order: "map sr_order plan = [0..<length ?rows]" and kept: "list_all2 kept_row plan ?rows" by auto
  note same = kept_fields [OF kept]
  have "length ?rows = length rows" by (simp add: prioritized_def)
  moreover have "mset (map sel_row.truncate plan) = mset rows" unfolding same(1) by (rule prioritized_same)
  moreover have "sorted (map (\<lambda>r. (- sr_priority r, sr_function r, sr_property r)) plan)"
    unfolding same(3) prioritized_def by (rule sorted_sort_key)
  moreover have "length (filter (\<lambda>p. sr_selected p \<and> \<not> sr_external p \<and> sr_function p = f) plan) \<le> nat m" if "cap = Some m" for m f
  proof (rule cap_count)
    show "distinct (map (\<lambda>r. (sr_function r, sr_rank r)) plan)" unfolding same(2) by (rule ranks_distinct)
    show "\<forall>p \<in> set plan. sr_selected p \<longrightarrow> \<not> capped (Some m) p"
      using cut that by (metis cut_at_def in_set_conv_nth)
  qed
  ultimately show ?thesis using order planned x cut fit by auto
qed

text \<open>
  C30. The budget is allocated greedily in priority order. The rows are those given, numbered in the order
  of priority, function and property. There is a cut: before it every row is selected unless the cap of
  its function excludes it, at and after it none is, and the row at the cut did not fit. So a cheaper or
  less useful property never passes one that did not fit; what is selected fits the budget, the sum
  is the planned amount, and at most \<open>cap\<close> properties of a function without outside evidence are selected.
\<close>

theorem allocation_greedy:
  assumes "allocate rows budget cap cost = (plan, planned)"
  defines "spent \<equiv> cost * of_nat (length (filter sr_selected plan))"
  shows "mset (map sel_row.truncate plan) = mset rows \<and> map sr_order plan = [0..<length rows] \<and>
    sorted (map (\<lambda>r. (- sr_priority r, sr_function r, sr_property r)) plan) \<and> planned = py_round 4 spent \<and>
    (\<exists>c. cut_at budget cap cost spent plan c) \<and> (filter sr_selected plan \<noteq> [] \<longrightarrow> \<not> too_much budget spent) \<and>
    (\<forall>m f. cap = Some m \<longrightarrow> length (filter (\<lambda>p. sr_selected p \<and> \<not> sr_external p \<and> sr_function p = f) plan) \<le> nat m)"
  using allocation_facts [OF assms(1)] unfolding spent_def .

definition plain_row :: "string \<Rightarrow> real \<Rightarrow> sel_row" where
  "plain_row pid u =
     \<lparr>sr_function = ''f'', sr_property = pid, sr_statement = statement_id ''f'' pid, sr_text = ''f(1) returns 2'', sr_kind = ''example'',
      sr_evidence = [], sr_external = False, sr_label = ''USEFUL_PROPERTY'', sr_probabilities = [(''USEFUL_PROPERTY'', 1)],
      sr_decision = ''D_select_0001_PROPERTY_JUDGMENT'', sr_select = 1, sr_intent = None, sr_security = False, sr_utility = u\<rparr>"

lemma allocation_greedy_witness:
  "\<exists>plan planned. allocate [plain_row ''p1'' (5 / 10), plain_row ''p2'' (4 / 10)] (Some (1 / 10)) None (8 / 100) = (plan, planned) \<and>
     length plan = 2 \<and> sr_selected (plan ! 0) \<and> \<not> sr_selected (plan ! 1)"
proof -
  let ?rows = "[plain_row ''p1'' (5 / 10), plain_row ''p2'' (4 / 10)]"
  obtain plan planned where run: "allocate ?rows (Some (1 / 10)) None (8 / 100) = (plan, planned)" by (metis prod.exhaust)
  let ?n = "length (filter sr_selected plan)"
  note A = allocation_greedy [OF run]
  have "length (map sr_order plan) = 2" using A by simp
  then have len: "length plan = 2" by simp
  then obtain p1 p2 where plan: "plan = [p1, p2]" by (auto simp: numeral_2_eq_2 length_Suc_conv)
  from A obtain c where c: "cut_at (Some (1 / 10)) None (8 / 100) (8 / 100 * ?n) plan c" by blast
  have le: "?n \<le> 1" using A by (cases "filter sr_selected plan = []") (auto simp: too_much_def)
  have "sr_selected p1 \<longleftrightarrow> 0 < c" "sr_selected p2 \<longleftrightarrow> 1 < c" using c by (auto simp: cut_at_def capped_def plan)
  moreover have "c \<noteq> 0"
  proof
    assume "c = 0"
    with \<open>sr_selected p1 \<longleftrightarrow> 0 < c\<close> \<open>sr_selected p2 \<longleftrightarrow> 1 < c\<close> have "?n = 0" by (simp add: plan)
    with c \<open>c = 0\<close> show False by (simp add: cut_at_def too_much_def plan)
  qed
  ultimately have "sr_selected p1" "\<not> sr_selected p2" using le by (auto simp: plan)
  with run len show ?thesis by (auto simp: plan)
qed


text \<open>
  Identifiers of statements are not unique. Two functions whose names differ only in characters that
  are not letters or digits share every statement identifier, and so do a name that starts with
  a digit and the same name after \<open>f_\<close>; checks, proofs, skips and utilities are kept under this identifier.
\<close>

theorem statement_ids_collide:
  "statement_id ''pkg.mod.f'' p = statement_id ''pkg_mod_f'' p \<and> statement_id ''f'' ''1x'' = statement_id ''f'' ''f_1x''"
proof -
  have "nl_sanitize ''pkg.mod.f'' = nl_sanitize ''pkg_mod_f''" "nl_sanitize ''1x'' = nl_sanitize ''f_1x''" by code_simp+
  then show ?thesis by (simp add: statement_id_def)
qed

section \<open>Waves\<close>

lemma waves_spent:
  assumes "0 < wave" and "waves wave budget formalize i spent queue = r"
  defines "cost k \<equiv> snd (formalize (i + k) (wave_specs (wr_batches r ! k)))"
  shows "concat (wr_batches r) @ wr_skipped r = queue \<and> wr_spent r = spent + (\<Sum>k<length (wr_batches r). cost k) \<and>
    (\<forall>b. budget = Some b \<longrightarrow> (\<forall>n<length (wr_batches r). spent + (\<Sum>k<n. cost k) < b) \<and> (wr_skipped r \<noteq> [] \<longrightarrow> b \<le> wr_spent r)) \<and>
    (budget = None \<longrightarrow> wr_skipped r = []) \<and> (\<forall>g \<in> set (wr_batches r). g \<noteq> [] \<and> length g \<le> wave)"
  using assms(1,2) unfolding cost_def
proof (induction wave budget formalize i spent queue arbitrary: r rule: waves.induct)
  case (1 wave budget formalize i spent queue)
  consider "queue = []" | "queue \<noteq> []" "(case budget of None \<Rightarrow> False | Some b \<Rightarrow> b \<le> spent)"
    | "queue \<noteq> []" "\<not> (case budget of None \<Rightarrow> False | Some b \<Rightarrow> b \<le> spent)" by blast
  then show ?case
  proof cases
    case 1
    with \<open>waves wave budget formalize i spent queue = r\<close> have "r = \<lparr>wr_statements = [], wr_skipped = [], wr_batches = [], wr_spent = spent\<rparr>"
      by (simp add: waves.simps [of wave budget formalize i spent "[]"])
    with 1 show ?thesis by simp
  next
    case 2
    with \<open>waves wave budget formalize i spent queue = r\<close> have "r = \<lparr>wr_statements = [], wr_skipped = queue, wr_batches = [], wr_spent = spent\<rparr>"
      by (simp add: waves.simps [of wave budget formalize i spent queue])
    with 2 show ?thesis by (auto split: option.splits)
  next
    case 3
    obtain sts x where f: "formalize i (wave_specs (List.take wave queue)) = (sts, x)" by (cases "formalize i (wave_specs (List.take wave queue))") auto
    define r' where r': "r' = waves wave budget formalize (Suc i) (spent + x) (drop (max 1 wave) queue)"
    from 1(3) 3 f have r: "r = r'\<lparr>wr_statements := sts @ wr_statements r', wr_batches := List.take wave queue # wr_batches r'\<rparr>"
      by (subst (asm) waves.simps) (simp add: r' Let_def)
    have max: "max 1 wave = wave" using 1(2) by (simp add: max_def)
    have IH: "concat (wr_batches r') @ wr_skipped r' = drop wave queue"
      "wr_spent r' = (spent + x) + (\<Sum>k<length (wr_batches r'). snd (formalize (Suc i + k) (wave_specs (wr_batches r' ! k))))"
      "\<And>b. budget = Some b \<Longrightarrow> (\<forall>n<length (wr_batches r'). (spent + x) + (\<Sum>k<n. snd (formalize (Suc i + k) (wave_specs (wr_batches r' ! k)))) < b) \<and>
         (wr_skipped r' \<noteq> [] \<longrightarrow> b \<le> wr_spent r')"
      "budget = None \<Longrightarrow> wr_skipped r' = []" "\<forall>g \<in> set (wr_batches r'). g \<noteq> [] \<and> length g \<le> wave"
      using 1(1) [OF 3 refl f [symmetric] refl 1(2) r' [symmetric]] unfolding max by blast+
    have sum: "(\<Sum>k<Suc n. snd (formalize (i + k) (wave_specs ((List.take wave queue # wr_batches r') ! k)))) =
        x + (\<Sum>k<n. snd (formalize (Suc i + k) (wave_specs (wr_batches r' ! k))))" for n
      unfolding sum.lessThan_Suc_shift by (simp add: f)
    have head: "spent < b" if "budget = Some b" for b using 3(2) that by simp
    have "spent + (\<Sum>k<n. snd (formalize (i + k) (wave_specs ((List.take wave queue # wr_batches r') ! k)))) < b"
      if "n < Suc (length (wr_batches r'))" "budget = Some b" for n b
    proof (cases n)
      case 0
      then show ?thesis using head [OF that(2)] by simp
    next
      case (Suc m)
      then show ?thesis using IH(3) [OF that(2)] that(1) unfolding Suc sum by (simp add: add.assoc)
    qed
    moreover have "List.take wave queue \<noteq> []" using 3(1) 1(2) by simp
    ultimately show ?thesis using IH unfolding r by (auto simp: sum simp del: sum.lessThan_Suc)
  qed
qed

lemma dict_of_lookup: "map_of (dict_of kvs) = map_of (rev kvs)"
  by (induction kvs rule: rev_induct) (auto simp: dict_of_def update_conv' split: prod.splits)

lemma dict_of_None: "map_of (dict_of kvs) k = None \<longleftrightarrow> k \<notin> fst ` set kvs"
  by (simp add: dict_of_lookup map_of_eq_None_iff)

definition in_rows :: "plan_row list \<Rightarrow> string \<times> string \<Rightarrow> bool" where
  "in_rows rows k \<longleftrightarrow> (\<exists>q \<in> set rows. sr_selected q \<and> (sr_function q, sr_property q) = k)"

lemma order_of_selected: "order_of (filter sr_selected rows) k \<noteq> None \<longleftrightarrow> in_rows rows k"
  by (auto simp: order_of_def dict_of_None in_rows_def image_iff)

definition spec_keys :: "espec \<Rightarrow> (string \<times> string) list" where
  "spec_keys s = map (\<lambda>p. (es_function s, ep_id p)) (es_properties s)"

lemma queue_keys: "mset (map item_key (work_queue specs rows)) = mset (filter (in_rows rows) (concat (map spec_keys specs)))"
proof -
  define ord where "ord = order_of (filter sr_selected rows)"
  define chosen where "chosen = map (\<lambda>s. s\<lparr>es_properties := chosen_props ord s\<rparr>) specs"
  have items: "mset (map item_key (concat (map (\<lambda>s. map (Pair s) (es_properties s)) ss))) = (\<Sum>s \<in># mset ss. mset (spec_keys s))" for ss
    by (induction ss) (simp_all add: spec_keys_def item_key_def o_def)
  have "mset (map item_key (work_queue specs rows)) = (\<Sum>s \<in># mset (selected_english specs rows). mset (spec_keys s))"
    unfolding items [symmetric] by (simp add: work_queue_def)
  also have "\<dots> = (\<Sum>s \<in># mset (filter (\<lambda>s. es_properties s \<noteq> []) chosen). mset (spec_keys s))"
    by (simp add: selected_english_def Let_def chosen_def ord_def)
  also have "\<dots> = (\<Sum>s \<in># mset chosen. mset (spec_keys s))"
    by (induction chosen) (simp_all add: spec_keys_def)
  also have "\<dots> = mset (filter (in_rows rows) (concat (map spec_keys specs)))"
    unfolding chosen_def
  proof (induction specs)
    case (Cons s specs)
    have "mset (spec_keys (s\<lparr>es_properties := chosen_props ord s\<rparr>)) = mset (filter (in_rows rows) (spec_keys s))"
      unfolding spec_keys_def chosen_props_def ord_def order_of_selected by (simp add: filter_map o_def)
    with Cons show ?case by simp
  qed simp
  finally show ?thesis .
qed

text \<open>
  C32. The formalization takes the selected properties in priority order and stops for the budget between
  two waves. Its waves and what is skipped are the queue, cut into pieces of at most \<open>wave\<close>; the queue
  has exactly the selected properties of the specifications, by their order; before every wave less
  than the budget was spent, so only the last wave can exceed it, and something is skipped only when the
  budget is spent.
\<close>

theorem formalization_spends:
  assumes "0 < wave" and "formalize_within_budget wave budget formalize specs rows = r"
  defines "cost k \<equiv> snd (formalize k (wave_specs (wr_batches r ! k)))"
  shows "concat (wr_batches r) @ wr_skipped r = work_queue specs rows \<and>
    mset (map item_key (work_queue specs rows)) = mset (filter (in_rows rows) (concat (map spec_keys specs))) \<and>
    sorted (map (\<lambda>x. the (order_of rows (item_key x))) (work_queue specs rows)) \<and>
    (\<forall>g \<in> set (wr_batches r). g \<noteq> [] \<and> length g \<le> wave) \<and> wr_spent r = (\<Sum>k<length (wr_batches r). cost k) \<and>
    (\<forall>b. budget = Some b \<longrightarrow> (\<forall>n<length (wr_batches r). (\<Sum>k<n. cost k) < b) \<and> (wr_skipped r \<noteq> [] \<longrightarrow> b \<le> wr_spent r)) \<and>
    (budget = None \<longrightarrow> wr_skipped r = [])"
proof -
  have "sorted (map (\<lambda>x. the (order_of rows (item_key x))) (work_queue specs rows))"
    unfolding work_queue_def by (rule sorted_sort_key)
  moreover have "concat (wr_batches r) @ wr_skipped r = work_queue specs rows" and "wr_spent r = (\<Sum>k<length (wr_batches r). cost k)"
    and "\<forall>b. budget = Some b \<longrightarrow> (\<forall>n<length (wr_batches r). (\<Sum>k<n. cost k) < b) \<and> (wr_skipped r \<noteq> [] \<longrightarrow> b \<le> wr_spent r)"
    and "budget = None \<longrightarrow> wr_skipped r = []" and "\<forall>g \<in> set (wr_batches r). g \<noteq> [] \<and> length g \<le> wave"
    using waves_spent [OF assms(1) assms(2) [unfolded formalize_within_budget_def], unfolded add_0] unfolding cost_def
    by - (elim conjE, assumption)+
  ultimately show ?thesis using queue_keys [of specs rows] by (intro conjI)
qed

definition two_props :: espec where
  "two_props = \<lparr>es_function = ''f'', es_summary = [], es_properties =
     [\<lparr>ep_id = ''p2'', ep_text = ''f(1) returns 2'', ep_kind = ''example'', ep_evidence = []\<rparr>,
      \<lparr>ep_id = ''p1'', ep_text = ''f(0) returns 1'', ep_kind = ''example'', ep_evidence = []\<rparr>]\<rparr>"

lemma formalization_spends_witness:
  "\<exists>r. formalize_within_budget 1 (Some (5 / 100)) (\<lambda>k ss. (map es_function ss, 8 / 100)) [two_props]
      [planned_row (8 / 100) (plain_row ''p1'' (1 / 2)) 0] = r \<and>
     map item_key (concat (wr_batches r)) = [(''f'', ''p1'')] \<and> wr_skipped r = []"
proof -
  let ?f = "\<lambda>k ss. (map es_function ss, 8 / 100 :: real)" and ?rows = "[planned_row (8 / 100) (plain_row ''p1'' (1 / 2)) 0]"
  obtain r where r: "formalize_within_budget 1 (Some (5 / 100)) ?f [two_props] ?rows = r" by blast
  note F = formalization_spends [OF _ r, simplified]
  let ?q = "work_queue [two_props] ?rows"
  have "in_rows ?rows k \<longleftrightarrow> k = (''f'', ''p1'')" for k
    by (auto simp: in_rows_def sr_selected_def plain_row_def planned_row_def sel_row.defs)
  then have "mset (map item_key ?q) = mset [(''f'', ''p1'')]"
    using F by (simp add: spec_keys_def two_props_def)
  then have q: "map item_key ?q = [(''f'', ''p1'')]" by (metis mset_single_iff_right mset.simps mset_single_iff)
  have "wr_batches r \<noteq> []"
  proof
    assume "wr_batches r = []"
    with F q have "wr_skipped r \<noteq> []" by auto
    then have "5 / 100 \<le> wr_spent r" using formalization_spends [OF zero_less_one r] by blast
    moreover have "wr_spent r = 0" using formalization_spends [OF zero_less_one r] \<open>wr_batches r = []\<close> by simp
    ultimately show False by simp
  qed
  moreover have parts: "concat (wr_batches r) @ wr_skipped r = ?q" by (rule conjunct1 [OF formalization_spends [OF zero_less_one r]])
  moreover have "length ?q = 1" using arg_cong [OF q, of length] by simp
  ultimately have "length (concat (wr_batches r)) + length (wr_skipped r) = 1" by (metis length_append)
  moreover have "concat (wr_batches r) \<noteq> []" using \<open>wr_batches r \<noteq> []\<close> F by (cases "wr_batches r") auto
  then have "0 < length (concat (wr_batches r))" by simp
  ultimately have "wr_skipped r = []" by (cases "wr_skipped r") simp_all
  with parts have "concat (wr_batches r) = ?q" "wr_skipped r = []" by simp_all
  with r q show ?thesis by auto
qed

end
