(* ===== verification/NlOutcomes.thy ===== *)
theory NlOutcomes
  imports NlJudge
begin

text \<open>
  The end of a run in \<open>src/src/autoform/nl/judge.py\<close>: every decision of the judge is joined with what
  checking and proving found about its statement, and labeled for the benchmark, by the rules of the
  harness (\<open>label_entry\<close> of \<open>Reports\<close>) after those this flow adds. The files of a run are lists of JSON objects.
\<close>

section \<open>Outcomes\<close>

definition HARNESS_STATUS :: "(string \<times> string) list" where
  "HARNESS_STATUS = [(''PROVED'', ''PROVED''), (''BOUNDED_HOLDS'', ''BOUNDED_PROVED''), (''REFUTED_MODEL'', ''REFUTED'')]"

definition harness_status :: "json \<Rightarrow> json res" where
  "harness_status v =
     (case v of
        JStr s \<Rightarrow> Inr (JStr (case map_of HARNESS_STATUS s of None \<Rightarrow> s | Some h \<Rightarrow> h))
      | _ \<Rightarrow> if hashable v then Inr v else Inl TypeError)"

text \<open>\<open>table.get(k) or {}\<close>\<close>

definition found :: "(string \<times> dict) list \<Rightarrow> string \<Rightarrow> dict" where
  "found table k = (case map_of table k of None \<Rightarrow> [] | Some d \<Rightarrow> d)"

definition statement_outcome :: "string \<Rightarrow> (string \<times> dict) list \<Rightarrow> (string \<times> dict) list \<Rightarrow> dict res" where
  "statement_outcome sid checks proofs =
     (let c = found checks sid; p = found proofs sid;
          status = (if dget p ''status'' JNull = JStr ''PROVED'' then JStr ''PROVED'' else dget c ''status'' JNull)
      in rbind (harness_status status) (\<lambda>h.
         rbind (text_of (py_or (dget c ''detail'' JNull) (JStr []))) (\<lambda>detail.
           Inr [(''nl_status'', status), (''status'', h), (''check'', dget c ''status'' JNull), (''proof'', dget p ''status'' JNull),
                (''detail'', JStr (List.take 160 detail))])))"

section \<open>Labels\<close>

text \<open>The rules of this flow: the reason why an entry stays unlabeled.\<close>

definition reason_with :: "string \<Rightarrow> json \<Rightarrow> string option res" where
  "reason_with before v = rbind (text_of v) (\<lambda>s. Inr (Some (before @ s)))"

definition judgment_reason :: "dict \<Rightarrow> string option res" where
  "judgment_reason out =
     (if truthy (dget out ''skipped'' JNull) then reason_with ''not verified: '' (dget out ''skipped'' JNull)
      else if dget out ''nl_status'' JNull = JStr ''UNCHECKABLE'' then
        rbind (text_of (py_or (dget out ''detail'' JNull) (JStr []))) (\<lambda>s. Inr (Some (''unchecked: '' @ List.take 80 s)))
      else if dget out ''nl_status'' JNull = JStr ''REFUTED_RUNTIME'' \<or> dget out ''classification'' JNull = JStr ''INCOMPLETE_MODEL'' then
        Inr (Some ''the refutation is attributed to the model, not the property'')
      else Inr None)"

definition repair_reason :: "dict \<Rightarrow> string option res" where
  "repair_reason out =
     (if dget out ''repair_nl_status'' JNull = JStr ''REFUTED_RUNTIME'' then
        Inr (Some (''the repaired statement fails on the real code but not the '' @ ''model: a model defect, not evidence about the repair''))
      else if dget out ''repair_elaborates'' JNull = JBool False then Inr (Some ''the repaired English did not formalize'')
      else if truthy (dget out ''repair_skipped'' JNull) then reason_with ''repair not verified: '' (dget out ''repair_skipped'' JNull)
      else Inr None)"

definition open_reason :: "json \<Rightarrow> dict \<Rightarrow> string option res" where
  "open_reason task out =
     (if task = JStr ''PROPERTY_JUDGMENT'' then judgment_reason out
      else if task \<in> {JStr ''COUNTEREXAMPLE_CLASSIFICATION'', JStr ''REPAIR_SELECTION'', JStr ''PRECONDITION_SELECTION''}
      then repair_reason out else Inr None)"

definition nl_label :: "dict \<Rightarrow> dict res" where
  "nl_label e =
     rbind (ditem e ''task'') (\<lambda>task.
     rbind (case py_or (dget e ''outcome'' JNull) (JObj []) of JObj d \<Rightarrow> Inr d | _ \<Rightarrow> Inl AttributeError) (\<lambda>out.
       if truthy (dget e ''forced'' JNull) then Inr [(''kind'', JStr ''forced'')]
       else rbind (open_reason task out) (\<lambda>why. case why of Some w \<Rightarrow> Inr (unlabeled w) | None \<Rightarrow> label_entry e)))"

section \<open>Joining decisions and outcomes\<close>

record run_files =
  rf_checks :: "dict list"
  rf_proofs :: "dict list"
  rf_statements :: "dict list"
  rf_rows :: "dict list"
  rf_late_checks :: "dict list"
  rf_late_statements :: "dict list"
  rf_records :: "dict list"
  rf_skips :: "dict list"

record run_tables =
  rt_checks :: "(string \<times> dict) list"
  rt_proofs :: "(string \<times> dict) list"
  rt_statements :: "(string \<times> dict) list"
  rt_skipped :: "(string \<times> json) list"
  rt_records :: "(string \<times> dict) list"

definition keyed :: "string \<Rightarrow> dict list \<Rightarrow> (string \<times> dict) list res" where
  "keyed k ds = mapM (\<lambda>d. rbind (rbind (ditem d k) text_of) (\<lambda>s. Inr (s, d))) ds"

definition skipped_row :: "dict \<Rightarrow> (string \<times> json) list res" where
  "skipped_row r =
     rbind (ditem r ''selected'') (\<lambda>sel.
       if truthy sel then Inr []
       else rbind (rbind (ditem r ''statement'') text_of) (\<lambda>s. rbind (ditem r ''skip_reason'') (\<lambda>w. Inr [(s, w)])))"

definition skipped_item :: "dict \<Rightarrow> (string \<times> json) list res" where
  "skipped_item s =
     (if dget s ''stage'' JNull = JStr ''formalize'' then
        rbind (rbind (ditem s ''function'') text_of) (\<lambda>f. rbind (rbind (ditem s ''property'') text_of) (\<lambda>p.
        rbind (ditem s ''reason'') (\<lambda>w. Inr [(statement_id f p, w)])))
      else Inr [])"

text \<open>The checks and statements of the repairs come after those of the run and replace them.\<close>

definition tables_of :: "run_files \<Rightarrow> run_tables res" where
  "tables_of fs =
     rbind (keyed ''statement'' (rf_checks fs @ rf_late_checks fs)) (\<lambda>checks.
     rbind (keyed ''statement'' (rf_proofs fs)) (\<lambda>proofs.
     rbind (keyed ''id'' (rf_statements fs @ rf_late_statements fs)) (\<lambda>stmts.
     rbind (mapM skipped_row (rf_rows fs)) (\<lambda>rows.
     rbind (mapM skipped_item (rf_skips fs)) (\<lambda>items.
     rbind (keyed ''statement'' (rf_records fs)) (\<lambda>records.
       Inr \<lparr>rt_checks = dict_of checks, rt_proofs = dict_of proofs, rt_statements = dict_of stmts,
            rt_skipped = dict_of (concat rows @ concat items), rt_records = dict_of records\<rparr>))))))"

definition repair_outcome :: "run_tables \<Rightarrow> dict \<Rightarrow> dict \<Rightarrow> dict res" where
  "repair_outcome t rec rep =
     (let child = dget rec ''repaired_by'' JNull in
      if truthy child then
        rbind (text_of child) (\<lambda>c. rbind (statement_outcome c (rt_checks t) (rt_proofs t)) (\<lambda>ro.
          Inr [(''repair_status'', dget ro ''status'' JNull), (''repair_nl_status'', dget ro ''nl_status'' JNull),
               (''repair_elaborates'', JBool (truthy (dget (found (rt_statements t) c) ''elaborates'' JNull)))]))
      else if truthy (dget rep ''skipped'' JNull) then Inr [(''repair_skipped'', dget rep ''skipped'' JNull)]
      else Inr [])"

definition record_outcome :: "run_tables \<Rightarrow> string \<Rightarrow> dict res" where
  "record_outcome t sid =
     (let rec = found (rt_records t) sid in
      if rec = [] then Inr []
      else rbind (as_dict (py_or (dget rec ''repair'' JNull) (JObj []))) (\<lambda>rep.
           rbind (repair_outcome t rec rep) (\<lambda>more.
             Inr ([(''classification'', dget rec ''classification'' JNull), (''disposition'', dget rec ''disposition'' JNull),
                   (''repair_chosen'', dget rep ''chosen'' JNull), (''repair_kind'', dget rep ''kind'' JNull)] @ more))))"

definition skip_outcome :: "run_tables \<Rightarrow> string \<Rightarrow> dict" where
  "skip_outcome t sid =
     (case map_of (rt_skipped t) sid of
        Some w \<Rightarrow> [(''skipped'', w)]
      | None \<Rightarrow> if map_of (rt_statements t) sid = None then [(''skipped'', JStr ''not formalized'')] else [])"

definition entry_outcome :: "run_tables \<Rightarrow> string \<Rightarrow> dict res" where
  "entry_outcome t sid =
     rbind (statement_outcome sid (rt_checks t) (rt_proofs t)) (\<lambda>o1.
     rbind (record_outcome t sid) (\<lambda>o3. Inr (o1 @ skip_outcome t sid @ o3)))"

definition join_entry :: "run_tables \<Rightarrow> dict \<Rightarrow> dict res" where
  "join_entry t e =
     rbind (as_dict (py_or (dget e ''context'' JNull) (JObj []))) (\<lambda>ctx.
       let sid = dget ctx ''statement'' JNull in
       if \<not> truthy sid then Inr e
       else rbind (text_of sid) (\<lambda>s. rbind (entry_outcome t s) (\<lambda>o1. Inr (dset ''outcome'' (JObj o1) e))))"

definition nl_bench_row :: "dict \<Rightarrow> dict list res" where
  "nl_bench_row e =
     rbind (nl_label e) (\<lambda>lab.
       if dget lab ''kind'' JNull = JStr ''forced'' then Inr [] else rbind (row_of e lab) (\<lambda>r. Inr [r]))"

definition finalize_decisions :: "run_files \<Rightarrow> dict list \<Rightarrow> (dict list \<times> dict list) res" where
  "finalize_decisions fs entries =
     rbind (tables_of fs) (\<lambda>t. rbind (mapM (join_entry t) entries) (\<lambda>es. rbind (mapM nl_bench_row es) (\<lambda>rs. Inr (es, concat rs))))"

text \<open>How often a value occurs.\<close>

definition tally :: "json list \<Rightarrow> (json \<times> nat) list" where
  "tally vs = foldl (\<lambda>m v. AList.update v (Suc (case map_of m v of None \<Rightarrow> 0 | Some n \<Rightarrow> n)) m) [] vs"

definition label_counts :: "dict list \<Rightarrow> (json \<times> nat) list" where
  "label_counts rows = tally (map (\<lambda>r. case dget r ''label'' JNull of JObj lab \<Rightarrow> dget lab ''kind'' JNull | _ \<Rightarrow> JNull) rows)"

section \<open>Utilities of statements\<close>

text \<open>A repaired statement has the utility of the statement its repairs started from.\<close>

definition utilities :: "plan_row list \<Rightarrow> string list \<Rightarrow> (string \<times> string) list \<Rightarrow> (string \<times> real) list" where
  "utilities rows repaired first =
     foldl (\<lambda>u s. if map_of u s \<noteq> None then u
                  else AList.update s (case map_of first s of None \<Rightarrow> 0 | Some r \<Rightarrow> lookup u r 0) u)
       (dict_of (map (\<lambda>r. (sr_statement r, sr_utility r)) rows)) repaired"

definition order_by_utility :: "(string \<times> real) list \<Rightarrow> string list \<Rightarrow> string list" where
  "order_by_utility u stmts = sort_key (\<lambda>s. - lookup u s 0) stmts"

section \<open>Labels rest on the verifier\<close>

lemma reason_unlabeled: "open_reason task out = Inr (Some w) \<Longrightarrow> supports (dget (unlabeled w) ''kind'' JNull) out"
  by (simp add: label_kinds supportsI)

lemma nl_label_cases:
  assumes "nl_label e = Inr lab"
  obtains task out where "ditem e ''task'' = Inr task" "py_or (dget e ''outcome'' JNull) (JObj []) = JObj out"
    and "lab = [(''kind'', JStr ''forced'')] \<and> truthy (dget e ''forced'' JNull) \<or>
      (\<exists>w. open_reason task out = Inr (Some w) \<and> lab = unlabeled w) \<or> open_reason task out = Inr None \<and> label_entry e = Inr lab"
proof -
  from assms obtain task out where task: "ditem e ''task'' = Inr task" and out: "py_or (dget e ''outcome'' JNull) (JObj []) = JObj out"
    and lab: "(if truthy (dget e ''forced'' JNull) then Inr [(''kind'', JStr ''forced'')]
       else rbind (open_reason task out) (\<lambda>why. case why of Some w \<Rightarrow> Inr (unlabeled w) | None \<Rightarrow> label_entry e)) = Inr lab"
    by (auto simp: nl_label_def res_simps split: json.splits)
  show thesis
  proof (rule that [OF task out], cases "truthy (dget e ''forced'' JNull)")
    case False
    with lab obtain why where "open_reason task out = Inr why" "(case why of Some w \<Rightarrow> Inr (unlabeled w) | None \<Rightarrow> label_entry e) = Inr lab"
      by (auto simp: res_simps)
    then show "lab = [(''kind'', JStr ''forced'')] \<and> truthy (dget e ''forced'' JNull) \<or>
      (\<exists>w. open_reason task out = Inr (Some w) \<and> lab = unlabeled w) \<or> open_reason task out = Inr None \<and> label_entry e = Inr lab"
      by (cases why) auto
  qed (use lab in simp)
qed

text \<open>The kinds of a label that count for or against an option.\<close>

definition counts :: "dict \<Rightarrow> bool" where
  "counts lab \<longleftrightarrow> dget lab ''kind'' JNull \<in> JStr ` {''single'', ''acceptable'', ''negative''}"

lemma nl_label_sound:
  assumes "nl_label e = Inr lab"
  shows "\<exists>task out. ditem e ''task'' = Inr task \<and> py_or (dget e ''outcome'' JNull) (JObj []) = JObj out \<and>
    supports (dget lab ''kind'' JNull) out \<and> (counts lab \<longrightarrow> \<not> truthy (dget e ''forced'' JNull) \<and> open_reason task out = Inr None)"
  using assms
proof (cases rule: nl_label_cases)
  case (1 task out)
  from 1(3) consider (forced) "lab = [(''kind'', JStr ''forced'')]" | (reason) w where "open_reason task out = Inr (Some w)" "lab = unlabeled w"
    | (bench) "open_reason task out = Inr None" "label_entry e = Inr lab" by blast
  then show ?thesis
  proof cases
    case forced
    then have "supports (dget lab ''kind'' JNull) out" "\<not> counts lab" by (auto simp: supports_def counts_def dget_def)
    with 1(1,2) show ?thesis by blast
  next
    case reason
    then have "supports (dget lab ''kind'' JNull) out" "\<not> counts lab" by (auto simp: label_kinds supportsI counts_def)
    with 1(1,2) show ?thesis by blast
  next
    case bench
    from label_entry_supports [OF bench(2)] 1(2) have "supports (dget lab ''kind'' JNull) out"
      and "truthy (dget e ''forced'' JNull) \<Longrightarrow> \<not> counts lab" by (auto simp: counts_def dget_def)
    with 1(1,2) bench(1) show ?thesis by blast
  qed
qed

lemma row_of_fields:
  assumes "row_of e lab = Inr r"
  shows "dget r ''label'' JNull = JObj lab" "dget r ''outcome'' JNull = dget e ''outcome'' JNull" "dget r ''model_choice'' JNull = dget e ''chosen'' JNull"
  using assms by (auto simp: row_of_def res_simps dget_def)


definition done_files :: run_files where
  "done_files = \<lparr>rf_checks = [[(''statement'', JStr ''f__p1''), (''status'', JStr ''BOUNDED_HOLDS'')]], rf_proofs = [],
     rf_statements = [[(''id'', JStr ''f__p1''), (''elaborates'', JBool True)]], rf_rows = [], rf_late_checks = [], rf_late_statements = [],
     rf_records = [], rf_skips = []\<rparr>"

definition judged_entry :: dict where
  "judged_entry = [(''decision_id'', JStr ''D_select_0001_PROPERTY_JUDGMENT''), (''task'', JStr ''PROPERTY_JUDGMENT''),
     (''chosen'', JStr ''USEFUL_PROPERTY''), (''context'', JObj [(''statement'', JStr ''f__p1'')])]"


end
