(* ===== verification/NlSelect.thy ===== *)
theory NlSelect
  imports NlJudge
begin

text \<open>
  The select stage of \<open>src/src/autoform/nl/judge.py\<close> as a whole: it lists every property of a known function once,
  keeps to its budget, and with the heuristic scorer it always returns.
\<close>

section \<open>What is selected\<close>

definition listed_as :: "'a sel_row_scheme \<Rightarrow> string \<times> string \<times> string" where
  "listed_as r = (sr_function r, sr_property r, sr_text r)"

lemma judge_spec_rows: "judge_spec fn props j = Inr (rows, f, j') \<Longrightarrow> map listed_as rows = map (\<lambda>p. (fi_name fn, ep_id p, ep_text p)) props"
proof -
  assume "judge_spec fn props j = Inr (rows, f, j')"
  then obtain n jd sel intents where rows: "mapM (sel_row_of fn n jd sel intents) props = Inr rows"
    by (auto simp: judge_spec_def Let_def res_simps)
  have one: "listed_as r = (fi_name fn, ep_id p, ep_text p)" if "sel_row_of fn n jd sel intents p = Inr r" for p r
    using that by (auto simp: sel_row_of_def Let_def res_simps listed_as_def)
  from rows show ?thesis
    by (induction props arbitrary: rows) (auto simp: res_simps one)
qed

definition judged_keys :: "(string \<times> fn_info) list \<Rightarrow> espec \<Rightarrow> (string \<times> string \<times> string) list" where
  "judged_keys fns s = (if map_of fns (es_function s) = None then [] else map (\<lambda>p. (es_function s, ep_id p, ep_text p)) (es_properties s))"

lemma judge_specs_rows:
  "judge_specs fns specs j = Inr (rows, fs, j') \<Longrightarrow> (\<And>f fn. map_of fns f = Some fn \<Longrightarrow> fi_name fn = f) \<Longrightarrow>
   map listed_as rows = concat (map (judged_keys fns) specs)"
proof (induction specs arbitrary: j rows fs j')
  case (Cons s specs)
  show ?case
  proof (cases "map_of fns (es_function s) = None \<or> es_properties s = []")
    case True
    then have "judge_specs fns specs j = Inr (rows, fs, j')" "judged_keys fns s = []"
      using Cons.prems(1) by (auto simp: judged_keys_def split: option.splits)
    with Cons.IH [OF _ Cons.prems(2)] show ?thesis by simp
  next
    case False
    then obtain fn where fn: "map_of fns (es_function s) = Some fn" "es_properties s \<noteq> []" by auto
    with Cons.prems(1) obtain rows1 f j1 rows2 fs2 where
      "judge_spec fn (es_properties s) j = Inr (rows1, f, j1)" "judge_specs fns specs j1 = Inr (rows2, fs2, j')" "rows = rows1 @ rows2"
      by (auto simp: res_simps)
    with judge_spec_rows Cons.IH [OF _ Cons.prems(2)] fn Cons.prems(2) [OF fn(1)] show ?thesis by (simp add: judged_keys_def)
  qed
qed simp

text \<open>
  C33. Every English property of a known function is judged and listed exactly once, with its text; the
  properties of other functions are not. The estimates of what is selected, together with the part of
  the budget reserved for proving, fit the budget.
\<close>

theorem selection_complete:
  assumes "nl_select pc fs specs budget cap prove j = Inr (sn, j')"
  shows "mset (map listed_as (sn_rows sn)) = mset (concat (map (\<lambda>s. if es_function s \<in> fi_name ` set fs
      then map (\<lambda>p. (es_function s, ep_id p, ep_text p)) (es_properties s) else []) specs)) \<and>
    (\<forall>b. budget = Some b \<longrightarrow> sn_reserve sn = (if prove then py_round 4 (b * pc_prove_share pc) else 0) \<and>
      (filter sr_selected (sn_rows sn) \<noteq> [] \<longrightarrow>
        pc_formalize pc * of_nat (length (filter sr_selected (sn_rows sn))) + sn_reserve sn \<le> b + 1 / 10 ^ 9))"
proof -
  let ?fns = "functions_by_name fs"
  obtain rows fns j1 where judged0: "judge_specs ?fns specs j = Inr (rows, fns, j1)" using assms by (auto simp: nl_select_def res_simps)
  let ?reserve = "case budget of Some b \<Rightarrow> if prove then py_round 4 (b * pc_prove_share pc) else 0 | None \<Rightarrow> 0"
  obtain plan planned0 where "allocate rows (map_option (\<lambda>b. b - ?reserve) budget) cap (pc_formalize pc) = (plan, planned0)" by fastforce
  with assms judged0 obtain planned where judged: "judge_specs ?fns specs j = Inr (rows, fns, j1)"
    and alloc: "allocate rows (map_option (\<lambda>b. b - sn_reserve sn) budget) cap (pc_formalize pc) = (sn_rows sn, planned)"
    and reserve: "sn_reserve sn = (case budget of Some b \<Rightarrow> if prove then py_round 4 (b * pc_prove_share pc) else 0 | None \<Rightarrow> 0)"
    by (auto simp: nl_select_def Let_def)
  have name: "fi_name fn = f" if "map_of ?fns f = Some fn" for f fn
    using that unfolding functions_by_name_def dict_of_lookup by (auto dest!: map_of_SomeD)
  have known: "map_of ?fns f = None \<longleftrightarrow> f \<notin> fi_name ` set fs" for f
    by (auto simp: functions_by_name_def dict_of_None image_iff)
  note A = allocation_facts [OF alloc]
  have trunc: "listed_as (sel_row.truncate r) = listed_as r" for r :: plan_row
    by (cases r) (simp add: listed_as_def sel_row.defs)
  have "mset (map listed_as (sn_rows sn)) = image_mset listed_as (mset (map sel_row.truncate (sn_rows sn)))"
    by (simp add: multiset.map_comp o_def trunc)
  also have "\<dots> = mset (map listed_as rows)" using A by simp
  also have "map listed_as rows = concat (map (judged_keys ?fns) specs)" by (rule judge_specs_rows [OF judged name])
  also have "judged_keys ?fns = (\<lambda>s. if es_function s \<in> fi_name ` set fs
      then map (\<lambda>p. (es_function s, ep_id p, ep_text p)) (es_properties s) else [])"
    by (intro ext) (simp add: judged_keys_def known)
  finally show ?thesis using A reserve by (auto simp: too_much_def)
qed

section \<open>The stage returns\<close>

lemma heuristic_one_total: "jr_options row \<noteq> [] \<Longrightarrow> \<exists>s. heuristic_one row = Inr s"
  by (simp add: heuristic_one_def softmax_def Let_def)

lemma score_rows_total:
  "\<forall>row \<in> set rows. jr_options row \<noteq> [] \<Longrightarrow> \<exists>ss. score_rows heuristic_score shared rows = Inr ss"
proof (induction "length rows" arbitrary: rows rule: less_induct)
  case less
  show ?case
  proof (cases "rows = []")
    case False
    have "\<exists>s1. mapM heuristic_one rs = Inr s1" if "\<forall>row \<in> set rs. jr_options row \<noteq> []" for rs
      using that by (induction rs) (auto dest: heuristic_one_total)
    with less.prems obtain s1 where s1: "heuristic_score (List.take 32 rows) shared = Inr s1"
      by (metis heuristic_score_def in_set_takeD)
    have "\<exists>s2. score_rows heuristic_score shared (drop 32 rows) = Inr s2"
      using less.hyps [of "drop 32 rows"] less.prems False by (auto dest: in_set_dropD)
    with s1 False show ?thesis by (subst score_rows.simps) auto
  qed (simp add: score_rows.simps)
qed

text \<open>A judge with the heuristic scorer and no temperature zero.\<close>

definition heuristic_judge :: "judge \<Rightarrow> bool" where
  "heuristic_judge j \<longleftrightarrow> jg_score j = heuristic_score \<and> (\<forall>task. lookup (jg_temperature j) task 1 \<noteq> 0)"

lemma heuristic_judge_log [simp]: "heuristic_judge (log_decision d j) = heuristic_judge j"
  by (simp add: heuristic_judge_def log_decision_def)

lemma scored_decision_total:
  assumes "heuristic_one row = Inr s" and "jr_options row \<noteq> []" and "heuristic_judge j"
  shows "\<exists>d. scored_decision task j row s = Inr d \<and> d_probabilities d \<noteq> []"
proof -
  from assms(1,2) have s: "sc_ids s = map fst (jr_options row)" "length (sc_logits s) = length (sc_ids s)" "sc_logits s \<noteq> []"
    by (auto simp: heuristic_one_def res_simps Let_def)
  have t: "lookup (jg_temperature j) task 1 \<noteq> 0" using assms(3) by (simp add: heuristic_judge_def)
  have "dict_zip (sc_ids s) ps \<noteq> []" if "length ps = length (sc_ids s)" for ps :: "real list"
    using dict_zip_keys [OF that] s by auto
  with s t show ?thesis by (auto simp: scored_decision_def softmax_def argmax_def Let_def)
qed

lemma scored_loop_total:
  "list_all2 (\<lambda>row s. heuristic_one row = Inr s) rows ss \<Longrightarrow> \<forall>row \<in> set rows. jr_options row \<noteq> [] \<Longrightarrow> heuristic_judge j \<Longrightarrow>
   \<exists>ds j'. scored_loop task (zip rows ss) j = Inr (ds, j') \<and> length ds = length rows \<and> (\<forall>d \<in> set ds. d_probabilities d \<noteq> []) \<and> heuristic_judge j'"
proof (induction rows ss arbitrary: j rule: list_all2_induct)
  case (Cons row rows s ss)
  from scored_decision_total [OF Cons.hyps(1)] Cons.prems obtain d where d: "scored_decision task j row s = Inr d" "d_probabilities d \<noteq> []"
    by (metis list.set_intros(1))
  from Cons.IH [of "log_decision d j"] Cons.prems obtain ds j' where "scored_loop task (zip rows ss) (log_decision d j) = Inr (ds, j')"
    "length ds = length rows" "\<forall>d \<in> set ds. d_probabilities d \<noteq> []" "heuristic_judge j'" by auto
  with d show ?case by simp
qed simp

lemma decide_rows_total:
  assumes "\<forall>row \<in> set rows. jr_options row \<noteq> []" and "heuristic_judge j"
  shows "\<exists>ds j'. decide_rows task rows shared None j = Inr (ds, j') \<and> length ds = length rows \<and> (\<forall>d \<in> set ds. d_probabilities d \<noteq> []) \<and>
    heuristic_judge j'"
proof -
  from score_rows_total [OF assms(1)] obtain ss where ss: "score_rows heuristic_score shared rows = Inr ss" by blast
  with scored_loop_total [OF heuristic_rows [OF ss] assms] assms(2) show ?thesis by (simp add: decide_rows_def heuristic_judge_def)
qed

lemma select_loop_total:
  "heuristic_judge j \<Longrightarrow> \<exists>ps j'. select_loop start state cs priors ctx j = Inr (ps, j') \<and> heuristic_judge j'"
proof (induction start state cs priors ctx j rule: select_loop.induct)
  case (1 start state cs priors ctx j)
  show ?case
  proof (cases "cs = []")
    case False
    let ?chunk = "List.take MAX_OPTIONS cs"
    obtain probs j1 where first: "(if length ?chunk < 2 then Inr ([(fst (hd ?chunk), 1)], j)
        else rbind (decide_rows ''PROPERTY_SELECTION'' [select_row start state ?chunk priors ctx] False None j) (\<lambda>(ds, j').
          Inr (concat (map d_probabilities ds), j'))) = Inr (probs, j1)" and j1: "heuristic_judge j1"
    proof (cases "length ?chunk < 2")
      case big: False
      then have "jr_options (select_row start state ?chunk priors ctx) \<noteq> []" by (auto simp: select_row_def jrow_def)
      with decide_rows_total [of "[select_row start state ?chunk priors ctx]" j "''PROPERTY_SELECTION''" False] 1(2) big that
      show thesis by auto
    qed (use 1(2) that in simp)
    from 1(1) [OF False refl first refl j1] obtain rest j2 where "select_loop (start + MAX_OPTIONS) state (drop MAX_OPTIONS cs) priors ctx j1 = Inr (rest, j2)"
      "heuristic_judge j2" by blast
    with first False show ?thesis by (subst select_loop.simps) (simp add: Let_def)
  qed (use 1(2) in \<open>simp add: select_loop.simps\<close>)
qed

lemma CLAIM_JUDGMENTS_nonempty: "CLAIM_JUDGMENTS \<noteq> []"
  by (simp add: CLAIM_JUDGMENTS_def)

lemma judge_claims_total:
  assumes "heuristic_judge j" and "length priors = length texts" and "length ctxs = length texts"
  shows "\<exists>ds j'. judge_claims state texts priors ctxs j = Inr (ds, j') \<and> length ds = length texts \<and> (\<forall>d \<in> set ds. d_probabilities d \<noteq> []) \<and>
    heuristic_judge j'"
proof -
  let ?rows = "claim_rows state texts priors ctxs"
  have "\<forall>row \<in> set ?rows. jr_options row \<noteq> []" by (auto simp: claim_rows_def jrow_def CLAIM_JUDGMENTS_nonempty)
  moreover have "length ?rows = length texts" using assms(2,3) by (simp add: claim_rows_def zip3_def)
  ultimately show ?thesis using decide_rows_total [of ?rows j "''PROPERTY_JUDGMENT''" True] assms(1) by (simp add: judge_claims_def)
qed

lemma intent_total:
  assumes "heuristic_judge j" and "readings \<noteq> []"
  shows "\<exists>d j'. intent state readings priors ctx j = Inr (d, j') \<and> heuristic_judge j'"
proof -
  let ?row = "jrow ''intent'' state
    (''These candidate specifications are mutually exclusive: no implementation can satisfy '' @
     ''all of them, so at most one describes the intended behavior. Based on the name, '' @
     ''signature, documentation, tests and callers, which one is intended?'')
    (List.take MAX_OPTIONS readings) (map (\<lambda>(c, t). (c, lookup priors c (1 / 10))) (List.take MAX_OPTIONS readings)) ctx"
  have "\<forall>row \<in> set [?row]. jr_options row \<noteq> []" using assms(2) by (simp add: jrow_def MAX_OPTIONS_def)
  from decide_rows_total [OF this assms(1), of "''INTENT_SELECTION''" False] obtain d j' where
    "decide_rows ''INTENT_SELECTION'' [?row] False None j = Inr ([d], j')" "heuristic_judge j'"
    by (auto simp: length_Suc_conv)
  then show ?thesis unfolding intent_def decide_one_def by simp
qed

lemma ask_intents_total:
  "heuristic_judge j \<Longrightarrow> \<forall>g \<in> set groups. g \<noteq> [] \<Longrightarrow>
   \<exists>is rows j'. ask_intents fn props texts sel gi groups j = Inr (is, rows, j') \<and> heuristic_judge j'"
proof (induction groups arbitrary: gi j)
  case (Cons g groups)
  from Cons.prems have "map (\<lambda>i. (ep_id (props ! i), texts ! i)) g \<noteq> []" by simp
  from intent_total [OF Cons.prems(1) this] obtain d j1 where
    "intent (JObj (interface_state fn)) (map (\<lambda>i. (ep_id (props ! i), texts ! i)) g)
       (dict_of (map (\<lambda>i. let pid = ep_id (props ! i) in (pid, lookup sel pid (1 / 10) + 1 / 10)) g)) (group_ctx fn props g) j = Inr (d, j1)"
    and j1: "heuristic_judge j1" by blast
  moreover from Cons.IH [OF j1, of "Suc gi"] Cons.prems(2) obtain "is" rows j2 where
    "ask_intents fn props texts sel (Suc gi) groups j1 = Inr (is, rows, j2)" "heuristic_judge j2" by auto
  ultimately show ?case by simp
qed simp

lemma item_at_zip:
  assumes "length ds = length props" and "p \<in> set props" and "\<forall>d \<in> set ds. P d"
  shows "\<exists>d. item_at (dict_of (zip (map ep_id props) ds)) (ep_id p) = Inr d \<and> P d"
proof -
  have "ep_id p \<in> fst ` set (zip (map ep_id props) ds)" using assms(1,2) by (metis image_eqI length_map map_fst_zip set_map)
  then obtain d where d: "map_of (dict_of (zip (map ep_id props) ds)) (ep_id p) = Some d"
    using dict_of_None by (metis option.exhaust)
  then have "(ep_id p, d) \<in> set (zip (map ep_id props) ds)" unfolding dict_of_lookup by (auto dest: map_of_SomeD)
  then have "d \<in> set ds" by (rule set_zip_rightD)
  with d assms(3) show ?thesis by (simp add: item_at_def)
qed

lemma mapM_total_on: "(\<And>x. x \<in> set xs \<Longrightarrow> \<exists>y. f x = Inr y) \<Longrightarrow> \<exists>ys. mapM f xs = Inr ys"
proof (induction xs)
  case (Cons x xs)
  then obtain y ys where "f x = Inr y" "mapM f xs = Inr ys" by (metis list.set_intros)
  then show ?case by simp
qed simp

lemma nl_rival_groups_nonempty: "\<forall>g \<in> set (nl_rival_groups props). g \<noteq> []"
proof
  fix g
  assume "g \<in> set (nl_rival_groups props)"
  then have "set g \<in> set ` set (nl_rival_groups props)" by blast
  then obtain i e where "set g = e\<^sup>* `` {i :: nat}" using rival_groups_facts [of props] by auto
  then have "i \<in> set g" by auto
  then show "g \<noteq> []" by auto
qed

lemma judge_spec_total:
  assumes "heuristic_judge j" and "props \<noteq> []"
  shows "\<exists>rows f j'. judge_spec fn props j = Inr (rows, f, j') \<and> heuristic_judge j'"
proof -
  let ?texts = "map claim_shown props"
  from judge_claims_total [OF assms(1), of "map (\<lambda>p. nl_judgment_prior p fn) props" ?texts "map (claim_ctx fn) props" "JObj (interface_state fn)"] obtain ds j1 where
    ds: "judge_claims (JObj (interface_state fn)) ?texts (map (\<lambda>p. nl_judgment_prior p fn) props) (map (claim_ctx fn) props) j = Inr (ds, j1)"
    "length ds = length props" "\<forall>d \<in> set ds. d_probabilities d \<noteq> []" "heuristic_judge j1" by auto
  let ?jd = "dict_of (zip (map ep_id props) ds)"
  have judged: "\<exists>d. item_at ?jd (ep_id p) = Inr d \<and> d_probabilities d \<noteq> []" if "p \<in> set props" for p
    by (rule item_at_zip [OF ds(2) that ds(3)])
  obtain sel j2 where sel: "selection_of fn props ?texts ?jd j1 = Inr (sel, j2)" "heuristic_judge j2"
  proof (cases "\<exists>p. props = [p]")
    case True
    with ds(4) that show thesis by (auto simp: selection_of_def)
  next
    case False
    have "\<exists>priors. mapM (\<lambda>p. rbind (item_at ?jd (ep_id p)) (\<lambda>d. Inr (ep_id p, worth (d_probabilities d)))) props = Inr priors"
      by (rule mapM_total_on) (use judged in fastforce)
    then obtain priors where priors: "mapM (\<lambda>p. rbind (item_at ?jd (ep_id p)) (\<lambda>d. Inr (ep_id p, worth (d_probabilities d)))) props = Inr priors" by blast
    from select_loop_total [OF ds(4)] obtain ps j2 where
      "select_loop 0 (JObj (interface_state fn)) (zip (map ep_id props) ?texts) (dict_of priors) (JObj [(''function'', JStr (fi_name fn))]) j1 = Inr (ps, j2)"
      "heuristic_judge j2" by blast
    with priors False that show thesis
      by (cases props rule: remdups_adj.cases) (auto simp: selection_of_def select_candidates_def)
  qed
  from ask_intents_total [OF sel(2) nl_rival_groups_nonempty] obtain "is" irows j3 where
    intents: "ask_intents fn props ?texts sel 0 (nl_rival_groups props) j2 = Inr (is, irows, j3)" "heuristic_judge j3" by blast
  have "\<exists>rows. mapM (sel_row_of fn (length props) ?jd sel (dict_of is)) props = Inr rows"
  proof (rule mapM_total_on)
    fix p
    assume "p \<in> set props"
    from judged [OF this] obtain d where "item_at ?jd (ep_id p) = Inr d" "d_probabilities d \<noteq> []" by blast
    then show "\<exists>y. sel_row_of fn (length props) ?jd sel (dict_of is) p = Inr y"
      by (simp add: sel_row_of_def best_label_def argmax_def Let_def)
  qed
  with ds sel intents show ?thesis by (auto simp: judge_spec_def Let_def)
qed

lemma judge_specs_total: "heuristic_judge j \<Longrightarrow> \<exists>rows fs j'. judge_specs fns specs j = Inr (rows, fs, j')"
proof (induction specs arbitrary: j)
  case (Cons s specs)
  show ?case
  proof (cases "map_of fns (es_function s) = None \<or> es_properties s = []")
    case True
    with Cons show ?thesis by (auto split: option.split)
  next
    case False
    then obtain fn where fn: "map_of fns (es_function s) = Some fn" "es_properties s \<noteq> []" by auto
    from judge_spec_total [OF Cons.prems fn(2)] obtain rows f j1 where one: "judge_spec fn (es_properties s) j = Inr (rows, f, j1)" "heuristic_judge j1" by blast
    from Cons.IH [OF one(2)] obtain rows2 fs2 j2 where "judge_specs fns specs j1 = Inr (rows2, fs2, j2)" by blast
    with fn one show ?thesis by auto
  qed
qed simp

text \<open>
  C34. With the heuristic scorer the select stage always returns. Whatever the functions, the English
  properties, the budget and the cap are (duplicate identifiers, empty texts, more than sixteen rival
  readings, no budget), no question is left without an answer and no lookup fails.
\<close>

theorem selection_returns:
  assumes "heuristic_judge j"
  shows "\<exists>sn j'. nl_select pc fs specs budget cap prove j = Inr (sn, j')"
proof -
  from judge_specs_total [OF assms] obtain rows f j' where "judge_specs (functions_by_name fs) specs j = Inr (rows, f, j')" by blast
  then show ?thesis by (simp add: nl_select_def Let_def split: prod.split)
qed

lemma demo_heuristic: "heuristic_judge demo_judge"
  by (simp add: heuristic_judge_def demo_judge_def make_judge_def lookup_def)

lemma selection_returns_witness:
  "\<exists>sn j'. nl_select PRICES [] [two_props] (Some 1) None True demo_judge = Inr (sn, j')"
  by (rule selection_returns [OF demo_heuristic])

definition two_fn :: fn_info where
  "two_fn = \<lparr>fi_name = ''f'', fi_source_name = ''f'', fi_file = ''m.py'', fi_params = [], fi_returns = ''int'', fi_source = [], fi_doc = [],
     fi_tests = [], fi_callers = []\<rparr>"

lemma selection_complete_witness:
  "\<exists>sn j'. nl_select PRICES [two_fn] [two_props] (Some 1) None True demo_judge = Inr (sn, j') \<and>
     mset (map listed_as (sn_rows sn)) = {#(''f'', ''p2'', ''f(1) returns 2''), (''f'', ''p1'', ''f(0) returns 1'')#}"
proof -
  from judge_specs_total [OF demo_heuristic] obtain rows fns j1 where
    "judge_specs (functions_by_name [two_fn]) [two_props] demo_judge = Inr (rows, fns, j1)" by blast
  then have "\<exists>sn j'. nl_select PRICES [two_fn] [two_props] (Some 1) None True demo_judge = Inr (sn, j')"
    unfolding nl_select_def by (simp only: rbind_Inr) (simp add: Let_def split: prod.split)
  then obtain sn j' where run: "nl_select PRICES [two_fn] [two_props] (Some 1) None True demo_judge = Inr (sn, j')" by blast
  from selection_complete [OF run] run show ?thesis by (auto simp: two_fn_def two_props_def)
qed

end
