(* ===== verification/NlRepair.thy ===== *)
theory NlRepair
  imports NlSelect Cegis
begin

text \<open>
  \<open>src/src/autoform/nl/repair.py\<close>: what a counterexample to an English property may mean, whether it is a
  finding, and which restatements are offered. Python's parser and evaluator (modules \<open>ast\<close>, \<open>eval\<close>)
  are parameters: the calls and the guards of a text, and the value of a condition. Counterexamples and
  arguments are JSON values.
\<close>

section \<open>Checks and parameters\<close>

record counter =
  ce_inputs :: dict
  ce_model :: json
  ce_runtime :: json

record nl_check =
  ck_statement :: string
  ck_status :: string
  ck_counterexample :: counter
  ck_runtime_agrees :: "bool option"

definition no_counter :: counter where
  "no_counter = \<lparr>ce_inputs = [], ce_model = JNull, ce_runtime = JNull\<rparr>"

text \<open>A call in a line of a test: the callee, the arguments and the keywords, \<open>None\<close> where it is no literal.\<close>

record py_call =
  pc_callee :: "string option"
  pc_args :: "json option list"
  pc_keywords :: "(string \<times> json option) list"

text \<open>A condition: its text, the names in it, and its form.\<close>

datatype form0 = Comparison string string string | Negation string | Other

record py_cond =
  co_text :: string
  co_names :: "string list"
  co_form :: form0

datatype py_first = Raises | Returns | Elsewise
datatype py_guard = If_stmt py_cond py_first | Assert_stmt py_cond

record python =
  py_calls :: "string \<Rightarrow> py_call list option"
  py_guards :: "string \<Rightarrow> py_guard list option"
  py_eval :: "string \<Rightarrow> dict \<Rightarrow> bool option"

section \<open>What tests and documentation say\<close>

definition nl_param_names :: "fn_info \<Rightarrow> string list" where
  "nl_param_names fn = map np_name (fi_params fn)"

definition add_value :: "string \<Rightarrow> json option \<Rightarrow> (string \<times> json list) list \<Rightarrow> (string \<times> json list) list" where
  "add_value p v m = (case v of None \<Rightarrow> m | Some x \<Rightarrow> add_to_group p x m)"

definition add_call :: "string list \<Rightarrow> (string \<times> json list) list \<Rightarrow> py_call \<Rightarrow> (string \<times> json list) list" where
  "add_call names m c =
     foldl (\<lambda>m (p, v). add_value p v m) (foldl (\<lambda>m (p, v). add_value p v m) m (zip names (pc_args c))) (pc_keywords c)"

text \<open>\<open>s.splitlines()\<close>, with an empty line between the two characters of a line end of that kind.\<close>

definition line_end :: "char \<Rightarrow> bool" where
  "line_end c = (let n = (of_char c :: nat) in (10 \<le> n \<and> n \<le> 13) \<or> (28 \<le> n \<and> n \<le> 30) \<or> n = 133)"

definition text_lines :: "string \<Rightarrow> string list" where
  "text_lines s = split_char (CHR 0x0A) (map (\<lambda>c. if line_end c then CHR 0x0A else c) s)"

definition doc_examples :: "fn_info \<Rightarrow> string list" where
  "doc_examples fn = map (\<lambda>l. strip_ends (drop 3 (strip_ends l))) (filter (\<lambda>l. startswith (strip_ends l) ''>>>'') (text_lines (fi_doc fn)))"

definition tested_callee :: "fn_info \<Rightarrow> string" where
  "tested_callee fn = (if fi_source_name fn \<noteq> [] then fi_source_name fn else after_last (CHR ''.'') (fi_name fn))"

definition calls_in :: "python \<Rightarrow> fn_info \<Rightarrow> string \<Rightarrow> py_call list" where
  "calls_in py fn t = (case py_calls py (strip_ends t) of None \<Rightarrow> [] | Some cs \<Rightarrow> filter (\<lambda>c. pc_callee c = Some (tested_callee fn)) cs)"

definition tested_values :: "python \<Rightarrow> fn_info \<Rightarrow> (string \<times> json list) list" where
  "tested_values py fn =
     foldl (add_call (nl_param_names fn)) [] (concat (map (calls_in py fn) (map snd (fi_tests fn) @ doc_examples fn)))"

definition hyphen :: rx where
  "hyphen = opt_rx (chr ''-'')"

definition word_group :: rx where
  "word_group = Grp ''p'' (many1 (Cls is_word))"

definition DOC_CONSTRAINT :: "rx list" where
  "DOC_CONSTRAINT =
     [cats [Bound, word_group, spaces1, alts [lit ''must'', lit ''should'', lit ''has to'', lit ''is expected to''], spaces1, lit ''be'', spaces1,
        Grp ''c'' (alts [cats [lit ''non'', hyphen, lit ''negative''], lit ''positive'', cats [lit ''non'', hyphen, lit ''zero''], lit ''not zero'']), Bound],
      cats [Bound, Grp ''c'' (alts [cats [lit ''non'', hyphen, lit ''negative''], lit ''positive'', cats [lit ''non'', hyphen, lit ''zero'']]), spaces1,
        opt_rx (alts [Cat (lit ''integer'') spaces1, Cat (lit ''number'') spaces1, Cat (lit ''value'') spaces1]), word_group, Bound]]"

definition DOC_PRE :: "(string \<times> string) list" where
  "DOC_PRE = [(''nonnegative'', '' >= 0''), (''non-negative'', '' >= 0''), (''positive'', '' > 0''), (''nonzero'', '' != 0''),
     (''non-zero'', '' != 0''), (''not zero'', '' != 0'')]"

definition constraint_of :: "string list \<Rightarrow> (string \<times> string) list \<Rightarrow> (string \<times> string) list" where
  "constraint_of names g =
     (let p = group_of ''p'' g; c = lower (group_of ''c'' g);
          rel = (case map_of DOC_PRE c of Some r \<Rightarrow> Some r | None \<Rightarrow> map_of DOC_PRE (filter (\<lambda>x. x \<noteq> CHR ''-'') c))
      in case rel of Some r \<Rightarrow> if p \<in> set names then [(p, p @ r)] else [] | None \<Rightarrow> [])"

definition add_once :: "'a list \<Rightarrow> 'a \<Rightarrow> 'a list" where
  "add_once xs x = (if x \<in> set xs then xs else xs @ [x])"

definition doc_constraints :: "fn_info \<Rightarrow> (string \<times> string) list" where
  "doc_constraints fn =
     foldl add_once [] (concat (map (\<lambda>r. concat (map (constraint_of (nl_param_names fn)) (rx_all r None (fi_doc fn)))) DOC_CONSTRAINT))"

section \<open>Where the witness lies\<close>

definition type_name :: "json \<Rightarrow> string" where
  "type_name v = (case v of JNull \<Rightarrow> ''NoneType'' | JBool _ \<Rightarrow> ''bool'' | JInt _ \<Rightarrow> ''int'' | JStr _ \<Rightarrow> ''str'' | JList _ \<Rightarrow> ''list''
     | JObj _ \<Rightarrow> ''dict'' | _ \<Rightarrow> ''float'')"

definition is_number :: "json \<Rightarrow> bool" where
  "is_number v = (type_name v \<in> {''int'', ''float''})"

definition below :: "json \<Rightarrow> json \<Rightarrow> bool" where
  "below a b = (case (num_of a, num_of b) of (Some x, Some y) \<Rightarrow> x \<le> y | _ \<Rightarrow> False)"

definition least :: "json list \<Rightarrow> json" where
  "least xs = foldl (\<lambda>m x. if below m x then m else x) (hd xs) (tl xs)"

definition greatest :: "json list \<Rightarrow> json" where
  "greatest xs = foldl (\<lambda>m x. if below x m then m else x) (hd xs) (tl xs)"

datatype domain0 = Outside string | Inside string | Unknown_domain string

text \<open>One tested parameter: why the witness lies outside, or that it lies inside.\<close>

definition outside_tested :: "string \<Rightarrow> json list \<Rightarrow> json \<Rightarrow> string option" where
  "outside_tested p vals v =
     (let kinds = sorted_set (map type_name vals); nums = filter is_number vals in
      if type_name v \<notin> set kinds then Some (''tests pass '' @ p @ '' only as '' @ join ''/'' kinds @ ''; the witness has '' @ py_repr v)
      else if nums \<noteq> [] \<and> is_number v \<and> \<not> (below (least nums) v \<and> below v (greatest nums)) then
        Some (''tests use '' @ p @ '' in ['' @ py_str (least nums) @ '', '' @ py_str (greatest nums) @ '']; the witness has '' @ p @ '' = '' @ py_str v)
      else if \<not> is_number v \<and> type_name v \<noteq> ''bool'' \<and> \<not> py_mem v vals then
        Some (''tests use '' @ p @ '' only as '' @ py_repr (JList (map JStr (sort (map py_repr vals)))) @ ''; the witness has '' @ p @ '' = '' @ py_repr v)
      else None)"

primrec tested_domain :: "dict \<Rightarrow> (string \<times> json list) list \<Rightarrow> string list \<Rightarrow> string + string list" where
  "tested_domain inputs [] reasons = Inr reasons"
| "tested_domain inputs (pv # rest) reasons =
     (case map_of inputs (fst pv) of
        None \<Rightarrow> tested_domain inputs rest reasons
      | Some v \<Rightarrow>
          (case outside_tested (fst pv) (snd pv) v of
             Some why \<Rightarrow> Inl why
           | None \<Rightarrow> tested_domain inputs rest (reasons @ [fst pv @ '' = '' @ py_repr v @ '' is within the tested values of '' @ fst pv])))"

primrec broken_constraint :: "python \<Rightarrow> dict \<Rightarrow> (string \<times> string) list \<Rightarrow> string option" where
  "broken_constraint py inputs [] = None"
| "broken_constraint py inputs (pc # rest) =
     (case map_of inputs (fst pc) of
        None \<Rightarrow> broken_constraint py inputs rest
      | Some v \<Rightarrow>
          if py_eval py (snd pc) [(fst pc, v)] = Some False
          then Some (''the docstring requires '' @ snd pc @ ''; the witness has '' @ fst pc @ '' = '' @ py_repr v)
          else broken_constraint py inputs rest)"

definition witness_domain :: "python \<Rightarrow> dict \<Rightarrow> fn_info \<Rightarrow> domain0" where
  "witness_domain py inputs fn =
     (let constraints = doc_constraints fn; tested = tested_values py fn;
          known = (\<exists>p \<in> set (map fst constraints @ map fst tested). map_of inputs p \<noteq> None) in
      case broken_constraint py inputs constraints of
        Some why \<Rightarrow> Outside why
      | None \<Rightarrow>
          (case tested_domain inputs tested [] of
             Inl why \<Rightarrow> Outside why
           | Inr reasons \<Rightarrow>
               if \<not> known then Unknown_domain ''no documented or tested input domain''
               else Inside (let r = join ''; '' reasons in if r = [] then ''within the documented domain'' else r)))"

section \<open>Gates\<close>

definition outcome_shown :: "json \<Rightarrow> string" where
  "outcome_shown v = py_str (py_or v (JStr []))"

definition UB_HOLE :: rx where
  "UB_HOLE = cats [Bound, chr ''hole'', spaces, opt_rx (chr ''(''), spaces, chr ([CHR 0x22] @ ''ub:'')]"

definition model_kind :: "json \<Rightarrow> string" where
  "model_kind v =
     (let t = outcome_shown v in
      if rx_search UB_HOLE t then ''undefined_behavior''
      else if rx_search (cats [Bound, chr ''hole'', Bound]) t then ''hole''
      else if substr ''outOfFuel'' t \<or> substr ''out of fuel'' t then ''out_of_fuel''
      else if rx_search (cats [Bound, chr ''exn'', Bound]) t then ''exception''
      else if t \<noteq> [] then ''value'' else ''unknown'')"

definition not_quote :: "char \<Rightarrow> bool" where
  "not_quote c = (c \<noteq> CHR 0x22)"

definition raised :: "json \<Rightarrow> string option" where
  "raised v =
     map_option (group_of ''e'')
       (rx_find (cats [chr ''exn'', spaces, opt_rx (chr ''(''), spaces, opt_rx (chr ''Autoform.Core.''), opt_rx (chr ''Val''), chr ''.str'', spaces1,
          chr [CHR 0x22], Grp ''e'' (many1 (Cls not_quote)), chr [CHR 0x22]]) (outcome_shown v))"

record nl_facts =
  fa_status :: string
  fa_kind :: string
  fa_runtime_agrees :: "bool option"
  fa_gate :: "string option"
  fa_domain :: "domain0 option"
  fa_rival :: bool

definition is_outside :: "domain0 option \<Rightarrow> bool" where
  "is_outside d = (case d of Some (Outside _) \<Rightarrow> True | _ \<Rightarrow> False)"

definition is_inside :: "domain0 option \<Rightarrow> bool" where
  "is_inside d = (case d of Some (Inside _) \<Rightarrow> True | _ \<Rightarrow> False)"

definition ub_name :: "json \<Rightarrow> string" where
  "ub_name v =
     (case rx_find (cats [chr ([CHR 0x22] @ ''ub:''), Grp ''u'' (Many True (Cls not_quote)), chr [CHR 0x22]]) (py_str v) of
        Some g \<Rightarrow> group_of ''u'' g | None \<Rightarrow> ''ub'')"

definition never_run :: "json \<Rightarrow> bool" where
  "never_run v = (let t = outcome_shown v in t = [] \<or> startswith t ''not run'')"

definition lost_intent :: "sel_row option \<Rightarrow> bool" where
  "lost_intent row = (case row of None \<Rightarrow> False | Some r \<Rightarrow> (case sr_intent r of None \<Rightarrow> False | Some i \<Rightarrow> \<not> in_chosen i))"

definition gates :: "python \<Rightarrow> nl_check \<Rightarrow> fn_info \<Rightarrow> sel_row option \<Rightarrow> string list \<times> nl_facts" where
  "gates py chk fn row =
     (let ce = ck_counterexample chk; kind = model_kind (ce_model ce);
          facts = \<lparr>fa_status = ck_status chk, fa_kind = kind, fa_runtime_agrees = ck_runtime_agrees chk, fa_gate = None, fa_domain = None,
                   fa_rival = False\<rparr>;
          dom = witness_domain py (ce_inputs ce) fn in
      if ck_status chk = ''REFUTED_RUNTIME'' then
        ([''INCOMPLETE_MODEL''], facts\<lparr>fa_gate := Some ''refuted on the real code only: the model disagrees with the code''\<rparr>)
      else if kind = ''undefined_behavior'' then
        (if is_outside (Some dom) then [''REAL_BUG'', ''MISSING_PRECONDITION''] else [''REAL_BUG''],
         facts\<lparr>fa_gate := Some (''the code reaches undefined behaviour at the witness ('' @ ub_name (ce_model ce) @ '')''), fa_domain := Some dom\<rparr>)
      else if kind = ''hole'' \<or> kind = ''out_of_fuel'' then
        ([''INCOMPLETE_MODEL''],
         facts\<lparr>fa_gate := Some (''the model reached '' @ map (\<lambda>c. if c = CHR ''_'' then CHR '' '' else c) kind @ '' at the witness'')\<rparr>)
      else if ck_runtime_agrees chk = Some True then
        ([''INCOMPLETE_MODEL''],
         facts\<lparr>fa_gate := Some (''the real code satisfies the statement on every checked input; the model does '' @ ''not'')\<rparr>)
      else
        ((if lost_intent row then [] else [''REAL_BUG'']) @ [''BAD_SPEC''] @
         (if is_inside (Some dom) then [] else [''MISSING_PRECONDITION'']) @
         (if ck_runtime_agrees chk = None \<and> never_run (ce_runtime ce) then [''ABSTRACTION_ARTIFACT''] else []),
         facts\<lparr>fa_domain := Some dom, fa_rival := lost_intent row\<rparr>))"

definition intent_sure :: "nl_intent \<Rightarrow> bool" where
  "intent_sure i \<longleftrightarrow> in_chosen i \<and> INTENT_THRESHOLD \<le> in_probability i"

definition nl_classification_prior :: "eprop \<Rightarrow> sel_row option \<Rightarrow> nl_facts \<Rightarrow> (string \<times> real) list" where
  "nl_classification_prior p row facts =
     (let j = (case row of None \<Rightarrow> [] | Some r \<Rightarrow> sr_probabilities r);
          sure = (case row of None \<Rightarrow> False | Some r \<Rightarrow> (case sr_intent r of None \<Rightarrow> False | Some i \<Rightarrow> intent_sure i)) in
      apply_if (is_outside (fa_domain facts)) (prior_add ''MISSING_PRECONDITION'' (35 / 100))
      (apply_if sure (prior_add ''REAL_BUG'' (2 / 10))
      (prior_add ''BAD_SPEC'' (3 / 10 * (lookup j ''TOO_STRONG'' 0 + lookup j ''UNSUPPORTED_BY_EVIDENCE'' 0))
      (prior_add (if external_evidence (ep_evidence p) \<noteq> [] then ''REAL_BUG'' else ''BAD_SPEC'') (3 / 10)
      (flat_prior COUNTEREXAMPLE_CLASSES)))))"

definition intent_confident :: "sel_row option \<Rightarrow> bool" where
  "intent_confident row =
     (case row of
        None \<Rightarrow> False
      | Some r \<Rightarrow> (case sr_intent r of Some i \<Rightarrow> intent_sure i | None \<Rightarrow> sr_label r \<notin> {''UNSUPPORTED_BY_EVIDENCE'', ''TOO_STRONG''}))"

definition nl_allowed_defects :: "nl_facts \<Rightarrow> string list" where
  "nl_allowed_defects facts =
     (if fa_kind facts = ''out_of_fuel'' then [''FUEL_BOUND'']
      else if fa_kind facts = ''hole'' then [''UNMODELED_CONSTRUCT'', ''FRONTEND_MISTRANSLATION'']
      else [''SEMANTICS_MISMATCH'', ''FRONTEND_MISTRANSLATION''])"

definition nl_defect_prior :: "nl_facts \<Rightarrow> (string \<times> real) list" where
  "nl_defect_prior facts =
     map (\<lambda>k. (k, 1 / 10 + (if k = (if fa_kind facts = ''hole'' then ''UNMODELED_CONSTRUCT'' else ''SEMANTICS_MISMATCH'') then 4 / 10 else 0)))
       (nl_allowed_defects facts)"

section \<open>Preconditions\<close>

definition NEG_OP :: "(string \<times> string) list" where
  "NEG_OP = [(''=='', ''!=''), (''!='', ''==''), (''<'', ''>=''), (''>='', ''<''), (''>'', ''<=''), (''<='', ''>''), (''is'', ''is not''),
     (''is not'', ''is''), (''in'', ''not in''), (''not in'', ''in'')]"

definition negated :: "py_cond \<Rightarrow> string" where
  "negated c =
     (case co_form c of
        Comparison l oper r \<Rightarrow> (case map_of NEG_OP oper of Some n \<Rightarrow> l @ '' '' @ n @ '' '' @ r | None \<Rightarrow> ''not ('' @ co_text c @ '')'')
      | Negation x \<Rightarrow> x
      | Other \<Rightarrow> ''not ('' @ co_text c @ '')'')"

definition speaks_of :: "string list \<Rightarrow> py_cond \<Rightarrow> bool" where
  "speaks_of names c = (set (co_names c) \<inter> set names \<noteq> {})"

definition guard_of :: "string list \<Rightarrow> py_guard \<Rightarrow> string list" where
  "guard_of names g =
     (case g of
        If_stmt c first \<Rightarrow>
          if \<not> speaks_of names c then []
          else (case first of Raises \<Rightarrow> [negated c] | Returns \<Rightarrow> [negated c, co_text c] | Elsewise \<Rightarrow> [])
      | Assert_stmt c \<Rightarrow> if speaks_of names c then [co_text c] else [])"

text \<open>Without a parse the source is searched for C conditions.\<close>

definition C_GUARD :: rx where
  "C_GUARD = cats [Bound, chr ''if'', spaces, chr ''('', Grp ''1'' some_chars, chr '')'', spaces, alts [chr ''{'', chr ''return'', chr ''goto'']]"

definition IDENTIFIER :: rx where
  "IDENTIFIER = Grp ''n'' (Cat (Cls (\<lambda>c. ascii_letter c \<or> c = CHR ''_'')) word_rest)"

definition c_guard :: "string list \<Rightarrow> (string \<times> string) list \<Rightarrow> string list" where
  "c_guard names g =
     (let cond = strip_ends (group_of ''1'' g); used = map (group_of ''n'') (rx_all IDENTIFIER None cond)
      in if set used \<inter> set names \<noteq> {} then [''!('' @ cond @ '')'', cond] else [])"

definition nl_guard_preconditions :: "python \<Rightarrow> fn_info \<Rightarrow> string list" where
  "nl_guard_preconditions py fn =
     (let src = strip_ends (fi_source fn); names = nl_param_names fn in
      case py_guards py (if src = [] then ''pass'' else src) of
        None \<Rightarrow> concat (map (c_guard names) (rx_all C_GUARD None (fi_source fn)))
      | Some gs \<Rightarrow> foldl add_once [] (concat (map (guard_of names) gs)))"

definition is_int :: "json \<Rightarrow> bool" where
  "is_int v = (case v of JInt _ \<Rightarrow> True | _ \<Rightarrow> False)"

definition int_value :: "json \<Rightarrow> int" where
  "int_value v = (case v of JInt i \<Rightarrow> i | _ \<Rightarrow> 0)"

definition range_preconditions :: "string \<times> json list \<Rightarrow> string list" where
  "range_preconditions = (\<lambda>(p, vals).
     let nums = map int_value (filter is_int vals) in
     if length nums < 2 then []
     else let lo = Min (set nums); hi = Max (set nums) in
       (if 0 < lo then [p @ '' > 0''] else if 0 \<le> lo then [p @ '' >= 0''] else []) @
       [dec_int lo @ '' <= '' @ p @ '' <= '' @ dec_int hi])"

definition domain_preconditions :: "python \<Rightarrow> fn_info \<Rightarrow> (string \<times> string) list" where
  "domain_preconditions py fn =
     map (\<lambda>(p, pre). (''docstring'', pre)) (doc_constraints fn) @
     map (Pair ''tested domain'') (concat (map range_preconditions (tested_values py fn)))"

text \<open>The integers and quoted texts in a text.\<close>

definition word_or_dot :: "char \<Rightarrow> bool" where
  "word_or_dot c = (is_word c \<or> c = CHR ''.'')"

definition NUMBER :: rx where
  "NUMBER = cats [Not_after word_or_dot, Grp ''d'' (Cat (opt_rx (Cls (\<lambda>c. c = CHR ''-'' \<or> c = CHR ''+''))) (many1 (Cls is_digit))),
     Not_before word_or_dot]"

definition QUOTED :: rx where
  "QUOTED = Alt (cats [chr [CHR 0x22], Grp ''s'' (Many True (Cls not_quote)), chr [CHR 0x22]])
     (cats [chr [CHR 0x27], Grp ''s'' (Many True (Cls (\<lambda>c. c \<noteq> CHR 0x27))), chr [CHR 0x27]])"

definition literals_in :: "string \<Rightarrow> string list" where
  "literals_in t =
     map (\<lambda>g. lstrip_char (CHR ''+'') (group_of ''d'' g)) (rx_all NUMBER None t) @ map (group_of ''s'') (rx_all QUOTED None t)"

definition known_literals :: "fn_info \<Rightarrow> string \<Rightarrow> string list" where
  "known_literals fn english =
     literals_in (fi_source fn) @ literals_in (fi_doc fn) @ literals_in english @
     concat (map (\<lambda>(l, t). literals_in t) (fi_tests fn)) @ [''0'', ''1'']"

definition witness_constants :: "string \<Rightarrow> dict \<Rightarrow> fn_info \<Rightarrow> string \<Rightarrow> string list" where
  "witness_constants pre inputs fn english =
     filter (\<lambda>s. s \<in> set (literals_in pre) \<and> s \<notin> set (known_literals fn english)) (map (\<lambda>(k, v). py_str v) inputs)"

section \<open>Repairs\<close>

record nl_repair =
  nr_id :: string
  nr_kind :: string
  nr_evidence :: string
  nr_text :: string
  nr_english :: "string option"
  nr_precondition :: "string option"

definition reject_option :: nl_repair where
  "reject_option = \<lparr>nr_id = ''REJECT'', nr_kind = ''reject'', nr_evidence = ''none'',
     nr_text = ''Reject the property: it does not describe intended behavior.'', nr_english = None, nr_precondition = None\<rparr>"

definition precondition_option :: "nat \<Rightarrow> string \<Rightarrow> string \<Rightarrow> string \<Rightarrow> nl_repair" where
  "precondition_option i src pre english =
     \<lparr>nr_id = ''PRECONDITION_'' @ dec i, nr_kind = ''precondition'', nr_evidence = src,
      nr_text = ''Add precondition from the '' @ src @ '': '' @ pre, nr_english = Some (''Assuming '' @ pre @ '': '' @ english),
      nr_precondition = Some pre\<rparr>"

datatype dropped = Overfit string "string list" | Not_excluding string

text \<open>The preconditions in turn: what is offered, what is dropped, and the texts already seen.\<close>

primrec offer ::
    "python \<Rightarrow> dict \<Rightarrow> fn_info \<Rightarrow> string \<Rightarrow> string list \<Rightarrow> (nat \<times> string \<times> string) list \<Rightarrow> nl_repair list \<times> dropped list" where
  "offer py inputs fn english seen [] = ([], [])"
| "offer py inputs fn english seen (x # rest) =
     (case x of (i, src, pre) \<Rightarrow>
        let bad = witness_constants pre inputs fn english in
        if bad \<noteq> [] then apsnd (Cons (Overfit pre bad)) (offer py inputs fn english seen rest)
        else if pre \<in> set seen then offer py inputs fn english seen rest
        else if py_eval py pre inputs = Some True then apsnd (Cons (Not_excluding pre)) (offer py inputs fn english (pre # seen) rest)
        else apfst (Cons (precondition_option i src pre english)) (offer py inputs fn english (pre # seen) rest))"

definition weak_option :: "string \<Rightarrow> string \<Rightarrow> string \<Rightarrow> nl_repair" where
  "weak_option i which english =
     \<lparr>nr_id = i, nr_kind = ''weaken'', nr_evidence = ''none'', nr_text = ''Keep '' @ which @ '' direction: '' @ english,
      nr_english = Some english, nr_precondition = None\<rparr>"

definition WEAKEN :: "(rx \<times> string \<times> string) list" where
  "WEAKEN = [(cats [Bound, lit ''exactly when'', Bound], ''whenever'', ''only when''),
     (cats [Bound, lit ''if and only if'', Bound], ''if'', ''only if''), (cats [Bound, lit ''iff'', Bound], ''if'', ''only if'')]"

primrec weaken_options :: "string \<Rightarrow> (rx \<times> string \<times> string) list \<Rightarrow> nl_repair list" where
  "weaken_options english [] = []"
| "weaken_options english (w # rest) =
     (case w of (r, a, b) \<Rightarrow>
        if rx_search r english
        then [weak_option ''WEAKEN_IF'' ''one'' (rx_sub r a None english), weak_option ''WEAKEN_ONLY_IF'' ''the other'' (rx_sub r b None english)]
        else weaken_options english rest)"

definition exception_option :: "json \<Rightarrow> string \<Rightarrow> nl_repair list" where
  "exception_option model english =
     (case raised model of
        Some e \<Rightarrow>
          if e \<noteq> [] \<and> \<not> substr e english then
            [\<lparr>nr_id = ''ALLOW_EXCEPTION'', nr_kind = ''exceptions'', nr_evidence = ''none'',
              nr_text = ''Treat raising '' @ e @ '' as permitted behavior (the function signals invalid input).'',
              nr_english = Some (rstrip_of (\<lambda>c. c = CHR ''.'' \<or> c = CHR '' '') english @ '', unless it raises '' @ e @ ''.''),
              nr_precondition = None\<rparr>]
          else []
      | None \<Rightarrow> [])"

definition candidates :: "python \<Rightarrow> string \<Rightarrow> string \<Rightarrow> nl_check \<Rightarrow> fn_info \<Rightarrow> nl_repair list \<times> dropped list" where
  "candidates py pre0 english chk fn =
     (let ce = ck_counterexample chk;
          pres = map (Pair ''code guard'') (nl_guard_preconditions py fn) @ domain_preconditions py fn;
          (opts, dropped) = offer py (ce_inputs ce) fn english [pre0] (enumerate 0 pres)
      in (List.take 16 (reject_option # opts @ weaken_options english WEAKEN @ exception_option (ce_model ce) english), dropped))"

definition FITS :: "(string \<times> (string \<times> real) list) list" where
  "FITS = [(''reject'', [(''BAD_SPEC'', 45 / 100), (''MISSING_PRECONDITION'', 10 / 100)]),
     (''weaken'', [(''BAD_SPEC'', 50 / 100), (''MISSING_PRECONDITION'', 10 / 100)]),
     (''precondition'', [(''MISSING_PRECONDITION'', 70 / 100), (''BAD_SPEC'', 20 / 100)]),
     (''exceptions'', [(''MISSING_PRECONDITION'', 40 / 100), (''BAD_SPEC'', 30 / 100)])]"

definition nl_repair_prior :: "nl_repair \<Rightarrow> string \<Rightarrow> real" where
  "nl_repair_prior o1 cls =
     (let fit = lookup (lookup FITS (nr_kind o1) []) cls (5 / 100);
          support = lookup [(''docstring'', 30 / 100), (''code guard'', 25 / 100), (''tested domain'', 20 / 100)] (nr_evidence o1) 0
      in py_round 4 (max (1 / 100) (fit + support)))"

definition margin :: "(string \<times> real) list \<Rightarrow> real" where
  "margin probs = (let top = rev (sort (map snd probs)) @ [0, 0] in py_round 4 (top ! 0 - top ! 1))"

section \<open>The stage\<close>

record nl_stmt =
  ns_id :: string
  ns_function :: string
  ns_property :: string
  ns_english :: string
  ns_pre :: string
  ns_post :: string
  ns_parent :: "string option"

definition REFUTED :: "string list" where
  "REFUTED = [''REFUTED_MODEL'', ''REFUTED_RUNTIME'']"

record nl_defect =
  nd_class :: string
  nd_allowed :: "string list"
  nd_probabilities :: "(string \<times> real) list"
  nd_forced :: bool
  nd_decision :: string
  nd_gate :: "string option"
  nd_model :: string
  nd_model_status :: "string option"
  nd_owner :: string

record nl_pick =
  pk_offered :: "string list"
  pk_dropped :: "dropped list"
  pk_precondition :: "(string \<times> string \<times> (string \<times> real) list) option"
  pk_chosen :: string
  pk_kind :: string
  pk_english :: "string option"
  pk_decision :: string
  pk_options :: "string list"
  pk_probabilities :: "(string \<times> real) list"
  pk_margin :: real
  pk_duplicate :: "string option"

record adj_record =
  ar_statement :: string
  ar_function :: string
  ar_property :: string
  ar_round :: nat
  ar_status :: string
  ar_english :: string
  ar_evidence :: "string list"
  ar_counterexample :: counter
  ar_allowed :: "string list"
  ar_facts :: nl_facts
  ar_class :: string
  ar_probabilities :: "(string \<times> real) list"
  ar_forced :: bool
  ar_margin :: real
  ar_decision :: string
  ar_parent :: "string option"
  ar_defect :: "nl_defect option"
  ar_cross :: "(string list \<times> bool) option"
  ar_repair :: "nl_pick option"
  ar_repaired_by :: "string option"
  ar_disposition :: string

record nl_lineage =
  ln_parent :: string
  ln_root :: string
  ln_root_property :: string
  ln_round :: nat
  ln_kind :: string
  ln_repair :: string

record new_prop =
  nw_prop :: eprop
  nw_parent :: string
  nw_function :: string
  nw_statement :: string
  nw_round :: nat

text \<open>
  What a run is given. The last field holds the stages that formalize and check, with the cost of their
  calls; without them the repairs are proposed and not tried.
\<close>

record nl_setup =
  nu_python :: python
  nu_functions :: "(string \<times> fn_info) list"
  nu_selection :: "((string \<times> string) \<times> sel_row) list"
  nu_models :: "(string \<times> string \<times> string) list"
  nu_template :: string
  nu_summaries :: "(string \<times> string) list"
  nu_rounds :: nat
  nu_budget :: "real option"
  nu_price :: real
  nu_stages :: "((nat \<Rightarrow> espec list \<Rightarrow> nl_stmt list \<times> real) \<times> (nat \<Rightarrow> nl_stmt list \<Rightarrow> nl_check list)) option"

text \<open>What it changes.\<close>

record adj_state =
  as_props :: "((string \<times> string) \<times> eprop) list"
  as_lineage :: "(string \<times> nl_lineage) list"
  as_records :: "adj_record list"
  as_new :: "new_prop list"
  as_skipped :: "(string \<times> string \<times> real) list"
  as_todo :: "(string \<times> eprop) list"
  as_judge :: judge

definition prop_of :: "adj_state \<Rightarrow> nl_stmt \<Rightarrow> eprop" where
  "prop_of s st =
     (case map_of (as_props s) (ns_function st, ns_property st) of
        Some p \<Rightarrow> p
      | None \<Rightarrow> \<lparr>ep_id = ns_property st, ep_text = ns_english st, ep_kind = ''postcondition'', ep_evidence = []\<rparr>)"

definition row_of_stmt :: "nl_setup \<Rightarrow> adj_state \<Rightarrow> nl_stmt \<Rightarrow> sel_row option" where
  "row_of_stmt su s st =
     (case map_of (nu_selection su) (ns_function st, ns_property st) of
        Some r \<Rightarrow> Some r
      | None \<Rightarrow>
          (case map_of (as_lineage s) (ns_id st) of
             Some l \<Rightarrow> map_of (nu_selection su) (ns_function st, ln_root_property l)
           | None \<Rightarrow> None))"

definition domain_json :: "domain0 option \<Rightarrow> json" where
  "domain_json d = (case d of None \<Rightarrow> JNull | Some (Outside w) \<Rightarrow> JStr w | Some (Inside w) \<Rightarrow> JStr w | Some (Unknown_domain w) \<Rightarrow> JStr w)"

definition adj_question :: "fn_info \<Rightarrow> eprop \<Rightarrow> nl_stmt \<Rightarrow> nl_check \<Rightarrow> nl_facts \<Rightarrow> dict" where
  "adj_question fn p st chk facts =
     full_state fn @
     [(''english'', JStr (ep_text p)), (''evidence'', JList (map JStr (ep_evidence p))), (''lean_precondition'', JStr (ns_pre st)),
      (''lean_postcondition'', JStr (ns_post st)), (''check_status'', JStr (ck_status chk)),
      (''counterexample'', JObj [(''inputs'', JObj (ce_inputs (ck_counterexample chk))), (''model_outcome'', ce_model (ck_counterexample chk)),
         (''real_code_outcome'', ce_runtime (ck_counterexample chk))]),
      (''input_domain'', domain_json (fa_domain facts))]"

definition statement_ctx :: "nl_stmt \<Rightarrow> dict \<Rightarrow> json" where
  "statement_ctx st others = JObj ((''statement'', JStr (ns_id st)) # others)"

definition first_record :: "adj_state \<Rightarrow> nat \<Rightarrow> nl_stmt \<Rightarrow> nl_check \<Rightarrow> eprop \<Rightarrow> string list \<Rightarrow> nl_facts \<Rightarrow> decision \<Rightarrow> adj_record" where
  "first_record s n st chk p allowed facts d =
     \<lparr>ar_statement = ns_id st, ar_function = ns_function st, ar_property = ns_property st, ar_round = n, ar_status = ck_status chk,
      ar_english = ep_text p, ar_evidence = ep_evidence p, ar_counterexample = ck_counterexample chk, ar_allowed = allowed,
      ar_facts = facts, ar_class = d_chosen d, ar_probabilities = d_probabilities d, ar_forced = d_forced d,
      ar_margin = margin (d_probabilities d), ar_decision = d_id d, ar_parent = map_option ln_parent (map_of (as_lineage s) (ns_id st)),
      ar_defect = None, ar_cross = None, ar_repair = None, ar_repaired_by = None, ar_disposition = []\<rparr>"

definition adj_defect ::
    "nl_setup \<Rightarrow> fn_info \<Rightarrow> nl_stmt \<Rightarrow> dict \<Rightarrow> nl_facts \<Rightarrow> adj_record \<Rightarrow> judge \<Rightarrow> (adj_record \<times> judge) res" where
  "adj_defect su fn st question facts rec0 j =
     rbind (classify_model_defect (JObj (question @ [(''gate'', (case fa_gate facts of None \<Rightarrow> JNull | Some g \<Rightarrow> JStr g))]))
         (nl_allowed_defects facts) (nl_defect_prior facts) (statement_ctx st []) j) (\<lambda>(d, j').
       let m = map_of (nu_models su) (ns_function st) in
       Inr (rec0\<lparr>ar_defect := Some \<lparr>nd_class = d_chosen d, nd_allowed = nl_allowed_defects facts, nd_probabilities = d_probabilities d,
              nd_forced = d_forced d, nd_decision = d_id d, nd_gate = fa_gate facts,
              nd_model = (case m of Some (l, _) \<Rightarrow> if l = [] then nu_template su else l | None \<Rightarrow> nu_template su),
              nd_model_status = map_option snd m, nd_owner = (if m = None then ''translation'' else ''model stage'')\<rparr>,
            ar_disposition := ''model_defect''\<rparr>, j'))"

definition adj_bug :: "eprop \<Rightarrow> sel_row option \<Rightarrow> adj_record \<Rightarrow> adj_record" where
  "adj_bug p row rec0 =
     (let ext = external_evidence (ep_evidence p); sure = intent_confident row in
      rec0\<lparr>ar_cross := Some (ext, sure), ar_disposition := (if ext \<noteq> [] \<and> sure then ''finding'' else ''suspected_bug'')\<rparr>)"

text \<open>A precondition is chosen among several first; then the kinds of repair are weighed.\<close>

definition repair_shown :: "nl_repair \<Rightarrow> opt" where
  "repair_shown o1 = (nr_id o1, nr_text o1)"

definition repair_ctx :: "nl_stmt \<Rightarrow> string \<Rightarrow> json" where
  "repair_ctx st cls = statement_ctx st [(''classification'', JStr cls)]"

definition priors_of :: "nl_repair list \<Rightarrow> string \<Rightarrow> (string \<times> real) list" where
  "priors_of os cls = dict_of (map (\<lambda>o1. (nr_id o1, nl_repair_prior o1 cls)) os)"

definition is_pre_option :: "nl_repair \<Rightarrow> bool" where
  "is_pre_option o1 = (nr_kind o1 = ''precondition'')"

definition narrow_preconditions ::
    "nl_stmt \<Rightarrow> dict \<Rightarrow> string \<Rightarrow> nl_repair list \<Rightarrow> judge \<Rightarrow>
     ((string \<times> string \<times> (string \<times> real) list) option \<times> nl_repair list \<times> judge) res" where
  "narrow_preconditions st question cls os j =
     (let pres = filter is_pre_option os in
      if cls = ''MISSING_PRECONDITION'' \<and> 2 \<le> length pres then
        rbind (select_precondition (JObj question) (map repair_shown pres) (priors_of pres cls) (repair_ctx st cls) j) (\<lambda>(d, j').
          Inr (Some (d_chosen d, d_id d, d_probabilities d), filter (\<lambda>o1. \<not> is_pre_option o1 \<or> nr_id o1 = d_chosen d) os, j'))
      else Inr (None, os, j))"

definition pick_repair ::
    "nl_stmt \<Rightarrow> dict \<Rightarrow> string \<Rightarrow> nl_repair list \<Rightarrow> dropped list \<Rightarrow> judge \<Rightarrow> (nl_repair \<times> nl_pick \<times> judge) res" where
  "pick_repair st question cls os dropped j =
     rbind (narrow_preconditions st question cls os j) (\<lambda>(pre, os', j1).
     rbind (rank_repairs (JObj question) (map repair_shown os') (priors_of os' cls) (repair_ctx st cls) j1) (\<lambda>(d, j2).
       case find (\<lambda>o1. nr_id o1 = d_chosen d) os' of
         None \<Rightarrow> Inl StopIteration
       | Some o1 \<Rightarrow>
           Inr (o1, \<lparr>pk_offered = map nr_id os, pk_dropped = dropped, pk_precondition = pre, pk_chosen = nr_id o1, pk_kind = nr_kind o1,
             pk_english = nr_english o1, pk_decision = d_id d, pk_options = map nr_id os', pk_probabilities = d_probabilities d,
             pk_margin = margin (d_probabilities d), pk_duplicate = None\<rparr>, j2)))"

definition repair_evidence :: "nl_repair \<Rightarrow> string" where
  "repair_evidence o1 = ''repair:'' @ nr_kind o1 @ (if nr_evidence o1 = ''none'' then [] else '' ('' @ nr_evidence o1 @ '')'')"

definition repaired_prop :: "nat \<Rightarrow> eprop \<Rightarrow> nl_stmt \<Rightarrow> nl_repair \<Rightarrow> string \<Rightarrow> eprop" where
  "repaired_prop n p st o1 english =
     \<lparr>ep_id = ns_property st @ ''_r'' @ dec n, ep_text = english, ep_kind = ep_kind p, ep_evidence = ep_evidence p @ [repair_evidence o1]\<rparr>"

definition lineage_of :: "adj_state \<Rightarrow> nat \<Rightarrow> nl_stmt \<Rightarrow> nl_repair \<Rightarrow> nl_lineage" where
  "lineage_of s n st o1 =
     (let l = map_of (as_lineage s) (ns_id st) in
      \<lparr>ln_parent = ns_id st, ln_root = (case l of None \<Rightarrow> ns_id st | Some x \<Rightarrow> ln_root x),
       ln_root_property = (case l of None \<Rightarrow> ns_property st | Some x \<Rightarrow> ln_root_property x), ln_round = n,
       ln_kind = nr_kind o1, ln_repair = nr_id o1\<rparr>)"

definition duplicates :: "adj_state \<Rightarrow> string \<Rightarrow> string \<Rightarrow> eprop list" where
  "duplicates s f english =
     map snd (filter (\<lambda>((g, i), p). g = f \<and> squeeze (ep_text p) = squeeze english) (as_props s))"

definition over_budget :: "nl_setup \<Rightarrow> real \<Rightarrow> bool" where
  "over_budget su spent = (case nu_budget su of None \<Rightarrow> False | Some b \<Rightarrow> b < spent + nu_price su)"

definition record_to :: "adj_record \<Rightarrow> adj_state \<Rightarrow> adj_state" where
  "record_to r s = s\<lparr>as_records := as_records s @ [r]\<rparr>"

text \<open>The chosen repair is carried out: the new property, its lineage, and its place in the next round.\<close>

definition carry_out :: "nat \<Rightarrow> nl_stmt \<Rightarrow> eprop \<Rightarrow> nl_repair \<Rightarrow> string \<Rightarrow> adj_record \<Rightarrow> adj_state \<Rightarrow> adj_state" where
  "carry_out n st p o1 english rec0 s =
     (let p' = repaired_prop n p st o1 english; sid = statement_id (ns_function st) (ep_id p') in
      record_to (rec0\<lparr>ar_repaired_by := Some sid, ar_disposition := ''repaired''\<rparr>)
        (s\<lparr>as_lineage := AList.update sid (lineage_of s n st o1) (as_lineage s),
           as_props := AList.update (ns_function st, ep_id p') p' (as_props s),
           as_new := as_new s @ [\<lparr>nw_prop = p', nw_parent = ns_property st, nw_function = ns_function st, nw_statement = sid, nw_round = n\<rparr>],
           as_todo := as_todo s @ [(ns_function st, p')]\<rparr>))"

definition adj_repair ::
    "nl_setup \<Rightarrow> nat \<Rightarrow> real \<Rightarrow> fn_info \<Rightarrow> nl_stmt \<Rightarrow> nl_check \<Rightarrow> eprop \<Rightarrow> dict \<Rightarrow> adj_record \<Rightarrow> adj_state \<Rightarrow> adj_state res" where
  "adj_repair su n spent fn st chk p question rec0 s =
     (let english = (if ep_text p = [] then ns_english st else ep_text p);
          (os, dropped) = candidates (nu_python su) (ns_pre st) english chk fn
      in rbind (pick_repair st question (ar_class rec0) os dropped (as_judge s)) (\<lambda>(o1, pick, j).
         let s1 = s\<lparr>as_judge := j\<rparr>; rec1 = rec0\<lparr>ar_repair := Some pick\<rparr> in
         if nr_kind o1 = ''reject'' then Inr (record_to (rec1\<lparr>ar_disposition := ''rejected_by_repair''\<rparr>) s1)
         else (case nr_english o1 of
             None \<Rightarrow> Inl AttributeError
           | Some e \<Rightarrow>
               (case duplicates s1 (ns_function st) e of
                  q # _ \<Rightarrow>
                    Inr (record_to (rec0\<lparr>ar_repair := Some (pick\<lparr>pk_duplicate := Some (ep_id q)\<rparr>),
                           ar_disposition := ''repair_duplicates_existing''\<rparr>) s1)
                | [] \<Rightarrow>
                    if over_budget su spent then
                      Inr (record_to (rec1\<lparr>ar_disposition := ''repair_skipped_budget''\<rparr>)
                            (s1\<lparr>as_skipped := as_skipped s1 @ [(ns_function st, ns_property st, spent)]\<rparr>))
                    else Inr (carry_out n st p o1 e rec1 s1)))))"

text \<open>One refuted statement.\<close>

definition adj_one ::
    "nl_setup \<Rightarrow> nat \<Rightarrow> real \<Rightarrow> (string \<times> nl_check) list \<Rightarrow> nl_stmt \<Rightarrow> adj_state \<Rightarrow> adj_state res" where
  "adj_one su n spent checks st s =
     (case map_of (nu_functions su) (ns_function st) of
        None \<Rightarrow> Inr s
      | Some fn \<Rightarrow>
          rbind (item_at checks (ns_id st)) (\<lambda>chk.
          let p = prop_of s st; row = row_of_stmt su s st; (allowed, facts) = gates (nu_python su) chk fn row;
              question = adj_question fn p st chk facts
          in rbind (classify_counterexample (JObj question) allowed (nl_classification_prior p row facts)
                 (statement_ctx st [(''round'', JInt (int n))]) (as_judge s)) (\<lambda>(d, j).
             let s1 = s\<lparr>as_judge := j\<rparr>; rec0 = first_record s n st chk p allowed facts d; cls = d_chosen d in
             if cls = ''INCOMPLETE_MODEL'' then
               rbind (adj_defect su fn st question facts rec0 j) (\<lambda>(r, j2). Inr (record_to r (s1\<lparr>as_judge := j2\<rparr>)))
             else if cls = ''REAL_BUG'' then Inr (record_to (adj_bug p row rec0) s1)
             else if cls = ''ENVIRONMENT_MISMATCH'' \<or> cls = ''ABSTRACTION_ARTIFACT'' then
               Inr (record_to (rec0\<lparr>ar_disposition := lower cls\<rparr>) s1)
             else if nu_rounds su < n then Inr (record_to (rec0\<lparr>ar_disposition := ''repair_limit''\<rparr>) s1)
             else adj_repair su n spent fn st chk p question rec0 s1)))"

primrec adj_all ::
    "nl_setup \<Rightarrow> nat \<Rightarrow> real \<Rightarrow> (string \<times> nl_check) list \<Rightarrow> nl_stmt list \<Rightarrow> adj_state \<Rightarrow> adj_state res" where
  "adj_all su n spent checks [] s = Inr s"
| "adj_all su n spent checks (st # sts) s =
     rbind (adj_one su n spent checks st s) (\<lambda>s'. adj_all su n spent checks sts s')"

definition refuted_in :: "(string \<times> nl_check) list \<Rightarrow> nl_stmt \<Rightarrow> bool" where
  "refuted_in checks st = (case map_of checks (ns_id st) of None \<Rightarrow> False | Some c \<Rightarrow> ck_status c \<in> set REFUTED)"

definition with_checks :: "nl_check list \<Rightarrow> (string \<times> nl_check) list \<Rightarrow> (string \<times> nl_check) list" where
  "with_checks cs m = foldl (\<lambda>m c. AList.update (ck_statement c) c m) m cs"

definition todo_specs :: "(string \<times> string) list \<Rightarrow> (string \<times> eprop) list \<Rightarrow> espec list" where
  "todo_specs summaries todo =
     map (\<lambda>(f, xs). \<lparr>es_function = f, es_summary = lookup summaries f [], es_properties = map snd xs\<rparr>) (grouped fst todo)"

record adj_result =
  re_state :: adj_state
  re_statements :: "nl_stmt list"
  re_checks :: "nl_check list"
  re_spent :: real

text \<open>The rounds in turn: the refuted statements of a round, then the stages on its repairs.\<close>

primrec adj_rounds ::
    "nl_setup \<Rightarrow> nat list \<Rightarrow> real \<Rightarrow> (string \<times> nl_check) list \<Rightarrow> nl_stmt list \<Rightarrow> adj_state \<Rightarrow> adj_result res" where
  "adj_rounds su [] spent checks frontier s = Inr \<lparr>re_state = s, re_statements = [], re_checks = [], re_spent = spent\<rparr>"
| "adj_rounds su (n # ns) spent checks frontier s =
     rbind (adj_all su n spent checks frontier (s\<lparr>as_todo := []\<rparr>)) (\<lambda>s1.
       case (as_todo s1, nu_stages su) of
         (t # ts, Some (formalize, check)) \<Rightarrow>
           (let (raw, cost) = formalize n (todo_specs (nu_summaries su) (t # ts));
                got = map (\<lambda>st. st\<lparr>ns_parent := map_option ln_parent (map_of (as_lineage s1) (ns_id st))\<rparr>) raw;
                res = check n got;
                checks' = with_checks res checks;
                next_frontier = filter (refuted_in checks') got
            in if next_frontier = []
               then Inr \<lparr>re_state = s1, re_statements = got, re_checks = res, re_spent = spent + cost\<rparr>
               else rbind (adj_rounds su ns (spent + cost) checks' next_frontier s1) (\<lambda>r.
                 Inr (r\<lparr>re_statements := got @ re_statements r, re_checks := res @ re_checks r\<rparr>)))
       | _ \<Rightarrow> Inr \<lparr>re_state = s1, re_statements = [], re_checks = [], re_spent = spent\<rparr>)"

definition props_of :: "espec list \<Rightarrow> ((string \<times> string) \<times> eprop) list" where
  "props_of specs = dict_of (concat (map (\<lambda>s. map (\<lambda>p. ((es_function s, ep_id p), p)) (es_properties s)) specs))"

definition adj_start :: "espec list \<Rightarrow> judge \<Rightarrow> adj_state" where
  "adj_start specs j =
     \<lparr>as_props = props_of specs, as_lineage = [], as_records = [], as_new = [], as_skipped = [], as_todo = [], as_judge = j\<rparr>"

definition nl_adjudicate :: "nl_setup \<Rightarrow> nl_stmt list \<Rightarrow> nl_check list \<Rightarrow> espec list \<Rightarrow> judge \<Rightarrow> adj_result res" where
  "nl_adjudicate su statements checks specs j =
     (let by_check = with_checks checks [] in
      adj_rounds su [1..<nu_rounds su + 2] 0 by_check (filter (refuted_in by_check) statements) (adj_start specs j))"

definition adj_findings :: "adj_result \<Rightarrow> string list" where
  "adj_findings r = map ar_statement (filter (\<lambda>x. ar_disposition x = ''finding'') (as_records (re_state r)))"

definition adj_counts :: "adj_result \<Rightarrow> (string \<times> nat) list" where
  "adj_counts r = map (\<lambda>k. (k, length (filter (\<lambda>x. ar_disposition x = k) (as_records (re_state r)))))
     (sorted_set (map ar_disposition (as_records (re_state r))))"

end
