(* ===== verification/NlAdjudicate.thy ===== *)
theory NlAdjudicate
  imports NlRepair
begin

text \<open>
  What \<open>adjudicate\<close> of \<open>src/src/autoform/nl/repair.py\<close> promises: which classes the gates leave, what becomes
  a finding, which restatements are offered, and that the rounds end with a record for every refuted
  statement.
\<close>

section \<open>What the judge may answer\<close>

lemma decide_one_inv:
  assumes "decide_one task row forced j = Inr (d, j')"
  shows "\<exists>ds. decide_rows task [row] False forced j = Inr (d # ds, j')"
  using assms by (auto simp: decide_one_def rbind_def split: sum.splits list.splits prod.splits)

lemma decide_one_keeps:
  assumes "decide_one task row forced j = Inr (d, j')"
  shows "jg_score j' = jg_score j" and "jg_temperature j' = jg_temperature j"
proof -
  from decide_one_inv [OF assms] obtain ds where "decide_rows task [row] False forced j = Inr (ds, j')" by blast
  from decide_rows_log(1) [OF this] show "jg_score j' = jg_score j" and "jg_temperature j' = jg_temperature j"
    by (simp_all add: fold_log)
qed

text \<open>A scorer that meets its contract chooses one of the options.\<close>

lemma ask_chosen:
  assumes "ask task i state q os limit prior ctx j = Inr (d, j')" and "scorer (jg_score j)"
  shows "d_chosen d \<in> fst ` set os" and "jg_score j' = jg_score j" and "jg_temperature j' = jg_temperature j"
proof -
  have keeps: "\<exists>row forced. decide_one task row forced j = Inr (d, j')"
    using assms(1) by (auto simp: ask_def split: list.splits)
  then show "jg_score j' = jg_score j" and "jg_temperature j' = jg_temperature j" using decide_one_keeps by blast+
  show "d_chosen d \<in> fst ` set os"
  proof (cases "\<exists>o1. os = [o1]")
    case True
    with assms(1) show ?thesis
      by (auto simp: ask_def decide_one_def decide_rows_def forced_decision_def Let_def)
  next
    case False
    let ?row = "jrow i state q (List.take limit os) prior ctx"
    have "ask task i state q os limit prior ctx j = decide_one task ?row None j"
      using False by (cases os rule: remdups_adj.cases) (auto simp: ask_def)
    with assms(1) decide_one_inv obtain ds where ds: "decide_rows task [?row] False None j = Inr (d # ds, j')" by metis
    from scorer.decide_single [OF assms(2) ds refl] have "d_chosen d \<in> fst ` set (jr_options ?row)" by auto
    moreover have "set (jr_options ?row) \<subseteq> set os" by (auto simp: jrow_def dest: in_set_takeD)
    ultimately show ?thesis by blast
  qed
qed

lemma described_inv: "described table ks = Inr os \<Longrightarrow> map fst os = ks"
  unfolding described_def mapM_eq_Inr
  by (induction ks os rule: list_all2_induct) (auto split: option.splits)

lemma classify_chosen:
  assumes "classify_counterexample state allowed prior ctx j = Inr (d, j')" and "scorer (jg_score j)"
  shows "d_chosen d \<in> set allowed" and "jg_score j' = jg_score j" and "jg_temperature j' = jg_temperature j"
proof -
  from assms(1) obtain os where os: "map fst os = allowed"
    and a: "ask ''COUNTEREXAMPLE_CLASSIFICATION'' ''ce'' state
       ''The verifier found this counterexample to the claim. What does it most likely mean?'' os (length os) prior ctx j = Inr (d, j')"
    by (auto simp: classify_counterexample_def res_simps dest: described_inv)
  have "fst ` set os = set allowed" using os by (metis list.set_map)
  with ask_chosen [OF a assms(2)]
  show "d_chosen d \<in> set allowed" "jg_score j' = jg_score j" "jg_temperature j' = jg_temperature j" by simp_all
qed

lemma ask_returns:
  assumes "heuristic_judge j" and "os \<noteq> []" and "0 < limit"
  shows "\<exists>d j'. ask task i state q os limit prior ctx j = Inr (d, j') \<and> d_chosen d \<in> fst ` set os \<and> heuristic_judge j'"
proof -
  from ask_answers [OF assms(2,3)] assms(1) obtain d j' where
    a: "ask task i state q os limit prior ctx j = Inr (d, j')" "d_chosen d \<in> fst ` set os"
    by (metis heuristic_judge_def)
  then obtain row forced where "decide_one task row forced j = Inr (d, j')"
    by (auto simp: ask_def split: list.splits)
  from decide_one_keeps [OF this] assms(1) have "heuristic_judge j'" by (simp add: heuristic_judge_def)
  with a show ?thesis by blast
qed

lemma select_returns:
  "heuristic_judge j \<Longrightarrow> os \<noteq> [] \<Longrightarrow>
   \<exists>d j'. select_precondition state os prior ctx j = Inr (d, j') \<and> d_chosen d \<in> fst ` set os \<and> heuristic_judge j'"
  unfolding select_precondition_def by (rule ask_returns) (simp_all add: MAX_OPTIONS_def)

lemma rank_returns:
  "heuristic_judge j \<Longrightarrow> os \<noteq> [] \<Longrightarrow>
   \<exists>d j'. rank_repairs state os prior ctx j = Inr (d, j') \<and> d_chosen d \<in> fst ` set os \<and> heuristic_judge j'"
  unfolding rank_repairs_def by (rule ask_returns) (simp_all add: MAX_OPTIONS_def)

lemma classify_returns:
  assumes "heuristic_judge j" and "allowed \<noteq> []" and "set allowed \<subseteq> fst ` set COUNTEREXAMPLE_CLASSES"
  shows "\<exists>d j'. classify_counterexample state allowed prior ctx j = Inr (d, j') \<and> d_chosen d \<in> set allowed \<and> heuristic_judge j'"
proof -
  from described_known [OF assms(3)] obtain os where os: "described COUNTEREXAMPLE_CLASSES allowed = Inr os" "map fst os = allowed" by blast
  then have "os \<noteq> []" using assms(2) by auto
  then have "0 < length os" by simp
  note answer = ask_returns [OF assms(1) \<open>os \<noteq> []\<close> this]
  have "fst ` set os = set allowed" using os(2) by (metis list.set_map)
  with answer show ?thesis unfolding classify_counterexample_def os(1) rbind_Inr by simp
qed

lemma defect_returns:
  assumes "heuristic_judge j"
  shows "\<exists>d j'. classify_model_defect state (nl_allowed_defects facts) prior ctx j = Inr (d, j') \<and> heuristic_judge j'"
proof -
  have "set (nl_allowed_defects facts) \<subseteq> fst ` set MODEL_DEFECTS" "nl_allowed_defects facts \<noteq> []"
    by (simp_all add: nl_allowed_defects_def MODEL_DEFECTS_def)
  with described_known obtain os where os: "described MODEL_DEFECTS (nl_allowed_defects facts) = Inr os" "os \<noteq> []" by fastforce
  then have "0 < length os" by simp
  from ask_returns [OF assms os(2) this] show ?thesis unfolding classify_model_defect_def os(1) rbind_Inr by blast
qed

section \<open>The gates\<close>

definition code_seen :: "nl_facts \<Rightarrow> bool" where
  "code_seen facts \<longleftrightarrow> fa_kind facts = ''undefined_behavior'' \<or>
     fa_kind facts \<notin> {''hole'', ''out_of_fuel''} \<and> fa_runtime_agrees facts \<noteq> Some True"

lemma gates_facts:
  assumes "gates py chk fn row = (allowed, facts)"
  shows "allowed \<noteq> []" and "set allowed \<subseteq> fst ` set COUNTEREXAMPLE_CLASSES"
    and "''REAL_BUG'' \<in> set allowed \<Longrightarrow> ck_status chk \<noteq> ''REFUTED_RUNTIME'' \<and> code_seen facts"
proof -
  have A: "fst (gates py chk fn row) \<noteq> []" by (simp add: gates_def Let_def)
  have B: "set (fst (gates py chk fn row)) \<subseteq> fst ` set COUNTEREXAMPLE_CLASSES"
    by (auto simp: gates_def Let_def COUNTEREXAMPLE_CLASSES_def)
  have C: "''REAL_BUG'' \<in> set (fst (gates py chk fn row)) \<Longrightarrow> ck_status chk \<noteq> ''REFUTED_RUNTIME'' \<and> code_seen (snd (gates py chk fn row))"
    by (auto simp: gates_def Let_def code_seen_def split: if_splits)
  from A B C assms show "allowed \<noteq> []" and "set allowed \<subseteq> fst ` set COUNTEREXAMPLE_CLASSES"
    and "''REAL_BUG'' \<in> set allowed \<Longrightarrow> ck_status chk \<noteq> ''REFUTED_RUNTIME'' \<and> code_seen facts" by simp_all
qed

section \<open>One statement\<close>

lemma pick_repair_keeps:
  assumes "pick_repair st q cls os dropped j = Inr (o1, pk, j')" and "scorer (jg_score j)"
  shows "jg_score j' = jg_score j"
proof -
  from assms(1) obtain pre os' j1 d where narrow: "narrow_preconditions st q cls os j = Inr (pre, os', j1)"
    and rank: "rank_repairs (JObj q) (map repair_shown os') (priors_of os' cls) (repair_ctx st cls) j1 = Inr (d, j')"
    by (auto simp: pick_repair_def res_simps split: option.splits)
  from narrow ask_chosen(2) [OF _ assms(2)] have "jg_score j1 = jg_score j"
    by (auto simp: narrow_preconditions_def select_precondition_def Let_def res_simps split: if_splits)
  with rank ask_chosen(2) assms(2) show ?thesis by (metis rank_repairs_def)
qed

text \<open>A repair adds one record to the state, and changes of the first record only what belongs to repairs.\<close>

definition repair_record :: "bool \<Rightarrow> adj_record \<Rightarrow> adj_record \<Rightarrow> bool" where
  "repair_record over r x \<longleftrightarrow> (\<exists>pk sid disp. x = r\<lparr>ar_repair := Some pk, ar_repaired_by := sid, ar_disposition := disp\<rparr> \<and>
     disp \<noteq> ''finding'' \<and> (disp = ''repair_skipped_budget'' \<longrightarrow> over) \<and> (sid \<noteq> None \<longleftrightarrow> disp = ''repaired''))"

lemma adj_repair_step:
  assumes "adj_repair su n spent fn st chk p q r s = Inr s'" and "scorer (jg_score (as_judge s))" and "ar_repaired_by r = None"
  shows "jg_score (as_judge s') = jg_score (as_judge s)" and "\<exists>x. as_records s' = as_records s @ [x] \<and> repair_record (over_budget su spent) r x"
proof -
  obtain os dropped where c: "candidates (nu_python su) (ns_pre st) (if ep_text p = [] then ns_english st else ep_text p) chk fn = (os, dropped)"
    by fastforce
  from assms(1) obtain o1 pk j where pick: "pick_repair st q (ar_class r) os dropped (as_judge s) = Inr (o1, pk, j)"
    by (auto simp: adj_repair_def c Let_def res_simps)
  note j = pick_repair_keeps [OF pick assms(2)]
  let ?s = "s\<lparr>as_judge := j\<rparr>"
  have shape: "repair_record (over_budget su spent) r (r\<lparr>ar_repair := Some pk', ar_disposition := disp\<rparr>)"
    if "disp \<noteq> ''finding''" "disp \<noteq> ''repaired''" "disp = ''repair_skipped_budget'' \<Longrightarrow> over_budget su spent" for pk' disp
  proof -
    have "r\<lparr>ar_repair := Some pk', ar_disposition := disp\<rparr> = r\<lparr>ar_repair := Some pk', ar_repaired_by := None, ar_disposition := disp\<rparr>"
      using assms(3) by (cases r) simp
    with that show ?thesis unfolding repair_record_def by blast
  qed
  have carried: "repair_record over r (r\<lparr>ar_repair := Some pk', ar_repaired_by := Some sid, ar_disposition := ''repaired''\<rparr>)" for over pk' sid
    unfolding repair_record_def by (intro exI conjI) (rule refl, simp_all)
  have "as_judge s' = j \<and> (\<exists>x. as_records s' = as_records s @ [x] \<and> repair_record (over_budget su spent) r x)"
  proof (cases "nr_kind o1 = ''reject''")
    case True
    with assms(1) shape [of "''rejected_by_repair''"] show ?thesis
      by (simp add: adj_repair_def c Let_def pick record_to_def) auto
  next
    case False
    with assms(1) obtain e where e: "nr_english o1 = Some e"
      by (auto simp: adj_repair_def c Let_def pick split: option.splits)
    show ?thesis
    proof (cases "duplicates ?s (ns_function st) e")
      case (Cons q0 qs)
      with assms(1) False e shape [of "''repair_duplicates_existing''"] show ?thesis
        by (simp add: adj_repair_def c Let_def pick record_to_def) auto
    next
      case none: Nil
      show ?thesis
      proof (cases "over_budget su spent")
        case True
        with assms(1) False e none shape [of "''repair_skipped_budget''"] show ?thesis
          by (simp add: adj_repair_def c Let_def pick record_to_def) auto
      next
        case fits: False
        with assms(1) False e none show ?thesis
          by (simp add: adj_repair_def c Let_def pick record_to_def carry_out_def) (auto intro: carried)
      qed
    qed
  qed
  with j show "jg_score (as_judge s') = jg_score (as_judge s)" and "\<exists>x. as_records s' = as_records s @ [x] \<and> repair_record (over_budget su spent) r x"
    by auto
qed

definition validated :: "nl_setup \<Rightarrow> adj_record \<Rightarrow> bool" where
  "validated su x \<longleftrightarrow>
     (ar_disposition x = ''finding'' \<longrightarrow> ar_class x = ''REAL_BUG'' \<and> ar_status x = ''REFUTED_MODEL'' \<and> code_seen (ar_facts x) \<and>
        external_evidence (ar_evidence x) \<noteq> [] \<and>
        (\<exists>i row. ((ar_function x, i), row) \<in> set (nu_selection su) \<and> intent_confident (Some row))) \<and>
     (ar_class x = ''REAL_BUG'' \<longrightarrow> ar_repair x = None \<and> ar_repaired_by x = None) \<and>
     (ar_repaired_by x \<noteq> None \<longrightarrow> ar_class x \<in> {''BAD_SPEC'', ''MISSING_PRECONDITION''} \<and> ar_round x \<le> nu_rounds su) \<and>
     ar_class x \<in> set (ar_allowed x)"

lemma repair_validated:
  assumes "repair_record over r x" and "ar_class r \<in> {''BAD_SPEC'', ''MISSING_PRECONDITION''}" and "ar_round r \<le> nu_rounds su"
    and "ar_class r \<in> set (ar_allowed r)"
  shows "validated su x \<and> ar_statement x = ar_statement r \<and> ar_round x = ar_round r \<and> (ar_disposition x = ''repair_skipped_budget'' \<longrightarrow> over)"
proof -
  from assms(1) obtain pk sid disp where x: "x = r\<lparr>ar_repair := Some pk, ar_repaired_by := sid, ar_disposition := disp\<rparr>"
    and disp: "disp \<noteq> ''finding''" "disp = ''repair_skipped_budget'' \<longrightarrow> over" by (auto simp: repair_record_def)
  have "ar_class r \<noteq> ''REAL_BUG''" using assms(2) by auto
  with assms disp show ?thesis by (simp add: x validated_def)
qed

lemma row_of_stmt_selected:
  "row_of_stmt su s st = Some row \<Longrightarrow> \<exists>i. ((ns_function st, i), row) \<in> set (nu_selection su)"
  by (auto simp: row_of_stmt_def split: option.splits dest: map_of_SomeD)

lemma adj_defect_shape:
  assumes "adj_defect su fn st q facts r j = Inr (x, j')" and "scorer (jg_score j)"
  shows "jg_score j' = jg_score j \<and> x = r\<lparr>ar_defect := ar_defect x, ar_disposition := ''model_defect''\<rparr>"
proof -
  from assms(1) obtain d state prior ctx where
    d: "classify_model_defect state (nl_allowed_defects facts) prior ctx j = Inr (d, j')"
    and x: "x = r\<lparr>ar_defect := ar_defect x, ar_disposition := ''model_defect''\<rparr>"
    by (auto simp: adj_defect_def res_simps Let_def)
  from d obtain task i q' os where "ask task i state q' os (length os) prior ctx j = Inr (d, j')"
    by (auto simp: classify_model_defect_def res_simps)
  from ask_chosen(2) [OF this assms(2)] x show ?thesis by blast
qed

lemma adj_one_step:
  assumes "adj_one su n spent checks st s = Inr s'" and "scorer (jg_score (as_judge s))" and "refuted_in checks st"
  shows "jg_score (as_judge s') = jg_score (as_judge s)"
    and "map_of (nu_functions su) (ns_function st) = None \<Longrightarrow> s' = s"
    and "map_of (nu_functions su) (ns_function st) \<noteq> None \<Longrightarrow>
      \<exists>x. as_records s' = as_records s @ [x] \<and> ar_statement x = ns_id st \<and> ar_round x = n \<and> validated su x \<and> (ar_disposition x = ''repair_skipped_budget'' \<longrightarrow> over_budget su spent)"
proof -
  have all: "jg_score (as_judge s') = jg_score (as_judge s) \<and> (\<exists>x. as_records s' = as_records s @ [x] \<and> ar_statement x = ns_id st \<and>
    ar_round x = n \<and> validated su x \<and> (ar_disposition x = ''repair_skipped_budget'' \<longrightarrow> over_budget su spent))" if fn: "map_of (nu_functions su) (ns_function st) = Some fn" for fn
  proof -
    obtain chk where chk: "item_at checks (ns_id st) = Inr chk" and status: "ck_status chk \<in> set REFUTED"
      using assms(3) by (auto simp: refuted_in_def item_at_def split: option.splits)
    let ?p = "prop_of s st" and ?row = "row_of_stmt su s st"
    obtain allowed facts where g: "gates (nu_python su) chk fn ?row = (allowed, facts)" by fastforce
    let ?q = "adj_question fn ?p st chk facts"
    from assms(1) obtain d j where cl: "classify_counterexample (JObj ?q) allowed (nl_classification_prior ?p ?row facts)
        (statement_ctx st [(''round'', JInt (int n))]) (as_judge s) = Inr (d, j)"
      by (auto simp: adj_one_def fn chk g Let_def res_simps)
    note c = classify_chosen [OF cl assms(2)]
    let ?r = "first_record s n st chk ?p allowed facts d"
    have known: "d_chosen d \<in> fst ` set COUNTEREXAMPLE_CLASSES" using c(1) gates_facts(2) [OF g] by blast
    have r: "ar_class ?r = d_chosen d" "ar_allowed ?r = allowed" "ar_repaired_by ?r = None" "ar_statement ?r = ns_id st" "ar_round ?r = n"
      "ar_status ?r = ck_status chk" "ar_facts ?r = facts" "ar_evidence ?r = ep_evidence ?p" "ar_function ?r = ns_function st" "ar_repair ?r = None"
      "ar_disposition ?r = []"
      by (simp_all add: first_record_def)
    show ?thesis
    proof (cases "d_chosen d = ''REAL_BUG''")
      case True
      then have "''REAL_BUG'' \<in> set allowed" using c(1) by simp
      with gates_facts(3) [OF g] status have facts: "ck_status chk = ''REFUTED_MODEL''" "code_seen facts" by (auto simp: REFUTED_def)
      have sure: "intent_confident ?row \<Longrightarrow> \<exists>i row. ((ns_function st, i), row) \<in> set (nu_selection su) \<and> intent_confident (Some row)"
        using row_of_stmt_selected [of su s st] by (cases ?row) (auto simp: intent_confident_def [of None])
      from True have "s' = record_to (adj_bug ?p ?row ?r) (s\<lparr>as_judge := j\<rparr>)"
        using assms(1) by (simp add: adj_one_def fn chk g Let_def cl)
      with c(2) show ?thesis
        using facts sure True c(1) by (auto simp: record_to_def adj_bug_def validated_def Let_def r)
    next
      case not_bug: False
      show ?thesis
      proof (cases "d_chosen d = ''INCOMPLETE_MODEL''")
        case True
        with assms(1) obtain x j2 where x: "adj_defect su fn st ?q facts ?r j = Inr (x, j2)"
          and s': "s' = record_to x (s\<lparr>as_judge := j2\<rparr>)"
          by (auto simp: adj_one_def fn chk g Let_def cl res_simps)
        from adj_defect_shape [OF x] c(2) assms(2) have
          xr: "x = ?r\<lparr>ar_defect := ar_defect x, ar_disposition := ''model_defect''\<rparr>" and sc: "jg_score j2 = jg_score j" by simp_all
        have fields: "ar_class x = d_chosen d" "ar_allowed x = allowed" "ar_repaired_by x = None" "ar_statement x = ns_id st" "ar_round x = n"
          "ar_disposition x = ''model_defect''"
          by (subst xr, simp add: first_record_def)+
        show ?thesis using True c by (simp add: s' record_to_def sc validated_def fields)
      next
        case not_model: False
        show ?thesis
        proof (cases "d_chosen d = ''ENVIRONMENT_MISMATCH'' \<or> d_chosen d = ''ABSTRACTION_ARTIFACT'' \<or> nu_rounds su < n")
          case True
          with assms(1) not_bug not_model obtain disp where "s' = record_to (?r\<lparr>ar_disposition := disp\<rparr>) (s\<lparr>as_judge := j\<rparr>)" "disp \<noteq> ''finding''"
            "disp \<noteq> ''repair_skipped_budget''"
            by (auto simp: adj_one_def fn chk g Let_def cl lower_def split: if_splits)
          then show ?thesis using not_bug c by (simp add: record_to_def validated_def r)
        next
          case False
          with assms(1) not_bug not_model have "adj_repair su n spent fn st chk ?p ?q ?r (s\<lparr>as_judge := j\<rparr>) = Inr s'"
            by (simp add: adj_one_def fn chk g Let_def cl)
          from adj_repair_step [OF this _ r(3)] c(2) assms(2) obtain x where
            x: "jg_score (as_judge s') = jg_score (as_judge s)" "as_records s' = as_records s @ [x]" "repair_record (over_budget su spent) ?r x" by auto
          have "d_chosen d \<in> {''BAD_SPEC'', ''MISSING_PRECONDITION''}"
            using known not_bug not_model False by (auto simp: COUNTEREXAMPLE_CLASSES_def)
          from repair_validated [of _ ?r x su, OF x(3), unfolded r, OF this _ c(1)] False
          have "validated su x \<and> ar_statement x = ns_id st \<and> ar_round x = n \<and> (ar_disposition x = ''repair_skipped_budget'' \<longrightarrow> over_budget su spent)"
            by simp
          with x show ?thesis by blast
        qed
      qed
    qed
  qed
  have none: "map_of (nu_functions su) (ns_function st) = None \<Longrightarrow> s' = s" using assms(1) by (simp add: adj_one_def)
  show "jg_score (as_judge s') = jg_score (as_judge s)"
    using all none by (cases "map_of (nu_functions su) (ns_function st)") simp_all
  show "map_of (nu_functions su) (ns_function st) = None \<Longrightarrow> s' = s" by (rule none)
  show "map_of (nu_functions su) (ns_function st) \<noteq> None \<Longrightarrow>
      \<exists>x. as_records s' = as_records s @ [x] \<and> ar_statement x = ns_id st \<and> ar_round x = n \<and> validated su x \<and>
        (ar_disposition x = ''repair_skipped_budget'' \<longrightarrow> over_budget su spent)"
    using all by auto
qed

section \<open>All statements, all rounds\<close>

definition known_stmt :: "nl_setup \<Rightarrow> nl_stmt \<Rightarrow> bool" where
  "known_stmt su st = (map_of (nu_functions su) (ns_function st) \<noteq> None)"

lemma adj_all_step:
  assumes "adj_all su n spent checks sts s = Inr s'" and "scorer (jg_score (as_judge s))" and "list_all (refuted_in checks) sts"
  shows "jg_score (as_judge s') = jg_score (as_judge s) \<and> (\<exists>xs. as_records s' = as_records s @ xs \<and>
     map ar_statement xs = map ns_id (filter (known_stmt su) sts) \<and> (\<forall>x \<in> set xs. ar_round x = n \<and> validated su x \<and>
       (ar_disposition x = ''repair_skipped_budget'' \<longrightarrow> over_budget su spent)))"
  using assms
proof (induction sts arbitrary: s)
  case (Cons st sts)
  from Cons.prems(1) obtain s1 where s1: "adj_one su n spent checks st s = Inr s1" "adj_all su n spent checks sts s1 = Inr s'"
    by (auto simp: res_simps)
  have "refuted_in checks st" using Cons.prems(3) by simp
  note one = adj_one_step [OF s1(1) Cons.prems(2) this]
  from Cons.IH [OF s1(2)] one(1) Cons.prems(2,3) obtain xs where rest: "jg_score (as_judge s') = jg_score (as_judge s)"
    "as_records s' = as_records s1 @ xs" "map ar_statement xs = map ns_id (filter (known_stmt su) sts)"
    "\<forall>x \<in> set xs. ar_round x = n \<and> validated su x \<and> (ar_disposition x = ''repair_skipped_budget'' \<longrightarrow> over_budget su spent)" by auto
  show ?case
  proof (cases "known_stmt su st")
    case False
    with one(2) have "s1 = s" by (simp add: known_stmt_def)
    with rest False show ?thesis by (intro conjI exI [of _ xs]) simp_all
  next
    case True
    with one(3) obtain x where "as_records s1 = as_records s @ [x]" "ar_statement x = ns_id st" "ar_round x = n" "validated su x"
      "ar_disposition x = ''repair_skipped_budget'' \<longrightarrow> over_budget su spent" by (auto simp: known_stmt_def)
    with rest True show ?thesis by (intro conjI exI [of _ "x # xs"]) auto
  qed
qed simp

lemma adj_rounds_step:
  assumes "adj_rounds su ns spent checks frontier s = Inr r" and "scorer (jg_score (as_judge s))" and "list_all (refuted_in checks) frontier"
  shows "\<exists>xs ys. as_records (re_state r) = as_records s @ xs @ ys \<and>
     map ar_statement xs = (if ns = [] then [] else map ns_id (filter (known_stmt su) frontier)) \<and>
     (\<forall>x \<in> set xs. ar_round x \<in> set (take 1 ns) \<and> (ar_disposition x = ''repair_skipped_budget'' \<longrightarrow> over_budget su spent)) \<and> (\<forall>x \<in> set ys. ar_round x \<in> set (drop 1 ns)) \<and>
     (\<forall>x \<in> set xs \<union> set ys. validated su x)"
  using assms
proof (induction ns arbitrary: spent checks frontier s r)
  case (Cons n ns)
  from Cons.prems(1) obtain s1 where s1: "adj_all su n spent checks frontier (s\<lparr>as_todo := []\<rparr>) = Inr s1"
    by (auto simp: res_simps)
  from adj_all_step [OF this _ Cons.prems(3)] Cons.prems(2) obtain xs where xs: "jg_score (as_judge s1) = jg_score (as_judge s)"
    "as_records s1 = as_records s @ xs" "map ar_statement xs = map ns_id (filter (known_stmt su) frontier)"
    "\<forall>x \<in> set xs. ar_round x = n \<and> validated su x \<and> (ar_disposition x = ''repair_skipped_budget'' \<longrightarrow> over_budget su spent)" by auto
  note stop = exI [of _ xs, OF exI [of _ "[]"]]
  show ?case
  proof (cases "as_todo s1")
    case Nil
    with Cons.prems(1) s1 xs show ?thesis by (intro stop) auto
  next
    case (Cons t ts)
    show ?thesis
    proof (cases "nu_stages su")
      case None
      with Cons Cons.prems(1) s1 xs show ?thesis by (intro stop) auto
    next
      case (Some stages)
      obtain formalize check where st: "nu_stages su = Some (formalize, check)" using Some by (cases stages) simp
      obtain raw cost where f: "formalize n (todo_specs (nu_summaries su) (t # ts)) = (raw, cost)" by fastforce
      define got where "got = map (\<lambda>st. st\<lparr>ns_parent := map_option ln_parent (map_of (as_lineage s1) (ns_id st))\<rparr>) raw"
      define c' where "c' = with_checks (check n got) checks"
      define next_front where "next_front = filter (refuted_in c') got"
      show ?thesis
      proof (cases "next_front = []")
        case True
        with Cons.prems(1) s1 xs show ?thesis
          by (intro stop) (auto simp: Cons st f Let_def simp flip: got_def c'_def next_front_def)
      next
        case False
        with Cons.prems(1) s1 obtain r1 where r1: "adj_rounds su ns (spent + cost) c' next_front s1 = Inr r1"
          and r: "re_state r = re_state r1"
          by (auto simp: Cons st f Let_def res_simps simp flip: got_def c'_def next_front_def)
        have "list_all (refuted_in c') next_front" by (simp add: next_front_def list_all_iff)
        from Cons.IH [OF r1 _ this] xs(1) Cons.prems(2) obtain xs' ys' where
          "as_records (re_state r1) = as_records s1 @ xs' @ ys'"
          "\<forall>x \<in> set xs'. ar_round x \<in> set (take 1 ns)" "\<forall>x \<in> set ys'. ar_round x \<in> set (drop 1 ns)"
          "\<forall>x \<in> set xs' \<union> set ys'. validated su x" by auto
        with xs r show ?thesis
          by (intro exI [of _ xs] exI [of _ "xs' @ ys'"]) (auto dest: in_set_takeD in_set_dropD)
      qed
    qed
  qed
qed simp

section \<open>The stage returns\<close>

lemma offer_shapes:
  "o1 \<in> set (fst (offer py inputs fn english seen ps)) \<Longrightarrow> nr_kind o1 = ''precondition'' \<and> nr_english o1 \<noteq> None"
  by (induction ps arbitrary: seen) (auto simp: Let_def precondition_option_def split: if_splits prod.splits)

lemma weaken_shapes: "o1 \<in> set (weaken_options english ws) \<Longrightarrow> nr_kind o1 = ''weaken'' \<and> nr_english o1 \<noteq> None"
  by (induction ws) (auto simp: weak_option_def split: if_splits prod.splits)

lemma candidates_shape:
  assumes "candidates py pre0 english chk fn = (os, dropped)"
  shows "\<exists>rest. os = reject_option # rest \<and> (\<forall>o1 \<in> set rest. nr_english o1 \<noteq> None)"
proof -
  obtain opts dr where o: "offer py (ce_inputs (ck_counterexample chk)) fn english [pre0]
      (enumerate 0 (map (Pair ''code guard'') (nl_guard_preconditions py fn) @ domain_preconditions py fn)) = (opts, dr)" by fastforce
  have "\<forall>o1 \<in> set (opts @ weaken_options english WEAKEN @ exception_option (ce_model (ck_counterexample chk)) english). nr_english o1 \<noteq> None"
  proof -
    have "nr_english o1 \<noteq> None" if "o1 \<in> set opts" for o1 using offer_shapes that o by (metis fst_conv)
    moreover have "nr_english o1 \<noteq> None" if "o1 \<in> set (weaken_options english WEAKEN)" for o1 using weaken_shapes that by blast
    moreover have "nr_english o1 \<noteq> None" if "o1 \<in> set (exception_option model english)" for o1 model
      using that by (auto simp: exception_option_def split: option.splits if_splits)
    ultimately show ?thesis by auto
  qed
  moreover have "os = reject_option # List.take 15 (opts @ weaken_options english WEAKEN @ exception_option (ce_model (ck_counterexample chk)) english)"
    using assms by (simp add: candidates_def o Let_def del: take_append)
  ultimately show ?thesis by (blast dest: in_set_takeD)
qed

lemma pick_returns:
  assumes "heuristic_judge j" and "os = reject_option # rest"
  shows "\<exists>o1 pk j'. pick_repair st q cls os dropped j = Inr (o1, pk, j') \<and> o1 \<in> set os \<and> heuristic_judge j'"
proof -
  obtain pre os' j1 where narrow: "narrow_preconditions st q cls os j = Inr (pre, os', j1)" and j1: "heuristic_judge j1"
    and os': "set os' \<subseteq> set os" "os' \<noteq> []"
  proof (cases "cls = ''MISSING_PRECONDITION'' \<and> 2 \<le> length (filter is_pre_option os)")
    case True
    let ?pres = "filter is_pre_option os"
    have "map repair_shown ?pres \<noteq> []" using True by auto
    from select_returns [OF assms(1) this] obtain d j1 where
      "select_precondition (JObj q) (map repair_shown ?pres) (priors_of ?pres cls) (repair_ctx st cls) j = Inr (d, j1)" "heuristic_judge j1" by blast
    moreover have "reject_option \<in> set (filter (\<lambda>o1. \<not> is_pre_option o1 \<or> nr_id o1 = d_chosen d) os)"
      by (simp add: assms(2) is_pre_option_def reject_option_def)
    moreover from this have "filter (\<lambda>o1. \<not> is_pre_option o1 \<or> nr_id o1 = d_chosen d) os \<noteq> []" by (metis list.set_cases list.distinct(1))
    ultimately show thesis using True
      by (intro that [of "Some (d_chosen d, d_id d, d_probabilities d)" _ j1]) (simp_all add: narrow_preconditions_def Let_def)
  next
    case False
    then have "narrow_preconditions st q cls os j = Inr (None, os, j)" unfolding narrow_preconditions_def Let_def by (simp only: if_False)
    from that [OF this assms(1)] assms(2) show thesis by simp
  qed
  have "map repair_shown os' \<noteq> []" using os'(2) by simp
  from rank_returns [OF j1 this] obtain d j2 where
    d: "rank_repairs (JObj q) (map repair_shown os') (priors_of os' cls) (repair_ctx st cls) j1 = Inr (d, j2)"
    "d_chosen d \<in> fst ` set (map repair_shown os')" "heuristic_judge j2" by blast
  from d(2) obtain o1 where o1: "find (\<lambda>o1. nr_id o1 = d_chosen d) os' = Some o1"
    by (cases "find (\<lambda>o1. nr_id o1 = d_chosen d) os'") (auto simp: find_None_iff repair_shown_def)
  then have "o1 \<in> set os'" by (auto simp: find_Some_iff)
  with narrow d(1,3) o1 os'(1) show ?thesis by (auto simp: pick_repair_def)
qed

lemma adj_repair_returns:
  assumes "heuristic_judge (as_judge s)"
  shows "\<exists>s'. adj_repair su n spent fn st chk p q r s = Inr s' \<and> heuristic_judge (as_judge s')"
proof -
  obtain os dropped where c: "candidates (nu_python su) (ns_pre st) (if ep_text p = [] then ns_english st else ep_text p) chk fn = (os, dropped)"
    by fastforce
  from candidates_shape [OF this] obtain rest where os: "os = reject_option # rest" "\<forall>o1 \<in> set rest. nr_english o1 \<noteq> None" by blast
  from pick_returns [OF assms os(1)] obtain o1 pk j where
    pick: "pick_repair st q (ar_class r) os dropped (as_judge s) = Inr (o1, pk, j)" "o1 \<in> set os" "heuristic_judge j" by blast
  have "nr_kind o1 = ''reject'' \<or> (\<exists>e. nr_english o1 = Some e)" using pick(2) os by (auto simp: reject_option_def)
  then show ?thesis
    using pick(3) by (auto simp: adj_repair_def c Let_def pick(1) record_to_def carry_out_def split: list.splits option.splits)
qed

lemma adj_one_returns:
  assumes "heuristic_judge (as_judge s)" and "refuted_in checks st"
  shows "\<exists>s'. adj_one su n spent checks st s = Inr s' \<and> heuristic_judge (as_judge s')"
proof (cases "map_of (nu_functions su) (ns_function st)")
  case None
  with assms(1) show ?thesis by (simp add: adj_one_def)
next
  case (Some fn)
  obtain chk where chk: "item_at checks (ns_id st) = Inr chk"
    using assms(2) by (auto simp: refuted_in_def item_at_def split: option.splits)
  let ?p = "prop_of s st" and ?row = "row_of_stmt su s st"
  obtain allowed facts where g: "gates (nu_python su) chk fn ?row = (allowed, facts)" by fastforce
  let ?q = "adj_question fn ?p st chk facts"
  from classify_returns [OF assms(1) gates_facts(1,2) [OF g]] obtain d j where
    cl: "classify_counterexample (JObj ?q) allowed (nl_classification_prior ?p ?row facts)
        (statement_ctx st [(''round'', JInt (int n))]) (as_judge s) = Inr (d, j)" and j: "heuristic_judge j" by blast
  let ?r = "first_record s n st chk ?p allowed facts d"
  have defect: "\<exists>x j2. adj_defect su fn st ?q facts ?r j = Inr (x, j2) \<and> heuristic_judge j2"
  proof -
    let ?gate = "[(''gate'', case fa_gate facts of None \<Rightarrow> JNull | Some t \<Rightarrow> JStr t)]"
    from defect_returns [OF j] obtain dd j2 where
      "classify_model_defect (JObj (?q @ ?gate)) (nl_allowed_defects facts) (nl_defect_prior facts) (statement_ctx st []) j = Inr (dd, j2)"
      "heuristic_judge j2" by blast
    then show ?thesis unfolding adj_defect_def by (simp add: Let_def)
  qed
  have repair: "\<exists>s'. adj_repair su n spent fn st chk ?p ?q ?r (s\<lparr>as_judge := j\<rparr>) = Inr s' \<and> heuristic_judge (as_judge s')"
    using j by (intro adj_repair_returns) simp
  have judged: "as_judge (record_to x s0) = as_judge s0" for x s0 by (simp add: record_to_def)
  from defect obtain x j2 where "adj_defect su fn st ?q facts ?r j = Inr (x, j2)" "heuristic_judge j2" by blast
  with repair j show ?thesis by (simp add: adj_one_def Some chk g Let_def cl judged)
qed

lemma adj_all_returns:
  "heuristic_judge (as_judge s) \<Longrightarrow> list_all (refuted_in checks) sts \<Longrightarrow>
   \<exists>s'. adj_all su n spent checks sts s = Inr s' \<and> heuristic_judge (as_judge s')"
proof (induction sts arbitrary: s)
  case (Cons st sts)
  from Cons.prems(2) have "refuted_in checks st" by simp
  from adj_one_returns [OF Cons.prems(1) this] obtain s1 where "adj_one su n spent checks st s = Inr s1" "heuristic_judge (as_judge s1)"
    by blast
  with Cons.IH [of s1] Cons.prems(2) show ?case by simp
qed simp

lemma adj_rounds_returns:
  "heuristic_judge (as_judge s) \<Longrightarrow> list_all (refuted_in checks) frontier \<Longrightarrow> \<exists>r. adj_rounds su ns spent checks frontier s = Inr r"
proof (induction ns arbitrary: spent checks frontier s)
  case (Cons n ns)
  from adj_all_returns [of "s\<lparr>as_todo := []\<rparr>" checks frontier su n spent] Cons.prems obtain s1 where
    s1: "adj_all su n spent checks frontier (s\<lparr>as_todo := []\<rparr>) = Inr s1" "heuristic_judge (as_judge s1)" by auto
  have again: "\<exists>r. adj_rounds su ns spent' c (filter (refuted_in c) got) s1 = Inr r" for spent' c got
    using Cons.IH [OF s1(2)] by (simp add: list_all_iff)
  have more: "\<exists>r. adj_rounds su (n # ns) spent checks frontier s = Inr r" if "as_todo s1 = t # ts" "nu_stages su = Some (formalize, check)" for t ts formalize check
  proof -
    obtain raw cost where f: "formalize n (todo_specs (nu_summaries su) (t # ts)) = (raw, cost)" by fastforce
    define got where "got = map (\<lambda>st. st\<lparr>ns_parent := map_option ln_parent (map_of (as_lineage s1) (ns_id st))\<rparr>) raw"
    define c' where "c' = with_checks (check n got) checks"
    have "adj_rounds su (n # ns) spent checks frontier s =
      (if filter (refuted_in c') got = [] then Inr \<lparr>re_state = s1, re_statements = got, re_checks = check n got, re_spent = spent + cost\<rparr>
       else rbind (adj_rounds su ns (spent + cost) c' (filter (refuted_in c') got) s1) (\<lambda>r.
         Inr (r\<lparr>re_statements := got @ re_statements r, re_checks := check n got @ re_checks r\<rparr>)))"
      unfolding got_def c'_def by (simp add: s1(1) that f Let_def)
    moreover obtain r where "adj_rounds su ns (spent + cost) c' (filter (refuted_in c') got) s1 = Inr r" using again by blast
    ultimately show ?thesis by simp
  qed
  show ?case
  proof (cases "as_todo s1 = [] \<or> nu_stages su = None")
    case True
    then show ?thesis using s1(1) by (auto split: list.splits)
  next
    case False
    then obtain t ts formalize check where "as_todo s1 = t # ts" "nu_stages su = Some (formalize, check)"
      by (cases "as_todo s1") auto
    from more [OF this] show ?thesis .
  qed
qed simp

section \<open>The promises\<close>

lemma adjudication_records:
  assumes "nl_adjudicate su statements checks specs j = Inr r" and "scorer (jg_score j)"
  shows "list_all (\<lambda>x. validated su x \<and> 1 \<le> ar_round x \<and> ar_round x \<le> nu_rounds su + 1 \<and>
       (ar_round x = 1 \<longrightarrow> ar_disposition x = ''repair_skipped_budget'' \<longrightarrow> over_budget su 0)) (as_records (re_state r)) \<and>
     map ar_statement (filter (\<lambda>x. ar_round x = 1) (as_records (re_state r))) =
       map ns_id (filter (\<lambda>st. known_stmt su st \<and> refuted_in (with_checks checks []) st) statements)"
proof -
  let ?c = "with_checks checks []" and ?ns = "[1..<nu_rounds su + 2]"
  have ns: "?ns = 1 # [2..<nu_rounds su + 2]" using upt_conv_Cons [of 1 "nu_rounds su + 2"] by (simp only: Suc_1 one_less_numeral_iff trans_less_add2 semiring_norm)
  have "list_all (refuted_in ?c) (filter (refuted_in ?c) statements)" by (simp add: list_all_iff)
  from adj_rounds_step [OF assms(1) [unfolded nl_adjudicate_def Let_def ns] _ this] obtain xs ys where
    rec: "as_records (re_state r) = xs @ ys"
    and xs: "map ar_statement xs = map ns_id (filter (known_stmt su) (filter (refuted_in ?c) statements))"
    and one: "\<forall>x \<in> set xs. ar_round x = 1 \<and> (ar_disposition x = ''repair_skipped_budget'' \<longrightarrow> over_budget su 0)"
    and later: "\<forall>x \<in> set ys. ar_round x \<in> set [2..<nu_rounds su + 2]" and ok: "\<forall>x \<in> set xs \<union> set ys. validated su x"
    using assms(2) by (auto simp: adj_start_def simp del: upt_Suc)
  have "filter (\<lambda>x. ar_round x = 1) ys = []" using later by (auto simp: filter_empty_conv)
  moreover have "filter (\<lambda>x. ar_round x = 1) xs = xs" using one by (simp add: filter_id_conv)
  moreover have "filter (known_stmt su) (filter (refuted_in ?c) statements) = filter (\<lambda>st. known_stmt su st \<and> refuted_in ?c st) statements"
    by (simp add: conj_commute)
  ultimately show ?thesis using rec xs one later ok by (auto simp: list_all_iff)
qed

text \<open>
  C36. What adjudication reports as a finding is cross-validated, for every scorer that meets its contract: its class is
  REAL_BUG and was allowed by the gates, the model refuted the statement, neither a hole, a bound nor an
  agreeing run of the real code explains the refutation unless the code reached undefined behaviour, the
  property has evidence besides the implementation, and a selected reading is confident about the intent.
  A REAL_BUG is never repaired away, and a repair answers only a bad or incomplete specification within
  the rounds.
\<close>

theorem findings_validated:
  assumes "nl_adjudicate su statements checks specs j = Inr r" and "scorer (jg_score j)"
  shows "\<forall>x \<in> set (as_records (re_state r)). ar_class x \<in> set (ar_allowed x) \<and>
     (ar_disposition x = ''finding'' \<longrightarrow> ar_class x = ''REAL_BUG'' \<and> ar_status x = ''REFUTED_MODEL'' \<and>
        (fa_kind (ar_facts x) = ''undefined_behavior'' \<or>
         fa_kind (ar_facts x) \<notin> {''hole'', ''out_of_fuel''} \<and> fa_runtime_agrees (ar_facts x) \<noteq> Some True) \<and>
        external_evidence (ar_evidence x) \<noteq> [] \<and>
        (\<exists>i row. ((ar_function x, i), row) \<in> set (nu_selection su) \<and> intent_confident (Some row))) \<and>
     (ar_class x = ''REAL_BUG'' \<longrightarrow> ar_repair x = None \<and> ar_repaired_by x = None) \<and>
     (ar_repaired_by x \<noteq> None \<longrightarrow> ar_class x \<in> {''BAD_SPEC'', ''MISSING_PRECONDITION''} \<and> ar_round x \<le> nu_rounds su)"
  using adjudication_records [OF assms, THEN conjunct1]
  by (auto simp: list_all_iff validated_def code_seen_def)

text \<open>
  C37. Adjudication returns, and misses nothing: with the heuristic scorer, whatever formalizes and checks the
  repairs, there is a result; in the first round every refuted statement of a known function has exactly
  one record, in order, and no record is of a round beyond the last, in which nothing is repaired.
\<close>

theorem adjudication_returns:
  assumes "heuristic_judge j"
  shows "\<exists>r. nl_adjudicate su statements checks specs j = Inr r \<and>
     map ar_statement (filter (\<lambda>x. ar_round x = 1) (as_records (re_state r))) =
       map ns_id (filter (\<lambda>st. map_of (nu_functions su) (ns_function st) \<noteq> None \<and> refuted_in (with_checks checks []) st) statements) \<and>
     (\<forall>x \<in> set (as_records (re_state r)). 1 \<le> ar_round x \<and> ar_round x \<le> nu_rounds su + 1)"
proof -
  have sc: "scorer (jg_score j)" using assms heuristic.scorer_axioms by (simp add: heuristic_judge_def)
  have "list_all (refuted_in c) (filter (refuted_in c) sts)" for c sts by (simp add: list_all_iff)
  with adj_rounds_returns [of "adj_start specs j"] assms obtain r where r: "nl_adjudicate su statements checks specs j = Inr r"
    by (force simp: nl_adjudicate_def Let_def adj_start_def)
  from adjudication_records [OF r sc] show ?thesis
    by (intro exI [of _ r] conjI r) (simp_all add: list_all_iff known_stmt_def)
qed

text \<open>
  C40. The budget of the repairs is compared with what earlier rounds have spent: if one repair fits the
  budget, no repair of the first round is skipped for it, however many there are, so their cost is not
  bounded by the budget.
\<close>

theorem first_round_uncounted:
  assumes "nl_adjudicate su statements checks specs j = Inr r" and "scorer (jg_score j)"
    and "nu_budget su = Some b" and "nu_price su \<le> b"
  shows "\<forall>x \<in> set (as_records (re_state r)). ar_round x = 1 \<longrightarrow> ar_disposition x \<noteq> ''repair_skipped_budget''"
proof -
  have "\<not> over_budget su 0" using assms(3,4) by (simp add: over_budget_def)
  with adjudication_records [OF assms(1,2)] show ?thesis by (auto simp: list_all_iff)
qed

text \<open>
  C39. A rival reading that was not chosen as the intent can still be classified as a bug, in one case only: of the
  statements the model refuted it is where the code reaches undefined behaviour, which is decided
  before the reading is looked at.
\<close>

theorem lost_reading_bug:
  assumes "lost_intent row" and "ck_status chk = ''REFUTED_MODEL''"
  shows "''REAL_BUG'' \<in> set (fst (gates py chk fn row)) \<longleftrightarrow> model_kind (ce_model (ck_counterexample chk)) = ''undefined_behavior''"
  using assms by (auto simp: gates_def Let_def)

section \<open>What is offered\<close>

lemma offer_cases:
  assumes "offer py inputs fn english seen ((i, src, pre) # ps) = (os, dr)"
  obtains (overfit) dr' where "witness_constants pre inputs fn english \<noteq> []" "offer py inputs fn english seen ps = (os, dr')"
      "dr = Overfit pre (witness_constants pre inputs fn english) # dr'"
  | (seen) "offer py inputs fn english seen ps = (os, dr)"
  | (holds) dr' where "py_eval py pre inputs = Some True" "offer py inputs fn english (pre # seen) ps = (os, dr')" "dr = Not_excluding pre # dr'"
  | (offered) os' where "witness_constants pre inputs fn english = []" "pre \<notin> set seen" "py_eval py pre inputs \<noteq> Some True"
      "offer py inputs fn english (pre # seen) ps = (os', dr)" "os = precondition_option i src pre english # os'"
proof -
  obtain o1 d1 where a: "offer py inputs fn english seen ps = (o1, d1)" by fastforce
  obtain o2 d2 where b: "offer py inputs fn english (pre # seen) ps = (o2, d2)" by fastforce
  show thesis
  proof (cases "witness_constants pre inputs fn english = []")
    case False
    then have "os = o1 \<and> dr = Overfit pre (witness_constants pre inputs fn english) # d1" using assms by (simp add: Let_def a)
    with False a show thesis by (intro overfit [of d1]) simp_all
  next
    case True
    note fits = True
    show thesis
    proof (cases "pre \<in> set seen")
      case True
      then have "offer py inputs fn english seen ps = (os, dr)" using assms by (simp add: Let_def fits)
      then show thesis by (rule seen)
    next
      case False
      show thesis
      proof (cases "py_eval py pre inputs = Some True")
        case True
        then have "os = o2 \<and> dr = Not_excluding pre # d2" using assms False by (simp add: Let_def fits b)
        with True b show thesis by (intro holds [of d2]) simp_all
      next
        case no: False
        then have "os = precondition_option i src pre english # o2 \<and> dr = d2" using assms False by (simp add: Let_def fits b)
        then show thesis using fits False no b by (intro offered [of o2]) simp_all
      qed
    qed
  qed
qed

text \<open>One option of the preconditions, and one that was dropped.\<close>

definition offered :: "python \<Rightarrow> dict \<Rightarrow> fn_info \<Rightarrow> string \<Rightarrow> string list \<Rightarrow> (nat \<times> string \<times> string) list \<Rightarrow> nl_repair \<Rightarrow> bool" where
  "offered py inputs fn english seen ps o1 \<longleftrightarrow> (\<exists>i src pre. (i, src, pre) \<in> set ps \<and> o1 = precondition_option i src pre english \<and>
     pre \<notin> set seen \<and> witness_constants pre inputs fn english = [] \<and> py_eval py pre inputs \<noteq> Some True)"

definition rightly_dropped :: "python \<Rightarrow> dict \<Rightarrow> fn_info \<Rightarrow> string \<Rightarrow> dropped \<Rightarrow> bool" where
  "rightly_dropped py inputs fn english d \<longleftrightarrow>
     (case d of Overfit pre bad \<Rightarrow> bad \<noteq> [] \<and> bad = witness_constants pre inputs fn english
      | Not_excluding pre \<Rightarrow> py_eval py pre inputs = Some True)"

lemma offered_names: "offered py inputs fn english seen ps o1 \<Longrightarrow>
   (\<exists>pre. nr_precondition o1 = Some pre \<and> pre \<notin> set seen) \<and> (\<exists>i. i \<in> fst ` set ps \<and> nr_id o1 = ''PRECONDITION_'' @ dec i)"
  unfolding offered_def precondition_option_def by force

lemma offered_mono: "offered py inputs fn english seen' ps o1 \<Longrightarrow> set seen \<subseteq> set seen' \<Longrightarrow> offered py inputs fn english seen (x # ps) o1"
  unfolding offered_def by (elim exE conjE, intro exI conjI) auto

lemma offer_facts:
  assumes "offer py inputs fn english seen ps = (os, dr)"
  shows "list_all (offered py inputs fn english seen ps) os \<and> distinct (map nr_precondition os) \<and>
     list_all (rightly_dropped py inputs fn english) dr \<and> (distinct (map fst ps) \<longrightarrow> distinct (map nr_id os))"
  using assms
proof (induction ps arbitrary: seen os dr)
  case (Cons x ps)
  obtain i src pre where x: "x = (i, src, pre)" by (cases x)
  have mono: "list_all (offered py inputs fn english seen (x # ps)) os'" if "list_all (offered py inputs fn english seen' ps) os'"
    "set seen \<subseteq> set seen'" for seen' os'
    using that by (auto simp: list_all_iff intro: offered_mono)
  from Cons.prems [unfolded x] show ?case
  proof (cases rule: offer_cases)
    case (overfit dr')
    with Cons.IH [OF overfit(2)] mono [of seen os] show ?thesis by (simp add: rightly_dropped_def [of py inputs fn english "Overfit _ _"])
  next
    case seen
    with Cons.IH [OF seen] mono [of seen os] show ?thesis by simp
  next
    case (holds dr')
    with Cons.IH [OF holds(2)] mono [of "pre # seen" os] show ?thesis
      by (simp add: rightly_dropped_def [of py inputs fn english "Not_excluding _"] subset_insertI)
  next
    case (offered os')
    note IH = Cons.IH [OF offered(4)]
    have "Some pre \<notin> set (map nr_precondition os')" using IH offered_names [of py inputs fn english "pre # seen" ps] by (fastforce simp: list_all_iff)
    moreover have "''PRECONDITION_'' @ dec i \<notin> set (map nr_id os')" if "distinct (map fst (x # ps))"
    proof
      assume "''PRECONDITION_'' @ dec i \<in> set (map nr_id os')"
      then obtain o1 where o1: "o1 \<in> set os'" "nr_id o1 = ''PRECONDITION_'' @ dec i" by auto
      then have "offered py inputs fn english (pre # seen) ps o1" using IH by (simp add: list_all_iff)
      from offered_names [OF this] o1(2) obtain k where "k \<in> fst ` set ps" "dec k = dec i" by auto
      with that show False by (simp add: x)
    qed
    moreover have "offered py inputs fn english seen (x # ps) (precondition_option i src pre english)"
      unfolding offered_def x using offered(1-3) by (intro exI [of _ i] exI [of _ src] exI [of _ pre] conjI) simp_all
    moreover have "nr_precondition (precondition_option i src pre english) = Some pre" "nr_id (precondition_option i src pre english) = ''PRECONDITION_'' @ dec i"
      by (simp_all add: precondition_option_def)
    ultimately show ?thesis using IH mono [of "pre # seen" os'] by (simp add: offered(5) subset_insertI)
  qed
qed simp

lemma enumerate_member: "(i, x) \<in> set (enumerate n xs) \<Longrightarrow> x \<in> set xs"
  unfolding enumerate_eq_zip by (rule set_zip_rightD)

lemma weaken_ids: "map nr_id (weaken_options english ws) \<in> {[], [''WEAKEN_IF'', ''WEAKEN_ONLY_IF'']}"
  by (induction ws) (auto simp: weak_option_def split: prod.splits)

lemma exception_ids: "map nr_id (exception_option model english) \<in> {[], [''ALLOW_EXCEPTION'']}"
  by (auto simp: exception_option_def split: option.splits)

text \<open>
  C38. The repairs that are offered rest on evidence: rejection is always offered and first, there are at most 16 and
  their identifiers differ; a precondition comes from a guard of the code, the docstring or the tested
  values, is not the one the statement has, names no value of the witness that no text mentions, and is not known
  to hold at the witness; and what is dropped does name such a value or holds there.
\<close>

theorem repairs_evidenced:
  assumes "candidates py pre0 english chk fn = (os, dropped)" and "inputs = ce_inputs (ck_counterexample chk)"
  shows "os \<noteq> [] \<and> hd os = reject_option \<and> length os \<le> 16 \<and> distinct (map nr_id os) \<and>
     (\<forall>o1 \<in> set os. nr_kind o1 = ''precondition'' \<longrightarrow> (\<exists>i src pre. o1 = precondition_option i src pre english \<and>
        (src, pre) \<in> set (map (Pair ''code guard'') (nl_guard_preconditions py fn) @ domain_preconditions py fn) \<and>
        pre \<noteq> pre0 \<and> witness_constants pre inputs fn english = [] \<and> py_eval py pre inputs \<noteq> Some True)) \<and>
     (\<forall>d \<in> set dropped. case d of Overfit pre bad \<Rightarrow> bad \<noteq> [] \<and> bad = witness_constants pre inputs fn english
        | Not_excluding pre \<Rightarrow> py_eval py pre inputs = Some True)"
proof -
  let ?pres = "map (Pair ''code guard'') (nl_guard_preconditions py fn) @ domain_preconditions py fn"
  let ?w = "weaken_options english WEAKEN" and ?e = "exception_option (ce_model (ck_counterexample chk)) english"
  obtain opts dr where o: "offer py inputs fn english [pre0] (enumerate 0 ?pres) = (opts, dr)" by fastforce
  note F = offer_facts [OF o]
  have os: "os = reject_option # List.take 15 (opts @ ?w @ ?e)" and dr: "dropped = dr"
    using assms o by (simp_all add: candidates_def Let_def del: take_append)
  have names: "nr_id o1 \<noteq> ''REJECT'' \<and> nr_id o1 \<notin> {''WEAKEN_IF'', ''WEAKEN_ONLY_IF'', ''ALLOW_EXCEPTION''}" if "o1 \<in> set opts" for o1
    using offered_names [of py inputs fn english "[pre0]" "enumerate 0 ?pres" o1] F that by (auto simp: list_all_iff)
  have apart: "distinct (''REJECT'' # ks @ ws @ es)" if "ws \<in> {[], [''WEAKEN_IF'', ''WEAKEN_ONLY_IF'']}" "es \<in> {[], [''ALLOW_EXCEPTION'']}"
    "distinct ks" "\<forall>k \<in> set ks. k \<noteq> ''REJECT'' \<and> k \<notin> {''WEAKEN_IF'', ''WEAKEN_ONLY_IF'', ''ALLOW_EXCEPTION''}" for ks ws es :: "string list"
  proof -
    have w: "set ws \<subseteq> {''WEAKEN_IF'', ''WEAKEN_ONLY_IF''}" "distinct ws" using that(1) by (elim insertE emptyE; simp)+
    have e: "set es \<subseteq> {''ALLOW_EXCEPTION''}" "distinct es" using that(2) by (elim insertE emptyE; simp)+
    have "set ws \<inter> set es = {}" using Int_mono [OF w(1) e(1)] by simp
    moreover have "''REJECT'' \<notin> set ws" "''REJECT'' \<notin> set es" using w(1) e(1) by (auto dest: subsetD)
    moreover have "set ks \<inter> set ws = {}" "set ks \<inter> set es = {}" "''REJECT'' \<notin> set ks" using that(4) w(1) e(1) by blast+
    ultimately show ?thesis using that(3) w(2) e(2) by (simp add: Int_Un_distrib)
  qed
  have "distinct (map nr_id opts)" using F by simp
  from apart [OF weaken_ids exception_ids this] names have "distinct (map nr_id (reject_option # opts @ ?w @ ?e))"
    by (simp add: reject_option_def)
  then have "distinct (List.take 16 (map nr_id (reject_option # opts @ ?w @ ?e)))" by (rule distinct_take)
  then have ids: "distinct (map nr_id os)" unfolding os by (simp add: take_map del: take_append map_append)
  have kinds: "nr_kind o1 = ''precondition'' \<Longrightarrow> o1 \<notin> set (?w @ ?e)" for o1
    using weaken_shapes [of o1 english WEAKEN] by (auto simp: exception_option_def split: option.splits if_splits)
  have pre: "\<exists>i src pre. o1 = precondition_option i src pre english \<and> (src, pre) \<in> set ?pres \<and>
        pre \<noteq> pre0 \<and> witness_constants pre inputs fn english = [] \<and> py_eval py pre inputs \<noteq> Some True"
    if "o1 \<in> set os" "nr_kind o1 = ''precondition''" for o1
  proof -
    have "o1 \<noteq> reject_option" using that(2) by (auto simp: reject_option_def)
    with that kinds [of o1] have "o1 \<in> set opts" by (auto simp: os simp del: take_append dest: in_set_takeD)
    then have "offered py inputs fn english [pre0] (enumerate 0 ?pres) o1" using F by (simp add: list_all_iff)
    then obtain i src p where "(i, src, p) \<in> set (enumerate 0 ?pres)" "o1 = precondition_option i src p english" "p \<noteq> pre0"
      "witness_constants p inputs fn english = []" "py_eval py p inputs \<noteq> Some True" by (auto simp: offered_def)
    moreover from this(1) have "(src, p) \<in> set ?pres" by (rule enumerate_member)
    ultimately show ?thesis by blast
  qed
  have "\<forall>d \<in> set dropped. rightly_dropped py inputs fn english d" using F by (simp add: dr list_all_iff)
  then show ?thesis using ids pre by (simp add: os rightly_dropped_def)
qed

section \<open>A run\<close>

text \<open>A shift that C leaves undefined refutes a documented property: adjudication reports it.\<close>

definition demo_python :: python where
  "demo_python = \<lparr>py_calls = (\<lambda>s. Some []), py_guards = (\<lambda>s. Some [Assert_stmt \<lparr>co_text = ''x > 0'', co_names = [''x''], co_form = Other\<rparr>]),
     py_eval = (\<lambda>s env. case map_of env ''x'' of Some (JInt i) \<Rightarrow> if s = ''x > 0'' then Some (0 < i) else None | _ \<Rightarrow> None)\<rparr>"

definition shift_fn :: fn_info where
  "shift_fn = two_fn\<lparr>fi_params := [\<lparr>np_name = ''x'', np_sort = ''int'', np_integer_type = []\<rparr>]\<rparr>"

definition ub_check :: nl_check where
  "ub_check = \<lparr>ck_statement = ''s'', ck_status = ''REFUTED_MODEL'',
     ck_counterexample = \<lparr>ce_inputs = [(''x'', JInt 0)], ce_model = JStr (''hole '' @ [CHR 0x22] @ ''ub:shift'' @ [CHR 0x22]), ce_runtime = JNull\<rparr>,
     ck_runtime_agrees = None\<rparr>"

definition shift_prop :: eprop where
  "shift_prop = \<lparr>ep_id = ''p1'', ep_text = ''one iff big'', ep_kind = ''postcondition'', ep_evidence = [''docstring'']\<rparr>"

definition shift_stmt :: nl_stmt where
  "shift_stmt = \<lparr>ns_id = ''s'', ns_function = ''f'', ns_property = ''p1'', ns_english = ep_text shift_prop, ns_pre = [], ns_post = ''r = 1'', ns_parent = None\<rparr>"

definition shift_spec :: espec where
  "shift_spec = \<lparr>es_function = ''f'', es_summary = [], es_properties = [shift_prop]\<rparr>"

definition shift_setup :: nl_setup where
  "shift_setup = \<lparr>nu_python = demo_python, nu_functions = [(''f'', shift_fn)], nu_selection = [((''f'', ''p1''), plain_row ''p1'' 1)],
     nu_models = [], nu_template = ''call'', nu_summaries = [], nu_rounds = 2, nu_budget = Some 1, nu_price = pc_formalize PRICES, nu_stages = None\<rparr>"


lemma shift_kind: "model_kind (ce_model (ck_counterexample ub_check)) = ''undefined_behavior''"
  by code_simp

lemma shift_gates: "fst (gates demo_python ub_check shift_fn row) = [''REAL_BUG'']"
proof -
  have "is_outside (Some (witness_domain demo_python (ce_inputs (ck_counterexample ub_check)) shift_fn)) = False" by code_simp
  then show ?thesis by (simp add: gates_def shift_kind Let_def) (simp add: ub_check_def)
qed
lemma shift_evidence: "external_evidence (ep_evidence shift_prop) \<noteq> []" by code_simp

lemma shift_one:
  assumes "as_judge s = demo_judge" and "as_todo s = []" and "as_records s = []" and "map_of (as_props s) (''f'', ''p1'') = Some shift_prop"
  shows "\<exists>s'. adj_one shift_setup 1 0 [(''s'', ub_check)] shift_stmt s = Inr s' \<and> as_todo s' = [] \<and>
    map (\<lambda>x. (ar_statement x, ar_disposition x)) (as_records s') = [(''s'', ''finding'')]"
proof -
  let ?row = "plain_row ''p1'' 1"
  obtain facts where gates: "gates demo_python ub_check shift_fn (Some ?row) = ([''REAL_BUG''], facts)"
    using shift_gates [of "Some ?row"] by (metis prod.collapse)
  let ?q = "JObj (adj_question shift_fn shift_prop shift_stmt ub_check facts)"
  obtain d where cl: "classify_counterexample ?q [''REAL_BUG''] prior ctx demo_judge = Inr (d prior ctx, log_decision (d prior ctx) demo_judge)"
    and d: "d_chosen (d prior ctx) = ''REAL_BUG''" for prior ctx
  proof
    fix prior ctx
    let ?row = "jrow ''ce'' ?q [] [hd COUNTEREXAMPLE_CLASSES] [] ctx"
    show "classify_counterexample ?q [''REAL_BUG''] prior ctx demo_judge =
      Inr ((\<lambda>prior ctx. forced_decision ''COUNTEREXAMPLE_CLASSIFICATION'' ''REAL_BUG'' demo_judge (jrow ''ce'' ?q [] [hd COUNTEREXAMPLE_CLASSES] [] ctx)) prior ctx,
        log_decision ((\<lambda>prior ctx. forced_decision ''COUNTEREXAMPLE_CLASSIFICATION'' ''REAL_BUG'' demo_judge (jrow ''ce'' ?q [] [hd COUNTEREXAMPLE_CLASSES] [] ctx)) prior ctx) demo_judge)"
      by (simp add: classify_counterexample_def described_def COUNTEREXAMPLE_CLASSES_def ask_def decide_one_def decide_rows_def Let_def)
  qed (simp add: forced_decision_def)
  have given_su: "map_of (nu_functions shift_setup) ''f'' = Some shift_fn" "nu_python shift_setup = demo_python"
    "map_of (nu_selection shift_setup) (''f'', ''p1'') = Some ?row" by (simp_all add: shift_setup_def)
  have stmt: "ns_id shift_stmt = ''s''" "ns_function shift_stmt = ''f''" "ns_property shift_stmt = ''p1''" by (simp_all add: shift_stmt_def)
  have sure: "intent_confident (Some ?row)" by (simp add: intent_confident_def plain_row_def)
  have "prop_of s shift_stmt = shift_prop" "row_of_stmt shift_setup s shift_stmt = Some ?row"
    by (simp_all add: prop_of_def row_of_stmt_def stmt assms given_su)
  then show ?thesis
    by (simp add: adj_one_def stmt given_su item_at_def gates Let_def assms cl d first_record_def adj_bug_def record_to_def sure shift_evidence)
qed

lemma shift_finding:
  "\<exists>r. nl_adjudicate shift_setup [shift_stmt] [ub_check] [shift_spec] demo_judge = Inr r \<and> adj_findings r = [''s'']"
proof -
  let ?s = "(adj_start [shift_spec] demo_judge)\<lparr>as_todo := []\<rparr>"
  have "map_of (as_props ?s) (''f'', ''p1'') = Some shift_prop" by (simp add: adj_start_def shift_spec_def props_of_def dict_of_def shift_prop_def)
  with shift_one [of ?s] obtain s' where s': "adj_one shift_setup 1 0 [(''s'', ub_check)] shift_stmt ?s = Inr s'" "as_todo s' = []"
    "map (\<lambda>x. (ar_statement x, ar_disposition x)) (as_records s') = [(''s'', ''finding'')]" by (auto simp: adj_start_def)
  have start: "with_checks [ub_check] [] = [(''s'', ub_check)]" "filter (refuted_in [(''s'', ub_check)]) [shift_stmt] = [shift_stmt]"
    by (simp_all add: with_checks_def ub_check_def refuted_in_def shift_stmt_def REFUTED_def)
  have rounds: "[1..<nu_rounds shift_setup + 2] = [1, 2, 3]" by (simp add: shift_setup_def upt_rec numeral_eq_Suc)
  have "nl_adjudicate shift_setup [shift_stmt] [ub_check] [shift_spec] demo_judge =
     Inr \<lparr>re_state = s', re_statements = [], re_checks = [], re_spent = 0\<rparr>"
    unfolding nl_adjudicate_def Let_def start rounds by (simp add: s'(1,2) [simplified])
  moreover have "adj_findings \<lparr>re_state = s', re_statements = [], re_checks = [], re_spent = 0\<rparr> = [''s'']"
    using s'(3) by (auto simp: adj_findings_def map_eq_Cons_conv)
  ultimately show ?thesis by blast
qed

lemma demo_scorer: "scorer (jg_score demo_judge)"
  using heuristic.scorer_axioms demo_heuristic by (simp add: heuristic_judge_def)

lemma findings_validated_witness:
  "\<exists>r. nl_adjudicate shift_setup [shift_stmt] [ub_check] [shift_spec] demo_judge = Inr r \<and> adj_findings r = [''s''] \<and>
     list_all (\<lambda>x. ar_disposition x = ''finding'' \<longrightarrow> ar_class x = ''REAL_BUG'' \<and> ar_repaired_by x = None) (as_records (re_state r))"
proof -
  from shift_finding obtain r where r: "nl_adjudicate shift_setup [shift_stmt] [ub_check] [shift_spec] demo_judge = Inr r" "adj_findings r = [''s'']"
    by blast
  from findings_validated [OF r(1) demo_scorer] r show ?thesis by (auto simp: list_all_iff)
qed

lemma adjudication_returns_witness:
  "\<exists>r. nl_adjudicate shift_setup [shift_stmt] [ub_check] [shift_spec] demo_judge = Inr r \<and>
     map ar_statement (filter (\<lambda>x. ar_round x = 1) (as_records (re_state r))) = [''s'']"
proof -
  have "map_of (nu_functions shift_setup) (ns_function shift_stmt) \<noteq> None" "ns_id shift_stmt = ''s''"
    "refuted_in (with_checks [ub_check] []) shift_stmt"
    by (simp_all add: shift_setup_def shift_stmt_def refuted_in_def with_checks_def ub_check_def REFUTED_def)
  with adjudication_returns [OF demo_heuristic, of shift_setup "[shift_stmt]" "[ub_check]" "[shift_spec]"] show ?thesis by auto
qed

lemma first_round_uncounted_witness:
  "\<exists>r. nl_adjudicate shift_setup [shift_stmt] [ub_check] [shift_spec] demo_judge = Inr r \<and>
     list_all (\<lambda>x. ar_round x = 1 \<longrightarrow> ar_disposition x \<noteq> ''repair_skipped_budget'') (as_records (re_state r))"
proof -
  from shift_finding obtain r where r: "nl_adjudicate shift_setup [shift_stmt] [ub_check] [shift_spec] demo_judge = Inr r" by blast
  have "nu_budget shift_setup = Some 1" "nu_price shift_setup \<le> 1" by (simp_all add: shift_setup_def PRICES_def)
  from first_round_uncounted [OF r demo_scorer this] r show ?thesis by (auto simp: list_all_iff)
qed

definition lost_row :: sel_row where
  "lost_row = (plain_row ''p1'' 1)\<lparr>sr_intent :=
     Some \<lparr>in_group = 0, in_chosen = False, in_probability = 1 / 10, in_rivals = [''p2''], in_decision = ''D''\<rparr>\<rparr>"

lemma lost_reading_bug_witness:
  "lost_intent (Some lost_row) \<and> ''REAL_BUG'' \<in> set (fst (gates demo_python ub_check shift_fn (Some lost_row)))"
proof -
  have lost: "lost_intent (Some lost_row)" by (simp add: lost_intent_def lost_row_def)
  have "ck_status ub_check = ''REFUTED_MODEL''" by (simp add: ub_check_def)
  from lost_reading_bug [OF lost this] lost show ?thesis by (simp add: shift_kind)
qed

lemma repairs_evidenced_witness:
  "\<exists>os dropped. candidates demo_python [] (ep_text shift_prop) ub_check shift_fn = (os, dropped) \<and>
     map nr_id os = [''REJECT'', ''PRECONDITION_0'', ''WEAKEN_IF'', ''WEAKEN_ONLY_IF''] \<and> hd os = reject_option"
proof -
  obtain os dropped where c: "candidates demo_python [] (ep_text shift_prop) ub_check shift_fn = (os, dropped)" by fastforce
  have "map nr_id (fst (candidates demo_python [] (ep_text shift_prop) ub_check shift_fn)) =
    [''REJECT'', ''PRECONDITION_0'', ''WEAKEN_IF'', ''WEAKEN_ONLY_IF'']" by code_simp
  with repairs_evidenced [OF c refl] c show ?thesis by auto
qed

end
