(* ===== verification/Spec2Isabelle.thy ===== *)
theory Spec2Isabelle
  imports RivalGroups ObligationMeaning Cegis ProverLoop HarnessRun Reports WriteBack ProveOpen NlOutcomes NlAdjudicate
begin

text \<open>
  The formalization harness of autoform, \<open>src/src/autoform/harness/\<close>, and the selection and repair
  stages of its natural-language pipeline, \<open>src/src/autoform/nl/\<close>.

  The program. \<open>autoform formalize\<close> takes one translated module (its Core AST), proposes claims about
  its functions, lets a judge rank them, verifies them with the Lean kernel or by structural queries,
  refines refuted claims with the counterexamples, and reports statuses, certificates and findings. Its
  stated invariant is that generators and the judge decide what to try, and statuses come only from the
  verifier. The parts and the theories that model them, in the order in which they are used:

  \<^item> \<open>Prelude\<close>, \<open>PyJson\<close>: results (\<open>exc + 'a\<close>) with their monad, the fragments of Python's texts, and
    JSON values with the operations of Python on them (\<open>dget\<close> is \<open>d.get(k, v)\<close>, \<open>ditem\<close> is \<open>d[k]\<close>,
    \<open>truthy\<close>, \<open>py_eq\<close>, \<open>py_iter\<close>). A raise of the source is an \<open>Inl\<close>.
  \<^item> \<open>Cpir\<close> (\<open>cpir.py\<close>): the canonical program IR, its walker, the builder and the call graph.
  \<^item> \<open>ClaimLang\<close>, \<open>ClaimEval\<close>, \<open>ClaimText\<close> (\<open>claims.py\<close>, scores of \<open>ledger.py\<close>): the grammar and the
    sort checker, validation and canonical form, evaluation over sampled domains, rendering and scores.
  \<^item> \<open>Critic\<close>, \<open>RivalGroups\<close> (\<open>critic.py\<close>): the truth table of a claim, implication and rivalry of
    claims, the screening of candidates, and the union-find grouping of rivals.
  \<^item> \<open>Obligation\<close>, \<open>ObligationMeaning\<close> (\<open>compiler.py\<close>): the Lean text of a claim, its finite domain,
    and the meaning of that text, which is the abstract side of the refinement lemma.
  \<^item> \<open>EnvModel\<close>, \<open>ProofLedger\<close> (\<open>environment.py\<close>, \<open>ledger.py\<close>): summaries of externals and
    assumptions, the assumption ledger, the proof cache over a file store, and certificates.
  \<^item> \<open>Structural\<close>, \<open>LeanVerdicts\<close> (\<open>verifier.py\<close>): the structural queries against a trace semantics of
    the AST, and the two Lean runs of a chunk of claims, the reading of the output and the verdicts.
  \<^item> \<open>JudgeModel\<close>, \<open>Cegis\<close> (\<open>judge.py\<close>, \<open>cegis.py\<close>): scoring, softmax and choice, the decision log
    and the questions; the classes of a counterexample, priors and repairs.
  \<^item> \<open>Evidence\<close> (\<open>evidence.py\<close>, \<open>generator.py\<close>): the context of a function, the templates, and the
    candidates read from a language model.
  \<^item> \<open>Harness\<close>, \<open>HarnessRun\<close> (\<open>pipeline.py\<close>): the state of the harness as one record, proposing,
    routing, verifying, adjudicating, refining, diagnosing and closing, as functions of that state.
  \<^item> \<open>Reports\<close> (\<open>bench.py\<close>, \<open>report.py\<close>, \<open>annotate_decisions\<close>): outcomes and labels of decisions,
    fitted temperatures, the summary of a run and the comparison of two reports.
  \<^item> \<open>ProverText\<close>, \<open>ProverLoop\<close>, \<open>WriteBack\<close> (\<open>prover.py\<close>, \<open>prove_main\<close> of \<open>cli.py\<close>): the proving
    agent: its texts over code points, the budget, the confinement to its own files, acceptance, the
    attempts, the proof cache, and writing proofs back into the file.
  \<^item> \<open>ProveOpen\<close> (\<open>prove_open\<close> of \<open>pipeline.py\<close>): the open claims of the harness as jobs of that agent,
    and what an accepted proof stores.

  The natural-language pipeline states properties in English and formalizes them. Its two stages that
  decide are modelled, over the judge of the harness:

  \<^item> \<open>Patterns\<close>: the regular expressions of these stages, as a datatype with backtracking match.
  \<^item> \<open>NlJudge\<close>, \<open>NlSelect\<close>, \<open>NlOutcomes\<close> (\<open>nl/judge.py\<close>, the dataclasses of \<open>nl/schema.py\<close>, the
    identifiers of \<open>nl/formalize.py\<close>): the facts about a property, rival readings, utility, the
    allocation of the budget, the select stage and its waves, and the labels of its decisions.
  \<^item> \<open>NlRepair\<close>, \<open>NlAdjudicate\<close> (\<open>nl/repair.py\<close>): the gates on what a counterexample may mean, findings,
    repairs, and the rounds of adjudication.

  What the lemmas show. A program built from an AST has unique identifiers, its records refer to what
  exists, and the closure of a function is what is reachable. A validated claim evaluates without an
  error on every sampled input; the Lean text of a claim means what its evaluation says. Screening
  keeps or rejects each candidate once, implication and rivalry are sound over the sampled scopes, and
  the groups are exactly the connected components. Verdicts rest on theorems which Lean reported with
  standard axioms; the must-precede query is sound for every trace of the fragment without the
  constructs named in the findings. The cache returns what was stored; a certificate never claims more
  than its verdict. Every decision has its own identifier, and the heuristic judge follows its priors;
  calibration never changes a choice. Repairs are bounded and classification always answers.
  For English properties, rival groups are the connected components, the allocation is greedy with one
  cut and within the budget, selection and adjudication return and leave no property out, a finding
  is cross-validated, an offered precondition has evidence, and a label that counts rests on the verifier.
  The invariant of the whole: \<open>record_invariant\<close> in \<open>HarnessRun\<close> is the interface of what an operation
  may do to the records; its interpretations \<open>depth\<close> and \<open>origin\<close> show that every verdict comes from
  a verifier and that refinement is bounded. No proof that rests on prose assumptions is reported as
  one. For the prover, a proof is accepted only on an independent run of Lean, budgets are respected
  under every interleaving, and the Lean root is restored. Where the code does not do this, a property
  states what it does instead (the error properties).

  Parameters. Lean, git, the agent, the parser and the evaluator of Python, the formalization of English
  with the cost of its calls, native execution, hashes, the parsers of reported JSON and of
  numbers, the scorer of the judge, the language model and the file search are arguments of the
  definitions. Hypotheses about them are stated in the properties; a scorer is under the contract of a
  locale that the heuristic and the replay scorer interpret.

  Bounds. Floating-point numbers of the judge, the priors and the scores are real numbers, rounded to
  decimals where the code rounds; a JSON number with a fraction is a rational with its text. Texts are
  byte strings in UTF-8, characters below 256 (in the patterns), or lists of glyphs or of code points where the code works on those. Recursion
  is structural or has a termination proof; the union-find walk takes as many steps as there are
  claims, which suffices because a chain of parents never repeats a claim; refinement takes as many
  rounds as its limit, and so does adjudication, over the list of its rounds; a repetition in a pattern
  takes at most as many turns as there are characters left. There is no other fuel.

  Sharing. The model copies values. The code shares a result between its record and the proof cache
  when no artifact file was kept, and writes a claim's annotations into its dictionary; here they are
  fields of a record around it.

  Not modelled. Starting processes, files and arguments; the Markdown of the reports; the
  SemIf worker; the search of source files for bodies and tests. Of the
  natural-language pipeline: the stages that call a language model, Lean or pytest, and its reports.
  Outside: the translator (\<open>cartographer/\<close>), the scripts, the examples and
  GridSentinel, which are programs of their own.
\<close>

end
